(* ===== verification/Prelude.thy ===== *)
theory Prelude
  imports Main "HOL-Library.AList" "HOL-Library.Multiset" "HOL-Library.List_Lexorder"
    "HOL-Library.Char_ord" "HOL-Library.Product_Lexorder"
begin

text \<open>
  The generic part of the development: Go maps as association lists behind a locale that states
  their laws, in-place slice compaction, capped slices, and sorting by a comparison function.
  The component theories import it and prove with the collections \<open>go_map\<close> (facts on
  maps) and \<open>slice\<close> (facts on slices).
\<close>

named_theorems go_map
named_theorems slice

section \<open>Go maps\<close>

text \<open>
  A Go map is an association list with distinct keys. A \<open>range\<close> loop over the map visits the
  entries in list order; the order of a list with the same entries is arbitrary, as it is in Go,
  so a statement about every well-formed list covers every order the runtime may pick.
\<close>

type_synonym ('k, 'v) gomap = "('k \<times> 'v) list"

definition gm_wf :: "('k, 'v) gomap \<Rightarrow> bool" where
  "gm_wf m = distinct (map fst m)"

definition gm_get :: "('k, 'v) gomap \<Rightarrow> 'k \<Rightarrow> 'v option" where
  "gm_get m k = map_of m k"

fun gm_set :: "'k \<Rightarrow> 'v \<Rightarrow> ('k, 'v) gomap \<Rightarrow> ('k, 'v) gomap" where
  "gm_set k v [] = [(k, v)]"
| "gm_set k v ((k', v') # m) = (if k' = k then (k, v) # m else (k', v') # gm_set k v m)"

definition gm_del :: "'k \<Rightarrow> ('k, 'v) gomap \<Rightarrow> ('k, 'v) gomap" where
  "gm_del k m = filter (\<lambda>kv. fst kv \<noteq> k) m"

text \<open>The loop \<open>for k, v := range m { if P(k, v) { delete(m, k) } }\<close>.\<close>

definition gm_del_if :: "('k \<Rightarrow> 'v \<Rightarrow> bool) \<Rightarrow> ('k, 'v) gomap \<Rightarrow> ('k, 'v) gomap" where
  "gm_del_if P m = filter (\<lambda>kv. \<not> P (fst kv) (snd kv)) m"

text \<open>The number of entries that loop deletes.\<close>

definition gm_count_if :: "('k \<Rightarrow> 'v \<Rightarrow> bool) \<Rightarrow> ('k, 'v) gomap \<Rightarrow> nat" where
  "gm_count_if P m = length (filter (\<lambda>kv. P (fst kv) (snd kv)) m)"

definition gm_len :: "('k, 'v) gomap \<Rightarrow> nat" where
  "gm_len m = length m"

lemma gm_get_Nil [simp]: "gm_get [] k = None"
  by (simp add: gm_get_def)

lemma gm_get_Cons [simp]: "gm_get ((k, v) # m) k' = (if k = k' then Some v else gm_get m k')"
  by (simp add: gm_get_def)

lemma gm_get_set [go_map]: "gm_get (gm_set k v m) k' = (if k' = k then Some v else gm_get m k')"
  by (induction k v m rule: gm_set.induct) auto

lemma gm_get_del [go_map]: "gm_get (gm_del k m) k' = (if k' = k then None else gm_get m k')"
  by (induction m) (auto simp: gm_del_def)

lemma gm_keys_set [go_map]: "fst ` set (gm_set k v m) = insert k (fst ` set m)"
  by (induction k v m rule: gm_set.induct) auto

lemma gm_keys_del [go_map]: "fst ` set (gm_del k m) = fst ` set m - {k}"
  by (auto simp: gm_del_def)

lemma gm_wf_Nil [simp]: "gm_wf []"
  by (simp add: gm_wf_def)

lemma gm_wf_set [go_map]: "gm_wf m \<Longrightarrow> gm_wf (gm_set k v m)"
proof (induction k v m rule: gm_set.induct)
  case (2 k v k' v' m)
  have "k' \<notin> fst ` set (gm_set k v m)" if "k' \<noteq> k" "k' \<notin> fst ` set m"
    using that by (simp add: gm_keys_set)
  with 2 show ?case
    by (auto simp: gm_wf_def simp flip: image_set)
qed (simp add: gm_wf_def)

lemma gm_wf_filter [go_map]: "gm_wf m \<Longrightarrow> gm_wf (filter P m)"
  by (simp add: gm_wf_def distinct_map_filter)

lemma gm_wf_del [go_map]: "gm_wf m \<Longrightarrow> gm_wf (gm_del k m)"
  by (simp add: gm_del_def gm_wf_filter)

lemma gm_wf_del_if [go_map]: "gm_wf m \<Longrightarrow> gm_wf (gm_del_if P m)"
  by (simp add: gm_del_if_def gm_wf_filter)

lemma gm_get_in: "gm_get m k = Some v \<Longrightarrow> (k, v) \<in> set m"
  by (simp add: gm_get_def map_of_SomeD)

lemma gm_get_iff: "gm_wf m \<Longrightarrow> gm_get m k = Some v \<longleftrightarrow> (k, v) \<in> set m"
  by (simp add: gm_wf_def gm_get_def)

lemma gm_unique: "gm_wf m \<Longrightarrow> (k, v) \<in> set m \<Longrightarrow> (k, v') \<in> set m \<Longrightarrow> v = v'"
  unfolding gm_wf_def by (rule eq_key_imp_eq_value)

lemma gm_get_None: "gm_get m k = None \<longleftrightarrow> k \<notin> fst ` set m"
  by (simp add: gm_get_def map_of_eq_None_iff)

lemma gm_del_if_entry:
  "(k, v) \<in> set (gm_del_if P m) \<longleftrightarrow> (k, v) \<in> set m \<and> \<not> P k v"
  by (auto simp: gm_del_if_def)

lemma gm_get_del_if [go_map]:
  assumes "gm_wf m"
  shows "gm_get (gm_del_if P m) k =
    (case gm_get m k of None \<Rightarrow> None | Some v \<Rightarrow> if P k v then None else Some v)"
proof (cases "gm_get m k")
  case None
  then have "gm_get (gm_del_if P m) k = None" by (auto simp: gm_get_None gm_del_if_def)
  with None show ?thesis by simp
next
  case (Some v)
  then have in_m: "(k, v) \<in> set m" by (rule gm_get_in)
  show ?thesis
  proof (cases "P k v")
    case True
    have "w = v" if "(k, w) \<in> set m" for w
      using gm_get_iff [OF assms, of k w] that Some by simp
    with True have "k \<notin> fst ` set (gm_del_if P m)" by (auto simp: gm_del_if_entry)
    with Some True show ?thesis by (simp add: gm_get_None)
  next
    case False
    with in_m have "gm_get (gm_del_if P m) k = Some v"
      using assms by (simp add: gm_get_iff gm_wf_del_if gm_del_if_entry)
    with Some False show ?thesis by simp
  qed
qed

lemma gm_set_entry: "(k', v') \<in> set (gm_set k v m) \<Longrightarrow> (k' = k \<and> v' = v) \<or> (k', v') \<in> set m"
  by (induction k v m rule: gm_set.induct) (auto split: if_splits)

lemma gm_del_entry: "kv \<in> set (gm_del k m) \<Longrightarrow> kv \<in> set m \<and> fst kv \<noteq> k"
  by (auto simp: gm_del_def)

lemma gm_len_del [go_map]: "gm_len (gm_del k m) \<le> gm_len m"
  by (simp add: gm_len_def gm_del_def)

lemma gm_len_del_present:
  assumes "gm_wf m" "gm_get m k \<noteq> None"
  shows "gm_len (gm_del k m) = gm_len m - 1"
proof -
  have "length (filter (\<lambda>kv. fst kv = k) m) = 1"
    using assms
  proof (induction m)
    case (Cons kv m)
    show ?case
    proof (cases "fst kv = k")
      case True
      with Cons.prems(1) have "filter (\<lambda>kv. fst kv = k) m = []"
        by (auto simp: gm_wf_def filter_empty_conv image_iff)
      with True show ?thesis by simp
    next
      case False
      with Cons show ?thesis by (cases kv) (simp add: gm_wf_def)
    qed
  qed simp
  moreover have "length (filter (\<lambda>kv. fst kv = k) m) + length (filter (\<lambda>kv. fst kv \<noteq> k) m) = length m"
    by (rule sum_length_filter_compl)
  ultimately show ?thesis by (simp add: gm_len_def gm_del_def)
qed

lemma gm_len_del_if [go_map]: "gm_len (gm_del_if P m) \<le> gm_len m"
  by (simp add: gm_len_def gm_del_if_def)

lemma gm_len_del_if_count: "gm_len (gm_del_if P m) + gm_count_if P m = gm_len m"
  using sum_length_filter_compl [of "\<lambda>kv. P (fst kv) (snd kv)" m]
  by (simp add: gm_len_def gm_del_if_def gm_count_if_def)

lemma gm_len_set [go_map]:
  "gm_len (gm_set k v m) = (if gm_get m k = None then Suc (gm_len m) else gm_len m)"
  by (induction k v m rule: gm_set.induct) (auto simp: gm_len_def)

text \<open>
  Deleting the keys of the visited entries one by one is the loop's effect: the loop body may
  delete the entry it is at, and the others are still visited.
\<close>

lemma gm_del_commute: "gm_del k (gm_del_if P m) = gm_del_if P (gm_del k m)"
  by (auto simp: gm_del_def gm_del_if_def intro: filter_cong)

text \<open>What a client of a map relies on, and that association lists provide it.\<close>

locale map_laws =
  fixes wf :: "'m \<Rightarrow> bool"
    and get :: "'m \<Rightarrow> 'k \<Rightarrow> 'v option"
    and put :: "'k \<Rightarrow> 'v \<Rightarrow> 'm \<Rightarrow> 'm"
    and del :: "'k \<Rightarrow> 'm \<Rightarrow> 'm"
    and len :: "'m \<Rightarrow> nat"
  assumes get_put: "get (put k v m) k' = (if k' = k then Some v else get m k')"
    and get_del: "get (del k m) k' = (if k' = k then None else get m k')"
    and wf_put: "wf m \<Longrightarrow> wf (put k v m)"
    and wf_del: "wf m \<Longrightarrow> wf (del k m)"
    and len_put: "wf m \<Longrightarrow> len (put k v m) = (if get m k = None then Suc (len m) else len m)"
    and len_del: "wf m \<Longrightarrow> get m k \<noteq> None \<Longrightarrow> len (del k m) = len m - 1"
    and len_pos: "wf m \<Longrightarrow> get m k \<noteq> None \<Longrightarrow> 0 < len m"
begin

lemma put_then_del: "get (del k (put k v m)) = (get m)(k := None)"
  by (auto simp: get_put get_del)

lemma put_put_same: "get (put k v (put k w m)) = get (put k v m)"
  by (auto simp: get_put)

lemma len_put_le: "wf m \<Longrightarrow> len (put k v m) \<le> Suc (len m)"
  by (simp add: len_put)

text \<open>A map that evicts one present entry before an insertion stays below its cap.\<close>

lemma evict_then_put:
  assumes "wf m" "get m e \<noteq> None" "len m \<le> cap"
  shows "len (put k v (del e m)) \<le> cap"
proof -
  have "len (put k v (del e m)) \<le> Suc (len (del e m))"
    using assms(1) by (intro len_put_le wf_del)
  also have "\<dots> = len m"
    using assms len_del [OF assms(1,2)] len_pos [OF assms(1,2)] by simp
  finally show ?thesis using assms(3) by simp
qed

end

interpretation gm: map_laws gm_wf gm_get gm_set gm_del gm_len
proof
  fix m :: "('a, 'b) gomap" and k
  assume "gm_wf m" "gm_get m k \<noteq> None"
  then show "gm_len (gm_del k m) = gm_len m - 1" by (rule gm_len_del_present)
  show "0 < gm_len m" using \<open>gm_get m k \<noteq> None\<close> by (cases m) (auto simp: gm_len_def)
qed (auto simp: go_map)

section \<open>Slices\<close>

text \<open>
  The idiom \<open>n := 0; for _, x := range s { if !keep(x) { continue }; s[n] = x; n++ }; s = s[:n]\<close>
  overwrites the slice it reads. \<open>compactLoop keep i n arr\<close> is that loop from index \<open>i\<close> on,
  with the array written in place.
\<close>

function compactLoop :: "('a \<Rightarrow> bool) \<Rightarrow> nat \<Rightarrow> nat \<Rightarrow> 'a list \<Rightarrow> 'a list" where
  "compactLoop keep i n arr =
     (if i < length arr
      then (if keep (arr ! i) then compactLoop keep (Suc i) (Suc n) (arr[n := arr ! i])
            else compactLoop keep (Suc i) n arr)
      else take n arr)"
  by pat_completeness auto
termination
  by (relation "measure (\<lambda>(keep, i, n, arr). length arr - i)") auto

declare compactLoop.simps [simp del]

definition compactSlice :: "('a \<Rightarrow> bool) \<Rightarrow> 'a list \<Rightarrow> 'a list" where
  "compactSlice keep arr = compactLoop keep 0 0 arr"

lemma compactLoop_eq:
  "n \<le> i \<Longrightarrow> i \<le> length arr \<Longrightarrow>
     compactLoop keep i n arr = take n arr @ filter keep (drop i arr)"
proof (induction keep i n arr rule: compactLoop.induct)
  case (1 keep i n arr)
  show ?case
  proof (cases "i < length arr")
    case True
    have drop: "drop i arr = arr ! i # drop (Suc i) arr"
      using True by (simp add: Cons_nth_drop_Suc)
    have take: "take (Suc n) (arr[n := arr ! i]) = take n arr @ [arr ! i]"
      using True 1(3) by (simp add: take_Suc_conv_app_nth)
    have upd: "drop (Suc i) (arr[n := arr ! i]) = drop (Suc i) arr"
      using 1(3) by simp
    show ?thesis
    proof (cases "keep (arr ! i)")
      case True
      then have "compactLoop keep i n arr =
          compactLoop keep (Suc i) (Suc n) (arr[n := arr ! i])"
        using \<open>i < length arr\<close> by (simp add: compactLoop.simps [of keep i n arr])
      also have "\<dots> = take (Suc n) (arr[n := arr ! i]) @ filter keep (drop (Suc i) (arr[n := arr ! i]))"
        using "1.IH"(1) \<open>i < length arr\<close> True 1(3) by simp
      finally show ?thesis using True drop take upd by simp
    next
      case False
      then have "compactLoop keep i n arr = compactLoop keep (Suc i) n arr"
        using \<open>i < length arr\<close> by (simp add: compactLoop.simps [of keep i n arr])
      with "1.IH"(2) \<open>i < length arr\<close> False 1(3) drop show ?thesis by simp
    qed
  next
    case False
    with 1(4) have "drop i arr = []" by simp
    with False show ?thesis by (simp add: compactLoop.simps [of keep i n arr])
  qed
qed

lemma compactSlice_eq_filter [slice]: "compactSlice keep arr = filter keep arr"
  by (simp add: compactSlice_def compactLoop_eq)

text \<open>
  \<open>copy(s, s[len(s)-n:]); s = s[:n]\<close>: the last \<open>n\<close> elements. The caller guards it with
  \<open>n > 0 && len(s) > n\<close>, which \<open>capSlice\<close> includes: a cap of zero or below is no cap.
\<close>

definition keepLast :: "nat \<Rightarrow> 'a list \<Rightarrow> 'a list" where
  "keepLast n xs = drop (length xs - n) xs"

definition capSlice :: "int \<Rightarrow> 'a list \<Rightarrow> 'a list" where
  "capSlice hardCap xs =
     (if hardCap > 0 \<and> int (length xs) > hardCap then keepLast (nat hardCap) xs else xs)"

lemma length_keepLast [slice]: "length (keepLast n xs) = min n (length xs)"
  by (simp add: keepLast_def)

lemma set_keepLast: "set (keepLast n xs) \<subseteq> set xs"
  by (simp add: keepLast_def set_drop_subset)

lemma set_capSlice: "set (capSlice n xs) \<subseteq> set xs"
  by (simp add: capSlice_def set_keepLast)

lemma length_capSlice [slice]: "0 < n \<Longrightarrow> int (length (capSlice n xs)) \<le> n"
  by (simp add: capSlice_def length_keepLast)

lemma length_capSlice_le [slice]: "length (capSlice n xs) \<le> length xs"
  by (simp add: capSlice_def length_keepLast)

lemma capSlice_nonpos [slice]: "n \<le> 0 \<Longrightarrow> capSlice n xs = xs"
  by (simp add: capSlice_def)

lemma capSlice_small [slice]: "int (length xs) \<le> n \<Longrightarrow> capSlice n xs = xs"
  by (simp add: capSlice_def)

lemma last_capSlice: "xs \<noteq> [] \<Longrightarrow> last (capSlice n xs) = last xs"
  by (simp add: capSlice_def keepLast_def)

lemma capSlice_append_last: "\<exists>ys. capSlice n (xs @ [x]) = ys @ [x] \<and> set ys \<subseteq> set xs"
proof (cases "0 < n \<and> int (length (xs @ [x])) > n")
  case True
  then have "length xs - (nat n - 1) \<le> length xs" "Suc (length xs) - nat n \<le> length xs" by auto
  with True show ?thesis
    by (auto simp: capSlice_def keepLast_def intro: set_drop_subset [THEN subsetD])
next
  case False
  then show ?thesis by (auto simp: capSlice_def)
qed

section \<open>Sorting by a comparison function\<close>

text \<open>
  \<open>slices.SortFunc(s, cmp)\<close>, as the insertion sort it runs on short slices. Its contract,
  a sorted permutation, determines the result whenever no two elements compare equal
  (\<open>sort_unique\<close> below), so nothing rests on the algorithm.
\<close>

fun insertCmp :: "('a \<Rightarrow> 'a \<Rightarrow> int) \<Rightarrow> 'a \<Rightarrow> 'a list \<Rightarrow> 'a list" where
  "insertCmp cmp x [] = [x]"
| "insertCmp cmp x (y # ys) = (if cmp x y \<le> 0 then x # y # ys else y # insertCmp cmp x ys)"

definition sortFunc :: "('a \<Rightarrow> 'a \<Rightarrow> int) \<Rightarrow> 'a list \<Rightarrow> 'a list" where
  "sortFunc cmp xs = foldr (insertCmp cmp) xs []"

lemma mset_insertCmp [simp]: "mset (insertCmp cmp x xs) = add_mset x (mset xs)"
  by (induction xs) auto

lemma set_insertCmp [simp]: "set (insertCmp cmp x xs) = insert x (set xs)"
  by (induction xs) auto

lemma mset_sortFunc [simp]: "mset (sortFunc cmp xs) = mset xs"
  by (induction xs) (auto simp: sortFunc_def)

lemma set_sortFunc [simp]: "set (sortFunc cmp xs) = set xs"
  by (metis mset_sortFunc set_mset_mset)

lemma length_sortFunc [simp]: "length (sortFunc cmp xs) = length xs"
  by (metis mset_sortFunc size_mset)

lemma sortFunc_Nil [simp]: "sortFunc cmp [] = []"
  by (simp add: sortFunc_def)

lemma sortFunc_Cons: "sortFunc cmp (x # xs) = insertCmp cmp x (sortFunc cmp xs)"
  by (simp add: sortFunc_def)

text \<open>
  What \<open>SortFunc\<close> asks of a comparison: the sign flips with the arguments and
  \<open>\<le>\<close> is transitive. Clients sort under these laws.
\<close>

locale comparison =
  fixes cmp :: "'a \<Rightarrow> 'a \<Rightarrow> int"
    and ok :: "'a \<Rightarrow> bool"
  assumes flip: "ok x \<Longrightarrow> ok y \<Longrightarrow> cmp y x = - cmp x y"
    and trans: "ok x \<Longrightarrow> ok y \<Longrightarrow> ok z \<Longrightarrow> cmp x y \<le> 0 \<Longrightarrow> cmp y z \<le> 0 \<Longrightarrow> cmp x z \<le> 0"
begin

lemma refl: "ok x \<Longrightarrow> cmp x x = 0"
  using flip [of x x] by simp

lemma total: "ok x \<Longrightarrow> ok y \<Longrightarrow> cmp x y \<le> 0 \<or> cmp y x \<le> 0"
  using flip [of x y] by linarith

lemma sorted_insertCmp:
  "ok x \<Longrightarrow> \<forall>y \<in> set xs. ok y \<Longrightarrow> sorted_wrt (\<lambda>a b. cmp a b \<le> 0) xs \<Longrightarrow>
     sorted_wrt (\<lambda>a b. cmp a b \<le> 0) (insertCmp cmp x xs)"
proof (induction xs)
  case (Cons y ys)
  then show ?case
    using total [of x y] by (auto intro: trans [of x y])
qed simp

lemma sorted_sortFunc:
  "\<forall>x \<in> set xs. ok x \<Longrightarrow> sorted_wrt (\<lambda>a b. cmp a b \<le> 0) (sortFunc cmp xs)"
proof (induction xs)
  case (Cons x xs)
  then show ?case
    using sorted_insertCmp [of x "sortFunc cmp xs"] by (simp add: sortFunc_Cons)
qed (simp add: sortFunc_def)

lemma sorted_perm_unique:
  assumes "mset xs = mset ys"
    and "sorted_wrt (\<lambda>a b. cmp a b \<le> 0) xs" "sorted_wrt (\<lambda>a b. cmp a b \<le> 0) ys"
    and "\<forall>x \<in> set xs. ok x"
    and "\<forall>x \<in> set xs. \<forall>y \<in> set xs. cmp x y = 0 \<longrightarrow> x = y"
  shows "xs = ys"
  using assms
proof (induction xs arbitrary: ys)
  case (Cons x xs)
  obtain y ys' where ys: "ys = y # ys'"
    using Cons.prems(1) by (cases ys) auto
  have sets: "insert x (set xs) = insert y (set ys')"
    using Cons.prems(1) ys by (metis list.simps(15) mset_eq_setD)
  have "cmp x y \<le> 0"
    using sets Cons.prems(2,4) refl [of x] by (cases "y = x") auto
  moreover have "cmp y x \<le> 0"
    using sets Cons.prems(3,4) ys refl [of x] by (cases "x = y") auto
  ultimately have "cmp x y = 0"
    using flip [of x y] sets Cons.prems(4) by fastforce
  then have eq: "x = y"
    using Cons.prems(5) sets by auto
  have "xs = ys'"
    using Cons.prems eq ys by (intro Cons.IH) auto
  with eq ys show ?case by simp
qed simp

lemma sort_unique:
  assumes "mset ys = mset xs" "sorted_wrt (\<lambda>a b. cmp a b \<le> 0) ys"
    and "\<forall>x \<in> set xs. ok x"
    and "\<forall>x \<in> set xs. \<forall>y \<in> set xs. cmp x y = 0 \<longrightarrow> x = y"
  shows "ys = sortFunc cmp xs"
proof (rule sorted_perm_unique)
  show "mset ys = mset (sortFunc cmp xs)" using assms(1) by simp
  show "sorted_wrt (\<lambda>a b. cmp a b \<le> 0) (sortFunc cmp xs)"
    using assms(3) by (rule sorted_sortFunc)
  have "set ys = set xs" using assms(1) by (rule mset_eq_setD)
  with assms(3,4) show "\<forall>x \<in> set ys. ok x"
    and "\<forall>x \<in> set ys. \<forall>y \<in> set ys. cmp x y = 0 \<longrightarrow> x = y" by auto
qed (rule assms(2))

end

text \<open>The three-way comparison by a key in a linear order.\<close>

definition cmpOf :: "('a \<Rightarrow> 'k::linorder) \<Rightarrow> 'a \<Rightarrow> 'a \<Rightarrow> int" where
  "cmpOf key a b = (if key a < key b then - 1 else if key b < key a then 1 else 0)"

lemma cmpOf_le: "cmpOf key a b \<le> 0 \<longleftrightarrow> key a \<le> key b"
  by (auto simp: cmpOf_def)

lemma cmpOf_eq: "cmpOf key a b = 0 \<longleftrightarrow> key a = key b"
  by (auto simp: cmpOf_def)

lemma comparison_by_key:
  assumes "\<And>a b. ok a \<Longrightarrow> ok b \<Longrightarrow> cmp a b = cmpOf key a b"
  shows "comparison cmp ok"
proof
  show "cmp y x = - cmp x y" if "ok x" "ok y" for x y
    using that by (auto simp: assms cmpOf_def)
  show "cmp x z \<le> 0" if "ok x" "ok y" "ok z" "cmp x y \<le> 0" "cmp y z \<le> 0" for x y z
    using that by (auto simp: assms cmpOf_le)
qed

section \<open>Keeping the best of a sequence\<close>

text \<open>The loop that keeps a current best and replaces it by each better element.\<close>

definition keepBest :: "('a \<Rightarrow> 'a \<Rightarrow> bool) \<Rightarrow> 'a option \<Rightarrow> 'a \<Rightarrow> 'a option" where
  "keepBest better best x = (case best of None \<Rightarrow> Some x | Some b \<Rightarrow> if better x b then Some x else Some b)"

definition selectBest :: "('a \<Rightarrow> 'a \<Rightarrow> bool) \<Rightarrow> 'a list \<Rightarrow> 'a option" where
  "selectBest better xs = foldl (keepBest better) None xs"

lemma selectBest_Nil [simp]: "selectBest better [] = None"
  by (simp add: selectBest_def)

lemma selectBest_snoc [simp]: "selectBest better (xs @ [x]) = keepBest better (selectBest better xs) x"
  by (simp add: selectBest_def)

locale selection =
  fixes better :: "'a \<Rightarrow> 'a \<Rightarrow> bool" and ok :: "'a \<Rightarrow> bool"
  assumes asym: "ok a \<Longrightarrow> ok b \<Longrightarrow> better a b \<Longrightarrow> \<not> better b a"
    and neg_trans: "ok a \<Longrightarrow> ok b \<Longrightarrow> ok c \<Longrightarrow> \<not> better a b \<Longrightarrow> \<not> better b c \<Longrightarrow> \<not> better a c"
begin

lemma select_max:
  assumes "\<forall>x\<in>set xs. ok x" "xs \<noteq> []"
  shows "\<exists>b\<in>set xs. selectBest better xs = Some b \<and> (\<forall>x\<in>set xs. \<not> better x b)"
  using assms
proof (induction xs rule: rev_induct)
  case (snoc x xs)
  have irr: "\<not> better y y" if "ok y" for y using asym that by blast
  show ?case
  proof (cases "xs = []")
    case True
    with snoc.prems irr show ?thesis by (simp add: selectBest_def keepBest_def)
  next
    case False
    with snoc obtain b where b: "b \<in> set xs" "selectBest better xs = Some b" "\<forall>y\<in>set xs. \<not> better y b" by auto
    have ok: "ok x" "ok b" "\<forall>y\<in>set xs. ok y" using snoc.prems b by auto
    show ?thesis
    proof (cases "better x b")
      case True
      then have "\<not> better y x" if "y \<in> set xs" for y
        using asym neg_trans b(3) ok that by blast
      with True b irr ok show ?thesis by (simp add: keepBest_def)
    next
      case False
      with b show ?thesis by (auto simp: keepBest_def)
    qed
  qed
qed simp

end

end
