(* ===== verification/Go_Int.thy ===== *)
theory Go_Int
  imports Prelude "HOL-Library.Word"
begin

text \<open>
  Go's machine integers where they can overflow: \<open>int64\<close> (and \<open>int\<close>, which is 64 bits wide
  on the platforms this code is built for) as mathematical integers with the wrap-around written
  out, truncating division, and the two time types built on \<open>int64\<close>: \<open>time.Duration\<close>
  in nanoseconds and \<open>mono.Time\<close> of \<open>src/tstime/mono/mono.go\<close>.
\<close>

named_theorems go_int

section \<open>int64\<close>

definition i64 :: "int \<Rightarrow> int" where
  "i64 x = (x + 2 ^ 63) mod 2 ^ 64 - 2 ^ 63"

definition is_i64 :: "int \<Rightarrow> bool" where
  "is_i64 x \<longleftrightarrow> - (2 ^ 63) \<le> x \<and> x < 2 ^ 63"

lemma i64_id [go_int]: "is_i64 x \<Longrightarrow> i64 x = x"
  by (simp add: i64_def is_i64_def)

lemma is_i64_nonneg: "0 \<le> x \<Longrightarrow> x \<le> y \<Longrightarrow> y < 2 ^ 63 \<Longrightarrow> is_i64 x"
  by (simp add: is_i64_def)

lemma is_i64_i64 [simp]: "is_i64 (i64 x)"
proof -
  have "0 \<le> (x + 2 ^ 63) mod 2 ^ 64" "(x + 2 ^ 63) mod 2 ^ 64 < (2 ^ 64 :: int)" by simp_all
  then show ?thesis by (simp add: i64_def is_i64_def)
qed

lemma i64_i64 [simp]: "i64 (i64 x) = i64 x"
  by (simp add: i64_id)

text \<open>Go's \<open>/\<close> truncates towards zero; a zero divisor panics and every caller excludes it.\<close>

definition quot :: "int \<Rightarrow> int \<Rightarrow> int" where
  "quot a b = sgn a * sgn b * (\<bar>a\<bar> div \<bar>b\<bar>)"

lemma quot_nonneg [go_int]: "0 \<le> a \<Longrightarrow> 0 < b \<Longrightarrow> quot a b = a div b"
  by (cases "a = 0") (simp_all add: quot_def)

section \<open>time.Duration\<close>

type_synonym duration = int

definition millisecond :: duration where
  "millisecond = 1000000"

definition second :: duration where
  "second = 1000000000"

definition minute :: duration where
  "minute = 60 * second"

definition hour :: duration where
  "hour = 60 * minute"

lemmas duration_units = millisecond_def second_def minute_def hour_def

text \<open>\<open>time.Duration(n) * unit\<close>, \<open>a - b\<close> on durations.\<close>

definition dmul :: "duration \<Rightarrow> duration \<Rightarrow> duration" where
  "dmul a b = i64 (a * b)"

definition dsub :: "duration \<Rightarrow> duration \<Rightarrow> duration" where
  "dsub a b = i64 (a - b)"

definition absDuration :: "duration \<Rightarrow> duration" where
  "absDuration d = (if d < 0 then i64 (- d) else d)"

lemma absDuration_abs:
  assumes "is_i64 d" "d \<noteq> - (2 ^ 63)"
  shows "absDuration d = \<bar>d\<bar>"
  using assms by (auto simp: absDuration_def is_i64_def i64_id)

section \<open>mono.Time\<close>

type_synonym mono = int

definition msub :: "mono \<Rightarrow> mono \<Rightarrow> duration" where
  "msub t n = i64 (t - n)"

definition madd :: "mono \<Rightarrow> duration \<Rightarrow> mono" where
  "madd t d = i64 (t + d)"

definition mafter :: "mono \<Rightarrow> mono \<Rightarrow> bool" where
  "mafter t n \<longleftrightarrow> t > n"

definition mbefore :: "mono \<Rightarrow> mono \<Rightarrow> bool" where
  "mbefore t n \<longleftrightarrow> t < n"

definition mzero :: "mono \<Rightarrow> bool" where
  "mzero t \<longleftrightarrow> t = 0"

lemmas mono_defs = mafter_def mbefore_def mzero_def

text \<open>
  The clock. \<open>mono.Now\<close> is the time since process start plus \<open>1 << 55\<close>: a reading of it is
  positive and stays far below the overflow for centuries. \<open>clock t\<close> is that range; the
  theorems that need no overflow assume it of the readings they mention.
\<close>

definition clock :: "mono \<Rightarrow> bool" where
  "clock t \<longleftrightarrow> 0 \<le> t \<and> t < 2 ^ 62"

lemma msub_clock [go_int]: "clock a \<Longrightarrow> clock b \<Longrightarrow> msub a b = a - b"
  unfolding msub_def by (rule i64_id) (simp add: clock_def is_i64_def)

lemma madd_clock [go_int]: "clock a \<Longrightarrow> 0 \<le> d \<Longrightarrow> d < 2 ^ 62 \<Longrightarrow> madd a d = a + d"
  unfolding madd_def by (rule i64_id) (simp add: clock_def is_i64_def)

end
