(* ===== verification/Netip.thy ===== *)
theory Netip
  imports Go_Int
begin

unbundle bit_operations_syntax

text \<open>
  The parts of Go's \<open>net/netip\<close> the modelled code uses (addresses, address-port pairs, their
  predicates and their text form, which breaks ties in the path rankings), the Geneve virtual
  network identifier of \<open>src/net/packet/geneve.go\<close>, and \<open>epAddr\<close> of
  \<open>src/wgengine/magicsock/endpoint.go\<close>.
\<close>

type_synonym u8 = "8 word"
type_synonym u16 = "16 word"
type_synonym u32 = "32 word"
type_synonym u64 = "64 word"
type_synonym u128 = "128 word"

section \<open>netip.Addr\<close>

datatype addr = AddrInvalid | AddrV4 u32 | AddrV6 u128 string

definition addrIsValid :: "addr \<Rightarrow> bool" where
  "addrIsValid a \<longleftrightarrow> a \<noteq> AddrInvalid"

fun is4 :: "addr \<Rightarrow> bool" where
  "is4 (AddrV4 _) = True"
| "is4 _ = False"

fun is6 :: "addr \<Rightarrow> bool" where
  "is6 (AddrV6 _ _) = True"
| "is6 _ = False"

fun is4In6 :: "addr \<Rightarrow> bool" where
  "is4In6 (AddrV6 w _) = (drop_bit 32 w = 0xffff)"
| "is4In6 _ = False"

definition unmap :: "addr \<Rightarrow> addr" where
  "unmap a = (case a of AddrV6 w _ \<Rightarrow> if is4In6 a then AddrV4 (ucast w) else a | _ \<Rightarrow> a)"

definition v4byte :: "u32 \<Rightarrow> nat \<Rightarrow> nat" where
  "v4byte w i = unat (drop_bit (8 * (3 - i)) w AND 0xff)"

definition v6u16 :: "u128 \<Rightarrow> nat \<Rightarrow> nat" where
  "v6u16 w i = unat (drop_bit (16 * (7 - i)) w AND 0xffff)"

definition addrIsLoopback :: "addr \<Rightarrow> bool" where
  "addrIsLoopback a = (case unmap a of AddrV4 w \<Rightarrow> v4byte w 0 = 127 | AddrV6 w _ \<Rightarrow> w = 1 | AddrInvalid \<Rightarrow> False)"

definition addrIsLinkLocalUnicast :: "addr \<Rightarrow> bool" where
  "addrIsLinkLocalUnicast a = (case unmap a of
     AddrV4 w \<Rightarrow> v4byte w 0 = 169 \<and> v4byte w 1 = 254
   | AddrV6 w _ \<Rightarrow> (drop_bit 112 w AND 0xffc0) = 0xfe80
   | AddrInvalid \<Rightarrow> False)"

definition addrIsPrivate :: "addr \<Rightarrow> bool" where
  "addrIsPrivate a = (case unmap a of
     AddrV4 w \<Rightarrow> v4byte w 0 = 10 \<or> (v4byte w 0 = 172 \<and> (drop_bit 16 w AND 0xf0) = 16)
       \<or> (v4byte w 0 = 192 \<and> v4byte w 1 = 168)
   | AddrV6 w _ \<Rightarrow> (drop_bit 120 w AND 0xfe) = 0xfc
   | AddrInvalid \<Rightarrow> False)"

subsection \<open>Text form\<close>

fun decString :: "nat \<Rightarrow> string" where
  "decString n = (if n < 10 then [char_of (48 + n)] else decString (n div 10) @ [char_of (48 + n mod 10)])"

declare decString.simps [simp del]

definition hexDigit :: "nat \<Rightarrow> char" where
  "hexDigit d = char_of (if d < 10 then 48 + d else 87 + d)"

fun hexString :: "nat \<Rightarrow> string" where
  "hexString n = (if n < 16 then [hexDigit n] else hexString (n div 16) @ [hexDigit (n mod 16)])"

declare hexString.simps [simp del]

definition v4String :: "u32 \<Rightarrow> string" where
  "v4String w = decString (v4byte w 0) @ ''.'' @ decString (v4byte w 1) @ ''.'' @
     decString (v4byte w 2) @ ''.'' @ decString (v4byte w 3)"

text \<open>The first longest run of at least two zero groups, as \<open>appendTo6\<close> looks for it.\<close>

definition zeroRun :: "nat list \<Rightarrow> nat" where
  "zeroRun gs = length (takeWhile (\<lambda>g. g = 0) gs)"

definition bestZeroRun :: "nat list \<Rightarrow> (nat \<times> nat) option" where
  "bestZeroRun gs = foldl (\<lambda>best i. let l = zeroRun (drop i gs) in
      if l \<ge> 2 \<and> (case best of None \<Rightarrow> True | Some (s, e) \<Rightarrow> l > e - s) then Some (i, i + l) else best)
    None [0..<8]"

definition joinColon :: "string list \<Rightarrow> string" where
  "joinColon gs = concat (map (\<lambda>(i, g). if i = 0 then g else '':'' @ g) (enumerate 0 gs))"

definition v6String :: "u128 \<Rightarrow> string" where
  "v6String w = (let gs = map (v6u16 w) [0..<8] in case bestZeroRun gs of
     None \<Rightarrow> joinColon (map hexString gs)
   | Some (s, e) \<Rightarrow> joinColon (map hexString (take s gs)) @ ''::'' @ joinColon (map hexString (drop e gs)))"

definition zoneSuffix :: "string \<Rightarrow> string" where
  "zoneSuffix z = (if z = [] then [] else ''%'' @ z)"

fun addrString :: "addr \<Rightarrow> string" where
  "addrString AddrInvalid = ''invalid IP''"
| "addrString (AddrV4 w) = v4String w"
| "addrString (AddrV6 w z) =
     (if is4In6 (AddrV6 w z) then ''::ffff:'' @ v4String (ucast w) else v6String w) @ zoneSuffix z"

section \<open>netip.AddrPort\<close>

record addrPort =
  apAddr :: addr
  apPort :: u16

definition apIsValid :: "addrPort \<Rightarrow> bool" where
  "apIsValid p \<longleftrightarrow> addrIsValid (apAddr p)"

definition zeroAddrPort :: addrPort where
  "zeroAddrPort = \<lparr>apAddr = AddrInvalid, apPort = 0\<rparr>"

definition apString :: "addrPort \<Rightarrow> string" where
  "apString p = (case apAddr p of
     AddrInvalid \<Rightarrow> ''invalid AddrPort''
   | AddrV4 w \<Rightarrow> v4String w @ '':'' @ decString (unat (apPort p))
   | AddrV6 w z \<Rightarrow> ''['' @ addrString (AddrV6 w z) @ '']:'' @ decString (unat (apPort p)))"

section \<open>packet.VirtualNetworkID\<close>

type_synonym vni = u32

definition vniIsSet :: "vni \<Rightarrow> bool" where
  "vniIsSet v \<longleftrightarrow> (v AND 0xFF000000) \<noteq> 0"

definition vniSet :: "u32 \<Rightarrow> vni" where
  "vniSet n = n OR 0xFF000000"

definition vniGet :: "vni \<Rightarrow> u32" where
  "vniGet v = v AND 0x00FFFFFF"

lemma vniIsSet_Set: "vniIsSet (vniSet n)"
proof -
  have "(vniSet n AND 0xFF000000) = ((n AND 0xFF000000) OR 0xFF000000)"
    by (simp add: vniSet_def bit.conj_disj_distrib2)
  also have "\<dots> \<noteq> 0" by (simp add: or_eq_0_iff)
  finally show ?thesis by (simp add: vniIsSet_def)
qed

lemma vniGet_Set: "vniGet (vniSet n) = n AND 0x00FFFFFF"
  by (simp add: vniGet_def vniSet_def bit.conj_disj_distrib2)

section \<open>epAddr\<close>

record epAddr =
  ap :: addrPort
  vni :: vni

definition zeroEpAddr :: epAddr where
  "zeroEpAddr = \<lparr>ap = zeroAddrPort, vni = 0\<rparr>"

text \<open>\<open>tailcfg.DerpMagicIPAddr\<close>, 127.3.3.40.\<close>

definition derpMagicIPAddr :: addr where
  "derpMagicIPAddr = AddrV4 0x7F030328"

definition isDirect :: "epAddr \<Rightarrow> bool" where
  "isDirect e \<longleftrightarrow> apIsValid (ap e) \<and> apAddr (ap e) \<noteq> derpMagicIPAddr \<and> \<not> vniIsSet (vni e)"

lemma not_isDirect_zero [simp]: "\<not> isDirect zeroEpAddr"
  by (simp add: isDirect_def zeroEpAddr_def zeroAddrPort_def apIsValid_def addrIsValid_def)

end
