(* ===== verification/Go_Float.thy ===== *)
theory Go_Float
  imports Go_Int "HOL-Library.Log_Nat"
begin

text \<open>
  Go's \<open>float64\<close>: the finite values as rationals, the two infinities and NaN, with every
  operation rounded to nearest, ties to even, at 53 bits (subnormals included). Go may fuse
  \<open>x*y + z\<close> on some architectures; the model rounds each operation, as on amd64. The sign of
  zero is not modelled: nothing in the modelled code can observe it.
\<close>

section \<open>Rounding to an integer, ties to even\<close>

definition rhe :: "rat \<Rightarrow> int" where
  "rhe x = (let f = \<lfloor>x\<rfloor>; d = x - of_int f in
     if d < 1 / 2 then f else if d > 1 / 2 then f + 1 else if even f then f else f + 1)"

lemma rhe_lower: "\<lfloor>x\<rfloor> \<le> rhe x" and rhe_upper: "rhe x \<le> \<lfloor>x\<rfloor> + 1"
  by (simp_all add: rhe_def Let_def)

lemma rhe_of_int [simp]: "rhe (of_int k) = k"
  by (simp add: rhe_def)

lemma rhe_mono:
  assumes "x \<le> y"
  shows "rhe x \<le> rhe y"
proof (cases "\<lfloor>x\<rfloor> = \<lfloor>y\<rfloor>")
  case True
  with assms show ?thesis by (auto simp: rhe_def Let_def)
next
  case False
  with assms have "\<lfloor>x\<rfloor> + 1 \<le> \<lfloor>y\<rfloor>" using floor_mono [OF assms] by linarith
  with rhe_upper [of x] rhe_lower [of y] show ?thesis by linarith
qed

section \<open>Powers of two and binary logarithm\<close>

definition pow2 :: "int \<Rightarrow> rat" where
  "pow2 k = (if k \<ge> 0 then 2 ^ nat k else 1 / 2 ^ nat (- k))"

lemma pow2_pos [simp]: "0 < pow2 k"
  by (simp add: pow2_def)

lemma pow2_nonneg [simp]: "0 \<le> pow2 k"
  using pow2_pos [of k] by linarith

lemma pow2_neq0 [simp]: "pow2 k \<noteq> 0"
  using pow2_pos [of k] by linarith

lemma pow2_powi: "pow2 k = 2 powi k"
  by (simp add: pow2_def power_int_def inverse_eq_divide power_one_over)

lemma pow2_add: "pow2 (a + b) = pow2 a * pow2 b"
  by (simp add: pow2_powi power_int_add)

lemma pow2_diff: "pow2 (a - b) = pow2 a / pow2 b"
  by (simp add: pow2_powi power_int_diff)

lemma pow2_mono: "a \<le> b \<Longrightarrow> pow2 a \<le> pow2 b"
  by (simp add: pow2_powi power_int_increasing)

lemma pow2_strict_mono: "a < b \<Longrightarrow> pow2 a < pow2 b"
  by (simp add: pow2_powi power_int_strict_increasing)

lemma pow2_less_iff: "pow2 a < pow2 b \<longleftrightarrow> a < b"
  by (meson linorder_not_le pow2_mono pow2_strict_mono)

lemma pow2_nat: "0 \<le> k \<Longrightarrow> pow2 k = 2 ^ nat k"
  by (simp add: pow2_def)

text \<open>\<open>elog2 x\<close> is the exponent of the leading binary digit of \<open>x > 0\<close>.\<close>

definition elog2 :: "rat \<Rightarrow> int" where
  "elog2 x = (let (a, b) = quotient_of x; k = bitlen a - bitlen b in
     if pow2 k \<le> x then k else k - 1)"

lemma bitlen_pow2:
  assumes "0 < a"
  shows "pow2 (bitlen a - 1) \<le> rat_of_int a" and "rat_of_int a < pow2 (bitlen a)"
proof -
  have len: "0 < bitlen a" using assms bitlen_nonneg [of a] by (simp add: bitlen_eq_zero_iff less_le)
  have bounds: "2 ^ nat (bitlen a - 1) \<le> a" "a < 2 ^ nat (bitlen a)"
    using bitlen_bounds [OF assms] by auto
  have "rat_of_int (2 ^ nat (bitlen a - 1)) \<le> rat_of_int a"
    using bounds(1) by (simp only: of_int_le_iff)
  then show "pow2 (bitlen a - 1) \<le> rat_of_int a" using len by (simp add: pow2_nat)
  have "rat_of_int a < rat_of_int (2 ^ nat (bitlen a))"
    using bounds(2) by (simp only: of_int_less_iff)
  then show "rat_of_int a < pow2 (bitlen a)" using len by (simp add: pow2_nat)
qed

lemma elog2_bounds:
  assumes "0 < x"
  shows "pow2 (elog2 x) \<le> x" and "x < pow2 (elog2 x + 1)"
proof -
  obtain a b where ab: "quotient_of x = (a, b)" by (cases "quotient_of x")
  have b: "0 < b" using ab by (rule quotient_of_denom_pos)
  have x: "x = of_int a / of_int b" using ab by (rule quotient_of_div)
  have a: "0 < a" using assms x b by (simp add: zero_less_divide_iff)
  define k where "k = bitlen a - bitlen b"
  have "x < pow2 (bitlen a) / pow2 (bitlen b - 1)"
    unfolding x using bitlen_pow2 [OF a] bitlen_pow2 [OF b] a b
    by (intro frac_less) auto
  then have up: "x < pow2 (k + 1)" by (simp add: k_def flip: pow2_diff) (simp add: algebra_simps)
  have "pow2 (bitlen a - 1) / pow2 (bitlen b) \<le> x"
    unfolding x using bitlen_pow2 [OF a] bitlen_pow2 [OF b] a b
    by (intro frac_le) auto
  then have low: "pow2 (k - 1) \<le> x" by (simp add: k_def flip: pow2_diff) (simp add: algebra_simps)
  have e: "elog2 x = (if pow2 k \<le> x then k else k - 1)"
    by (simp add: elog2_def ab k_def)
  show "pow2 (elog2 x) \<le> x" using e low by auto
  show "x < pow2 (elog2 x + 1)" using e up by auto
qed

lemma elog2_mono:
  assumes "0 < x" "x \<le> y"
  shows "elog2 x \<le> elog2 y"
proof -
  have "pow2 (elog2 x) \<le> x" using assms(1) by (rule elog2_bounds)
  also have "\<dots> \<le> y" by (rule assms(2))
  also have "y < pow2 (elog2 y + 1)" using assms by (intro elog2_bounds) auto
  finally show ?thesis by (simp add: pow2_less_iff)
qed

section \<open>Rounding to 53 bits\<close>

definition ulpExp :: "rat \<Rightarrow> int" where
  "ulpExp x = max (elog2 x - 52) (- 1074)"

definition rndPos :: "rat \<Rightarrow> rat" where
  "rndPos x = of_int (rhe (x / pow2 (ulpExp x))) * pow2 (ulpExp x)"

definition rnd :: "rat \<Rightarrow> rat" where
  "rnd x = (if x = 0 then 0 else if x > 0 then rndPos x else - rndPos (- x))"

lemma ulpExp_mono: "0 < x \<Longrightarrow> x \<le> y \<Longrightarrow> ulpExp x \<le> ulpExp y"
  using elog2_mono [of x y] by (auto simp: ulpExp_def)

lemma rhe_ge_int: "of_int k \<le> x \<Longrightarrow> k \<le> rhe x"
  using rhe_mono [of "of_int k" x] by simp

lemma rhe_le_int: "x \<le> of_int k \<Longrightarrow> rhe x \<le> k"
  using rhe_mono [of x "of_int k"] by simp

lemma rndPos_nonneg: "0 < x \<Longrightarrow> 0 \<le> rndPos x"
  using rhe_ge_int [of 0 "x / pow2 (ulpExp x)"] by (simp add: rndPos_def)

text \<open>A power of two that is a multiple of the unit in the last place bounds the rounding too.\<close>

lemma rndPos_le_pow2:
  assumes "0 < x" "x \<le> pow2 e" "ulpExp x \<le> e"
  shows "rndPos x \<le> pow2 e"
proof -
  have "x / pow2 (ulpExp x) \<le> pow2 (e - ulpExp x)"
    using assms by (simp add: pow2_diff divide_right_mono)
  also have "\<dots> = of_int (2 ^ nat (e - ulpExp x))" using assms(3) by (simp add: pow2_nat)
  finally have "rhe (x / pow2 (ulpExp x)) \<le> 2 ^ nat (e - ulpExp x)" by (rule rhe_le_int)
  then have "rat_of_int (rhe (x / pow2 (ulpExp x))) \<le> of_int (2 ^ nat (e - ulpExp x))"
    by (simp only: of_int_le_iff)
  also have "\<dots> = pow2 (e - ulpExp x)" using assms(3) by (simp add: pow2_nat)
  finally have "rndPos x \<le> pow2 (e - ulpExp x) * pow2 (ulpExp x)"
    by (simp add: rndPos_def mult_right_mono)
  then show ?thesis by (simp flip: pow2_add)
qed

lemma rndPos_ge_pow2:
  assumes "0 < x" "pow2 e \<le> x" "ulpExp x \<le> e"
  shows "pow2 e \<le> rndPos x"
proof -
  have "of_int (2 ^ nat (e - ulpExp x)) = pow2 (e - ulpExp x)" using assms(3) by (simp add: pow2_nat)
  also have "\<dots> \<le> x / pow2 (ulpExp x)" using assms by (simp add: pow2_diff divide_right_mono)
  finally have "2 ^ nat (e - ulpExp x) \<le> rhe (x / pow2 (ulpExp x))" by (rule rhe_ge_int)
  then have "rat_of_int (2 ^ nat (e - ulpExp x)) \<le> of_int (rhe (x / pow2 (ulpExp x)))"
    by (simp only: of_int_le_iff)
  then have "pow2 (e - ulpExp x) \<le> of_int (rhe (x / pow2 (ulpExp x)))"
    using assms(3) by (simp add: pow2_nat)
  then have "pow2 (e - ulpExp x) * pow2 (ulpExp x) \<le> rndPos x"
    by (simp add: rndPos_def mult_right_mono)
  then show ?thesis by (simp flip: pow2_add)
qed

lemma rndPos_mono:
  assumes "0 < x" "x \<le> y"
  shows "rndPos x \<le> rndPos y"
proof (cases "ulpExp x = ulpExp y")
  case True
  have "x / pow2 (ulpExp y) \<le> y / pow2 (ulpExp y)" using assms(2) by (simp add: divide_right_mono)
  then have "rhe (x / pow2 (ulpExp y)) \<le> rhe (y / pow2 (ulpExp y))" by (rule rhe_mono)
  then show ?thesis by (simp add: rndPos_def True mult_right_mono)
next
  case False
  with ulpExp_mono [OF assms] have less: "ulpExp x < ulpExp y" by simp
  then have y: "ulpExp y = elog2 y - 52" and exy: "elog2 x < elog2 y"
    by (auto simp: ulpExp_def max_def split: if_splits)
  have y0: "0 < y" using assms by simp
  have "x \<le> pow2 (elog2 x + 1)" using elog2_bounds(2) [OF assms(1)] by simp
  also have "\<dots> \<le> pow2 (elog2 y)" using exy by (intro pow2_mono) simp
  finally have "rndPos x \<le> pow2 (elog2 y)"
    using less y by (intro rndPos_le_pow2 assms(1)) auto
  also have "\<dots> \<le> rndPos y" using y y0 elog2_bounds(1) [OF y0] by (intro rndPos_ge_pow2) auto
  finally show ?thesis .
qed

lemma rnd_0 [simp]: "rnd 0 = 0"
  by (simp add: rnd_def)

lemma rnd_minus: "rnd (- x) = - rnd x"
  by (auto simp: rnd_def)

lemma rnd_nonneg: "0 \<le> x \<Longrightarrow> 0 \<le> rnd x"
  by (auto simp: rnd_def rndPos_nonneg)

lemma rnd_mono:
  assumes "x \<le> y"
  shows "rnd x \<le> rnd y"
proof -
  consider "0 < x" | "y < 0" | "x \<le> 0" "0 \<le> y" by linarith
  then show ?thesis
  proof cases
    case 1
    with assms rndPos_mono [of x y] show ?thesis by (simp add: rnd_def)
  next
    case 2
    with assms rndPos_mono [of "- y" "- x"] show ?thesis by (simp add: rnd_def)
  next
    case 3
    then have "rnd x \<le> 0" "0 \<le> rnd y" using rnd_nonneg [of "- x"] rnd_nonneg [of y]
      by (simp_all add: rnd_minus)
    then show ?thesis by simp
  qed
qed

lemma rndPos_int:
  assumes "0 < k" "k \<le> 2 ^ 53"
  shows "rndPos (of_int k) = of_int k"
proof -
  have pos: "(0::rat) < of_int k" using assms(1) by simp
  show ?thesis
  proof (cases "k = 2 ^ 53")
    case True
    have "elog2 (of_int k) \<le> 53"
    proof -
      have "pow2 (elog2 (of_int k)) \<le> of_int k" by (rule elog2_bounds(1) [OF pos])
      also have "\<dots> < pow2 54" using True by (simp add: pow2_nat)
      finally show ?thesis by (simp add: pow2_less_iff)
    qed
    then have "ulpExp (of_int k) \<le> 53" by (simp add: ulpExp_def)
    moreover have "rat_of_int k = pow2 53" using True by (simp add: pow2_nat)
    ultimately show ?thesis
      using rndPos_le_pow2 [OF pos, of 53] rndPos_ge_pow2 [OF pos, of 53] by simp
  next
    case False
    have "pow2 (elog2 (of_int k)) \<le> of_int k" by (rule elog2_bounds(1) [OF pos])
    also have "\<dots> < pow2 53"
    proof -
      have "k < 2 ^ 53" using False assms(2) by simp
      then have "rat_of_int k < of_int (2 ^ 53)" by (simp only: of_int_less_iff)
      then show ?thesis by (simp add: pow2_nat)
    qed
    finally have "ulpExp (of_int k) \<le> 0" by (simp add: pow2_less_iff ulpExp_def)
    then have "of_int k / pow2 (ulpExp (of_int k)) = (of_int (k * 2 ^ nat (- ulpExp (of_int k))) :: rat)"
      by (simp add: pow2_def)
    then show ?thesis unfolding rndPos_def by (simp only: rhe_of_int) (simp add: field_simps)
  qed
qed

lemma rnd_int:
  assumes "\<bar>k\<bar> \<le> 2 ^ 53"
  shows "rnd (of_int k) = of_int k"
proof -
  consider "k = 0" | "0 < k" | "k < 0" by linarith
  then show ?thesis
    using assms rndPos_int [of k] rndPos_int [of "- k"] by cases (auto simp: rnd_def)
qed

text \<open>
  What clients need of a rounding: it is monotone, odd, and the identity on the integers of 53
  bits. Everything about means, ratios and scores is proved from these laws.
\<close>

locale rounding =
  fixes rd :: "rat \<Rightarrow> rat"
  assumes rd_mono: "x \<le> y \<Longrightarrow> rd x \<le> rd y"
    and rd_minus: "rd (- x) = - rd x"
    and rd_int: "\<bar>k\<bar> \<le> 2 ^ 53 \<Longrightarrow> rd (of_int k) = of_int k"
begin

lemma rd_0: "rd 0 = 0"
  using rd_int [of 0] by simp

lemma rd_1: "rd 1 = 1"
  using rd_int [of 1] by simp

lemma rd_nonneg: "0 \<le> x \<Longrightarrow> 0 \<le> rd x"
  using rd_mono [of 0 x] by (simp add: rd_0)

lemma rd_le_int: "x \<le> of_int k \<Longrightarrow> \<bar>k\<bar> \<le> 2 ^ 53 \<Longrightarrow> rd x \<le> of_int k"
  using rd_mono [of x "of_int k"] by (simp add: rd_int)

lemma rd_ge_int: "of_int k \<le> x \<Longrightarrow> \<bar>k\<bar> \<le> 2 ^ 53 \<Longrightarrow> of_int k \<le> rd x"
  using rd_mono [of "of_int k" x] by (simp add: rd_int)

lemma rd_le_1: "x \<le> 1 \<Longrightarrow> rd x \<le> 1"
  using rd_le_int [of x 1] by simp

text \<open>The rounded quotient of a sum by its count stays between the bounds of the summands.\<close>

lemma mean_between:
  assumes "0 < n" "of_int (lo * n) \<le> s" "s \<le> of_int (hi * n)" "\<bar>lo\<bar> \<le> 2 ^ 53" "\<bar>hi\<bar> \<le> 2 ^ 53"
  shows "of_int lo \<le> rd (s / of_int n)" and "rd (s / of_int n) \<le> of_int hi"
proof -
  have n: "(0::rat) < of_int n" using assms(1) by simp
  have "of_int lo \<le> s / of_int n"
    using assms(2) n by (simp add: pos_le_divide_eq)
  then show "of_int lo \<le> rd (s / of_int n)" using assms(4) by (rule rd_ge_int)
  have "s / of_int n \<le> of_int hi"
    using assms(3) n by (simp add: pos_divide_le_eq)
  then show "rd (s / of_int n) \<le> of_int hi" using assms(5) by (rule rd_le_int)
qed

end

interpretation f64: rounding rnd
  by unfold_locales (auto intro: rnd_mono rnd_minus rnd_int)

section \<open>float64 values and operations\<close>

datatype float64 = Fin rat | PInf | NInf | NaN

text \<open>Rounding a real result into the format: a magnitude of \<open>2 ^ 1024\<close> or more overflows.\<close>

definition toF :: "rat \<Rightarrow> float64" where
  "toF x = (let r = rnd x in if r \<ge> pow2 1024 then PInf else if r \<le> - pow2 1024 then NInf else Fin r)"

definition fOfInt :: "int \<Rightarrow> float64" where
  "fOfInt k = toF (of_int k)"

fun fneg :: "float64 \<Rightarrow> float64" where
  "fneg (Fin a) = Fin (- a)"
| "fneg PInf = NInf"
| "fneg NInf = PInf"
| "fneg NaN = NaN"

fun fadd :: "float64 \<Rightarrow> float64 \<Rightarrow> float64" where
  "fadd (Fin a) (Fin b) = toF (a + b)"
| "fadd NaN _ = NaN"
| "fadd _ NaN = NaN"
| "fadd PInf NInf = NaN"
| "fadd NInf PInf = NaN"
| "fadd PInf _ = PInf"
| "fadd _ PInf = PInf"
| "fadd NInf _ = NInf"
| "fadd _ NInf = NInf"

definition fsub :: "float64 \<Rightarrow> float64 \<Rightarrow> float64" where
  "fsub a b = fadd a (fneg b)"

definition fsignInf :: "bool \<Rightarrow> float64" where
  "fsignInf neg = (if neg then NInf else PInf)"

fun fisneg :: "float64 \<Rightarrow> bool" where
  "fisneg (Fin a) = (a < 0)"
| "fisneg PInf = False"
| "fisneg NInf = True"
| "fisneg NaN = False"

fun fmul :: "float64 \<Rightarrow> float64 \<Rightarrow> float64" where
  "fmul (Fin a) (Fin b) = toF (a * b)"
| "fmul NaN _ = NaN"
| "fmul _ NaN = NaN"
| "fmul a b = (if a = Fin 0 \<or> b = Fin 0 then NaN else fsignInf (fisneg a \<noteq> fisneg b))"

text \<open>Division; a zero divisor has no sign here, so \<open>x / 0\<close> has the sign of \<open>x\<close>.\<close>

fun fdiv :: "float64 \<Rightarrow> float64 \<Rightarrow> float64" where
  "fdiv (Fin a) (Fin b) = (if b = 0 then if a = 0 then NaN else fsignInf (a < 0) else toF (a / b))"
| "fdiv NaN _ = NaN"
| "fdiv _ NaN = NaN"
| "fdiv (Fin a) _ = Fin 0"
| "fdiv a (Fin b) = fsignInf (fisneg a \<noteq> (b < 0))"
| "fdiv _ _ = NaN"

fun flt :: "float64 \<Rightarrow> float64 \<Rightarrow> bool" where
  "flt (Fin a) (Fin b) = (a < b)"
| "flt NaN _ = False"
| "flt _ NaN = False"
| "flt NInf b = (b \<noteq> NInf)"
| "flt _ NInf = False"
| "flt PInf _ = False"
| "flt _ PInf = True"

definition feq :: "float64 \<Rightarrow> float64 \<Rightarrow> bool" where
  "feq a b \<longleftrightarrow> a \<noteq> NaN \<and> a = b"

definition fle :: "float64 \<Rightarrow> float64 \<Rightarrow> bool" where
  "fle a b \<longleftrightarrow> flt a b \<or> feq a b"

text \<open>\<open>int64(f)\<close>: truncation; out of range (left open by Go) as amd64 gives it.\<close>

definition truncRat :: "rat \<Rightarrow> int" where
  "truncRat a = (if a \<ge> 0 then \<lfloor>a\<rfloor> else \<lceil>a\<rceil>)"

fun fToInt64 :: "float64 \<Rightarrow> int" where
  "fToInt64 (Fin a) = (if is_i64 (truncRat a) then truncRat a else - (2 ^ 63))"
| "fToInt64 _ = - (2 ^ 63)"

text \<open>\<open>math.Sqrt\<close>, correctly rounded: the integer square root of the scaled operand.\<close>

function isqrt :: "int \<Rightarrow> int" where
  "isqrt n = (if n \<le> 0 then 0 else
     let r = 2 * isqrt (n div 4) in if (r + 1) * (r + 1) \<le> n then r + 1 else r)"
  by auto
termination
  by (relation "measure nat") auto

declare isqrt.simps [simp del]

definition rheSqrt :: "rat \<Rightarrow> int" where
  "rheSqrt m = (let r = isqrt \<lfloor>m\<rfloor>; t = (of_int r + 1 / 2) * (of_int r + 1 / 2) in
     if m < t then r else if m > t then r + 1 else if even r then r else r + 1)"

fun fsqrt :: "float64 \<Rightarrow> float64" where
  "fsqrt (Fin a) =
     (if a < 0 then NaN else if a = 0 then Fin 0 else
      let e = elog2 a div 2 - 52 in Fin (of_int (rheSqrt (a / pow2 (2 * e))) * pow2 e))"
| "fsqrt PInf = PInf"
| "fsqrt NInf = NaN"
| "fsqrt NaN = NaN"

subsection \<open>Facts on the operations\<close>

lemma pow2_1024_big: "(2::rat) ^ 53 < pow2 1024"
proof -
  have "(2::rat) ^ 53 = pow2 53" by (simp add: pow2_nat)
  also have "\<dots> < pow2 1024" by (rule pow2_strict_mono) simp
  finally show ?thesis .
qed

lemma toF_small:
  assumes "\<bar>x\<bar> \<le> 2 ^ 53"
  shows "toF x = Fin (rnd x)"
proof -
  have "rnd x \<le> of_int (2 ^ 53)" using assms by (intro f64.rd_le_int) (simp_all add: abs_le_iff)
  moreover have "of_int (- (2 ^ 53)) \<le> rnd x" using assms by (intro f64.rd_ge_int) (simp_all add: abs_le_iff)
  ultimately show ?thesis using pow2_1024_big by (simp add: toF_def Let_def)
qed

lemma toF_int: "\<bar>k\<bar> \<le> 2 ^ 53 \<Longrightarrow> toF (of_int k) = Fin (of_int k)"
proof -
  assume k: "\<bar>k\<bar> \<le> 2 ^ 53"
  then have "rat_of_int \<bar>k\<bar> \<le> of_int (2 ^ 53)" by (simp only: of_int_le_iff)
  with k show ?thesis by (simp add: toF_small rnd_int)
qed

lemma fOfInt_small: "\<bar>k\<bar> \<le> 2 ^ 53 \<Longrightarrow> fOfInt k = Fin (of_int k)"
  by (simp add: fOfInt_def toF_int)

lemma fadd_int:
  "\<bar>a + b\<bar> \<le> 2 ^ 53 \<Longrightarrow> fadd (Fin (of_int a)) (Fin (of_int b)) = Fin (of_int (a + b))"
  using toF_int [of "a + b"] by simp

lemma truncRat_between:
  assumes "of_int lo \<le> a" "a \<le> of_int hi"
  shows "lo \<le> truncRat a" and "truncRat a \<le> hi"
  using floor_mono [OF assms(1)] floor_mono [OF assms(2)]
    ceiling_mono [OF assms(1)] ceiling_mono [OF assms(2)]
  by (simp_all add: truncRat_def)

lemma fle_refl [simp]: "fle (Fin a) (Fin b) \<longleftrightarrow> a \<le> b"
  by (auto simp: fle_def feq_def)

lemma isqrt_bounds:
  "0 \<le> n \<Longrightarrow> 0 \<le> isqrt n \<and> isqrt n * isqrt n \<le> n \<and> n < (isqrt n + 1) * (isqrt n + 1)"
proof (induction n rule: isqrt.induct)
  case (1 n)
  show ?case
  proof (cases "n \<le> 0")
    case True
    with 1(2) show ?thesis by (simp add: isqrt.simps)
  next
    case False
    define q where "q = isqrt (n div 4)"
    have ih: "0 \<le> q" "q * q \<le> n div 4" "n div 4 < (q + 1) * (q + 1)"
      using 1 False by (auto simp: q_def)
    have low: "(2 * q) * (2 * q) \<le> n" using ih(2) by simp
    have "n < 4 * ((q + 1) * (q + 1))" using ih(3) by simp
    then have up: "n < (2 * q + 2) * (2 * q + 2)" by (simp add: algebra_simps)
    have "isqrt n = (if (2 * q + 1) * (2 * q + 1) \<le> n then 2 * q + 1 else 2 * q)"
      using False by (simp add: isqrt.simps [of n] q_def Let_def)
    with ih(1) low up show ?thesis by (auto simp: algebra_simps)
  qed
qed

lemma isqrt_nonneg [simp]: "0 \<le> isqrt n"
  using isqrt_bounds [of n] by (cases "0 \<le> n") (simp_all add: isqrt.simps)

lemma rheSqrt_nonneg: "0 \<le> rheSqrt m"
  by (simp add: rheSqrt_def Let_def)

lemma fsqrt_nonneg: "0 \<le> a \<Longrightarrow> \<exists>r \<ge> 0. fsqrt (Fin a) = Fin r"
  by (auto simp: Let_def rheSqrt_nonneg)

end
