(* ===== verification/Srcsel_Config.thy ===== *)
theory Srcsel_Config
  imports Go_Float
begin

text \<open>
  The configuration of source selection: the constants of
  \<open>src/wgengine/magicsock/sourcepath.go\<close> and the environment knobs and accessor functions of
  \<open>src/wgengine/magicsock/sourcepath_supported.go\<close>. An \<open>env\<close> holds the values the
  registered knobs report; every accessor reads the one it is given, so a knob that changes at
  run time is two calls with different \<open>env\<close>s. Knob strings are ASCII.
\<close>

named_theorems config

section \<open>Constants\<close>

definition sourcePathDataStrategyDualSend :: string where
  "sourcePathDataStrategyDualSend = ''dual-send''"
definition sourcePathDataStrategyDualEndpoint :: string where
  "sourcePathDataStrategyDualEndpoint = ''dual-endpoint''"
definition sourcePathDataStrategySingleSource :: string where
  "sourcePathDataStrategySingleSource = ''single-source''"
definition sourcePathDataStrategyActiveBackup :: string where
  "sourcePathDataStrategyActiveBackup = ''active-backup''"

lemmas strategy_names = sourcePathDataStrategyDualSend_def sourcePathDataStrategyDualEndpoint_def
  sourcePathDataStrategySingleSource_def sourcePathDataStrategyActiveBackup_def

definition sourcePathProbeHistoryLimit :: int where "sourcePathProbeHistoryLimit = 100000"
definition sourcePathProbeMaxPeers :: int where "sourcePathProbeMaxPeers = 0"
definition sourcePathProbeMaxBurst :: int where "sourcePathProbeMaxBurst = 8"
definition sourcePathProbeHardPendingCap :: int where "sourcePathProbeHardPendingCap = 100000"
definition sourcePathProbeOutcomeLimit :: int where "sourcePathProbeOutcomeLimit = 100000"
definition sourcePathSampleTTL :: duration where "sourcePathSampleTTL = 60 * second"
definition sourcePathRealtimeSampleTTL :: duration where "sourcePathRealtimeSampleTTL = 10 * second"
definition sourcePathMinSamplesForUse :: int where "sourcePathMinSamplesForUse = 3"
definition sourcePathAuxBeatThresholdPercent :: int where "sourcePathAuxBeatThresholdPercent = 10"
definition sourcePathDualSendAuxDropStreak :: int where "sourcePathDualSendAuxDropStreak = 5"
definition sourcePathDualSendAuxProbeDropStreak :: int where "sourcePathDualSendAuxProbeDropStreak = 2"
definition sourcePathDualSendRecovery :: duration where "sourcePathDualSendRecovery = 30 * second"
definition sourcePathDualSendMaxSkew :: duration where "sourcePathDualSendMaxSkew = 100 * millisecond"
definition sourcePathActiveBackupPrimaryFailStreak :: int where "sourcePathActiveBackupPrimaryFailStreak = 3"
definition sourcePathActiveBackupFailoverHold :: duration where "sourcePathActiveBackupFailoverHold = 30 * second"
definition sourcePathActiveBackupRecoveryPongs :: int where "sourcePathActiveBackupRecoveryPongs = 3"
definition sourcePathProbeIntervalFloor :: duration where "sourcePathProbeIntervalFloor = 200 * millisecond"
definition sourcePathRealtimeProbeEvery :: duration where "sourcePathRealtimeProbeEvery = second"
definition sourcePathLossWindow :: duration where "sourcePathLossWindow = 30 * second"
definition sourcePathLatencyMax :: duration where "sourcePathLatencyMax = 300 * millisecond"
definition sourcePathJitterMax :: duration where "sourcePathJitterMax = 50 * millisecond"
definition sourcePathLossMax :: float64 where "sourcePathLossMax = toF (5 / 100)"
definition sourcePathScoreImprovePct :: int where "sourcePathScoreImprovePct = 5"
definition sourcePathFlowIdle :: duration where "sourcePathFlowIdle = 30 * second"
definition sourcePathFlowMaxEntries :: int where "sourcePathFlowMaxEntries = 100000"
definition sourcePathDefaultAuxSockets :: int where "sourcePathDefaultAuxSockets = 2"
definition sourcePathMaxAuxSockets :: int where "sourcePathMaxAuxSockets = 32"
definition sourcePathMaxRankedPaths :: nat where "sourcePathMaxRankedPaths = 32"
definition sourcePathActiveReplaceCooldown :: duration where "sourcePathActiveReplaceCooldown = minute"
definition sourcePathStandbyRefreshEvery :: duration where "sourcePathStandbyRefreshEvery = hour"

lemmas srcsel_consts = sourcePathProbeHistoryLimit_def sourcePathProbeMaxPeers_def
  sourcePathProbeMaxBurst_def sourcePathProbeHardPendingCap_def sourcePathProbeOutcomeLimit_def
  sourcePathSampleTTL_def sourcePathRealtimeSampleTTL_def sourcePathMinSamplesForUse_def
  sourcePathAuxBeatThresholdPercent_def sourcePathDualSendAuxDropStreak_def
  sourcePathDualSendAuxProbeDropStreak_def sourcePathDualSendRecovery_def
  sourcePathDualSendMaxSkew_def sourcePathActiveBackupPrimaryFailStreak_def
  sourcePathActiveBackupFailoverHold_def sourcePathActiveBackupRecoveryPongs_def
  sourcePathProbeIntervalFloor_def sourcePathRealtimeProbeEvery_def sourcePathLossWindow_def
  sourcePathLatencyMax_def sourcePathJitterMax_def sourcePathScoreImprovePct_def
  sourcePathFlowIdle_def sourcePathFlowMaxEntries_def sourcePathDefaultAuxSockets_def
  sourcePathMaxAuxSockets_def sourcePathMaxRankedPaths_def sourcePathActiveReplaceCooldown_def
  sourcePathStandbyRefreshEvery_def duration_units

text \<open>\<open>pingTimeoutDuration\<close> and \<open>sessionActiveTimeout\<close> of \<open>magicsock.go\<close>.\<close>

definition pingTimeoutDuration :: duration where "pingTimeoutDuration = 5 * second"
definition sessionActiveTimeout :: duration where "sessionActiveTimeout = 45 * second"

section \<open>The knobs\<close>

text \<open>
  One field per registered knob: an \<open>opt.Bool\<close> is a \<open>bool option\<close>, an integer knob is 0
  when the variable is unset (\<open>envknob.RegisterInt\<close>), and the two variables the code reads
  with \<open>envknob.LookupInt\<close> are \<open>None\<close> when unset.
\<close>

record env =
  envknobSrcSelEnable :: "bool option"
  lookupSrcSelAuxSockets :: "int option"
  envknobSrcSelDataStrategy :: string
  envknobSrcSelForceDataSource :: string
  envknobSrcSelAutoDataSource :: bool
  envknobSrcSelMaxPeers :: int
  envknobSrcSelMaxProbeBurst :: int
  envknobSrcSelMaxPending :: int
  envknobSrcSelMaxSamples :: int
  envknobSrcSelMaxOutcomes :: int
  envknobSrcSelAuxBeatThresholdPct :: int
  envknobSrcSelDualSend :: "bool option"
  envknobSrcSelDualSendAuxDrop :: int
  envknobSrcSelDualSendAuxProbeDrop :: int
  envknobSrcSelDualSendRecoveryS :: int
  envknobSrcSelDualSendMaxSkewMS :: int
  envknobSrcSelActiveBackup :: bool
  envknobSrcSelPrimaryFailStreak :: int
  envknobSrcSelFailoverHoldS :: int
  envknobSrcSelFailoverRecovery :: int
  envknobSrcSelMultiMetric :: bool
  lookupSrcSelProbeIntervalMS :: "int option"
  envknobSrcSelLossWindowS :: int
  envknobSrcSelScoreWeights :: string
  envknobSrcSelLatencyMaxMS :: int
  envknobSrcSelJitterMaxMS :: int
  envknobSrcSelLossMaxPct :: int
  envknobSrcSelScoreImprovePct :: int
  envknobSrcSelProfile :: string
  envknobSrcSelSampleTTLS :: int
  envknobSrcSelFlowAware :: bool
  envknobSrcSelBalancePolicy :: string
  envknobSrcSelFlowIdleS :: int
  envknobSrcSelFlowMax :: int

text \<open>Every variable unset.\<close>

definition defaultEnv :: env where
  "defaultEnv = \<lparr>envknobSrcSelEnable = None, lookupSrcSelAuxSockets = None,
     envknobSrcSelDataStrategy = [], envknobSrcSelForceDataSource = [],
     envknobSrcSelAutoDataSource = False, envknobSrcSelMaxPeers = 0, envknobSrcSelMaxProbeBurst = 0,
     envknobSrcSelMaxPending = 0, envknobSrcSelMaxSamples = 0, envknobSrcSelMaxOutcomes = 0,
     envknobSrcSelAuxBeatThresholdPct = 0, envknobSrcSelDualSend = None,
     envknobSrcSelDualSendAuxDrop = 0, envknobSrcSelDualSendAuxProbeDrop = 0,
     envknobSrcSelDualSendRecoveryS = 0, envknobSrcSelDualSendMaxSkewMS = 0,
     envknobSrcSelActiveBackup = False, envknobSrcSelPrimaryFailStreak = 0,
     envknobSrcSelFailoverHoldS = 0, envknobSrcSelFailoverRecovery = 0,
     envknobSrcSelMultiMetric = False, lookupSrcSelProbeIntervalMS = None,
     envknobSrcSelLossWindowS = 0, envknobSrcSelScoreWeights = [],
     envknobSrcSelLatencyMaxMS = 0, envknobSrcSelJitterMaxMS = 0, envknobSrcSelLossMaxPct = 0,
     envknobSrcSelScoreImprovePct = 0, envknobSrcSelProfile = [], envknobSrcSelSampleTTLS = 0,
     envknobSrcSelFlowAware = False, envknobSrcSelBalancePolicy = [],
     envknobSrcSelFlowIdleS = 0, envknobSrcSelFlowMax = 0\<rparr>"

section \<open>Strings\<close>

definition toLowerChar :: "char \<Rightarrow> char" where
  "toLowerChar c = (let n = of_char c :: nat in if 65 \<le> n \<and> n \<le> 90 then char_of (n + 32) else c)"

definition toLower :: "string \<Rightarrow> string" where
  "toLower s = map toLowerChar s"

definition isSpace :: "char \<Rightarrow> bool" where
  "isSpace c = (let n = of_char c :: nat in n = 32 \<or> (9 \<le> n \<and> n \<le> 13))"

definition trimSpace :: "string \<Rightarrow> string" where
  "trimSpace s = rev (dropWhile isSpace (rev (dropWhile isSpace s)))"

fun splitOn :: "char \<Rightarrow> string \<Rightarrow> string list" where
  "splitOn sep [] = [[]]"
| "splitOn sep (c # cs) =
     (if c = sep then [] # splitOn sep cs
      else case splitOn sep cs of f # fs \<Rightarrow> (c # f) # fs | [] \<Rightarrow> [[c]])"

text \<open>\<open>strings.Cut\<close>: before and after the first separator, or no result.\<close>

fun cut :: "char \<Rightarrow> string \<Rightarrow> (string \<times> string) option" where
  "cut sep [] = None"
| "cut sep (c # cs) =
     (if c = sep then Some ([], cs) else map_option (\<lambda>(a, b). (c # a, b)) (cut sep cs))"

section \<open>Accessors\<close>

definition sourcePathOptBoolDefaultTrue :: "bool option \<Rightarrow> bool" where
  "sourcePathOptBoolDefaultTrue v = (case v of Some b \<Rightarrow> b | None \<Rightarrow> True)"

definition sourcePathEnabled :: "env \<Rightarrow> bool" where
  "sourcePathEnabled e = sourcePathOptBoolDefaultTrue (envknobSrcSelEnable e)"

definition sourcePathDataStrategyMode :: "env \<Rightarrow> string" where
  "sourcePathDataStrategyMode e = (let s = toLower (trimSpace (envknobSrcSelDataStrategy e)) in
     if s \<in> set ['''', ''dual'', ''dual-send'', ''dual_send'', ''redundant'']
     then sourcePathDataStrategyDualSend
     else if s \<in> set [''dual-endpoint'', ''dual_endpoint'', ''endpoint'', ''endpoints'',
       ''redundant-endpoint'', ''redundant_endpoint'', ''multipath'']
     then sourcePathDataStrategyDualEndpoint
     else if s \<in> set [''single'', ''single-source'', ''single_source'', ''auto'', ''flow'',
       ''flow-aware'', ''flow_aware'', ''rr'', ''round-robin'', ''round_robin'']
     then sourcePathDataStrategySingleSource
     else if s \<in> set [''active-backup'', ''active_backup'', ''backup'', ''failover'']
     then sourcePathDataStrategyActiveBackup
     else sourcePathDataStrategyDualSend)"

definition sourcePathDualEndpointStrategyEnabled :: "env \<Rightarrow> bool" where
  "sourcePathDualEndpointStrategyEnabled e \<longleftrightarrow>
     sourcePathDataStrategyMode e = sourcePathDataStrategyDualEndpoint"

definition sourcePathSingleSourceStrategyEnabled :: "env \<Rightarrow> bool" where
  "sourcePathSingleSourceStrategyEnabled e \<longleftrightarrow>
     sourcePathDataStrategyMode e = sourcePathDataStrategySingleSource"

definition sourcePathAuxSocketCount :: "env \<Rightarrow> int" where
  "sourcePathAuxSocketCount e =
     (if \<not> sourcePathEnabled e then 0
      else case lookupSrcSelAuxSockets e of
        None \<Rightarrow> sourcePathDefaultAuxSockets
      | Some n \<Rightarrow> if n < 0 then 0 else if n > sourcePathMaxAuxSockets then sourcePathMaxAuxSockets else n)"

definition sourcePathProbeMaxPeerCount :: "env \<Rightarrow> int" where
  "sourcePathProbeMaxPeerCount e = (let n = envknobSrcSelMaxPeers e in
     if n < 0 then 0 else if n = 0 then sourcePathProbeMaxPeers else n)"

definition sourcePathProbeMaxBurstCount :: "env \<Rightarrow> int" where
  "sourcePathProbeMaxBurstCount e = (let n = envknobSrcSelMaxProbeBurst e in
     if n \<le> 0 then max sourcePathProbeMaxBurst (sourcePathAuxSocketCount e * 2) else n)"

definition sourcePathProbeHardPendingCount :: "env \<Rightarrow> int" where
  "sourcePathProbeHardPendingCount e = (let n = envknobSrcSelMaxPending e in
     if n = 0 then sourcePathProbeHardPendingCap else n)"

definition sourcePathProbeSampleLimitCount :: "env \<Rightarrow> int" where
  "sourcePathProbeSampleLimitCount e = (let n = envknobSrcSelMaxSamples e in
     if n = 0 then sourcePathProbeHistoryLimit else n)"

definition sourcePathProbeOutcomeLimitCount :: "env \<Rightarrow> int" where
  "sourcePathProbeOutcomeLimitCount e = (let n = envknobSrcSelMaxOutcomes e in
     if n = 0 then sourcePathProbeOutcomeLimit else n)"

definition sourcePathAuxBeatThresholdPercentValue :: "env \<Rightarrow> int" where
  "sourcePathAuxBeatThresholdPercentValue e = (let n = envknobSrcSelAuxBeatThresholdPct e in
     if n < 0 then 0 else if n = 0 then sourcePathAuxBeatThresholdPercent
     else if n > 100 then 100 else n)"

definition sourcePathProfileMode :: "env \<Rightarrow> string" where
  "sourcePathProfileMode e = toLower (envknobSrcSelProfile e)"

definition sourcePathMultiMetricEnabled :: "env \<Rightarrow> bool" where
  "sourcePathMultiMetricEnabled e \<longleftrightarrow>
     envknobSrcSelMultiMetric e \<or> sourcePathProfileMode e = ''realtime''"

definition sourcePathProbeIntervalValue :: "env \<Rightarrow> duration" where
  "sourcePathProbeIntervalValue e = (case lookupSrcSelProbeIntervalMS e of
     None \<Rightarrow> sourcePathRealtimeProbeEvery
   | Some n \<Rightarrow>
       if n = 0 \<and> sourcePathProfileMode e = ''realtime'' then sourcePathRealtimeProbeEvery
       else if n \<le> 0 then 0
       else let d = dmul n millisecond in
         if d < sourcePathProbeIntervalFloor then sourcePathProbeIntervalFloor else d)"

definition sourcePathSampleTTLValue :: "env \<Rightarrow> duration" where
  "sourcePathSampleTTLValue e = (let n = envknobSrcSelSampleTTLS e in
     if n > 0 then dmul n second
     else if sourcePathProfileMode e = ''realtime'' then sourcePathRealtimeSampleTTL
     else sourcePathSampleTTL)"

definition sourcePathLossWindowValue :: "env \<Rightarrow> duration" where
  "sourcePathLossWindowValue e = (let n = envknobSrcSelLossWindowS e in
     if n \<le> 0 then sourcePathLossWindow else dmul n second)"

definition sourcePathLatencyMaxValue :: "env \<Rightarrow> duration" where
  "sourcePathLatencyMaxValue e = (let n = envknobSrcSelLatencyMaxMS e in
     if n \<le> 0 then sourcePathLatencyMax else dmul n millisecond)"

definition sourcePathJitterMaxValue :: "env \<Rightarrow> duration" where
  "sourcePathJitterMaxValue e = (let n = envknobSrcSelJitterMaxMS e in
     if n \<le> 0 then sourcePathJitterMax else dmul n millisecond)"

definition sourcePathLossMaxValue :: "env \<Rightarrow> float64" where
  "sourcePathLossMaxValue e = (let n = envknobSrcSelLossMaxPct e in
     if n \<le> 0 then sourcePathLossMax else fdiv (fOfInt n) (fOfInt 100))"

definition sourcePathScoreImprovePctValue :: "env \<Rightarrow> int" where
  "sourcePathScoreImprovePctValue e = (let n = envknobSrcSelScoreImprovePct e in
     if n \<le> 0 then sourcePathScoreImprovePct else n)"

record sourcePathScoreWeights =
  wLatency :: float64
  wJitter :: float64
  wLoss :: float64

text \<open>
  \<open>strconv.ParseFloat\<close> is the parameter \<open>parseFloat\<close>, \<open>None\<close> for its error.
\<close>

definition applyWeightField ::
    "(string \<Rightarrow> float64 option) \<Rightarrow> sourcePathScoreWeights \<Rightarrow> string \<Rightarrow> sourcePathScoreWeights" where
  "applyWeightField parseFloat w field = (case cut (CHR ''='') (trimSpace field) of
     None \<Rightarrow> w
   | Some (key, val) \<Rightarrow> (case parseFloat (trimSpace val) of
       None \<Rightarrow> w
     | Some f \<Rightarrow>
         if flt f (Fin 0) then w
         else let k = toLower (trimSpace key) in
           if k = ''lat'' \<or> k = ''latency'' then w\<lparr>wLatency := f\<rparr>
           else if k = ''jit'' \<or> k = ''jitter'' then w\<lparr>wJitter := f\<rparr>
           else if k = ''loss'' then w\<lparr>wLoss := f\<rparr>
           else w))"

definition sourcePathScoreWeightsValue ::
    "(string \<Rightarrow> float64 option) \<Rightarrow> env \<Rightarrow> sourcePathScoreWeights" where
  "sourcePathScoreWeightsValue parseFloat e =
     foldl (applyWeightField parseFloat)
       \<lparr>wLatency = toF (30 / 100), wJitter = toF (40 / 100), wLoss = toF (30 / 100)\<rparr>
       (splitOn (CHR '','') (envknobSrcSelScoreWeights e))"

definition sourcePathDualSendEnabled :: "env \<Rightarrow> bool" where
  "sourcePathDualSendEnabled e \<longleftrightarrow>
     sourcePathDataStrategyMode e = sourcePathDataStrategyDualSend
     \<and> sourcePathOptBoolDefaultTrue (envknobSrcSelDualSend e)
     \<and> sourcePathAuxSocketCount e > 0"

definition sourcePathDualSendAuxDropStreakValue :: "env \<Rightarrow> int" where
  "sourcePathDualSendAuxDropStreakValue e = (let n = envknobSrcSelDualSendAuxDrop e in
     if n \<le> 0 then sourcePathDualSendAuxDropStreak else n)"

definition sourcePathDualSendAuxProbeDropStreakValue :: "env \<Rightarrow> int" where
  "sourcePathDualSendAuxProbeDropStreakValue e = (let n = envknobSrcSelDualSendAuxProbeDrop e in
     if n \<le> 0 then sourcePathDualSendAuxProbeDropStreak else n)"

definition sourcePathDualSendRecoveryValue :: "env \<Rightarrow> duration" where
  "sourcePathDualSendRecoveryValue e = (let n = envknobSrcSelDualSendRecoveryS e in
     if n \<le> 0 then sourcePathDualSendRecovery else dmul n second)"

definition sourcePathDualSendMaxSkewValue :: "env \<Rightarrow> duration" where
  "sourcePathDualSendMaxSkewValue e = (let n = envknobSrcSelDualSendMaxSkewMS e in
     if n \<le> 0 then sourcePathDualSendMaxSkew else dmul n millisecond)"

definition sourcePathActiveBackupEnabled :: "env \<Rightarrow> bool" where
  "sourcePathActiveBackupEnabled e \<longleftrightarrow>
     sourcePathDataStrategyMode e = sourcePathDataStrategyActiveBackup
     \<and> envknobSrcSelActiveBackup e
     \<and> sourcePathAuxSocketCount e > 0"

definition sourcePathActiveBackupPrimaryFailStreakValue :: "env \<Rightarrow> int" where
  "sourcePathActiveBackupPrimaryFailStreakValue e = (let n = envknobSrcSelPrimaryFailStreak e in
     if n \<le> 0 then sourcePathActiveBackupPrimaryFailStreak else n)"

definition sourcePathActiveBackupFailoverHoldValue :: "env \<Rightarrow> duration" where
  "sourcePathActiveBackupFailoverHoldValue e = (let n = envknobSrcSelFailoverHoldS e in
     if n < 0 then 0 else if n = 0 then sourcePathActiveBackupFailoverHold else dmul n second)"

definition sourcePathActiveBackupRecoveryPongsValue :: "env \<Rightarrow> int" where
  "sourcePathActiveBackupRecoveryPongsValue e = (let n = envknobSrcSelFailoverRecovery e in
     if n \<le> 0 then sourcePathActiveBackupRecoveryPongs else n)"

definition sourcePathFlowAwareEnabled :: "env \<Rightarrow> bool" where
  "sourcePathFlowAwareEnabled e \<longleftrightarrow>
     sourcePathSingleSourceStrategyEnabled e
     \<and> envknobSrcSelFlowAware e
     \<and> sourcePathAuxSocketCount e > 0"

definition sourcePathBalancePolicyValue :: "env \<Rightarrow> string" where
  "sourcePathBalancePolicyValue e = (let s = toLower (envknobSrcSelBalancePolicy e) in
     if s \<in> set [''rr'', ''xor'', ''aware''] then s else ''aware'')"

definition sourcePathFlowIdleValue :: "env \<Rightarrow> duration" where
  "sourcePathFlowIdleValue e = (let n = envknobSrcSelFlowIdleS e in
     if n < 0 then 0 else if n = 0 then sourcePathFlowIdle else dmul n second)"

definition sourcePathFlowMaxEntriesValue :: "env \<Rightarrow> int" where
  "sourcePathFlowMaxEntriesValue e = (let n = envknobSrcSelFlowMax e in
     if n < 0 then 0 else if n = 0 then sourcePathFlowMaxEntries else n)"

definition sourcePathForcedDataSourceMode :: "env \<Rightarrow> string" where
  "sourcePathForcedDataSourceMode e = toLower (envknobSrcSelForceDataSource e)"

section \<open>Bounds\<close>

lemma auxSocketCount_bounds [config]:
  "0 \<le> sourcePathAuxSocketCount e" "sourcePathAuxSocketCount e \<le> 32"
  by (auto simp: sourcePathAuxSocketCount_def srcsel_consts split: option.splits)

lemma maxBurst_pos [config]: "0 < sourcePathProbeMaxBurstCount e"
  by (auto simp: sourcePathProbeMaxBurstCount_def srcsel_consts Let_def)

lemma maxPeers_nonneg [config]: "0 \<le> sourcePathProbeMaxPeerCount e"
  by (auto simp: sourcePathProbeMaxPeerCount_def srcsel_consts Let_def)

lemma threshold_bounds [config]:
  "0 \<le> sourcePathAuxBeatThresholdPercentValue e" "sourcePathAuxBeatThresholdPercentValue e \<le> 100"
  by (auto simp: sourcePathAuxBeatThresholdPercentValue_def srcsel_consts Let_def)

lemma streaks_pos [config]:
  "0 < sourcePathDualSendAuxDropStreakValue e"
  "0 < sourcePathDualSendAuxProbeDropStreakValue e"
  "0 < sourcePathActiveBackupPrimaryFailStreakValue e"
  "0 < sourcePathActiveBackupRecoveryPongsValue e"
  by (auto simp: sourcePathDualSendAuxDropStreakValue_def srcsel_consts Let_def
      sourcePathDualSendAuxProbeDropStreakValue_def sourcePathActiveBackupPrimaryFailStreakValue_def
      sourcePathActiveBackupRecoveryPongsValue_def)

lemma probeInterval_floor [config]:
  "sourcePathProbeIntervalValue e = 0 \<or> sourcePathProbeIntervalFloor \<le> sourcePathProbeIntervalValue e"
  by (auto simp: sourcePathProbeIntervalValue_def srcsel_consts Let_def split: option.splits)

lemma flowMax_nonneg [config]: "0 \<le> sourcePathFlowMaxEntriesValue e"
  by (auto simp: sourcePathFlowMaxEntriesValue_def srcsel_consts Let_def)

lemma strategies_exclusive:
  "sourcePathDualSendEnabled e \<Longrightarrow> \<not> sourcePathActiveBackupEnabled e \<and> \<not> sourcePathFlowAwareEnabled e"
  "sourcePathActiveBackupEnabled e \<Longrightarrow> \<not> sourcePathFlowAwareEnabled e"
  by (auto simp: sourcePathDualSendEnabled_def sourcePathActiveBackupEnabled_def
      sourcePathFlowAwareEnabled_def sourcePathSingleSourceStrategyEnabled_def strategy_names)

end
