(* ===== verification/Addr_Quality.thy ===== *)
theory Addr_Quality
  imports Netip Srcsel_Config
begin

text \<open>
  Comparing paths to a peer: \<open>betterAddr\<close> and the direct-versus-relay gate and hysteresis of
  \<open>src/wgengine/magicsock/endpoint.go\<close> and \<open>src/wgengine/magicsock/directvsrelay.go\<close>, and the two
  conversions between packet length and disco ping size.
\<close>

section \<open>Data and knobs\<close>

record addrQuality =
  aqAddr :: epAddr
  aqRelayServerDisco :: "u8 list"
  aqLatency :: duration
  aqWireMTU :: u32

definition zeroAddrQuality :: addrQuality where
  "zeroAddrQuality = \<lparr>aqAddr = zeroEpAddr, aqRelayServerDisco = replicate 32 0, aqLatency = 0, aqWireMTU = 0\<rparr>"

record dvrEnv =
  envknobDirectVsRelayCompare :: bool
  envknobDirectVsRelayCompareInterv :: int
  envknobDirectVsRelayHold :: int
  envknobDirectVsRelayThresholdPct :: int

definition directVsRelayCompareInterval :: duration where "directVsRelayCompareInterval = 5 * minute"
definition directVsRelayHoldDuration :: duration where "directVsRelayHoldDuration = 5 * minute"
definition directVsRelayThresholdPercent :: int where "directVsRelayThresholdPercent = 10"

lemmas dvr_consts = directVsRelayCompareInterval_def directVsRelayHoldDuration_def directVsRelayThresholdPercent_def

definition directVsRelayCompareEnabled :: "dvrEnv \<Rightarrow> bool" where
  "directVsRelayCompareEnabled d = envknobDirectVsRelayCompare d"

definition directVsRelayCompareIntervalValue :: "dvrEnv \<Rightarrow> duration" where
  "directVsRelayCompareIntervalValue d = (let n = envknobDirectVsRelayCompareInterv d in
     if n \<le> 0 then directVsRelayCompareInterval else dmul n second)"

definition directVsRelayHoldDurationValue :: "dvrEnv \<Rightarrow> duration" where
  "directVsRelayHoldDurationValue d = (let n = envknobDirectVsRelayHold d in
     if n \<le> 0 then directVsRelayHoldDuration else dmul n second)"

definition directVsRelayThresholdValue :: "dvrEnv \<Rightarrow> int" where
  "directVsRelayThresholdValue d = (let n = envknobDirectVsRelayThresholdPct d in
     if n < 0 then 0 else if n = 0 then directVsRelayThresholdPercent else if n > 100 then 100 else n)"

section \<open>The latency gate\<close>

definition directBeatsRelayByThresholdLocked :: "duration \<Rightarrow> duration \<Rightarrow> int \<Rightarrow> bool" where
  "directBeatsRelayByThresholdLocked directLat relayLat thresholdPct =
     (if directLat \<le> 0 \<or> relayLat \<le> 0 then False
      else if thresholdPct \<le> 0 then False
      else let thresholdPct' = (if thresholdPct > 100 then 100 else thresholdPct)
        in i64 (directLat * 100) < i64 (relayLat * (100 - thresholdPct')))"

definition relayBeatsDirectByThresholdLocked :: "duration \<Rightarrow> duration \<Rightarrow> int \<Rightarrow> bool" where
  "relayBeatsDirectByThresholdLocked directLat relayLat thresholdPct =
     directBeatsRelayByThresholdLocked relayLat directLat thresholdPct"

section \<open>betterAddr\<close>

definition addrBonus :: "addr \<Rightarrow> int" where
  "addrBonus a = (if addrIsLoopback a then 50 else if addrIsLinkLocalUnicast a then 30
     else if addrIsPrivate a then 20 else 0) + (if is6 a then 10 else 0)"

text \<open>The points from latency alone, \<open>(aPoints, bPoints)\<close>.\<close>

definition latencyPoints :: "duration \<Rightarrow> duration \<Rightarrow> int \<times> int" where
  "latencyPoints la lb =
     (if la > lb \<and> la > 0 then (0, i64 (100 - quot (dmul lb 100) la))
      else if lb > 0 then (i64 (100 - quot (dmul la 100) lb), 0)
      else (0, 0))"

definition betterAddr :: "dvrEnv \<Rightarrow> addrQuality \<Rightarrow> addrQuality \<Rightarrow> bool" where
  "betterAddr d a b =
     (if aqAddr a = aqAddr b then aqWireMTU a > aqWireMTU b
      else if \<not> apIsValid (ap (aqAddr b)) then True
      else if \<not> apIsValid (ap (aqAddr a)) then False
      else if \<not> vniIsSet (vni (aqAddr a)) \<and> vniIsSet (vni (aqAddr b))
        then \<not> (directVsRelayCompareEnabled d
               \<and> relayBeatsDirectByThresholdLocked (aqLatency a) (aqLatency b) (directVsRelayThresholdValue d))
      else if vniIsSet (vni (aqAddr a)) \<and> \<not> vniIsSet (vni (aqAddr b))
        then directVsRelayCompareEnabled d
               \<and> relayBeatsDirectByThresholdLocked (aqLatency b) (aqLatency a) (directVsRelayThresholdValue d)
      else
        let (aP, bP) = latencyPoints (aqLatency a) (aqLatency b);
            aPoints = i64 (aP + addrBonus (apAddr (ap (aqAddr a))));
            bPoints = i64 (bP + addrBonus (apAddr (ap (aqAddr b))))
        in if aPoints \<le> 1 \<and> bPoints = 0 then False else aPoints > bPoints)"

section \<open>Hysteresis\<close>

text \<open>\<open>last\<close> is \<open>de.lastDirectVsRelaySwap\<close>.\<close>

definition wouldAllowDirectVsRelaySwapLocked :: "dvrEnv \<Rightarrow> mono \<Rightarrow> addrQuality \<Rightarrow> addrQuality \<Rightarrow> mono \<Rightarrow> bool" where
  "wouldAllowDirectVsRelaySwapLocked d lastSwap cur maybe now =
     (if \<not> directVsRelayCompareEnabled d then True
      else if \<not> apIsValid (ap (aqAddr cur)) then True
      else
        let curIsDirect = \<not> vniIsSet (vni (aqAddr cur));
            maybeIsDirect = \<not> vniIsSet (vni (aqAddr maybe))
        in if curIsDirect = maybeIsDirect then True
           else if mzero lastSwap then True
           else msub now lastSwap \<ge> directVsRelayHoldDurationValue d)"

definition noteDirectVsRelaySwapLocked :: "dvrEnv \<Rightarrow> addrQuality \<Rightarrow> addrQuality \<Rightarrow> mono \<Rightarrow> mono \<Rightarrow> mono" where
  "noteDirectVsRelaySwapLocked d prev nowAddr now lastSwap =
     (if \<not> directVsRelayCompareEnabled d then lastSwap
      else if \<not> apIsValid (ap (aqAddr prev)) then lastSwap
      else if vniIsSet (vni (aqAddr prev)) \<noteq> vniIsSet (vni (aqAddr nowAddr)) then now
      else lastSwap)"

section \<open>Packet length and ping size\<close>

text \<open>The wire MTUs of \<open>src/net/tstun/mtu.go\<close>, 32-bit words there.\<close>

definition wgHeaderLen :: u32 where "wgHeaderLen = 40 + 8 + 4 + 4 + 8 + 16"
definition safeTUNMTU :: u32 where "safeTUNMTU = 1280"

definition TUNToWireMTU :: "u32 \<Rightarrow> u32" where
  "TUNToWireMTU t = t + wgHeaderLen"

definition WireToTUNMTU :: "u32 \<Rightarrow> u32" where
  "WireToTUNMTU w = (if w < wgHeaderLen then 0 else w - wgHeaderLen)"

definition SafeWireMTU :: u32 where
  "SafeWireMTU = TUNToWireMTU safeTUNMTU"

definition WireMTUsToProbe :: "u32 list" where
  "WireMTUsToProbe = [safeTUNMTU, TUNToWireMTU safeTUNMTU, 1400, 1500, 8000, 9000]"

definition pingSizeToPktLen :: "int \<Rightarrow> epAddr \<Rightarrow> u32" where
  "pingSizeToPktLen sz udpAddr =
     (if sz = 0 then SafeWireMTU
      else
        let headerLen0 = (if is6 (apAddr (ap udpAddr)) then 40 else 20) + 8;
            headerLen = (if vniIsSet (vni udpAddr) then headerLen0 + 8 else headerLen0)
        in word_of_int (sz + headerLen))"

definition pktLenToPingSize :: "u32 \<Rightarrow> bool \<Rightarrow> int" where
  "pktLenToPingSize mtu v6 =
     (if mtu = 0 then 0
      else let headerLen = (if v6 then 40 else 20) + 8 :: int in
        if mtu < word_of_int headerLen then 0 else uint mtu - headerLen)"

text \<open>\<open>mtuProbePingSizesV4\<close> and \<open>mtuProbePingSizesV6\<close>, filled by \<open>init\<close>.\<close>

definition mtuProbePingSizes :: "bool \<Rightarrow> int list" where
  "mtuProbePingSizes v6 = map (\<lambda>m. pktLenToPingSize m v6) WireMTUsToProbe"

section \<open>Properties\<close>

lemma latencyPoints_swap:
  assumes "la \<noteq> lb \<or> la \<le> 0 \<or> lb < 2 ^ 56"
  shows "latencyPoints lb la = prod.swap (latencyPoints la lb)"
proof (cases "la = lb")
  case True
  have "i64 (100 - quot (dmul lb 100) lb) = 0" if "0 < lb" "lb < 2 ^ 56"
  proof -
    have "dmul lb 100 = lb * 100" unfolding dmul_def by (rule i64_id) (use that in \<open>simp add: is_i64_def\<close>)
    then show ?thesis using that by (simp add: quot_nonneg i64_def)
  qed
  with True assms show ?thesis by (auto simp: latencyPoints_def)
qed (auto simp: latencyPoints_def)

text \<open>
  \<open>betterAddr\<close> never prefers each of two paths to the other: if it reports that a is better
  than b, it does not report that b is better than a. At least one of the two addresses must be
  valid, and equal latencies below two years, so that the percentage does not overflow.
\<close>

theorem betterAddr_asymmetric:
  assumes "apIsValid (ap (aqAddr a)) \<or> apIsValid (ap (aqAddr b))"
    "aqLatency a \<noteq> aqLatency b \<or> aqLatency a < 2 ^ 56"
    "betterAddr d a b"
  shows "\<not> betterAddr d b a"
proof -
  have swap: "latencyPoints (aqLatency b) (aqLatency a) = prod.swap (latencyPoints (aqLatency a) (aqLatency b))"
    using assms(2) by (intro latencyPoints_swap) auto
  obtain p q where pq: "latencyPoints (aqLatency a) (aqLatency b) = (p, q)" by (cases "latencyPoints (aqLatency a) (aqLatency b)")
  show ?thesis using assms(1,3) by (auto simp: betterAddr_def swap pq Let_def split: if_splits)
qed

text \<open>
  Relay against direct. With the comparison knob off a direct path is always preferred to a
  relayed one and never the other way round; with it on, the relayed path is preferred exactly
  when both latencies are known and the relay is faster by more than the threshold.
\<close>

theorem relay_preferred_iff_faster_by_threshold:
  assumes "apIsValid (ap (aqAddr direct))" "apIsValid (ap (aqAddr relay))"
    "\<not> vniIsSet (vni (aqAddr direct))" "vniIsSet (vni (aqAddr relay))"
    "aqLatency direct < 2 ^ 56" "aqLatency relay < 2 ^ 56"
  shows "(betterAddr d relay direct \<longleftrightarrow> directVsRelayCompareEnabled d
       \<and> 0 < directVsRelayThresholdValue d \<and> 0 < aqLatency direct \<and> 0 < aqLatency relay
       \<and> aqLatency relay * 100 < aqLatency direct * (100 - directVsRelayThresholdValue d))
    \<and> (betterAddr d direct relay \<longleftrightarrow> \<not> betterAddr d relay direct)"
proof -
  let ?t = "directVsRelayThresholdValue d"
  have t: "0 \<le> ?t" "?t \<le> 100" by (auto simp: directVsRelayThresholdValue_def dvr_consts Let_def)
  have gate: "relayBeatsDirectByThresholdLocked (aqLatency direct) (aqLatency relay) ?t \<longleftrightarrow>
      0 < ?t \<and> 0 < aqLatency direct \<and> 0 < aqLatency relay \<and> aqLatency relay * 100 < aqLatency direct * (100 - ?t)"
  proof (cases "0 < aqLatency direct \<and> 0 < aqLatency relay \<and> 0 < ?t")
    case True
    have "i64 (aqLatency relay * 100) = aqLatency relay * 100"
      by (rule i64_id, rule is_i64_nonneg [OF _ order_refl]) (use True assms(6) in simp_all)
    moreover have "i64 (aqLatency direct * (100 - ?t)) = aqLatency direct * (100 - ?t)"
    proof (rule i64_id, rule is_i64_nonneg)
      show "0 \<le> aqLatency direct * (100 - ?t)" using True t by simp
      show "aqLatency direct * (100 - ?t) \<le> aqLatency direct * 100" using True t by (intro mult_left_mono) auto
      show "aqLatency direct * 100 < 2 ^ 63" using assms(5) by simp
    qed
    ultimately show ?thesis using True t
      by (simp add: relayBeatsDirectByThresholdLocked_def directBeatsRelayByThresholdLocked_def Let_def)
  qed (auto simp: relayBeatsDirectByThresholdLocked_def directBeatsRelayByThresholdLocked_def)
  have ne: "aqAddr relay \<noteq> aqAddr direct" using assms(3,4) by auto
  then show ?thesis using assms(1-4) gate by (auto simp: betterAddr_def)
qed

text \<open>
  Hysteresis. Once a swap between direct and relay is noted at time \<open>t\<close>, the next
  latency-driven swap between the two categories is allowed exactly from \<open>t\<close> plus the hold time
  on; swaps within a category and the first path after none are always allowed.
\<close>

theorem category_swaps_spaced_by_hold:
  assumes "directVsRelayCompareEnabled d" "clock t" "clock now" "0 < t"
    "apIsValid (ap (aqAddr prev))" "vniIsSet (vni (aqAddr prev)) \<noteq> vniIsSet (vni (aqAddr cur))"
  shows "wouldAllowDirectVsRelaySwapLocked d (noteDirectVsRelaySwapLocked d prev cur t lastSwap) cur maybe now \<longleftrightarrow>
     \<not> apIsValid (ap (aqAddr cur))
     \<or> vniIsSet (vni (aqAddr cur)) = vniIsSet (vni (aqAddr maybe))
     \<or> now \<ge> t + directVsRelayHoldDurationValue d"
proof -
  have "noteDirectVsRelaySwapLocked d prev cur t lastSwap = t" using assms by (simp add: noteDirectVsRelaySwapLocked_def)
  then show ?thesis using assms(1-4)
    by (auto simp: wouldAllowDirectVsRelaySwapLocked_def mzero_def msub_clock Let_def)
qed

text \<open>
  MTU probes round-trip: the ping size computed for a wire MTU of at least one byte of payload
  gives back that MTU as the packet length of a ping of this size to a direct address of the same
  family.
\<close>

theorem ping_size_roundtrip:
  assumes "\<not> vniIsSet (vni dst)" "(if is6 (apAddr (ap dst)) then 48 else 28) < mtu"
  shows "pingSizeToPktLen (pktLenToPingSize mtu (is6 (apAddr (ap dst)))) dst = mtu"
proof -
  have u: "(if is6 (apAddr (ap dst)) then 48 else 28) < uint mtu"
    using assms(2) by (auto simp: word_less_def split: if_splits)
  then have "\<not> mtu < word_of_int (if is6 (apAddr (ap dst)) then 48 else 28)" "mtu \<noteq> 0"
    by (auto simp: word_less_def split: if_splits)
  with u assms(1) show ?thesis
    by (auto simp: pingSizeToPktLen_def pktLenToPingSize_def Let_def split: if_splits)
qed

section \<open>Witnesses\<close>

definition exDirectAQ :: "duration \<Rightarrow> addrQuality" where
  "exDirectAQ l = \<lparr>aqAddr = \<lparr>ap = \<lparr>apAddr = AddrV4 0x01020304, apPort = 1\<rparr>, vni = 0\<rparr>, aqRelayServerDisco = [], aqLatency = l, aqWireMTU = 0\<rparr>"

definition exRelayAQ :: "duration \<Rightarrow> addrQuality" where
  "exRelayAQ l = \<lparr>aqAddr = \<lparr>ap = \<lparr>apAddr = AddrV4 0x01020305, apPort = 1\<rparr>, vni = vniSet 7\<rparr>, aqRelayServerDisco = [], aqLatency = l, aqWireMTU = 0\<rparr>"

definition exDvr :: dvrEnv where
  "exDvr = \<lparr>envknobDirectVsRelayCompare = True, envknobDirectVsRelayCompareInterv = 0, envknobDirectVsRelayHold = 0, envknobDirectVsRelayThresholdPct = 0\<rparr>"

theorem betterAddr_asymmetric_witness:
  "betterAddr exDvr (exRelayAQ 50) (exDirectAQ 100) \<and> \<not> betterAddr exDvr (exDirectAQ 100) (exRelayAQ 50)"
proof -
  have "betterAddr exDvr (exRelayAQ 50) (exDirectAQ 100)" "apIsValid (ap (aqAddr (exRelayAQ 50)))" by code_simp+
  with betterAddr_asymmetric [of "exRelayAQ 50" "exDirectAQ 100" exDvr] show ?thesis by (simp add: exRelayAQ_def exDirectAQ_def)
qed

theorem relay_preferred_iff_faster_by_threshold_witness:
  "betterAddr exDvr (exRelayAQ 50) (exDirectAQ 100) \<longleftrightarrow> 50 * 100 < 100 * (100 - 10 :: int)"
proof -
  have h: "apIsValid (ap (aqAddr (exDirectAQ 100)))" "apIsValid (ap (aqAddr (exRelayAQ 50)))"
    "\<not> vniIsSet (vni (aqAddr (exDirectAQ 100)))" "vniIsSet (vni (aqAddr (exRelayAQ 50)))"
    "aqLatency (exDirectAQ 100) < 2 ^ 56" "aqLatency (exRelayAQ 50) < 2 ^ 56"
    "directVsRelayCompareEnabled exDvr" "directVsRelayThresholdValue exDvr = 10" by code_simp+
  from relay_preferred_iff_faster_by_threshold [OF h(1-6), of exDvr] h(7,8) show ?thesis
    by (simp add: exRelayAQ_def exDirectAQ_def)
qed

theorem category_swaps_spaced_by_hold_witness:
  "\<not> wouldAllowDirectVsRelaySwapLocked exDvr
       (noteDirectVsRelaySwapLocked exDvr (exDirectAQ 100) (exRelayAQ 50) 1000 0) (exRelayAQ 50) (exDirectAQ 10) 2000"
proof -
  have h: "directVsRelayCompareEnabled exDvr" "clock 1000" "clock 2000" "0 < (1000 :: int)"
    "apIsValid (ap (aqAddr (exDirectAQ 100)))"
    "vniIsSet (vni (aqAddr (exDirectAQ 100))) \<noteq> vniIsSet (vni (aqAddr (exRelayAQ 50)))" by code_simp+
  have "apIsValid (ap (aqAddr (exRelayAQ 50)))" "vniIsSet (vni (aqAddr (exRelayAQ 50))) \<noteq> vniIsSet (vni (aqAddr (exDirectAQ 10)))"
    "\<not> 2000 \<ge> 1000 + directVsRelayHoldDurationValue exDvr" by code_simp+
  with category_swaps_spaced_by_hold [OF h, of 0 "exDirectAQ 10"] show ?thesis by blast
qed

theorem ping_size_roundtrip_witness:
  "pingSizeToPktLen (pktLenToPingSize 1500 False) (aqAddr (exDirectAQ 0)) = 1500"
proof -
  have "\<not> vniIsSet (vni (aqAddr (exDirectAQ 0)))" "\<not> is6 (apAddr (ap (aqAddr (exDirectAQ 0))))" by code_simp+
  with ping_size_roundtrip [of "aqAddr (exDirectAQ 0)" 1500] show ?thesis by simp
qed

end
