(* ===== verification/Srcsel_Probe.thy ===== *)
theory Srcsel_Probe
  imports Srcsel_Config Netip
begin

text \<open>
  The probe manager of \<open>src/wgengine/magicsock/sourcepath.go\<close>
  (\<open>sourcePathProbeManager\<close>): pending probes, accepted samples, probe outcomes, and the
  operations on them. A method with a pointer receiver takes the manager and returns it updated;
  \<open>mono.Now()\<close> is the argument \<open>now\<close>. Metrics counters and log lines are left out: the
  code writes them and never reads them.
\<close>

section \<open>Data\<close>

type_synonym txID = "u8 list"
type_synonym discoKey = "u8 list"

record sourceRxMeta =
  rxSocketID :: u32
  rxGeneration :: u64

definition primarySourceSocketID :: u32 where
  "primarySourceSocketID = 0"

definition primarySourceRxMeta :: sourceRxMeta where
  "primarySourceRxMeta = \<lparr>rxSocketID = primarySourceSocketID, rxGeneration = 0\<rparr>"

definition isPrimary :: "sourceRxMeta \<Rightarrow> bool" where
  "isPrimary m \<longleftrightarrow> rxSocketID m = primarySourceSocketID"

record sourcePathProbeTx =
  txTxid :: txID
  txDst :: epAddr
  txDstDisco :: discoKey
  txSource :: sourceRxMeta
  txAt :: mono
  txSize :: int

record sourcePathProbeSample =
  smTxid :: txID
  smDst :: epAddr
  smPongFrom :: epAddr
  smPongSrc :: addrPort
  smSource :: sourceRxMeta
  smLatency :: duration
  smAt :: mono

record sourcePathProbeOutcome =
  ocDst :: epAddr
  ocSource :: sourceRxMeta
  ocAt :: mono
  ocLost :: bool

record sourcePathActiveBackupState =
  abSendFailStreak :: int
  abFailoverAt :: mono
  abHoldUntil :: mono
  abSource :: sourceRxMeta

record sourcePathDualSendKey =
  dkDst :: epAddr
  dkSource :: sourceRxMeta

record sourcePathFlowKey =
  fkDst :: epAddr
  fkId :: u64

record sourcePathFlowState =
  fsSource :: sourceRxMeta
  fsLastActivity :: mono

record sourcePathAuxRotation =
  roDst :: epAddr
  roSource :: sourceRxMeta
  roReason :: string

text \<open>
  A nil map and an empty map differ only in that writing to the former panics. Every map but one
  is made in the critical section that writes it, so they start as empty lists;
  \<open>activeBackup\<close> is also written after the lock was released and taken again, so it keeps the
  distinction (\<open>None\<close> is nil).
\<close>

record sourcePathProbeManager =
  pmPending :: "(txID, sourcePathProbeTx) gomap"
  pmSamples :: "sourcePathProbeSample list"
  pmOutcomes :: "sourcePathProbeOutcome list"
  pmActiveBackup :: "(epAddr, sourcePathActiveBackupState) gomap option"
  pmAuxFailStreak :: "(sourcePathDualSendKey, int) gomap"
  pmAuxProbeLoss :: "(sourcePathDualSendKey, int) gomap"
  pmDemotedAuxTill :: "(sourcePathDualSendKey, mono) gomap"
  pmFlowMap :: "(sourcePathFlowKey, sourcePathFlowState) gomap"
  pmFlowRR :: "(epAddr, u64) gomap"

definition emptyManager :: sourcePathProbeManager where
  "emptyManager = \<lparr>pmPending = [], pmSamples = [], pmOutcomes = [], pmActiveBackup = None,
     pmAuxFailStreak = [], pmAuxProbeLoss = [], pmDemotedAuxTill = [], pmFlowMap = [], pmFlowRR = []\<rparr>"

datatype sourcePathProbeAddResult =
    sourcePathProbeAdded
  | sourcePathProbePeerBudgetExceeded
  | sourcePathProbeBurstBudgetExceeded
  | sourcePathProbeHardCapExceeded

section \<open>Outcomes\<close>

definition pruneExpiredOutcomesLocked :: "env \<Rightarrow> mono \<Rightarrow> sourcePathProbeManager \<Rightarrow> sourcePathProbeManager" where
  "pruneExpiredOutcomesLocked e now pm =
     (if pmOutcomes pm = [] then pm
      else let window = sourcePathLossWindowValue e in
        pm\<lparr>pmOutcomes := compactSlice (\<lambda>oc. \<not> msub now (ocAt oc) > window) (pmOutcomes pm)\<rparr>)"

definition noteOutcomeLocked ::
    "env \<Rightarrow> epAddr \<Rightarrow> sourceRxMeta \<Rightarrow> mono \<Rightarrow> bool \<Rightarrow> sourcePathProbeManager \<Rightarrow> sourcePathProbeManager" where
  "noteOutcomeLocked e dst source t lost pm =
     (let pm1 = pm\<lparr>pmOutcomes := pmOutcomes pm @ [\<lparr>ocDst = dst, ocSource = source, ocAt = t, ocLost = lost\<rparr>]\<rparr>;
          pm2 = pruneExpiredOutcomesLocked e t pm1
      in pm2\<lparr>pmOutcomes := capSlice (sourcePathProbeOutcomeLimitCount e) (pmOutcomes pm2)\<rparr>)"

section \<open>Pending probes\<close>

definition expiredTx :: "mono \<Rightarrow> sourcePathProbeTx \<Rightarrow> bool" where
  "expiredTx now tx \<longleftrightarrow> msub now (txAt tx) \<ge> pingTimeoutDuration"

text \<open>One turn of the loop of \<open>pruneExpiredLocked\<close>.\<close>

definition pruneExpiredStep ::
    "env \<Rightarrow> mono \<Rightarrow> sourcePathProbeManager \<times> sourcePathProbeTx list \<Rightarrow> txID \<times> sourcePathProbeTx
      \<Rightarrow> sourcePathProbeManager \<times> sourcePathProbeTx list" where
  "pruneExpiredStep e now st entry = (case (st, entry) of ((pm, expiredTxs), (txid, tx)) \<Rightarrow>
     if expiredTx now tx
     then (noteOutcomeLocked e (txDst tx) (txSource tx) now True
             (pm\<lparr>pmPending := gm_del txid (pmPending pm)\<rparr>), expiredTxs @ [tx])
     else (pm, expiredTxs))"

definition pruneExpiredLocked ::
    "env \<Rightarrow> mono \<Rightarrow> sourcePathProbeManager \<Rightarrow> sourcePathProbeManager \<times> sourcePathProbeTx list" where
  "pruneExpiredLocked e now pm = foldl (pruneExpiredStep e now) (pm, []) (pmPending pm)"

text \<open>
  The loop over pending probes that counts this peer's probes and the distinct peers; the state
  is \<open>(peerSeen, peerPending, seenPeers, peerCount)\<close>.
\<close>

definition peerScanStep ::
    "discoKey \<Rightarrow> bool \<times> int \<times> discoKey list \<times> int \<Rightarrow> sourcePathProbeTx \<Rightarrow> bool \<times> int \<times> discoKey list \<times> int" where
  "peerScanStep disco st p = (case st of (peerSeen, peerPending, seenPeers, peerCount) \<Rightarrow>
     let (peerSeen', peerPending') =
           (if txDstDisco p = disco then (True, peerPending + 1) else (peerSeen, peerPending))
     in if txDstDisco p \<in> set seenPeers then (peerSeen', peerPending', seenPeers, peerCount)
        else (peerSeen', peerPending', txDstDisco p # seenPeers, peerCount + 1))"

definition peerScan :: "discoKey \<Rightarrow> (txID, sourcePathProbeTx) gomap \<Rightarrow> bool \<times> int \<times> discoKey list \<times> int" where
  "peerScan disco m = foldl (peerScanStep disco) (False, 0, [], 0) (map snd m)"

definition peerPendingCount :: "discoKey \<Rightarrow> (txID, sourcePathProbeTx) gomap \<Rightarrow> int" where
  "peerPendingCount disco m = int (length (filter (\<lambda>p. txDstDisco p = disco) (map snd m)))"

definition addWithBudgetLocked ::
    "env \<Rightarrow> sourcePathProbeTx \<Rightarrow> int \<Rightarrow> int \<Rightarrow> int \<Rightarrow> sourcePathProbeManager
      \<Rightarrow> sourcePathProbeAddResult \<times> sourcePathProbeManager" where
  "addWithBudgetLocked e tx maxPeers maxBurst0 hardCap pm0 =
     (let pm = fst (pruneExpiredLocked e (txAt tx) pm0);
          maxBurst = (if maxBurst0 \<le> 0 then sourcePathProbeMaxBurst else maxBurst0)
      in if hardCap > 0 \<and> int (gm_len (pmPending pm)) \<ge> hardCap
         then (sourcePathProbeHardCapExceeded, pm)
         else
           let (peerBudget, peerPending) =
                 (if maxPeers > 0
                  then (case peerScan (txDstDisco tx) (pmPending pm) of
                    (peerSeen, peerPending, _, peerCount) \<Rightarrow> (\<not> peerSeen \<and> peerCount \<ge> maxPeers, peerPending))
                  else (False, peerPendingCount (txDstDisco tx) (pmPending pm)))
           in if peerBudget then (sourcePathProbePeerBudgetExceeded, pm)
              else if peerPending \<ge> maxBurst then (sourcePathProbeBurstBudgetExceeded, pm)
              else (sourcePathProbeAdded, pm\<lparr>pmPending := gm_set (txTxid tx) tx (pmPending pm)\<rparr>))"

definition addLocked ::
    "env \<Rightarrow> sourcePathProbeTx \<Rightarrow> sourcePathProbeManager \<Rightarrow> sourcePathProbeAddResult \<times> sourcePathProbeManager" where
  "addLocked e tx pm = addWithBudgetLocked e tx (sourcePathProbeMaxPeerCount e)
     (sourcePathProbeMaxBurstCount e) (sourcePathProbeHardPendingCount e) pm"

definition forgetLocked :: "txID \<Rightarrow> sourcePathProbeManager \<Rightarrow> sourcePathProbeManager" where
  "forgetLocked txid pm = pm\<lparr>pmPending := gm_del txid (pmPending pm)\<rparr>"

definition pendingLenLocked :: "sourcePathProbeManager \<Rightarrow> nat" where
  "pendingLenLocked pm = gm_len (pmPending pm)"

definition samplesLenLocked :: "sourcePathProbeManager \<Rightarrow> nat" where
  "samplesLenLocked pm = length (pmSamples pm)"

definition clearLocked :: "sourcePathProbeManager \<Rightarrow> sourcePathProbeManager" where
  "clearLocked pm = pm\<lparr>pmPending := [], pmSamples := [], pmOutcomes := [], pmActiveBackup := None,
     pmAuxFailStreak := [], pmAuxProbeLoss := [], pmDemotedAuxTill := [], pmFlowMap := [], pmFlowRR := []\<rparr>"

section \<open>Samples\<close>

definition pruneExpiredSamplesLocked :: "env \<Rightarrow> mono \<Rightarrow> sourcePathProbeManager \<Rightarrow> sourcePathProbeManager" where
  "pruneExpiredSamplesLocked e now pm =
     (if pmSamples pm = [] then pm
      else pm\<lparr>pmSamples := compactSlice (\<lambda>sm. \<not> msub now (smAt sm) > sourcePathSampleTTLValue e) (pmSamples pm)\<rparr>)"

text \<open>\<open>invalidateLocked\<close> returns how many samples it dropped, then the manager.\<close>

definition invalidateLocked ::
    "epAddr \<Rightarrow> sourceRxMeta \<Rightarrow> sourcePathProbeManager \<Rightarrow> nat \<times> sourcePathProbeManager" where
  "invalidateLocked dst source pm =
     (let hit = (\<lambda>sm. smDst sm = dst \<and> smSource sm = source) in
      (length (filter hit (pmSamples pm)), pm\<lparr>pmSamples := compactSlice (\<lambda>sm. \<not> hit sm) (pmSamples pm)\<rparr>))"

definition hasRecentSampleLocked ::
    "env \<Rightarrow> epAddr \<Rightarrow> sourceRxMeta \<Rightarrow> mono \<Rightarrow> sourcePathProbeManager \<Rightarrow> bool" where
  "hasRecentSampleLocked e dst source now pm =
     list_ex (\<lambda>sm. smDst sm = dst \<and> smSource sm = source
       \<and> msub now (smAt sm) \<le> sourcePathSampleTTLValue e) (pmSamples pm)"

text \<open>The fields of \<open>disco.Pong\<close> the manager reads.\<close>

record pongMsg =
  pgTxID :: txID
  pgSrc :: addrPort

definition handlePongLocked ::
    "env \<Rightarrow> pongMsg \<Rightarrow> discoKey \<Rightarrow> epAddr \<Rightarrow> sourceRxMeta \<Rightarrow> mono \<Rightarrow> sourcePathProbeManager
      \<Rightarrow> bool \<times> sourcePathProbeManager" where
  "handlePongLocked e pong sender src rxMeta now pm =
     (if isPrimary rxMeta then (False, pm)
      else case gm_get (pmPending pm) (pgTxID pong) of
        None \<Rightarrow> (False, pm)
      | Some tx \<Rightarrow>
          if msub now (txAt tx) \<ge> pingTimeoutDuration
          then (True, noteOutcomeLocked e (txDst tx) (txSource tx) now True
                  (pm\<lparr>pmPending := gm_del (pgTxID pong) (pmPending pm)\<rparr>))
          else if txSource tx \<noteq> rxMeta \<or> txDstDisco tx \<noteq> sender then (False, pm)
          else
            let pm1 = noteOutcomeLocked e (txDst tx) (txSource tx) now False
                        (pm\<lparr>pmPending := gm_del (pgTxID pong) (pmPending pm)\<rparr>);
                pm2 = pm1\<lparr>pmAuxProbeLoss := gm_del \<lparr>dkDst = txDst tx, dkSource = txSource tx\<rparr> (pmAuxProbeLoss pm1)\<rparr>;
                pm3 = pruneExpiredSamplesLocked e now pm2;
                sm = \<lparr>smTxid = pgTxID pong, smDst = txDst tx, smPongFrom = src, smPongSrc = pgSrc pong,
                      smSource = rxMeta, smLatency = msub now (txAt tx), smAt = now\<rparr>
            in (True, pm3\<lparr>pmSamples := capSlice (sourcePathProbeSampleLimitCount e) (pmSamples pm3 @ [sm])\<rparr>))"

section \<open>Dropping a source\<close>

text \<open>Returns the numbers of samples, outcomes, pending probes and flows dropped.\<close>

definition dropSourceLocked ::
    "sourceRxMeta \<Rightarrow> sourcePathProbeManager \<Rightarrow> (nat \<times> nat \<times> nat \<times> nat) \<times> sourcePathProbeManager" where
  "dropSourceLocked source pm =
     (if isPrimary source then ((0, 0, 0, 0), pm)
      else
        ((length (filter (\<lambda>sm. smSource sm = source) (pmSamples pm)),
          length (filter (\<lambda>oc. ocSource oc = source) (pmOutcomes pm)),
          gm_count_if (\<lambda>_ tx. txSource tx = source) (pmPending pm),
          gm_count_if (\<lambda>_ st. fsSource st = source) (pmFlowMap pm)),
         pm\<lparr>pmSamples := compactSlice (\<lambda>sm. smSource sm \<noteq> source) (pmSamples pm),
            pmOutcomes := compactSlice (\<lambda>oc. ocSource oc \<noteq> source) (pmOutcomes pm),
            pmPending := gm_del_if (\<lambda>_ tx. txSource tx = source) (pmPending pm),
            pmFlowMap := gm_del_if (\<lambda>_ st. fsSource st = source) (pmFlowMap pm),
            pmAuxFailStreak := gm_del_if (\<lambda>k _. dkSource k = source) (pmAuxFailStreak pm),
            pmAuxProbeLoss := gm_del_if (\<lambda>k _. dkSource k = source) (pmAuxProbeLoss pm),
            pmDemotedAuxTill := gm_del_if (\<lambda>k _. dkSource k = source) (pmDemotedAuxTill pm)\<rparr>))"

section \<open>Probe loss and demotion\<close>

text \<open>One turn of the loop of \<open>noteProbeExpirationsLocked\<close>; the state is the manager, the
  rotations collected and the sources already rotated.\<close>

definition noteExpirationStep ::
    "env \<Rightarrow> mono \<Rightarrow> int \<Rightarrow> sourcePathProbeManager \<times> sourcePathAuxRotation list \<times> sourceRxMeta list
      \<Rightarrow> sourcePathProbeTx \<Rightarrow> sourcePathProbeManager \<times> sourcePathAuxRotation list \<times> sourceRxMeta list" where
  "noteExpirationStep e now threshold st tx = (case st of (pm, rotations, seen) \<Rightarrow>
     if isPrimary (txSource tx) \<or> \<not> hasRecentSampleLocked e (txDst tx) (txSource tx) now pm then st
     else
       let key = \<lparr>dkDst = txDst tx, dkSource = txSource tx\<rparr>;
           streak = (case gm_get (pmAuxProbeLoss pm) key of None \<Rightarrow> 0 | Some n \<Rightarrow> n) + 1;
           pm1 = pm\<lparr>pmAuxProbeLoss := gm_set key streak (pmAuxProbeLoss pm)\<rparr>
       in if streak < threshold then (pm1, rotations, seen)
          else
            let pm2 = pm1\<lparr>pmAuxProbeLoss := gm_del key (pmAuxProbeLoss pm1)\<rparr> in
            if txSource tx \<in> set seen then (pm2, rotations, seen)
            else (pm2, rotations @ [\<lparr>roDst = txDst tx, roSource = txSource tx,
                                     roReason = ''source-path-probe-timeout''\<rparr>],
                  txSource tx # seen))"

definition noteProbeExpirationsLocked ::
    "env \<Rightarrow> sourcePathProbeTx list \<Rightarrow> mono \<Rightarrow> sourcePathProbeManager
      \<Rightarrow> sourcePathAuxRotation list \<times> sourcePathProbeManager" where
  "noteProbeExpirationsLocked e expired now pm =
     (if expired = [] then ([], pm)
      else let threshold = sourcePathDualSendAuxProbeDropStreakValue e in
        if threshold \<le> 0 then ([], pm)
        else case foldl (noteExpirationStep e now threshold) (pm, [], []) expired of
          (pm', rotations, _) \<Rightarrow> (rotations, pm'))"

definition dualSendDemotedLocked ::
    "sourcePathDualSendKey \<Rightarrow> mono \<Rightarrow> sourcePathProbeManager \<Rightarrow> bool \<times> sourcePathProbeManager" where
  "dualSendDemotedLocked key now pm = (case gm_get (pmDemotedAuxTill pm) key of
     None \<Rightarrow> (False, pm)
   | Some until \<Rightarrow>
       if \<not> mbefore now until
       then (False, pm\<lparr>pmDemotedAuxTill := gm_del key (pmDemotedAuxTill pm)\<rparr>)
       else (True, pm))"

section \<open>What each helper changes\<close>

named_theorems probe_frame

lemma pruneOutcomes_eq:
  "pruneExpiredOutcomesLocked e now pm
     = pm\<lparr>pmOutcomes := filter (\<lambda>oc. msub now (ocAt oc) \<le> sourcePathLossWindowValue e) (pmOutcomes pm)\<rparr>"
  by (simp add: pruneExpiredOutcomesLocked_def compactSlice_eq_filter Let_def not_less)

lemma pruneSamples_eq:
  "pruneExpiredSamplesLocked e now pm
     = pm\<lparr>pmSamples := filter (\<lambda>sm. msub now (smAt sm) \<le> sourcePathSampleTTLValue e) (pmSamples pm)\<rparr>"
  by (simp add: pruneExpiredSamplesLocked_def compactSlice_eq_filter Let_def not_less)

text \<open>The outcome history after one more outcome.\<close>

definition pushOutcome ::
    "env \<Rightarrow> sourcePathProbeOutcome \<Rightarrow> sourcePathProbeOutcome list \<Rightarrow> sourcePathProbeOutcome list" where
  "pushOutcome e oc ocs = capSlice (sourcePathProbeOutcomeLimitCount e)
     (filter (\<lambda>o'. msub (ocAt oc) (ocAt o') \<le> sourcePathLossWindowValue e) (ocs @ [oc]))"

lemma noteOutcome_eq:
  "noteOutcomeLocked e dst source t lost pm
     = pm\<lparr>pmOutcomes := pushOutcome e \<lparr>ocDst = dst, ocSource = source, ocAt = t, ocLost = lost\<rparr> (pmOutcomes pm)\<rparr>"
  by (simp add: noteOutcomeLocked_def pruneOutcomes_eq pushOutcome_def Let_def)

lemma set_pushOutcome: "set (pushOutcome e oc ocs) \<subseteq> insert oc (set ocs)"
  unfolding pushOutcome_def by (rule subset_trans [OF set_capSlice]) auto

lemma length_pushOutcome:
  "0 < sourcePathProbeOutcomeLimitCount e
     \<Longrightarrow> int (length (pushOutcome e oc ocs)) \<le> sourcePathProbeOutcomeLimitCount e"
  unfolding pushOutcome_def by (rule length_capSlice)

lemma last_pushOutcome:
  assumes "0 \<le> sourcePathLossWindowValue e"
  shows "pushOutcome e oc ocs \<noteq> [] \<and> last (pushOutcome e oc ocs) = oc"
proof -
  let ?keep = "filter (\<lambda>o'. msub (ocAt oc) (ocAt o') \<le> sourcePathLossWindowValue e) ocs"
  have "msub (ocAt oc) (ocAt oc) = 0" by (simp add: msub_def i64_def)
  with assms have "pushOutcome e oc ocs = capSlice (sourcePathProbeOutcomeLimitCount e) (?keep @ [oc])"
    by (simp add: pushOutcome_def)
  then show ?thesis using capSlice_append_last [of "sourcePathProbeOutcomeLimitCount e" ?keep oc] by auto
qed

section \<open>Expiry of pending probes\<close>

definition lostOutcome :: "mono \<Rightarrow> sourcePathProbeTx \<Rightarrow> sourcePathProbeOutcome" where
  "lostOutcome now tx = \<lparr>ocDst = txDst tx, ocSource = txSource tx, ocAt = now, ocLost = True\<rparr>"

lemma pruneExpiredStep_simps:
  "expiredTx now tx \<Longrightarrow> pruneExpiredStep e now (pm, acc) (k, tx) =
     (pm\<lparr>pmPending := gm_del k (pmPending pm), pmOutcomes := pushOutcome e (lostOutcome now tx) (pmOutcomes pm)\<rparr>, acc @ [tx])"
  "\<not> expiredTx now tx \<Longrightarrow> pruneExpiredStep e now (pm, acc) (k, tx) = (pm, acc)"
  by (simp_all add: pruneExpiredStep_def noteOutcome_eq lostOutcome_def)

lemma pruneExpired_foldl:
  "foldl (pruneExpiredStep e now) (pm, acc) xs =
     (let dead = filter (\<lambda>(_, tx). expiredTx now tx) xs in
      (pm\<lparr>pmPending := filter (\<lambda>(k, _). k \<notin> fst ` set dead) (pmPending pm),
          pmOutcomes := foldl (\<lambda>ocs tx. pushOutcome e (lostOutcome now tx) ocs) (pmOutcomes pm) (map snd dead)\<rparr>,
       acc @ map snd dead))"
proof (induction xs arbitrary: pm acc)
  case Nil
  then show ?case by (simp add: case_prod_unfold)
next
  case (Cons x xs)
  obtain k tx where x: "x = (k, tx)" by (cases x)
  show ?case
  proof (cases "expiredTx now tx")
    case True
    have "filter (\<lambda>(k', _). k' \<notin> D) (gm_del k m) = filter (\<lambda>(k', _). k' \<noteq> k \<and> k' \<notin> D) m" for D and m :: "(txID, sourcePathProbeTx) gomap"
      by (auto simp: gm_del_def AList.delete_eq case_prod_unfold conj_commute)
    with True show ?thesis
      by (simp add: x Cons.IH pruneExpiredStep_simps Let_def)
  next
    case False
    then show ?thesis by (simp add: x Cons.IH pruneExpiredStep_simps)
  qed
qed

lemma pruneExpired_eq:
  assumes "gm_wf (pmPending pm)"
  shows "pruneExpiredLocked e now pm =
     (let dead = map snd (filter (\<lambda>(_, tx). expiredTx now tx) (pmPending pm)) in
      (pm\<lparr>pmPending := gm_del_if (\<lambda>_ tx. expiredTx now tx) (pmPending pm),
          pmOutcomes := foldl (\<lambda>ocs tx. pushOutcome e (lostOutcome now tx) ocs) (pmOutcomes pm) dead\<rparr>, dead))"
proof -
  let ?dead = "filter (\<lambda>(_, tx). expiredTx now tx) (pmPending pm)"
  have "k \<in> fst ` set ?dead \<longleftrightarrow> expiredTx now tx" if "(k, tx) \<in> set (pmPending pm)" for k tx
  proof
    assume "k \<in> fst ` set ?dead"
    then obtain tx' where "(k, tx') \<in> set (pmPending pm)" "expiredTx now tx'" by auto
    with gm_unique [OF assms that] show "expiredTx now tx" by blast
  qed (use that in force)
  then have "filter (\<lambda>(k, _). k \<notin> fst ` set ?dead) (pmPending pm) = gm_del_if (\<lambda>_ tx. expiredTx now tx) (pmPending pm)"
    unfolding gm_del_if_def by (intro filter_cong) (simp_all del: set_filter add: case_prod_unfold)
  then show ?thesis by (simp add: pruneExpiredLocked_def pruneExpired_foldl Let_def)
qed

lemma set_foldl_pushOutcome:
  "set (foldl (\<lambda>ocs tx. pushOutcome e (lostOutcome now tx) ocs) ocs txs) \<subseteq> set ocs \<union> lostOutcome now ` set txs"
proof (induction txs arbitrary: ocs)
  case (Cons tx txs)
  then show ?case using set_pushOutcome [of e "lostOutcome now tx" ocs] by fastforce
qed simp

lemma length_foldl_pushOutcome:
  assumes "0 < sourcePathProbeOutcomeLimitCount e" "int (length ocs) \<le> sourcePathProbeOutcomeLimitCount e"
  shows "int (length (foldl (\<lambda>ocs tx. pushOutcome e (lostOutcome now tx) ocs) ocs txs)) \<le> sourcePathProbeOutcomeLimitCount e"
  using assms(2) by (induction txs arbitrary: ocs) (simp_all add: length_pushOutcome [OF assms(1)])

section \<open>Counting peers\<close>

lemma peerScanStep_eq:
  "peerScanStep d (b, n, seen, c) p =
     (b \<or> txDstDisco p = d, n + of_bool (txDstDisco p = d),
      if txDstDisco p \<in> set seen then seen else txDstDisco p # seen,
      c + of_bool (txDstDisco p \<notin> set seen))"
  by (simp add: peerScanStep_def)

lemma peerScan_foldl:
  "foldl (peerScanStep d) (b, n, seen, c) ps = (b', n', seen', c') \<Longrightarrow> distinct seen \<Longrightarrow>
     b' = (b \<or> (\<exists>p\<in>set ps. txDstDisco p = d)) \<and>
     n' = n + int (length (filter (\<lambda>p. txDstDisco p = d) ps)) \<and>
     distinct seen' \<and> set seen' = set seen \<union> txDstDisco ` set ps \<and>
     c' = c + (int (length seen') - int (length seen))"
proof (induction ps arbitrary: b n seen c)
  case (Cons p ps)
  let ?seen = "if txDstDisco p \<in> set seen then seen else txDstDisco p # seen"
  from Cons.prems(2) have "distinct ?seen" by simp
  from Cons.IH [OF Cons.prems(1) [unfolded foldl_Cons peerScanStep_eq] this] show ?case
    by (cases "txDstDisco p \<in> set seen") auto
qed auto

lemma peerScan_eq:
  assumes "peerScan d m = (seen, n, ks, c)"
  shows "seen \<longleftrightarrow> d \<in> txDstDisco ` snd ` set m" "n = peerPendingCount d m"
    "c = int (card (txDstDisco ` snd ` set m))"
proof -
  from peerScan_foldl [OF assms [unfolded peerScan_def]] have
    *: "seen = (\<exists>p\<in>set (map snd m). txDstDisco p = d)" "n = peerPendingCount d m"
       "distinct ks" "set ks = txDstDisco ` set (map snd m)" "c = int (length ks)"
    by (simp_all add: peerPendingCount_def)
  then show "seen \<longleftrightarrow> d \<in> txDstDisco ` snd ` set m" "n = peerPendingCount d m" by auto
  from * show "c = int (card (txDstDisco ` snd ` set m))" using distinct_card [of ks] by simp
qed

section \<open>Admission\<close>

definition live :: "mono \<Rightarrow> sourcePathProbeManager \<Rightarrow> (txID, sourcePathProbeTx) gomap" where
  "live now pm = gm_del_if (\<lambda>_ tx. expiredTx now tx) (pmPending pm)"

definition peersOf :: "(txID, sourcePathProbeTx) gomap \<Rightarrow> discoKey set" where
  "peersOf m = txDstDisco ` snd ` set m"

text \<open>The admission decision, read off the pending probes that have not expired.\<close>

definition admission ::
    "discoKey \<Rightarrow> int \<Rightarrow> int \<Rightarrow> int \<Rightarrow> (txID, sourcePathProbeTx) gomap \<Rightarrow> sourcePathProbeAddResult" where
  "admission d maxPeers maxBurst hardCap m =
     (if hardCap > 0 \<and> int (gm_len m) \<ge> hardCap then sourcePathProbeHardCapExceeded
      else if maxPeers > 0 \<and> d \<notin> peersOf m \<and> int (card (peersOf m)) \<ge> maxPeers
        then sourcePathProbePeerBudgetExceeded
      else if peerPendingCount d m \<ge> (if maxBurst \<le> 0 then sourcePathProbeMaxBurst else maxBurst)
        then sourcePathProbeBurstBudgetExceeded
      else sourcePathProbeAdded)"

lemma addWithBudget_eq:
  fixes e :: env and tx :: sourcePathProbeTx
  assumes "gm_wf (pmPending pm)"
  defines "pm' \<equiv> fst (pruneExpiredLocked e (txAt tx) pm)"
  shows "addWithBudgetLocked e tx maxPeers maxBurst hardCap pm =
     (let r = admission (txDstDisco tx) maxPeers maxBurst hardCap (live (txAt tx) pm) in
      (r, if r = sourcePathProbeAdded then pm'\<lparr>pmPending := gm_set (txTxid tx) tx (live (txAt tx) pm)\<rparr> else pm'))"
proof -
  have live: "pmPending pm' = live (txAt tx) pm"
    by (simp add: pm'_def pruneExpired_eq [OF assms(1)] Let_def live_def)
  obtain sn n ks c where scan: "peerScan (txDstDisco tx) (live (txAt tx) pm) = (sn, n, ks, c)"
    by (cases "peerScan (txDstDisco tx) (live (txAt tx) pm)")
  note eqs = peerScan_eq [OF scan]
  show ?thesis
    by (simp add: addWithBudgetLocked_def pm'_def [symmetric] live scan eqs admission_def peersOf_def Let_def)
qed

lemma peerPendingCount_del_if: "peerPendingCount d (gm_del_if P m) \<le> peerPendingCount d m"
proof -
  have "length (filter Q (map snd (filter R m))) \<le> length (filter Q (map snd m))" for Q R
    by (induction m) auto
  then show ?thesis by (simp add: peerPendingCount_def gm_del_if_def)
qed

lemma peerPendingCount_del: "peerPendingCount d (gm_del k m) \<le> peerPendingCount d m"
  using peerPendingCount_del_if [of d "\<lambda>k' _. k' = k" m]
  by (simp add: gm_del_def gm_del_if_def AList.delete_eq case_prod_unfold)

lemma peerPendingCount_set:
  "peerPendingCount d (gm_set k tx m) \<le> peerPendingCount d m + of_bool (txDstDisco tx = d)"
  by (induction m) (auto simp: peerPendingCount_def)

lemma peersOf_set: "peersOf (gm_set k tx m) \<subseteq> insert (txDstDisco tx) (peersOf m)"
  unfolding peersOf_def by (fastforce dest: gm_set_entry)

lemma peersOf_del_if: "peersOf (gm_del_if P m) \<subseteq> peersOf m"
  by (auto simp: peersOf_def gm_del_if_def)

lemma finite_peersOf [simp]: "finite (peersOf m)"
  by (simp add: peersOf_def)

text \<open>The budgets, as a property of the pending map.\<close>

definition withinBudget :: "int \<Rightarrow> int \<Rightarrow> int \<Rightarrow> (txID, sourcePathProbeTx) gomap \<Rightarrow> bool" where
  "withinBudget maxPeers maxBurst hardCap m \<longleftrightarrow>
     (hardCap > 0 \<longrightarrow> int (gm_len m) \<le> hardCap)
   \<and> (maxPeers > 0 \<longrightarrow> int (card (peersOf m)) \<le> maxPeers)
   \<and> (\<forall>d. peerPendingCount d m \<le> (if maxBurst \<le> 0 then sourcePathProbeMaxBurst else maxBurst))"

lemma withinBudget_Nil: "withinBudget p b h []"
  by (simp add: withinBudget_def gm_len_def peersOf_def peerPendingCount_def srcsel_consts)

lemma withinBudget_del_if:
  assumes "withinBudget p b h m"
  shows "withinBudget p b h (gm_del_if P m)"
proof -
  have "card (peersOf (gm_del_if P m)) \<le> card (peersOf m)"
    by (rule card_mono) (simp_all add: peersOf_del_if)
  moreover have "peerPendingCount d (gm_del_if P m) \<le> (if b \<le> 0 then sourcePathProbeMaxBurst else b)" for d
    using assms peerPendingCount_del_if [of d P m] order_trans unfolding withinBudget_def by blast
  ultimately show ?thesis using assms gm_len_del_if [of P m] unfolding withinBudget_def by fastforce
qed

lemma withinBudget_del: "withinBudget p b h m \<Longrightarrow> withinBudget p b h (gm_del k m)"
  using withinBudget_del_if [of p b h m "\<lambda>k' _. k' = k"]
  by (simp add: gm_del_def gm_del_if_def AList.delete_eq case_prod_unfold)

lemma withinBudget_admit:
  assumes "withinBudget p b h m" "admission (txDstDisco tx) p b h m = sourcePathProbeAdded"
  shows "withinBudget p b h (gm_set k tx m)"
proof -
  let ?b = "if b \<le> 0 then sourcePathProbeMaxBurst else b" and ?d = "txDstDisco tx"
  from assms(2) have
    hard: "h > 0 \<Longrightarrow> int (gm_len m) < h" and
    peer: "p > 0 \<Longrightarrow> ?d \<in> peersOf m \<or> int (card (peersOf m)) < p" and
    burst: "peerPendingCount ?d m < ?b"
    by (auto simp: admission_def split: if_splits)
  have "gm_len (gm_set k tx m) \<le> Suc (gm_len m)" by (auto simp: gm_len_set)
  with hard have 1: "h > 0 \<Longrightarrow> int (gm_len (gm_set k tx m)) \<le> h" by linarith
  have c: "card (peersOf (gm_set k tx m)) \<le> card (insert ?d (peersOf m))"
    by (rule card_mono) (simp_all add: peersOf_set)
  have 2: "int (card (peersOf (gm_set k tx m))) \<le> p" if "p > 0"
    using peer [OF that] c assms(1) that
    by (cases "?d \<in> peersOf m") (auto simp: withinBudget_def insert_absorb)
  have 3: "peerPendingCount d (gm_set k tx m) \<le> ?b" for d
  proof (cases "d = ?d")
    case True
    with peerPendingCount_set [of d k tx m] burst show ?thesis by simp
  next
    case False
    with peerPendingCount_set [of d k tx m] assms(1) show ?thesis
      unfolding withinBudget_def by (metis (full_types) add.right_neutral of_bool_eq(1) order_trans)
  qed
  from 1 2 3 show ?thesis by (simp add: withinBudget_def)
qed

section \<open>The invariant of the probe state\<close>

text \<open>
  \<open>t\<close> is the latest clock reading. What the manager holds was recorded at or before it, about
  auxiliary sources and direct destinations only, and within the configured limits.
\<close>

definition txOk :: "mono \<Rightarrow> sourcePathProbeTx \<Rightarrow> bool" where
  "txOk t tx \<longleftrightarrow> \<not> isPrimary (txSource tx) \<and> isDirect (txDst tx) \<and> 0 \<le> txAt tx \<and> txAt tx \<le> t"

definition sampleOk :: "mono \<Rightarrow> sourcePathProbeSample \<Rightarrow> bool" where
  "sampleOk t sm \<longleftrightarrow> \<not> isPrimary (smSource sm) \<and> isDirect (smDst sm) \<and> 0 \<le> smAt sm \<and> smAt sm \<le> t
     \<and> 0 \<le> smLatency sm \<and> smLatency sm < pingTimeoutDuration"

definition outcomeOk :: "mono \<Rightarrow> sourcePathProbeOutcome \<Rightarrow> bool" where
  "outcomeOk t oc \<longleftrightarrow> \<not> isPrimary (ocSource oc) \<and> isDirect (ocDst oc) \<and> 0 \<le> ocAt oc \<and> ocAt oc \<le> t"

definition pendingInv :: "env \<Rightarrow> mono \<Rightarrow> (txID, sourcePathProbeTx) gomap \<Rightarrow> bool" where
  "pendingInv e t m \<longleftrightarrow> gm_wf m
     \<and> (\<forall>(k, tx)\<in>set m. txTxid tx = k \<and> txOk t tx)
     \<and> withinBudget (sourcePathProbeMaxPeerCount e) (sourcePathProbeMaxBurstCount e)
         (sourcePathProbeHardPendingCount e) m"

definition samplesInv :: "env \<Rightarrow> mono \<Rightarrow> sourcePathProbeSample list \<Rightarrow> bool" where
  "samplesInv e t sms \<longleftrightarrow> (\<forall>sm\<in>set sms. sampleOk t sm)
     \<and> (0 < sourcePathProbeSampleLimitCount e \<longrightarrow> int (length sms) \<le> sourcePathProbeSampleLimitCount e)"

definition outcomesInv :: "env \<Rightarrow> mono \<Rightarrow> sourcePathProbeOutcome list \<Rightarrow> bool" where
  "outcomesInv e t ocs \<longleftrightarrow> (\<forall>oc\<in>set ocs. outcomeOk t oc)
     \<and> (0 < sourcePathProbeOutcomeLimitCount e \<longrightarrow> int (length ocs) \<le> sourcePathProbeOutcomeLimitCount e)"

definition streakInv :: "int \<Rightarrow> (sourcePathDualSendKey, int) gomap \<Rightarrow> bool" where
  "streakInv threshold m \<longleftrightarrow> gm_wf m
     \<and> (\<forall>(k, n)\<in>set m. \<not> isPrimary (dkSource k) \<and> 1 \<le> n \<and> n < threshold)"

definition probeInv :: "env \<Rightarrow> mono \<Rightarrow> sourcePathProbeManager \<Rightarrow> bool" where
  "probeInv e t pm \<longleftrightarrow> pendingInv e t (pmPending pm) \<and> samplesInv e t (pmSamples pm)
     \<and> outcomesInv e t (pmOutcomes pm)
     \<and> streakInv (sourcePathDualSendAuxProbeDropStreakValue e) (pmAuxProbeLoss pm)"

lemma probeInv_cong:
  assumes "probeInv e t pm" "pmPending pm' = pmPending pm" "pmSamples pm' = pmSamples pm"
    "pmOutcomes pm' = pmOutcomes pm" "pmAuxProbeLoss pm' = pmAuxProbeLoss pm"
  shows "probeInv e t pm'"
  using assms by (simp add: probeInv_def)

lemma probeInv_later: "probeInv e t pm \<Longrightarrow> t \<le> t' \<Longrightarrow> probeInv e t' pm"
  unfolding probeInv_def pendingInv_def samplesInv_def outcomesInv_def txOk_def sampleOk_def outcomeOk_def
  by fastforce

lemma probeInv_empty: "probeInv e t emptyManager"
  by (simp add: probeInv_def emptyManager_def pendingInv_def samplesInv_def outcomesInv_def streakInv_def withinBudget_Nil)

lemma probeInv_clear: "probeInv e t (clearLocked pm)"
  by (simp add: probeInv_def clearLocked_def pendingInv_def samplesInv_def outcomesInv_def streakInv_def withinBudget_Nil)

lemma pendingInv_del_if: "pendingInv e t m \<Longrightarrow> pendingInv e t (gm_del_if P m)"
  unfolding pendingInv_def by (auto simp: gm_wf_del_if withinBudget_del_if gm_del_if_entry)

lemma pendingInv_del: "pendingInv e t m \<Longrightarrow> pendingInv e t (gm_del k m)"
  using pendingInv_del_if [of e t m "\<lambda>k' _. k' = k"]
  by (simp add: gm_del_def gm_del_if_def AList.delete_eq case_prod_unfold)

lemma outcomesInv_push:
  assumes "outcomesInv e t ocs" "outcomeOk t oc"
  shows "outcomesInv e t (pushOutcome e oc ocs)"
  using assms set_pushOutcome [of e oc ocs] length_pushOutcome [of e oc ocs] by (auto simp: outcomesInv_def)

lemma outcomesInv_filter: "outcomesInv e t ocs \<Longrightarrow> outcomesInv e t (filter P ocs)"
  unfolding outcomesInv_def using length_filter_le [of P ocs] by (auto intro: order_trans [rotated])

lemma samplesInv_filter: "samplesInv e t sms \<Longrightarrow> samplesInv e t (filter P sms)"
  unfolding samplesInv_def using length_filter_le [of P sms] by (auto intro: order_trans [rotated])

lemma streakInv_del_if: "streakInv n m \<Longrightarrow> streakInv n (gm_del_if P m)"
  unfolding streakInv_def by (auto simp: gm_wf_del_if gm_del_if_entry)

lemma streakInv_del: "streakInv n m \<Longrightarrow> streakInv n (gm_del k m)"
  unfolding streakInv_def by (auto simp: gm_wf_del dest!: gm_del_entry)

lemma streakInv_set:
  "streakInv n m \<Longrightarrow> \<not> isPrimary (dkSource k) \<Longrightarrow> 1 \<le> v \<Longrightarrow> v < n \<Longrightarrow> streakInv n (gm_set k v m)"
  unfolding streakInv_def by (auto simp: gm_wf_set dest!: gm_set_entry)

lemma streakInv_get: "streakInv n m \<Longrightarrow> gm_get m k = Some v \<Longrightarrow> 1 \<le> v \<and> v < n"
  unfolding streakInv_def using gm_get_in by fastforce

lemmas probe_invs = pendingInv_del_if pendingInv_del outcomesInv_push outcomesInv_filter
  samplesInv_filter streakInv_del_if streakInv_del

lemma probeInv_prune:
  assumes "probeInv e t pm" "0 \<le> t"
  shows "probeInv e t (fst (pruneExpiredLocked e t pm))"
proof -
  let ?dead = "map snd (filter (\<lambda>(_, tx). expiredTx t tx) (pmPending pm))"
  from assms have wf: "gm_wf (pmPending pm)" and ok: "\<forall>tx\<in>set ?dead. outcomeOk t (lostOutcome t tx)"
    by (auto simp: probeInv_def pendingInv_def txOk_def outcomeOk_def lostOutcome_def)
  have "outcomesInv e t (foldl (\<lambda>ocs tx. pushOutcome e (lostOutcome t tx) ocs) ocs txs)"
    if "outcomesInv e t ocs" "\<forall>tx\<in>set txs. outcomeOk t (lostOutcome t tx)" for ocs txs
    using that by (induction txs arbitrary: ocs) (simp_all add: outcomesInv_push)
  with assms ok show ?thesis
    by (auto simp: pruneExpired_eq [OF wf] probeInv_def Let_def pendingInv_del_if)
qed

lemma live_pendingInv: "probeInv e t pm \<Longrightarrow> pendingInv e t (live now pm)"
  by (simp add: live_def probeInv_def pendingInv_del_if)

lemma probeInv_add:
  assumes "probeInv e t pm" "txOk t tx" "txAt tx = t"
  shows "probeInv e t (snd (addLocked e tx pm))"
proof -
  from assms(1) have wf: "gm_wf (pmPending pm)" by (simp add: probeInv_def pendingInv_def)
  from assms have pr: "probeInv e t (fst (pruneExpiredLocked e t pm))" by (simp add: probeInv_prune txOk_def)
  from live_pendingInv [OF assms(1)] have lv: "pendingInv e t (live t pm)" .
  have "pendingInv e t (gm_set (txTxid tx) tx (live t pm))"
    if "admission (txDstDisco tx) (sourcePathProbeMaxPeerCount e) (sourcePathProbeMaxBurstCount e)
          (sourcePathProbeHardPendingCount e) (live t pm) = sourcePathProbeAdded"
    using lv withinBudget_admit [OF _ that] assms(2)
    by (auto simp: pendingInv_def gm_wf_set dest!: gm_set_entry)
  with pr show ?thesis
    by (simp add: addLocked_def addWithBudget_eq [OF wf] assms(3) Let_def probeInv_def)
qed

lemma probeInv_forget: "probeInv e t pm \<Longrightarrow> probeInv e t (forgetLocked txid pm)"
  by (simp add: forgetLocked_def probeInv_def pendingInv_del)

lemma probeInv_invalidate: "probeInv e t pm \<Longrightarrow> probeInv e t (snd (invalidateLocked dst src pm))"
  by (simp add: invalidateLocked_def probeInv_def samplesInv_filter compactSlice_eq_filter Let_def)

lemma probeInv_dropSource: "probeInv e t pm \<Longrightarrow> probeInv e t (snd (dropSourceLocked src pm))"
  by (simp add: dropSourceLocked_def probeInv_def compactSlice_eq_filter probe_invs)

lemma probeInv_pruneOutcomes: "probeInv e t pm \<Longrightarrow> probeInv e t (pruneExpiredOutcomesLocked e now pm)"
  by (simp add: pruneOutcomes_eq probeInv_def probe_invs)

lemma probeInv_demoted: "probeInv e t pm \<Longrightarrow> probeInv e t (snd (dualSendDemotedLocked key now pm))"
  by (erule probeInv_cong) (auto simp: dualSendDemotedLocked_def split: option.splits)

end
