(* ===== verification/Endpoint_State.thy ===== *)
theory Endpoint_State
  imports Addr_Quality Srcsel_Probe
begin

text \<open>
  What an \<open>endpoint\<close> of \<open>src/wgengine/magicsock/endpoint.go\<close> keeps per remote address
  (\<open>endpointState\<close>, with its ring buffer of pong replies) and for probing how long a UDP path
  lives (\<open>probeUDPLifetime\<close> and its configuration). Wall-clock times are nanoseconds since Go's
  zero time; \<open>time.Since\<close> saturates.
\<close>

section \<open>Wall clock\<close>

type_synonym walltime = int

definition wzero :: "walltime \<Rightarrow> bool" where
  "wzero t \<longleftrightarrow> t = 0"

definition sat64 :: "int \<Rightarrow> int" where
  "sat64 x = max (- (2 ^ 63)) (min (2 ^ 63 - 1) x)"

text \<open>\<open>time.Since(t)\<close> when the wall clock reads \<open>wnow\<close>.\<close>

definition wsince :: "walltime \<Rightarrow> walltime \<Rightarrow> duration" where
  "wsince wnow t = sat64 (wnow - t)"

lemma sat64_id: "is_i64 x \<Longrightarrow> sat64 x = x"
  by (auto simp: sat64_def is_i64_def)

section \<open>endpointState\<close>

definition zeroTxID :: txID where
  "zeroTxID = replicate 12 0"

record pongReply =
  prLatency :: duration
  prPongAt :: mono
  prFrom :: addrPort
  prPongSrc :: addrPort

record endpointState =
  esLastPing :: mono
  esLastGotPing :: walltime
  esLastGotPingTxID :: txID
  esCallMeMaybeTime :: walltime
  esRecentPongs :: "pongReply list"
  esRecentPong :: u16
  esIndex :: int

definition zeroEndpointState :: endpointState where
  "zeroEndpointState = \<lparr>esLastPing = 0, esLastGotPing = 0, esLastGotPingTxID = zeroTxID,
     esCallMeMaybeTime = 0, esRecentPongs = [], esRecentPong = 0, esIndex = 0\<rparr>"

definition clearEndpointState :: "endpointState \<Rightarrow> endpointState" where
  "clearEndpointState s = zeroEndpointState\<lparr>esIndex := esIndex s, esLastGotPing := esLastGotPing s\<rparr>"

definition pongHistoryCount :: nat where
  "pongHistoryCount = 64"

definition indexSentinelDeleted :: int where
  "indexSentinelDeleted = - 1"

definition shouldDeleteLocked :: "walltime \<Rightarrow> endpointState \<Rightarrow> bool" where
  "shouldDeleteLocked wnow st =
     (if \<not> wzero (esCallMeMaybeTime st) then False
      else if wzero (esLastGotPing st) then esIndex st = indexSentinelDeleted
      else wsince wnow (esLastGotPing st) > sessionActiveTimeout)"

text \<open>\<open>latencyLocked\<close>: \<open>None\<close> is \<open>(0, false)\<close>. The index is in range by \<open>ringInv\<close> below.\<close>

definition latencyLocked :: "endpointState \<Rightarrow> duration option" where
  "latencyLocked st =
     (if esRecentPongs st = [] then None
      else Some (prLatency (esRecentPongs st ! unat (esRecentPong st))))"

definition addPongReplyLocked :: "pongReply \<Rightarrow> endpointState \<Rightarrow> endpointState" where
  "addPongReplyLocked r st =
     (let n = length (esRecentPongs st) in
      if n < pongHistoryCount
      then st\<lparr>esRecentPong := of_nat n, esRecentPongs := esRecentPongs st @ [r]\<rparr>
      else
        let i0 = esRecentPong st + 1;
            i = (if i0 = of_nat pongHistoryCount then 0 else i0)
        in st\<lparr>esRecentPongs := (esRecentPongs st)[unat i := r], esRecentPong := i\<rparr>)"

subsection \<open>The ring as a history\<close>

definition ringInv :: "endpointState \<Rightarrow> bool" where
  "ringInv st \<longleftrightarrow>
     length (esRecentPongs st) \<le> pongHistoryCount
   \<and> (esRecentPongs st \<noteq> [] \<longrightarrow> unat (esRecentPong st) < length (esRecentPongs st))
   \<and> (esRecentPongs st \<noteq> [] \<and> length (esRecentPongs st) < pongHistoryCount
        \<longrightarrow> unat (esRecentPong st) = length (esRecentPongs st) - 1)"

text \<open>The replies in the ring, oldest first.\<close>

definition pongHistory :: "endpointState \<Rightarrow> pongReply list" where
  "pongHistory st =
     (let i = Suc (unat (esRecentPong st)) in
      if esRecentPongs st = [] then [] else drop i (esRecentPongs st) @ take i (esRecentPongs st))"

lemma ringInv_empty: "esRecentPongs st = [] \<Longrightarrow> ringInv st"
  by (simp add: ringInv_def)

lemma ringInv_cong:
  "esRecentPongs st' = esRecentPongs st \<Longrightarrow> esRecentPong st' = esRecentPong st \<Longrightarrow> ringInv st' = ringInv st"
  by (simp add: ringInv_def)

lemma mset_pongHistory: "mset (pongHistory st) = mset (esRecentPongs st)"
proof -
  have "mset (drop i xs) + mset (take i xs) = mset xs" for i and xs :: "pongReply list"
    by (metis append_take_drop_id mset_append add.commute)
  then show ?thesis by (simp add: pongHistory_def Let_def)
qed

lemma length_pongHistory: "length (pongHistory st) = length (esRecentPongs st)"
  by (metis mset_pongHistory size_mset)

text \<open>Writing past the newest entry of a full ring drops the oldest reply.\<close>

lemma rotate_write:
  assumes "i < length xs" "j = (if Suc i = length xs then 0 else Suc i)"
  shows "drop (Suc j) (xs[j := r]) @ take (Suc j) (xs[j := r]) = tl (drop (Suc i) xs @ take (Suc i) xs) @ [r]"
proof (cases "Suc i = length xs")
  case True
  with assms obtain y ys where "xs = y # ys" by (cases xs) auto
  with True assms show ?thesis by simp
next
  case False
  with assms have j: "j = Suc i" "Suc i < length xs" by auto
  from j have "drop (Suc i) xs = xs ! Suc i # drop (Suc (Suc i)) xs" by (simp add: Cons_nth_drop_Suc)
  moreover from j have "take (Suc j) (xs[j := r]) = take (Suc i) xs @ [r]"
    by (simp add: take_Suc_conv_app_nth)
  ultimately show ?thesis using j by simp
qed

lemma unat_next:
  fixes w :: u16
  assumes "unat w < 64"
  shows "unat (if w + 1 = of_nat pongHistoryCount then 0 else w + 1) = (if Suc (unat w) = 64 then 0 else Suc (unat w))"
proof -
  have "unat (w + 1) = Suc (unat w)" using assms by (simp add: unat_word_ariths)
  moreover have "w + 1 = 64 \<longleftrightarrow> unat (w + 1) = 64" by (simp add: word_unat_eq_iff)
  ultimately show ?thesis by (simp add: pongHistoryCount_def)
qed

lemma addPong_history:
  assumes "ringInv st"
  shows "ringInv (addPongReplyLocked r st)"
    and "pongHistory (addPongReplyLocked r st) = keepLast pongHistoryCount (pongHistory st @ [r])"
proof -
  let ?st = "addPongReplyLocked r st" and ?xs = "esRecentPongs st" and ?i = "unat (esRecentPong st)"
  have *: "ringInv ?st \<and> pongHistory ?st = keepLast pongHistoryCount (pongHistory st @ [r])"
  proof (cases "length ?xs < pongHistoryCount")
    case True
    have idx: "unat (of_nat (length ?xs) :: u16) = length ?xs"
      using True by (simp add: unat_of_nat pongHistoryCount_def)
    have hist: "pongHistory st = ?xs" using assms True by (cases "?xs = []") (auto simp: ringInv_def pongHistory_def)
    show ?thesis using True
      by (simp add: addPongReplyLocked_def ringInv_def pongHistory_def [of ?st] hist idx keepLast_def)
        (simp add: pongHistory_def idx)
  next
    case False
    then have len: "length ?xs = 64" and i: "?i < 64"
      using assms by (auto simp: ringInv_def pongHistoryCount_def)
    let ?j = "if Suc ?i = 64 then 0 else Suc ?i"
    have xs: "esRecentPongs ?st = ?xs[?j := r]" and j: "unat (esRecentPong ?st) = ?j"
      using False unat_next [OF i] by (simp_all add: addPongReplyLocked_def Let_def)
    have "pongHistory ?st = tl (pongHistory st) @ [r]"
      using rotate_write [of ?i ?xs ?j r] len i xs j by (auto simp: pongHistory_def Let_def)
    moreover have "length (pongHistory st) = 64" by (simp add: length_pongHistory len)
    ultimately show ?thesis using xs j i len
      by (auto simp: ringInv_def pongHistoryCount_def keepLast_def drop_Suc)
  qed
  then show "ringInv ?st" "pongHistory ?st = keepLast pongHistoryCount (pongHistory st @ [r])" by auto
qed

lemma latency_of_history:
  assumes "ringInv st"
  shows "latencyLocked st = (if pongHistory st = [] then None else Some (prLatency (last (pongHistory st))))"
proof (cases "esRecentPongs st = []")
  case False
  then have i: "unat (esRecentPong st) < length (esRecentPongs st)" using assms by (simp add: ringInv_def)
  with False show ?thesis by (simp add: latencyLocked_def pongHistory_def last_append take_Suc_conv_app_nth)
qed (simp add: latencyLocked_def pongHistory_def)

lemma keepLast_snoc: "keepLast n (keepLast n xs @ [x]) = keepLast n (xs @ [x])"
  by (cases "n \<le> length xs") (simp_all add: keepLast_def Suc_diff_le)

lemma pongs_fold:
  "ringInv (foldl (\<lambda>st r. addPongReplyLocked r st) zeroEndpointState rs)
   \<and> pongHistory (foldl (\<lambda>st r. addPongReplyLocked r st) zeroEndpointState rs) = keepLast pongHistoryCount rs"
proof (induction rs rule: rev_induct)
  case Nil
  show ?case by (simp add: ringInv_def zeroEndpointState_def pongHistory_def keepLast_def)
next
  case (snoc r rs)
  then show ?case by (simp add: addPong_history keepLast_snoc)
qed

text \<open>
  C15. The ring buffer of pong replies is the history of the last 64. After any sequence of replies
  the ring holds exactly the last \<open>pongHistoryCount\<close> of them in order, the index stays in
  range, the latency read back is that of the newest reply, and the count of replies since a given
  time is the count in that history.
\<close>

theorem pong_ring_is_last_64:
  fixes rs :: "pongReply list"
  defines "st \<equiv> foldl (\<lambda>st r. addPongReplyLocked r st) zeroEndpointState rs"
  shows "pongHistory st = keepLast pongHistoryCount rs
    \<and> latencyLocked st = (if rs = [] then None else Some (prLatency (last rs)))
    \<and> length (filter P (esRecentPongs st)) = length (filter P (keepLast pongHistoryCount rs))"
proof -
  have inv: "ringInv st" and hist: "pongHistory st = keepLast pongHistoryCount rs"
    using pongs_fold [of rs] by (simp_all add: st_def)
  have "keepLast pongHistoryCount rs = [] \<longleftrightarrow> rs = []"
    by (cases rs) (simp_all add: keepLast_def pongHistoryCount_def)
  moreover have "rs \<noteq> [] \<Longrightarrow> last (keepLast pongHistoryCount rs) = last rs"
    by (cases rs) (simp_all add: keepLast_def pongHistoryCount_def last_drop)
  ultimately have "latencyLocked st = (if rs = [] then None else Some (prLatency (last rs)))"
    by (simp add: latency_of_history [OF inv] hist)
  moreover have "mset (filter P (esRecentPongs st)) = mset (filter P (keepLast pongHistoryCount rs))"
    using mset_pongHistory [of st] hist by (simp add: mset_filter)
  then have "length (filter P (esRecentPongs st)) = length (filter P (keepLast pongHistoryCount rs))"
    by (metis size_mset)
  ultimately show ?thesis using hist by simp
qed

section \<open>UDP path lifetime\<close>

definition udpLifetimeProbeCliffSlack :: duration where
  "udpLifetimeProbeCliffSlack = second * 2"

definition udpLifetimeProbeSchedulingTolerance :: duration where
  "udpLifetimeProbeSchedulingTolerance = quot udpLifetimeProbeCliffSlack 8"

definition heartbeatInterval :: duration where
  "heartbeatInterval = 3 * second"

record ProbeUDPLifetimeConfig =
  pcCliffs :: "duration list"
  pcCycleCanStartEvery :: duration

definition defaultProbeUDPLifetimeConfig :: ProbeUDPLifetimeConfig where
  "defaultProbeUDPLifetimeConfig =
     \<lparr>pcCliffs = [second * 10, second * 30, second * 60], pcCycleCanStartEvery = hour * 24\<rparr>"

text \<open>\<open>Equals\<close> takes pointers: \<open>None\<close> is nil.\<close>

definition configEquals :: "ProbeUDPLifetimeConfig option \<Rightarrow> ProbeUDPLifetimeConfig option \<Rightarrow> bool" where
  "configEquals p b = (case (p, b) of
     (None, None) \<Rightarrow> True
   | (Some x, Some y) \<Rightarrow> pcCliffs x = pcCliffs y \<and> pcCycleCanStartEvery x = pcCycleCanStartEvery y
   | _ \<Rightarrow> False)"

text \<open>The loop of \<open>Valid\<close>; \<open>prev\<close> is \<open>p.Cliffs[i-1]\<close>, \<open>None\<close> for the first cliff.\<close>

fun cliffsValid :: "duration option \<Rightarrow> duration list \<Rightarrow> bool" where
  "cliffsValid prev [] = True"
| "cliffsValid prev (c # cs) =
     (if c \<le> max (udpLifetimeProbeCliffSlack * 2) heartbeatInterval then False
      else case prev of
        None \<Rightarrow> cliffsValid (Some c) cs
      | Some b \<Rightarrow> if c \<le> b then False else cliffsValid (Some c) cs)"

definition configValid :: "ProbeUDPLifetimeConfig \<Rightarrow> bool" where
  "configValid p =
     (if length (pcCliffs p) < 1 then False
      else if pcCycleCanStartEvery p < 1 then False
      else cliffsValid None (pcCliffs p))"

record probeUDPLifetime =
  plConfig :: ProbeUDPLifetimeConfig
  plTimer :: "duration option"
  plBestAddr :: epAddr
  plCycleStartedAt :: walltime
  plCycleActive :: bool
  plCurrentCliff :: int
  plLastTxID :: txID

definition zeroProbeUDPLifetime :: probeUDPLifetime where
  "zeroProbeUDPLifetime = \<lparr>plConfig = \<lparr>pcCliffs = [], pcCycleCanStartEvery = 0\<rparr>, plTimer = None,
     plBestAddr = zeroEpAddr, plCycleStartedAt = 0, plCycleActive = False, plCurrentCliff = 0, plLastTxID = zeroTxID\<rparr>"

text \<open>\<open>p.config.Cliffs[p.currentCliff]\<close>; \<open>None\<close> is the panic of an index out of range.\<close>

definition currentCliffDurationEndpointLocked :: "probeUDPLifetime \<Rightarrow> duration option" where
  "currentCliffDurationEndpointLocked p =
     (if 0 \<le> plCurrentCliff p \<and> plCurrentCliff p < int (length (pcCliffs (plConfig p)))
      then Some (pcCliffs (plConfig p) ! nat (plCurrentCliff p)) else None)"

definition resetCycleEndpointLocked :: "probeUDPLifetime \<Rightarrow> probeUDPLifetime" where
  "resetCycleEndpointLocked p = p\<lparr>plTimer := None, plCycleActive := False, plCurrentCliff := 0, plBestAddr := zeroEpAddr\<rparr>"

text \<open>The argument of \<open>setProbeUDPLifetimeConfigLocked\<close> is a pointer, and so is the field it sets.\<close>

definition setProbeUDPLifetimeConfigLocked ::
    "bool \<Rightarrow> ProbeUDPLifetimeConfig option \<Rightarrow> probeUDPLifetime option \<Rightarrow> probeUDPLifetime option" where
  "setProbeUDPLifetimeConfigLocked isWireguardOnly desired cur =
     (if isWireguardOnly then cur
      else case desired of
        None \<Rightarrow> None
      | Some d \<Rightarrow>
          if \<not> configValid d then cur
          else case cur of
            Some p \<Rightarrow>
              if configEquals (Some (plConfig p)) (Some d) then cur
              else Some (resetCycleEndpointLocked ((resetCycleEndpointLocked p)\<lparr>plConfig := d\<rparr>))
          | None \<Rightarrow> Some (resetCycleEndpointLocked (zeroProbeUDPLifetime\<lparr>plConfig := d\<rparr>)))"

subsection \<open>Valid configurations\<close>

lemma cliffsValid_sorted:
  "cliffsValid prev cs \<longleftrightarrow>
     sorted_wrt (<) ((case prev of None \<Rightarrow> [] | Some b \<Rightarrow> [b]) @ cs) \<and> (\<forall>c\<in>set cs. c > 4 * second)"
proof (induction prev cs rule: cliffsValid.induct)
  case (2 prev c cs)
  have m: "max (udpLifetimeProbeCliffSlack * 2) heartbeatInterval = 4 * second"
    by (simp add: udpLifetimeProbeCliffSlack_def heartbeatInterval_def duration_units)
  show ?case using 2 by (cases prev) (auto simp: m dest: less_trans)
qed (simp split: option.split)

lemma configValid_iff:
  "configValid p \<longleftrightarrow> pcCliffs p \<noteq> [] \<and> pcCycleCanStartEvery p \<ge> 1
     \<and> sorted_wrt (<) (pcCliffs p) \<and> (\<forall>c\<in>set (pcCliffs p). c > 4 * second)"
  by (auto simp: configValid_def cliffsValid_sorted Suc_le_eq)

lemma configValid_default: "configValid defaultProbeUDPLifetimeConfig"
  by (simp add: configValid_iff defaultProbeUDPLifetimeConfig_def duration_units)

text \<open>The lifetime prober is well formed: its configuration is valid and its index in range.\<close>

definition lifetimeInv :: "probeUDPLifetime option \<Rightarrow> bool" where
  "lifetimeInv po = (case po of None \<Rightarrow> True
   | Some p \<Rightarrow> configValid (plConfig p) \<and> 0 \<le> plCurrentCliff p \<and> plCurrentCliff p < int (length (pcCliffs (plConfig p))))"

lemma lifetimeInv_None [simp]: "lifetimeInv None"
  by (simp add: lifetimeInv_def)

lemma configValid_length: "configValid c \<Longrightarrow> 0 < length (pcCliffs c)"
  by (simp add: configValid_iff)

lemma lifetimeInv_reset: "lifetimeInv (Some p) \<Longrightarrow> lifetimeInv (Some (resetCycleEndpointLocked p))"
  by (auto simp: lifetimeInv_def resetCycleEndpointLocked_def dest: configValid_length)

lemma lifetimeInv_setConfig: "lifetimeInv cur \<Longrightarrow> lifetimeInv (setProbeUDPLifetimeConfigLocked wg d cur)"
  by (auto simp: setProbeUDPLifetimeConfigLocked_def lifetimeInv_def resetCycleEndpointLocked_def configValid_iff
      split: option.split)

lemma currentCliff_inRange:
  assumes "lifetimeInv (Some p)"
  obtains c where "currentCliffDurationEndpointLocked p = Some c" "c > 4 * second" "c \<in> set (pcCliffs (plConfig p))"
proof (rule that)
  let ?c = "pcCliffs (plConfig p) ! nat (plCurrentCliff p)"
  show "currentCliffDurationEndpointLocked p = Some ?c"
    using assms by (simp add: lifetimeInv_def currentCliffDurationEndpointLocked_def)
  have "nat (plCurrentCliff p) < length (pcCliffs (plConfig p))" using assms by (simp add: lifetimeInv_def nat_less_iff)
  then show mem: "?c \<in> set (pcCliffs (plConfig p))" by simp
  have "\<forall>c\<in>set (pcCliffs (plConfig p)). c > 4 * second" using assms by (simp add: lifetimeInv_def configValid_iff)
  with mem show "?c > 4 * second" by blast
qed

end
