(* ===== verification/Srcsel_Loss.thy ===== *)
theory Srcsel_Loss
  imports Srcsel_Probe
begin

text \<open>
  Loss tracking of the probe manager: what \<open>noteProbeExpirationsLocked\<close> of
  \<open>src/wgengine/magicsock/sourcepath.go\<close> does to the per-pair loss counters and which sources it
  has rotated. The loop is shown to count expiries modulo the drop threshold.
\<close>

section \<open>Probe loss\<close>

definition lossOf :: "sourcePathProbeManager \<Rightarrow> sourcePathDualSendKey \<Rightarrow> int" where
  "lossOf pm key = (case gm_get (pmAuxProbeLoss pm) key of None \<Rightarrow> 0 | Some n \<Rightarrow> n)"

definition txKey :: "sourcePathProbeTx \<Rightarrow> sourcePathDualSendKey" where
  "txKey tx = \<lparr>dkDst = txDst tx, dkSource = txSource tx\<rparr>"

text \<open>Only sources that answered a probe recently are watched for loss.\<close>

definition watched :: "env \<Rightarrow> mono \<Rightarrow> sourcePathProbeManager \<Rightarrow> sourcePathDualSendKey \<Rightarrow> bool" where
  "watched e now pm key \<longleftrightarrow> \<not> isPrimary (dkSource key) \<and> hasRecentSampleLocked e (dkDst key) (dkSource key) now pm"

definition expiries :: "sourcePathDualSendKey \<Rightarrow> sourcePathProbeTx list \<Rightarrow> int" where
  "expiries key txs = int (length (filter (\<lambda>tx. txKey tx = key) txs))"

lemma txKey_sel [simp]: "dkDst (txKey tx) = txDst tx" "dkSource (txKey tx) = txSource tx"
  by (simp_all add: txKey_def)

lemma expiries_simps [simp]:
  "expiries key [] = 0" "expiries key (tx # txs) = of_bool (txKey tx = key) + expiries key txs"
  by (simp_all add: expiries_def)

lemma expiries_nonneg [simp]: "0 \<le> expiries key txs"
  by (simp add: expiries_def)

lemma lossOf_bounds: "streakInv n (pmAuxProbeLoss pm) \<Longrightarrow> 0 < n \<Longrightarrow> 0 \<le> lossOf pm key \<and> lossOf pm key < n"
  unfolding lossOf_def by (auto split: option.splits dest: streakInv_get)

lemma watched_cong: "pmSamples pm' = pmSamples pm \<Longrightarrow> watched e now pm' = watched e now pm"
  by (simp add: watched_def hasRecentSampleLocked_def fun_eq_iff)

lemma noteExpirationStep_cases:
  fixes pm :: sourcePathProbeManager and tx :: sourcePathProbeTx
  defines "n \<equiv> lossOf pm (txKey tx) + 1"
  shows "\<not> watched e now pm (txKey tx) \<Longrightarrow> noteExpirationStep e now th (pm, rs, seen) tx = (pm, rs, seen)"
    and "watched e now pm (txKey tx) \<Longrightarrow> n < th \<Longrightarrow> noteExpirationStep e now th (pm, rs, seen) tx
      = (pm\<lparr>pmAuxProbeLoss := gm_set (txKey tx) n (pmAuxProbeLoss pm)\<rparr>, rs, seen)"
    and "watched e now pm (txKey tx) \<Longrightarrow> \<not> n < th \<Longrightarrow> noteExpirationStep e now th (pm, rs, seen) tx
      = (pm\<lparr>pmAuxProbeLoss := gm_del (txKey tx) (gm_set (txKey tx) n (pmAuxProbeLoss pm))\<rparr>,
         if txSource tx \<in> set seen then rs
         else rs @ [\<lparr>roDst = txDst tx, roSource = txSource tx, roReason = ''source-path-probe-timeout''\<rparr>],
         if txSource tx \<in> set seen then seen else txSource tx # seen)"
  by (simp_all add: noteExpirationStep_def watched_def n_def lossOf_def txKey_def Let_def)

text \<open>The sources one of whose watched pairs has reached the threshold.\<close>

definition lossReached ::
    "env \<Rightarrow> mono \<Rightarrow> int \<Rightarrow> sourcePathProbeManager \<Rightarrow> sourcePathProbeTx list \<Rightarrow> sourceRxMeta set" where
  "lossReached e now th pm txs = dkSource ` {key. watched e now pm key \<and> lossOf pm key + expiries key txs \<ge> th}"

text \<open>
  The state of the loop after some expired probes \<open>txs\<close>, from a state with manager \<open>pm\<close>: the
  loss counter of a watched pair counts modulo the threshold, and a source is rotated once when
  one of its pairs reaches it.
\<close>

definition lossAfter ::
    "env \<Rightarrow> mono \<Rightarrow> int \<Rightarrow> sourcePathProbeManager \<Rightarrow> sourcePathProbeTx list \<Rightarrow> sourcePathDualSendKey \<Rightarrow> int" where
  "lossAfter e now th pm txs key =
     (if watched e now pm key then (lossOf pm key + expiries key txs) mod th else lossOf pm key)"

definition expiryState ::
    "env \<Rightarrow> mono \<Rightarrow> int \<Rightarrow> sourcePathProbeManager \<Rightarrow> sourcePathProbeTx list
      \<Rightarrow> sourcePathProbeManager \<times> sourcePathAuxRotation list \<times> sourceRxMeta list \<Rightarrow> bool" where
  "expiryState e now th pm txs st \<longleftrightarrow> (case st of (pm', rs, seen) \<Rightarrow>
     (\<exists>m. pm' = pm\<lparr>pmAuxProbeLoss := m\<rparr> \<and> streakInv th m)
   \<and> lossOf pm' = lossAfter e now th pm txs
   \<and> set seen = roSource ` set rs \<and> distinct (map roSource rs)
   \<and> set seen = lossReached e now th pm txs)"

lemma lossOf_update:
  "lossOf (pm\<lparr>pmAuxProbeLoss := gm_set k n m\<rparr>) = (lossOf (pm\<lparr>pmAuxProbeLoss := m\<rparr>))(k := n)"
  "lossOf (pm\<lparr>pmAuxProbeLoss := gm_del k m\<rparr>) = (lossOf (pm\<lparr>pmAuxProbeLoss := m\<rparr>))(k := 0)"
  by (simp_all add: lossOf_def gm_get_set gm_get_del fun_eq_iff)

lemma expiries_snoc [simp]: "expiries key (txs @ [tx]) = expiries key txs + of_bool (txKey tx = key)"
  by (simp add: expiries_def)

lemma mod_step:
  fixes x th :: int
  assumes "0 < th"
  shows "(x + 1) mod th = (if x mod th + 1 < th then x mod th + 1 else 0)"
proof -
  have "(x + 1) mod th = (x mod th + 1) mod th" by (simp add: mod_add_left_eq)
  moreover have "0 \<le> x mod th" "x mod th < th" using assms by simp_all
  ultimately show ?thesis by (auto simp: mod_pos_pos_trivial not_less dest: order_antisym)
qed

lemma mod_reach:
  fixes a n th :: int
  assumes "0 \<le> a" "a < th" "0 \<le> n"
  shows "(a + n + 1 \<ge> th) \<longleftrightarrow> (a + n \<ge> th \<or> (a + n) mod th + 1 \<ge> th)"
proof (cases "a + n \<ge> th")
  case False
  with assms show ?thesis by (auto simp: mod_pos_pos_trivial)
qed (use assms in auto)

lemma lossAfter_snoc:
  fixes tx :: sourcePathProbeTx and pm :: sourcePathProbeManager and e :: env and now th :: int and txs :: "sourcePathProbeTx list"
  assumes "0 < th"
  defines "k \<equiv> txKey tx" and "v \<equiv> lossAfter e now th pm txs (txKey tx)"
  shows "lossAfter e now th pm (txs @ [tx]) =
     (if watched e now pm k then (lossAfter e now th pm txs)(k := if v + 1 < th then v + 1 else 0)
      else lossAfter e now th pm txs)"
  using mod_step [OF assms(1)]
  by (auto simp: fun_eq_iff lossAfter_def k_def v_def add.assoc [symmetric])

lemma lossReached_snoc:
  assumes "streakInv th (pmAuxProbeLoss pm)" "0 < th"
  shows "lossReached e now th pm (txs @ [tx]) = lossReached e now th pm txs \<union>
     (if watched e now pm (txKey tx) \<and> \<not> lossAfter e now th pm txs (txKey tx) + 1 < th then {txSource tx} else {})"
proof -
  have "lossOf pm key + expiries key (txs @ [tx]) \<ge> th \<longleftrightarrow> lossOf pm key + expiries key txs \<ge> th
      \<or> (key = txKey tx \<and> (lossOf pm key + expiries key txs) mod th + 1 \<ge> th)" for key
    using mod_reach [of "lossOf pm key" th "expiries key txs"] lossOf_bounds [OF assms, of key]
    by (auto simp: add.assoc)
  then have "{key. watched e now pm key \<and> lossOf pm key + expiries key (txs @ [tx]) \<ge> th}
     = {key. watched e now pm key \<and> lossOf pm key + expiries key txs \<ge> th} \<union>
       (if watched e now pm (txKey tx) \<and> \<not> lossAfter e now th pm txs (txKey tx) + 1 < th then {txKey tx} else {})"
    by (auto simp: lossAfter_def not_less simp del: expiries_snoc)
  then show ?thesis unfolding lossReached_def by (simp add: image_Un)
qed

lemma expiryStateI:
  assumes "streakInv th m" "lossOf (pm\<lparr>pmAuxProbeLoss := m\<rparr>) = lossAfter e now th pm txs"
    "set seen = roSource ` set rs" "distinct (map roSource rs)" "set seen = lossReached e now th pm txs"
  shows "expiryState e now th pm txs (pm\<lparr>pmAuxProbeLoss := m\<rparr>, rs, seen)"
  unfolding expiryState_def prod.case using assms by blast

lemma expiryState_step:
  assumes st: "expiryState e now th pm txs (pm', rs, seen)" and inv: "streakInv th (pmAuxProbeLoss pm)" and th: "0 < th"
  shows "expiryState e now th pm (txs @ [tx]) (noteExpirationStep e now th (pm', rs, seen) tx)"
proof -
  let ?k = "txKey tx" and ?v = "lossAfter e now th pm txs (txKey tx)"
  from st obtain m where pm': "pm' = pm\<lparr>pmAuxProbeLoss := m\<rparr>" and inv': "streakInv th m"
    and loss: "lossOf (pm\<lparr>pmAuxProbeLoss := m\<rparr>) = lossAfter e now th pm txs"
    and seen: "set seen = roSource ` set rs" "distinct (map roSource rs)" "set seen = lossReached e now th pm txs"
    by (auto simp: expiryState_def)
  have w: "watched e now (pm\<lparr>pmAuxProbeLoss := m\<rparr>) = watched e now pm" by (rule watched_cong) simp
  note snoc = lossAfter_snoc [OF th, where tx = tx and e = e and now = now and pm = pm and txs = txs]
    lossReached_snoc [OF inv th, of e now txs tx]
  have v: "lossOf pm' ?k = ?v" "0 \<le> ?v"
    using loss lossOf_bounds [OF _ th, of pm' ?k] inv' by (auto simp: pm')
  consider (no) "\<not> watched e now pm ?k" | (lt) "watched e now pm ?k" "?v + 1 < th"
    | (ge) "watched e now pm ?k" "\<not> ?v + 1 < th" by blast
  then show ?thesis
  proof cases
    case no
    then have "noteExpirationStep e now th (pm', rs, seen) tx = (pm', rs, seen)"
      by (simp add: noteExpirationStep_cases(1) w pm')
    moreover have "expiryState e now th pm (txs @ [tx]) (pm', rs, seen)"
      unfolding pm' by (rule expiryStateI) (use no inv' loss seen in \<open>simp_all add: snoc\<close>)
    ultimately show ?thesis by simp
  next
    case lt
    then have "streakInv th (gm_set ?k (?v + 1) m)"
      using v by (intro streakInv_set [OF inv']) (auto simp: watched_def)
    moreover have "noteExpirationStep e now th (pm', rs, seen) tx = (pm\<lparr>pmAuxProbeLoss := gm_set ?k (?v + 1) m\<rparr>, rs, seen)"
      using lt v noteExpirationStep_cases(2) [of e now pm' tx th rs seen] by (simp add: w pm')
    ultimately show ?thesis using lt seen by (simp add: expiryStateI snoc lossOf_update loss)
  next
    case ge
    then have "streakInv th (gm_del ?k (gm_set ?k (?v + 1) m))"
      using inv' unfolding streakInv_def
      by (auto simp: gm_wf_set gm_wf_del dest!: gm_del_entry gm_set_entry)
    moreover have "noteExpirationStep e now th (pm', rs, seen) tx
        = (pm\<lparr>pmAuxProbeLoss := gm_del ?k (gm_set ?k (?v + 1) m)\<rparr>,
           if txSource tx \<in> set seen then rs
           else rs @ [\<lparr>roDst = txDst tx, roSource = txSource tx, roReason = ''source-path-probe-timeout''\<rparr>],
           if txSource tx \<in> set seen then seen else txSource tx # seen)"
      using ge v noteExpirationStep_cases(3) [of e now pm' tx th rs seen] by (simp add: w pm')
    ultimately show ?thesis using ge seen
      by (auto intro!: expiryStateI simp: snoc lossOf_update loss)
  qed
qed

lemma expiryState_foldl:
  assumes "streakInv th (pmAuxProbeLoss pm)" "0 < th"
  shows "expiryState e now th pm txs (foldl (noteExpirationStep e now th) (pm, [], []) txs)"
proof (induction txs rule: rev_induct)
  case Nil
  have "\<exists>m. pm = pm\<lparr>pmAuxProbeLoss := m\<rparr> \<and> streakInv th m"
    by (rule exI [of _ "pmAuxProbeLoss pm"]) (simp add: assms)
  then show ?case using lossOf_bounds [OF assms]
    by (simp add: expiryState_def lossReached_def lossAfter_def fun_eq_iff mod_pos_pos_trivial not_le)
next
  case (snoc tx txs)
  then show ?case using expiryState_step [OF _ assms]
    by (cases "foldl (noteExpirationStep e now th) (pm, [], []) txs") simp
qed

lemma noteExpirations_state:
  assumes "streakInv (sourcePathDualSendAuxProbeDropStreakValue e) (pmAuxProbeLoss pm)"
    and "noteProbeExpirationsLocked e txs now pm = (rs, pm')"
  shows "\<exists>seen. expiryState e now (sourcePathDualSendAuxProbeDropStreakValue e) pm txs (pm', rs, seen)"
proof -
  let ?th = "sourcePathDualSendAuxProbeDropStreakValue e"
  note st = expiryState_foldl [OF assms(1) streaks_pos(2), of e now txs]
  obtain pm1 rs1 seen1 where fl: "foldl (noteExpirationStep e now ?th) (pm, [], []) txs = (pm1, rs1, seen1)"
    by (cases "foldl (noteExpirationStep e now ?th) (pm, [], []) txs")
  have "(rs, pm') = (rs1, pm1)"
    using fl assms(2) streaks_pos(2) [of e] by (cases txs) (simp_all add: noteProbeExpirationsLocked_def Let_def)
  with st fl show ?thesis by auto
qed

lemma probeInv_noteExpirations:
  assumes "probeInv e t pm"
  shows "probeInv e t (snd (noteProbeExpirationsLocked e txs now pm))"
proof -
  obtain rs pm' where r: "noteProbeExpirationsLocked e txs now pm = (rs, pm')"
    by (cases "noteProbeExpirationsLocked e txs now pm")
  from assms noteExpirations_state [OF _ r] obtain m
    where "pm' = pm\<lparr>pmAuxProbeLoss := m\<rparr>" "streakInv (sourcePathDualSendAuxProbeDropStreakValue e) m"
    by (auto simp: probeInv_def expiryState_def)
  with assms r show ?thesis by (simp add: probeInv_def)
qed

section \<open>Pongs\<close>

text \<open>A pong answers a pending probe when it arrives, in time, on the socket generation that sent
  the probe and from the node that was probed.\<close>

definition answers ::
    "pongMsg \<Rightarrow> discoKey \<Rightarrow> sourceRxMeta \<Rightarrow> mono \<Rightarrow> sourcePathProbeManager \<Rightarrow> sourcePathProbeTx \<Rightarrow> bool" where
  "answers pong sender rxMeta now pm tx \<longleftrightarrow> \<not> isPrimary rxMeta
     \<and> gm_get (pmPending pm) (pgTxID pong) = Some tx \<and> msub now (txAt tx) < pingTimeoutDuration
     \<and> txSource tx = rxMeta \<and> txDstDisco tx = sender"

lemma handlePong_answers:
  assumes "answers pong sender rxMeta now pm tx"
  shows "\<exists>older. set older \<subseteq> set (pmSamples pm)
     \<and> (0 < sourcePathProbeSampleLimitCount e \<longrightarrow> int (length older) < sourcePathProbeSampleLimitCount e)
     \<and> handlePongLocked e pong sender src rxMeta now pm = (True,
       pm\<lparr>pmPending := gm_del (pgTxID pong) (pmPending pm),
          pmOutcomes := pushOutcome e \<lparr>ocDst = txDst tx, ocSource = rxMeta, ocAt = now, ocLost = False\<rparr> (pmOutcomes pm),
          pmAuxProbeLoss := gm_del \<lparr>dkDst = txDst tx, dkSource = rxMeta\<rparr> (pmAuxProbeLoss pm),
          pmSamples := older @ [\<lparr>smTxid = pgTxID pong, smDst = txDst tx, smPongFrom = src, smPongSrc = pgSrc pong,
             smSource = rxMeta, smLatency = msub now (txAt tx), smAt = now\<rparr>]\<rparr>)"
proof -
  let ?fresh = "filter (\<lambda>sm. msub now (smAt sm) \<le> sourcePathSampleTTLValue e) (pmSamples pm)"
  let ?sm = "\<lparr>smTxid = pgTxID pong, smDst = txDst tx, smPongFrom = src, smPongSrc = pgSrc pong,
             smSource = rxMeta, smLatency = msub now (txAt tx), smAt = now\<rparr>"
  obtain older where old: "capSlice (sourcePathProbeSampleLimitCount e) (?fresh @ [?sm]) = older @ [?sm]"
    "set older \<subseteq> set ?fresh"
    using capSlice_append_last [of "sourcePathProbeSampleLimitCount e" ?fresh ?sm] by (elim exE conjE)
  have "int (length older) < sourcePathProbeSampleLimitCount e" if "0 < sourcePathProbeSampleLimitCount e"
    using length_capSlice [OF that, of "?fresh @ [?sm]"] old(1) by simp
  moreover have "handlePongLocked e pong sender src rxMeta now pm = (True,
       pm\<lparr>pmPending := gm_del (pgTxID pong) (pmPending pm),
          pmOutcomes := pushOutcome e \<lparr>ocDst = txDst tx, ocSource = rxMeta, ocAt = now, ocLost = False\<rparr> (pmOutcomes pm),
          pmAuxProbeLoss := gm_del \<lparr>dkDst = txDst tx, dkSource = rxMeta\<rparr> (pmAuxProbeLoss pm),
          pmSamples := capSlice (sourcePathProbeSampleLimitCount e) (?fresh @ [?sm])\<rparr>)"
    using assms by (simp add: answers_def handlePongLocked_def noteOutcome_eq pruneSamples_eq Let_def)
  moreover have "set older \<subseteq> set (pmSamples pm)" using old(2) by auto
  ultimately show ?thesis unfolding old(1) by (intro exI [of _ older] conjI impI)
qed

lemma handlePong_other:
  assumes "\<nexists>tx. answers pong sender rxMeta now pm tx"
  shows "pmSamples (snd (handlePongLocked e pong sender src rxMeta now pm)) = pmSamples pm"
    "pmAuxProbeLoss (snd (handlePongLocked e pong sender src rxMeta now pm)) = pmAuxProbeLoss pm"
proof -
  have "pmSamples (snd (handlePongLocked e pong sender src rxMeta now pm)) = pmSamples pm
      \<and> pmAuxProbeLoss (snd (handlePongLocked e pong sender src rxMeta now pm)) = pmAuxProbeLoss pm"
  proof (cases "gm_get (pmPending pm) (pgTxID pong)")
    case (Some tx)
    have "isPrimary rxMeta \<or> msub now (txAt tx) \<ge> pingTimeoutDuration \<or> txSource tx \<noteq> rxMeta \<or> txDstDisco tx \<noteq> sender"
      using assms Some by (auto simp: answers_def)
    then show ?thesis by (elim disjE) (simp_all add: handlePongLocked_def Some noteOutcome_eq)
  qed (simp add: handlePongLocked_def)
  then show "pmSamples (snd (handlePongLocked e pong sender src rxMeta now pm)) = pmSamples pm"
    "pmAuxProbeLoss (snd (handlePongLocked e pong sender src rxMeta now pm)) = pmAuxProbeLoss pm" by simp_all
qed

lemma probeInv_pong:
  assumes inv: "probeInv e t pm" and t: "clock t"
  shows "probeInv e t (snd (handlePongLocked e pong sender src rxMeta t pm))"
proof (cases "\<exists>tx. answers pong sender rxMeta t pm tx")
  case True
  then obtain tx where tx: "answers pong sender rxMeta t pm tx" ..
  then have "txOk t tx" using inv by (auto simp: answers_def probeInv_def pendingInv_def dest: gm_get_in)
  moreover from this t have "msub t (txAt tx) = t - txAt tx" by (intro msub_clock) (auto simp: txOk_def clock_def)
  ultimately have sm: "0 \<le> msub t (txAt tx)" "msub t (txAt tx) < pingTimeoutDuration" "isDirect (txDst tx)"
    "\<not> isPrimary rxMeta" using tx by (simp_all add: txOk_def answers_def)
  obtain older where older: "set older \<subseteq> set (pmSamples pm)"
      "0 < sourcePathProbeSampleLimitCount e \<longrightarrow> int (length older) < sourcePathProbeSampleLimitCount e"
    and eq: "handlePongLocked e pong sender src rxMeta t pm = (True,
       pm\<lparr>pmPending := gm_del (pgTxID pong) (pmPending pm),
          pmOutcomes := pushOutcome e \<lparr>ocDst = txDst tx, ocSource = rxMeta, ocAt = t, ocLost = False\<rparr> (pmOutcomes pm),
          pmAuxProbeLoss := gm_del \<lparr>dkDst = txDst tx, dkSource = rxMeta\<rparr> (pmAuxProbeLoss pm),
          pmSamples := older @ [\<lparr>smTxid = pgTxID pong, smDst = txDst tx, smPongFrom = src, smPongSrc = pgSrc pong,
             smSource = rxMeta, smLatency = msub t (txAt tx), smAt = t\<rparr>]\<rparr>)"
    using handlePong_answers [OF tx, of e src] by blast
  have "samplesInv e t (older @ [\<lparr>smTxid = pgTxID pong, smDst = txDst tx, smPongFrom = src, smPongSrc = pgSrc pong,
             smSource = rxMeta, smLatency = msub t (txAt tx), smAt = t\<rparr>])"
    using inv older sm t unfolding probeInv_def samplesInv_def
    by (auto simp: sampleOk_def [of _ "\<lparr>smTxid = _, smDst = _, smPongFrom = _, smPongSrc = _, smSource = _, smLatency = _, smAt = _\<rparr>"] clock_def)
  moreover have "outcomeOk t \<lparr>ocDst = txDst tx, ocSource = rxMeta, ocAt = t, ocLost = False\<rparr>"
    using sm t by (simp add: outcomeOk_def clock_def)
  ultimately show ?thesis using inv by (simp add: eq probeInv_def pendingInv_del streakInv_del outcomesInv_push)
next
  case False
  have "outcomeOk t \<lparr>ocDst = txDst tx, ocSource = txSource tx, ocAt = t, ocLost = True\<rparr>"
    if "gm_get (pmPending pm) (pgTxID pong) = Some tx" for tx
    using that inv t by (auto simp: probeInv_def pendingInv_def txOk_def outcomeOk_def clock_def dest: gm_get_in)
  with False inv show ?thesis
    by (auto simp: handlePongLocked_def answers_def noteOutcome_eq probeInv_def pendingInv_del outcomesInv_push
        split: option.splits)
qed

section \<open>Properties of the probe manager\<close>

definition exDst :: epAddr where
  "exDst = \<lparr>ap = \<lparr>apAddr = AddrV4 0x01020304, apPort = 41641\<rparr>, vni = 0\<rparr>"

definition exAux :: sourceRxMeta where
  "exAux = \<lparr>rxSocketID = 1, rxGeneration = 7\<rparr>"

definition exTx :: "u8 \<Rightarrow> mono \<Rightarrow> sourcePathProbeTx" where
  "exTx n t = \<lparr>txTxid = [n], txDst = exDst, txDstDisco = [9], txSource = exAux, txAt = t, txSize = 100\<rparr>"

definition exManager :: "nat \<Rightarrow> sourcePathProbeManager" where
  "exManager n = fold (\<lambda>i. snd \<circ> addLocked defaultEnv (exTx (of_nat i) (int i))) [0..<n] emptyManager"

text \<open>
  C12. Admission of a probe. After expired probes are dropped, \<open>addWithBudgetLocked\<close> refuses for
  the hard cap, then for a new peer beyond the peer budget, then for the peer's burst, in this
  order and in no other case; it tracks the probe exactly when it reports
  \<open>sourcePathProbeAdded\<close> and otherwise leaves the unexpired probes as they were.
\<close>

theorem probe_admission:
  assumes "gm_wf (pmPending pm)" and "addWithBudgetLocked e tx maxPeers maxBurst hardCap pm = (r, pm')"
  defines "lv \<equiv> live (txAt tx) pm"
  shows "(r = sourcePathProbeHardCapExceeded \<longleftrightarrow> 0 < hardCap \<and> hardCap \<le> int (gm_len lv))
    \<and> (r = sourcePathProbePeerBudgetExceeded \<longleftrightarrow> r \<noteq> sourcePathProbeHardCapExceeded \<and> 0 < maxPeers
       \<and> txDstDisco tx \<notin> peersOf lv \<and> maxPeers \<le> int (card (peersOf lv)))
    \<and> (r = sourcePathProbeAdded \<longleftrightarrow> r \<noteq> sourcePathProbeHardCapExceeded \<and> r \<noteq> sourcePathProbePeerBudgetExceeded
       \<and> peerPendingCount (txDstDisco tx) lv < (if maxBurst \<le> 0 then 8 else maxBurst))
    \<and> pmPending pm' = (if r = sourcePathProbeAdded then gm_set (txTxid tx) tx lv else lv)"
proof -
  have eq: "r = admission (txDstDisco tx) maxPeers maxBurst hardCap lv"
    "pm' = (if r = sourcePathProbeAdded
       then (fst (pruneExpiredLocked e (txAt tx) pm))\<lparr>pmPending := gm_set (txTxid tx) tx lv\<rparr>
       else fst (pruneExpiredLocked e (txAt tx) pm))"
    using assms(2) by (auto simp: addWithBudget_eq [OF assms(1)] lv_def Let_def)
  have "pmPending pm' = (if r = sourcePathProbeAdded then gm_set (txTxid tx) tx lv else lv)"
    by (simp add: eq(2) pruneExpired_eq [OF assms(1)] lv_def live_def Let_def)
  then show ?thesis by (simp add: eq(1) admission_def srcsel_consts)
qed

theorem probe_admission_witness:
  "fst (addWithBudgetLocked defaultEnv (exTx 1 1) 1 1 10 (exManager 1)) = sourcePathProbeBurstBudgetExceeded
   \<and> pmPending (snd (addWithBudgetLocked defaultEnv (exTx 1 1) 1 1 10 (exManager 1))) = live 1 (exManager 1)"
proof -
  have wf: "gm_wf (pmPending (exManager 1))" by code_simp
  have r: "fst (addWithBudgetLocked defaultEnv (exTx 1 1) 1 1 10 (exManager 1)) = sourcePathProbeBurstBudgetExceeded"
    by code_simp
  then show ?thesis
    using probe_admission [OF wf prod.collapse [symmetric], where e = defaultEnv and tx = "exTx 1 1"
        and maxPeers = 1 and maxBurst = 1 and hardCap = 10]
    by (simp add: exTx_def)
qed


definition exPong :: pongMsg where
  "exPong = \<lparr>pgTxID = [0], pgSrc = ap exDst\<rparr>"


text \<open>
  Dropping an auxiliary source removes every trace of it and nothing else: no pending probe,
  sample, outcome, flow, failure streak, loss counter or demotion mentions it afterwards, all
  entries of other sources are kept in order, and the four counts returned are the numbers of
  entries removed. For the primary source nothing changes.
\<close>

theorem dropSource_exact:
  assumes "dropSourceLocked source pm = ((samples, outcomes, pending, flows), pm')"
  shows "if isPrimary source then pm' = pm else
      pmSamples pm' = filter (\<lambda>sm. smSource sm \<noteq> source) (pmSamples pm)
    \<and> pmOutcomes pm' = filter (\<lambda>oc. ocSource oc \<noteq> source) (pmOutcomes pm)
    \<and> (\<forall>k tx. (k, tx) \<in> set (pmPending pm') \<longleftrightarrow> (k, tx) \<in> set (pmPending pm) \<and> txSource tx \<noteq> source)
    \<and> (\<forall>k st. (k, st) \<in> set (pmFlowMap pm') \<longleftrightarrow> (k, st) \<in> set (pmFlowMap pm) \<and> fsSource st \<noteq> source)
    \<and> (\<forall>k n. (k, n) \<in> set (pmAuxFailStreak pm') \<longleftrightarrow> (k, n) \<in> set (pmAuxFailStreak pm) \<and> dkSource k \<noteq> source)
    \<and> (\<forall>k n. (k, n) \<in> set (pmAuxProbeLoss pm') \<longleftrightarrow> (k, n) \<in> set (pmAuxProbeLoss pm) \<and> dkSource k \<noteq> source)
    \<and> (\<forall>k u. (k, u) \<in> set (pmDemotedAuxTill pm') \<longleftrightarrow> (k, u) \<in> set (pmDemotedAuxTill pm) \<and> dkSource k \<noteq> source)
    \<and> pmActiveBackup pm' = pmActiveBackup pm \<and> pmFlowRR pm' = pmFlowRR pm
    \<and> samples + length (pmSamples pm') = length (pmSamples pm)
    \<and> outcomes + length (pmOutcomes pm') = length (pmOutcomes pm)
    \<and> pending + gm_len (pmPending pm') = gm_len (pmPending pm)
    \<and> flows + gm_len (pmFlowMap pm') = gm_len (pmFlowMap pm)"
proof (cases "isPrimary source")
  case False
  have len: "length (filter P xs) + length (filter (\<lambda>x. \<not> P x) xs) = length xs" for P and xs :: "'x list"
    by (rule sum_length_filter_compl)
  from False assms have pm': "pm' = snd (dropSourceLocked source pm)"
    and n: "(samples, outcomes, pending, flows) = fst (dropSourceLocked source pm)" by simp_all
  show ?thesis using False n
    by (simp add: pm' dropSourceLocked_def compactSlice_eq_filter gm_del_if_entry len
        gm_len_del_if_count [unfolded add.commute [of "gm_len _"]])
qed (use assms in \<open>simp add: dropSourceLocked_def\<close>)

theorem dropSource_exact_witness:
  "gm_len (pmPending (exManager 2)) = 2 \<and> gm_len (pmPending (snd (dropSourceLocked exAux (exManager 2)))) = 0"
proof -
  have eq: "dropSourceLocked exAux (exManager 2) = ((0, 0, 2, 0), snd (dropSourceLocked exAux (exManager 2)))"
    by code_simp
  have "\<not> isPrimary exAux" "gm_len (pmPending (exManager 2)) = 2" by code_simp+
  with dropSource_exact [OF eq] show ?thesis by simp
qed

text \<open>
  C23. Loss accounting of expired probes. For every pair of destination and auxiliary source that
  answered a probe recently, the loss counter advances by the number of its expired probes modulo
  the drop threshold; other pairs keep theirs. A source is handed over for rotation exactly when
  one of its watched pairs reached the threshold, and at most once.
\<close>

theorem expirations_rotate_iff_reached:
  assumes "streakInv (sourcePathDualSendAuxProbeDropStreakValue e) (pmAuxProbeLoss pm)"
    and "noteProbeExpirationsLocked e txs now pm = (rotations, pm')"
  shows "(\<forall>key. lossOf pm' key =
       (if watched e now pm key
        then (lossOf pm key + expiries key txs) mod sourcePathDualSendAuxProbeDropStreakValue e
        else lossOf pm key))
    \<and> (\<forall>s. s \<in> roSource ` set rotations \<longleftrightarrow>
         (\<exists>d. watched e now pm \<lparr>dkDst = d, dkSource = s\<rparr>
            \<and> sourcePathDualSendAuxProbeDropStreakValue e
                \<le> lossOf pm \<lparr>dkDst = d, dkSource = s\<rparr> + expiries \<lparr>dkDst = d, dkSource = s\<rparr> txs))
    \<and> distinct (map roSource rotations)
    \<and> pmSamples pm' = pmSamples pm \<and> pmPending pm' = pmPending pm \<and> pmOutcomes pm' = pmOutcomes pm"
proof -
  let ?th = "sourcePathDualSendAuxProbeDropStreakValue e"
  from noteExpirations_state [OF assms] obtain seen m where
    pm': "pm' = pm\<lparr>pmAuxProbeLoss := m\<rparr>" and loss: "lossOf pm' = lossAfter e now ?th pm txs"
    and rot: "roSource ` set rotations = lossReached e now ?th pm txs" "distinct (map roSource rotations)"
    unfolding expiryState_def by auto
  have "s \<in> lossReached e now ?th pm txs \<longleftrightarrow> (\<exists>d. watched e now pm \<lparr>dkDst = d, dkSource = s\<rparr>
      \<and> ?th \<le> lossOf pm \<lparr>dkDst = d, dkSource = s\<rparr> + expiries \<lparr>dkDst = d, dkSource = s\<rparr> txs)" for s
    unfolding lossReached_def image_iff mem_Collect_eq Bex_def
    by (metis (full_types) sourcePathDualSendKey.cases sourcePathDualSendKey.select_convs(2))
  with loss rot show ?thesis by (simp add: lossAfter_def) (simp add: pm')
qed

definition exSampled :: sourcePathProbeManager where
  "exSampled = snd (handlePongLocked defaultEnv exPong [9] exDst exAux 1000 (exManager 3))"

theorem expirations_rotate_iff_reached_witness:
  "distinct (map roSource (fst (noteProbeExpirationsLocked defaultEnv [exTx 1 1, exTx 2 2] (6 * second) exSampled)))
   \<and> map roSource (fst (noteProbeExpirationsLocked defaultEnv [exTx 1 1, exTx 2 2] (6 * second) exSampled)) = [exAux]"
proof -
  have "pmAuxProbeLoss exSampled = []" by code_simp
  then have "streakInv (sourcePathDualSendAuxProbeDropStreakValue defaultEnv) (pmAuxProbeLoss exSampled)"
    by (simp add: streakInv_def)
  from expirations_rotate_iff_reached [OF this prod.collapse [symmetric]]
  have "distinct (map roSource (fst (noteProbeExpirationsLocked defaultEnv [exTx 1 1, exTx 2 2] (6 * second) exSampled)))"
    by blast
  moreover have "map roSource (fst (noteProbeExpirationsLocked defaultEnv [exTx 1 1, exTx 2 2] (6 * second) exSampled)) = [exAux]"
    by code_simp
  ultimately show ?thesis by (rule conjI)
qed

end
