(* ===== verification/Srcsel_Score.thy ===== *)
theory Srcsel_Score
  imports Srcsel_Loss
begin

text \<open>
  Scoring of auxiliary sources (\<open>candidateScoreLocked\<close>, \<open>bestCandidateLocked\<close>,
  \<open>applyMultiMetricScore\<close> and their helpers in \<open>src/wgengine/magicsock/sourcepath.go\<close>), with the
  float arithmetic written out. \<open>math.Exp\<close> has architecture-specific code behind it and is the
  parameter \<open>fexp\<close>; \<open>strconv.ParseFloat\<close> is the parameter \<open>parseFloat\<close>.
\<close>

record sourcePathCandidateScore =
  csSource :: sourceRxMeta
  csLatency :: duration
  csJitter :: duration
  csLoss :: float64
  csScore :: float64
  csSamples :: int
  csLastAt :: mono

section \<open>Quality score\<close>

definition sourcePathExpNorm :: "(float64 \<Rightarrow> float64) \<Rightarrow> float64 \<Rightarrow> float64 \<Rightarrow> float64" where
  "sourcePathExpNorm fexp v maxV =
     (if fle maxV (Fin 0) then Fin 1
      else
        let x0 = fdiv v maxV;
            x1 = (if flt x0 (Fin 0) then Fin 0 else x0);
            x2 = (if flt (Fin 1) x1 then Fin 1 else x1)
        in fdiv (Fin 1) (fexp (fmul (Fin 4) x2)))"

definition sourcePathQualityScore ::
    "(float64 \<Rightarrow> float64) \<Rightarrow> env \<Rightarrow> duration \<Rightarrow> duration \<Rightarrow> float64 \<Rightarrow> sourcePathScoreWeights \<Rightarrow> float64" where
  "sourcePathQualityScore fexp e latency jitter loss weights =
     (let latNorm = sourcePathExpNorm fexp (fOfInt latency) (fOfInt (sourcePathLatencyMaxValue e));
          jitterNorm = sourcePathExpNorm fexp (fOfInt jitter) (fOfInt (sourcePathJitterMaxValue e));
          lossNorm = sourcePathExpNorm fexp loss (sourcePathLossMaxValue e)
      in fadd (fadd (fmul latNorm (wLatency weights)) (fmul jitterNorm (wJitter weights)))
              (fmul lossNorm (wLoss weights)))"

text \<open>Returns whether the candidate is kept, and the candidate with its score set.\<close>

definition applyMultiMetricScore ::
    "(float64 \<Rightarrow> float64) \<Rightarrow> (string \<Rightarrow> float64 option) \<Rightarrow> env \<Rightarrow> duration \<Rightarrow> sourcePathCandidateScore
      \<Rightarrow> bool \<times> sourcePathCandidateScore" where
  "applyMultiMetricScore fexp parseFloat e primaryRTT c =
     (if csLatency c > sourcePathLatencyMaxValue e then (False, c)
      else if csJitter c > sourcePathJitterMaxValue e then (False, c)
      else if flt (sourcePathLossMaxValue e) (csLoss c) then (False, c)
      else
        let weights = sourcePathScoreWeightsValue parseFloat e;
            c' = c\<lparr>csScore := sourcePathQualityScore fexp e (csLatency c) (csJitter c) (csLoss c) weights\<rparr>
        in if primaryRTT \<le> 0 then (True, c')
           else
             let primaryScore = sourcePathQualityScore fexp e primaryRTT 0 (Fin 0) weights;
                 needed = fmul primaryScore (fadd (Fin 1) (fdiv (fOfInt (sourcePathScoreImprovePctValue e)) (fOfInt 100)))
             in (flt needed (csScore c'), c'))"

section \<open>Loss ratio\<close>

definition lossCountStep :: "epAddr \<Rightarrow> sourceRxMeta \<Rightarrow> int \<times> int \<Rightarrow> sourcePathProbeOutcome \<Rightarrow> int \<times> int" where
  "lossCountStep dst source st oc = (case st of (tot, lost) \<Rightarrow>
     if ocDst oc \<noteq> dst \<or> ocSource oc \<noteq> source then (tot, lost)
     else (tot + 1, if ocLost oc then lost + 1 else lost))"

definition lossRatioLocked ::
    "env \<Rightarrow> epAddr \<Rightarrow> sourceRxMeta \<Rightarrow> mono \<Rightarrow> sourcePathProbeManager \<Rightarrow> float64 \<times> sourcePathProbeManager" where
  "lossRatioLocked e dst source now pm =
     (let pm' = pruneExpiredOutcomesLocked e now pm in
      case foldl (lossCountStep dst source) (0, 0) (pmOutcomes pm') of (tot, lost) \<Rightarrow>
        (if tot = 0 then Fin 0 else fdiv (fOfInt lost) (fOfInt tot), pm'))"

section \<open>Candidates\<close>

text \<open>One turn of the loop over the samples; the state is \<open>candidate\<close> (if \<open>candidateOK\<close>),
  \<open>sumLatencyNs\<close> and \<open>sumSqNs\<close>.\<close>

definition scanSampleStep ::
    "env \<Rightarrow> epAddr \<Rightarrow> sourceRxMeta \<Rightarrow> mono \<Rightarrow> sourcePathCandidateScore option \<times> float64 \<times> float64
      \<Rightarrow> sourcePathProbeSample \<Rightarrow> sourcePathCandidateScore option \<times> float64 \<times> float64" where
  "scanSampleStep e dst source now st sm = (case st of (candidate, sumLatencyNs, sumSqNs) \<Rightarrow>
     if smDst sm \<noteq> dst \<or> smSource sm \<noteq> source then st
     else if msub now (smAt sm) > sourcePathSampleTTLValue e then st
     else
       let latencyNs = fOfInt (smLatency sm);
           sumLatencyNs' = fadd sumLatencyNs latencyNs;
           sumSqNs' = fadd sumSqNs (fmul latencyNs latencyNs)
       in case candidate of
            None \<Rightarrow> (Some \<lparr>csSource = source, csLatency = 0, csJitter = 0, csLoss = Fin 0, csScore = Fin 0,
                         csSamples = 1, csLastAt = smAt sm\<rparr>, sumLatencyNs', sumSqNs')
          | Some c \<Rightarrow> (Some (c\<lparr>csSamples := csSamples c + 1,
                              csLastAt := if msub (smAt sm) (csLastAt c) > 0 then smAt sm else csLastAt c\<rparr>),
                      sumLatencyNs', sumSqNs'))"

definition candidateScoreLocked ::
    "(float64 \<Rightarrow> float64) \<Rightarrow> (string \<Rightarrow> float64 option) \<Rightarrow> env \<Rightarrow> epAddr \<Rightarrow> sourceRxMeta \<Rightarrow> mono \<Rightarrow> duration
      \<Rightarrow> sourcePathProbeManager \<Rightarrow> sourcePathCandidateScore option \<times> sourcePathProbeManager" where
  "candidateScoreLocked fexp parseFloat e dst source now primaryRTT pm =
     (if \<not> isDirect dst then (None, pm)
      else if isPrimary source then (None, pm)
      else
        let thresholdPct = sourcePathAuxBeatThresholdPercentValue e;
            multiMetric = sourcePathMultiMetricEnabled e
        in case foldl (scanSampleStep e dst source now) (None, Fin 0, Fin 0) (pmSamples pm) of
             (None, _, _) \<Rightarrow> (None, pm)
           | (Some c0, sumLatencyNs, sumSqNs) \<Rightarrow>
               if csSamples c0 < sourcePathMinSamplesForUse then (None, pm)
               else
                 let meanNs = fdiv sumLatencyNs (fOfInt (csSamples c0));
                     variance0 = fsub (fdiv sumSqNs (fOfInt (csSamples c0))) (fmul meanNs meanNs);
                     varianceNs = (if flt variance0 (Fin 0) then Fin 0 else variance0);
                     (loss, pm') = lossRatioLocked e dst source now pm;
                     c = c0\<lparr>csLatency := fToInt64 meanNs, csJitter := fToInt64 (fsqrt varianceNs), csLoss := loss\<rparr>
                 in if multiMetric
                    then (case applyMultiMetricScore fexp parseFloat e primaryRTT c of (ok, c') \<Rightarrow>
                      if \<not> ok then (None, pm') else (Some c', pm'))
                    else if primaryRTT > 0 \<and> thresholdPct > 0
                      then (let cutoff = dsub primaryRTT (quot (dmul primaryRTT thresholdPct) 100)
                            in if csLatency c \<ge> cutoff then (None, pm') else (Some c, pm'))
                    else (Some c, pm'))"

definition betterThan :: "sourcePathCandidateScore \<Rightarrow> sourcePathCandidateScore \<Rightarrow> bool \<Rightarrow> bool" where
  "betterThan c best multiMetric =
     (if multiMetric
      then flt (csScore best) (csScore c) \<or> (feq (csScore c) (csScore best) \<and> msub (csLastAt c) (csLastAt best) > 0)
      else csLatency c < csLatency best
           \<or> (csLatency c = csLatency best \<and> msub (csLastAt c) (csLastAt best) > 0))"

definition bestCandidateStep ::
    "(float64 \<Rightarrow> float64) \<Rightarrow> (string \<Rightarrow> float64 option) \<Rightarrow> env \<Rightarrow> epAddr \<Rightarrow> mono \<Rightarrow> duration
      \<Rightarrow> sourcePathCandidateScore option \<times> sourcePathProbeManager \<Rightarrow> sourceRxMeta
      \<Rightarrow> sourcePathCandidateScore option \<times> sourcePathProbeManager" where
  "bestCandidateStep fexp parseFloat e dst now primaryRTT st source = (case st of (best, pm) \<Rightarrow>
     case candidateScoreLocked fexp parseFloat e dst source now primaryRTT pm of
       (None, pm') \<Rightarrow> (best, pm')
     | (Some c, pm') \<Rightarrow>
         (case best of
            None \<Rightarrow> (Some c, pm')
          | Some b \<Rightarrow> (if betterThan c b (sourcePathMultiMetricEnabled e) then Some c else Some b, pm')))"

definition bestCandidateLocked ::
    "(float64 \<Rightarrow> float64) \<Rightarrow> (string \<Rightarrow> float64 option) \<Rightarrow> env \<Rightarrow> epAddr \<Rightarrow> sourceRxMeta list \<Rightarrow> mono \<Rightarrow> duration
      \<Rightarrow> sourcePathProbeManager \<Rightarrow> sourcePathCandidateScore option \<times> sourcePathProbeManager" where
  "bestCandidateLocked fexp parseFloat e dst sources now primaryRTT pm =
     foldl (bestCandidateStep fexp parseFloat e dst now primaryRTT) (None, pm) sources"

section \<open>The samples a candidate is computed from\<close>

definition freshFor :: "env \<Rightarrow> epAddr \<Rightarrow> sourceRxMeta \<Rightarrow> mono \<Rightarrow> sourcePathProbeSample \<Rightarrow> bool" where
  "freshFor e dst source now sm \<longleftrightarrow>
     smDst sm = dst \<and> smSource sm = source \<and> msub now (smAt sm) \<le> sourcePathSampleTTLValue e"

definition freshSamples :: "env \<Rightarrow> epAddr \<Rightarrow> sourceRxMeta \<Rightarrow> mono \<Rightarrow> sourcePathProbeManager \<Rightarrow> sourcePathProbeSample list" where
  "freshSamples e dst source now pm = filter (freshFor e dst source now) (pmSamples pm)"

lemma scan_fresh:
  "foldl (scanSampleStep e dst source now) st sms
     = foldl (scanSampleStep e dst source now) st (filter (freshFor e dst source now) sms)"
proof (induction sms arbitrary: st)
  case (Cons sm sms)
  have "scanSampleStep e dst source now st sm = st" if "\<not> freshFor e dst source now sm"
    using that by (auto simp: scanSampleStep_def freshFor_def split: prod.splits)
  with Cons show ?case by simp
qed simp

text \<open>What the loop has computed after the fresh samples \<open>sms\<close>.\<close>

definition scanned ::
    "sourceRxMeta \<Rightarrow> sourcePathProbeSample list \<Rightarrow> sourcePathCandidateScore option \<times> float64 \<times> float64 \<Rightarrow> bool" where
  "scanned source sms st \<longleftrightarrow> (case st of (candidate, sl, _) \<Rightarrow>
     sl = Fin (of_int (sum_list (map smLatency sms)))
   \<and> (case candidate of
        None \<Rightarrow> sms = []
      | Some c \<Rightarrow> sms \<noteq> [] \<and> csSource c = source \<and> csSamples c = int (length sms)
          \<and> csLastAt c \<in> smAt ` set sms \<and> (\<forall>sm\<in>set sms. smAt sm \<le> csLastAt c)))"

lemma sum_latency_bounds:
  assumes "\<forall>sm\<in>set sms. sampleOk t sm"
  shows "0 \<le> sum_list (map smLatency sms)" "sum_list (map smLatency sms) \<le> int (length sms) * pingTimeoutDuration"
proof -
  have "\<forall>sm\<in>set sms. 0 \<le> smLatency sm \<and> smLatency sm \<le> pingTimeoutDuration"
    using assms by (auto simp: sampleOk_def)
  then show "0 \<le> sum_list (map smLatency sms)"
    "sum_list (map smLatency sms) \<le> int (length sms) * pingTimeoutDuration"
    by (induction sms) (auto simp: algebra_simps)
qed

lemma scan_spec:
  assumes "clock t" "\<forall>sm\<in>set sms. sampleOk t sm \<and> freshFor e dst source now sm" "length sms \<le> 1000000"
  shows "scanned source sms (foldl (scanSampleStep e dst source now) (None, Fin 0, Fin 0) sms)"
  using assms(2,3)
proof (induction sms rule: rev_induct)
  case Nil
  then show ?case by (simp add: scanned_def)
next
  case (snoc sm sms)
  obtain cand sl sq where st: "foldl (scanSampleStep e dst source now) (None, Fin 0, Fin 0) sms = (cand, sl, sq)"
    by (cases "foldl (scanSampleStep e dst source now) (None, Fin 0, Fin 0) sms")
  with snoc have ih: "scanned source sms (cand, sl, sq)" by simp
  have fresh: "freshFor e dst source now sm" and ok: "sampleOk t sm" using snoc.prems by simp_all
  have "int (length sms) * pingTimeoutDuration \<le> 1000000 * pingTimeoutDuration"
    using snoc.prems(2) by (intro mult_right_mono) (auto simp: pingTimeoutDuration_def duration_units)
  then have small: "\<bar>sum_list (map smLatency sms) + smLatency sm\<bar> \<le> 2 ^ 53" "\<bar>smLatency sm\<bar> \<le> 2 ^ 53"
    using sum_latency_bounds [of sms t] snoc.prems(1) ok
    by (auto simp: sampleOk_def pingTimeoutDuration_def duration_units)
  then have sum: "fadd sl (fOfInt (smLatency sm)) = Fin (of_int (sum_list (map smLatency (sms @ [sm]))))"
    using ih fadd_int [OF small(1)] by (simp add: scanned_def fOfInt_small)
  have last: "foldl (scanSampleStep e dst source now) (None, Fin 0, Fin 0) (sms @ [sm])
      = scanSampleStep e dst source now (cand, sl, sq) sm" by (simp add: st)
  show ?case
  proof (cases cand)
    case None
    have "\<exists>c sq'. scanSampleStep e dst source now (None, sl, sq) sm =
       (Some c, Fin (of_int (sum_list (map smLatency (sms @ [sm])))), sq')
       \<and> csSource c = source \<and> csSamples c = 1 \<and> csLastAt c = smAt sm"
      using fresh unfolding sum [symmetric] by (simp add: scanSampleStep_def freshFor_def Let_def)
    with None ih show ?thesis unfolding last by (auto simp: scanned_def)
  next
    case (Some c)
    have "csLastAt c \<in> smAt ` set sms" using ih Some by (simp add: scanned_def)
    then have "clock (csLastAt c)" "clock (smAt sm)"
      using assms(1) snoc.prems(1) by (auto simp: sampleOk_def clock_def)
    then have gt: "msub (smAt sm) (csLastAt c) > 0 \<longleftrightarrow> smAt sm > csLastAt c" by (simp add: msub_clock)
    have "\<exists>sq'. scanSampleStep e dst source now (Some c, sl, sq) sm =
       (Some (c\<lparr>csSamples := csSamples c + 1, csLastAt := if smAt sm > csLastAt c then smAt sm else csLastAt c\<rparr>),
        Fin (of_int (sum_list (map smLatency (sms @ [sm])))), sq')"
      using fresh gt unfolding sum [symmetric] by (simp add: scanSampleStep_def freshFor_def Let_def)
    with Some ih show ?thesis unfolding last by (auto simp: scanned_def) (meson less_imp_le order_trans)
  qed
qed

section \<open>Scores without their side effect\<close>

text \<open>Scoring only prunes old outcomes; a second pruning at the same time changes nothing, so the
  score of a source does not depend on which sources were scored before it.\<close>

definition scoreOf ::
    "(float64 \<Rightarrow> float64) \<Rightarrow> (string \<Rightarrow> float64 option) \<Rightarrow> env \<Rightarrow> epAddr \<Rightarrow> mono \<Rightarrow> duration
      \<Rightarrow> sourcePathProbeManager \<Rightarrow> sourceRxMeta \<Rightarrow> sourcePathCandidateScore option" where
  "scoreOf fexp parseFloat e dst now primaryRTT pm source =
     fst (candidateScoreLocked fexp parseFloat e dst source now primaryRTT pm)"

lemma lossRatio_prune [simp]:
  "fst (lossRatioLocked e dst source now (pruneExpiredOutcomesLocked e now pm)) = fst (lossRatioLocked e dst source now pm)"
  "snd (lossRatioLocked e dst source now pm) = pruneExpiredOutcomesLocked e now pm"
  by (simp_all add: lossRatioLocked_def pruneOutcomes_eq Let_def case_prod_unfold)

lemma prune_prune [simp]:
  "pruneExpiredOutcomesLocked e now (pruneExpiredOutcomesLocked e now pm) = pruneExpiredOutcomesLocked e now pm"
  by (simp add: pruneOutcomes_eq)

lemma prune_samples [simp]: "pmSamples (pruneExpiredOutcomesLocked e now pm) = pmSamples pm"
  by (simp add: pruneOutcomes_eq)

lemma candidateScore_state:
  "snd (candidateScoreLocked fexp parseFloat e dst source now rtt pm) \<in> {pm, pruneExpiredOutcomesLocked e now pm}"
  by (simp add: candidateScoreLocked_def Let_def case_prod_unfold split: option.splits)

lemma candidateScore_prune:
  "scoreOf fexp parseFloat e dst now rtt (pruneExpiredOutcomesLocked e now pm) source
     = scoreOf fexp parseFloat e dst now rtt pm source"
  by (simp add: scoreOf_def candidateScoreLocked_def Let_def case_prod_unfold split: option.splits)

section \<open>An accepted candidate\<close>

lemma applyMultiMetric_keeps:
  assumes "applyMultiMetricScore fexp parseFloat e rtt c = (ok, c')"
  shows "csSource c' = csSource c" "csLatency c' = csLatency c" "csJitter c' = csJitter c" "csLoss c' = csLoss c"
    "csSamples c' = csSamples c" "csLastAt c' = csLastAt c"
    "ok \<Longrightarrow> csLatency c \<le> sourcePathLatencyMaxValue e \<and> csJitter c \<le> sourcePathJitterMaxValue e
       \<and> \<not> flt (sourcePathLossMaxValue e) (csLoss c)"
  using assms by (auto simp: applyMultiMetricScore_def Let_def split: if_splits)

text \<open>The candidate before the gates, and the gates.\<close>

definition rawCandidate ::
    "env \<Rightarrow> epAddr \<Rightarrow> sourceRxMeta \<Rightarrow> mono \<Rightarrow> sourcePathProbeManager \<Rightarrow> sourcePathCandidateScore \<Rightarrow> float64 \<Rightarrow> float64
      \<Rightarrow> sourcePathCandidateScore" where
  "rawCandidate e dst source now pm c0 sl sq =
     (let meanNs = fdiv sl (fOfInt (csSamples c0));
          variance0 = fsub (fdiv sq (fOfInt (csSamples c0))) (fmul meanNs meanNs);
          varianceNs = (if flt variance0 (Fin 0) then Fin 0 else variance0)
      in c0\<lparr>csLatency := fToInt64 meanNs, csJitter := fToInt64 (fsqrt varianceNs),
            csLoss := fst (lossRatioLocked e dst source now pm)\<rparr>)"

definition gate ::
    "(float64 \<Rightarrow> float64) \<Rightarrow> (string \<Rightarrow> float64 option) \<Rightarrow> env \<Rightarrow> duration \<Rightarrow> sourcePathCandidateScore
      \<Rightarrow> sourcePathCandidateScore option" where
  "gate fexp parseFloat e rtt c =
     (if sourcePathMultiMetricEnabled e
      then (if fst (applyMultiMetricScore fexp parseFloat e rtt c) then Some (snd (applyMultiMetricScore fexp parseFloat e rtt c)) else None)
      else if rtt > 0 \<and> sourcePathAuxBeatThresholdPercentValue e > 0
        \<and> csLatency c \<ge> dsub rtt (quot (dmul rtt (sourcePathAuxBeatThresholdPercentValue e)) 100)
      then None else Some c)"

lemma scoreOf_eq:
  "scoreOf fexp parseFloat e dst now rtt pm source =
     (if \<not> isDirect dst \<or> isPrimary source then None
      else case foldl (scanSampleStep e dst source now) (None, Fin 0, Fin 0) (freshSamples e dst source now pm) of
        (None, _, _) \<Rightarrow> None
      | (Some c0, sl, sq) \<Rightarrow>
          if csSamples c0 < sourcePathMinSamplesForUse then None
          else gate fexp parseFloat e rtt (rawCandidate e dst source now pm c0 sl sq))"
proof -
  obtain cand sl sq where f: "foldl (scanSampleStep e dst source now) (None, Fin 0, Fin 0) (pmSamples pm) = (cand, sl, sq)"
    by (cases "foldl (scanSampleStep e dst source now) (None, Fin 0, Fin 0) (pmSamples pm)")
  have f': "foldl (scanSampleStep e dst source now) (None, Fin 0, Fin 0) (freshSamples e dst source now pm) = (cand, sl, sq)"
    using f unfolding freshSamples_def by (subst (asm) scan_fresh)
  show ?thesis
    by (simp add: scoreOf_def candidateScoreLocked_def f f' rawCandidate_def gate_def Let_def case_prod_unfold split: option.splits)
qed

lemma rawCandidate_sel [simp]:
  "csSource (rawCandidate e dst source now pm c0 sl sq) = csSource c0"
  "csSamples (rawCandidate e dst source now pm c0 sl sq) = csSamples c0"
  "csLastAt (rawCandidate e dst source now pm c0 sl sq) = csLastAt c0"
  "csLatency (rawCandidate e dst source now pm c0 sl sq) = fToInt64 (fdiv sl (fOfInt (csSamples c0)))"
  "csLoss (rawCandidate e dst source now pm c0 sl sq) = fst (lossRatioLocked e dst source now pm)"
  by (simp_all add: rawCandidate_def Let_def)

lemma gate_Some:
  assumes "gate fexp parseFloat e rtt c = Some c'"
  shows "csSource c' = csSource c" "csLatency c' = csLatency c" "csJitter c' = csJitter c" "csLoss c' = csLoss c"
    "csSamples c' = csSamples c" "csLastAt c' = csLastAt c"
    "sourcePathMultiMetricEnabled e \<Longrightarrow> csLatency c \<le> sourcePathLatencyMaxValue e
       \<and> csJitter c \<le> sourcePathJitterMaxValue e \<and> \<not> flt (sourcePathLossMaxValue e) (csLoss c)"
  using assms applyMultiMetric_keeps [OF prod.collapse [symmetric], of fexp parseFloat e rtt c]
  by (auto simp: gate_def split: if_splits)

lemma scoreOf_Some:
  assumes "scoreOf fexp parseFloat e dst now rtt pm source = Some c"
  obtains c0 sl sq where "isDirect dst" "\<not> isPrimary source"
    "foldl (scanSampleStep e dst source now) (None, Fin 0, Fin 0) (freshSamples e dst source now pm) = (Some c0, sl, sq)"
    "sourcePathMinSamplesForUse \<le> csSamples c0"
    "gate fexp parseFloat e rtt (rawCandidate e dst source now pm c0 sl sq) = Some c"
  using assms by (auto simp: scoreOf_eq split: if_splits option.splits prod.splits)

lemma fresh_ok:
  assumes "probeInv e t pm" "0 < sourcePathProbeSampleLimitCount e" "sourcePathProbeSampleLimitCount e \<le> 1000000"
  shows "\<forall>sm\<in>set (freshSamples e dst source now pm). sampleOk t sm \<and> freshFor e dst source now sm"
    "length (freshSamples e dst source now pm) \<le> 1000000"
proof -
  from assms(1) show "\<forall>sm\<in>set (freshSamples e dst source now pm). sampleOk t sm \<and> freshFor e dst source now sm"
    by (auto simp: probeInv_def samplesInv_def freshSamples_def)
  have "length (freshSamples e dst source now pm) \<le> length (pmSamples pm)" by (simp add: freshSamples_def)
  with assms show "length (freshSamples e dst source now pm) \<le> 1000000" by (auto simp: probeInv_def samplesInv_def)
qed

lemma mean_latency_between:
  assumes "sms \<noteq> []" "\<forall>sm\<in>set sms. sampleOk t sm" "length sms \<le> 1000000"
  defines "L \<equiv> smLatency ` set sms"
  shows "Min L \<le> fToInt64 (fdiv (Fin (of_int (sum_list (map smLatency sms)))) (fOfInt (int (length sms))))"
    "fToInt64 (fdiv (Fin (of_int (sum_list (map smLatency sms)))) (fOfInt (int (length sms)))) \<le> Max L"
proof -
  let ?n = "int (length sms)" and ?s = "sum_list (map smLatency sms)"
  have fin: "finite L" "L \<noteq> {}" using assms(1) by (simp_all add: L_def)
  have "0 \<le> x \<and> x < pingTimeoutDuration" if "x \<in> L" for x using that assms(2) by (auto simp: L_def sampleOk_def)
  from this [OF Min_in [OF fin]] this [OF Max_in [OF fin]] have
    lo: "0 \<le> Min L" "Min L < 2 ^ 53" and hi: "0 \<le> Max L" "Max L < 2 ^ 53"
    by (simp_all add: pingTimeoutDuration_def duration_units)
  have "Min L * int (length xs) \<le> sum_list (map smLatency xs) \<and> sum_list (map smLatency xs) \<le> Max L * int (length xs)"
    if "set xs \<subseteq> set sms" for xs
    using that
  proof (induction xs)
    case (Cons x xs)
    then have "Min L \<le> smLatency x" "smLatency x \<le> Max L" using fin by (auto simp: L_def)
    with Cons show ?case by (simp add: algebra_simps)
  qed simp
  then have b: "Min L * ?n \<le> ?s" "?s \<le> Max L * ?n" by simp_all
  have n: "0 < ?n" "fOfInt ?n = Fin (of_int ?n)" using assms(1,3) by (simp_all add: fOfInt_small)
  have b': "of_int (Min L * ?n) \<le> (of_int ?s :: rat)" "(of_int ?s :: rat) \<le> of_int (Max L * ?n)"
    "\<bar>Min L\<bar> \<le> 2 ^ 53" "\<bar>Max L\<bar> \<le> 2 ^ 53" using b lo hi by (simp_all only: of_int_le_iff)
  note m = f64.mean_between [OF n(1) b']
  have "\<bar>of_int ?s / of_int ?n\<bar> \<le> (2::rat) ^ 53"
  proof -
    have "(of_int ?s :: rat) / of_int ?n \<le> of_int (Max L)" "0 \<le> (of_int ?s :: rat) / of_int ?n"
      using b'(2) n(1) sum_latency_bounds(1) [OF assms(2)] by (simp_all add: pos_divide_le_eq)
    moreover have "(of_int (Max L) :: rat) \<le> of_int (2 ^ 53)" using hi by (simp only: of_int_le_iff)
    ultimately show ?thesis by simp
  qed
  then have d: "fdiv (Fin (of_int ?s)) (fOfInt ?n) = Fin (rnd (of_int ?s / of_int ?n))"
    using n by (simp add: toF_small)
  note tr = truncRat_between [OF m]
  then have "is_i64 (truncRat (rnd (of_int ?s / of_int ?n)))" using lo hi by (auto simp: is_i64_def)
  with tr show "Min L \<le> fToInt64 (fdiv (Fin (of_int ?s)) (fOfInt ?n))" "fToInt64 (fdiv (Fin (of_int ?s)) (fOfInt ?n)) \<le> Max L"
    by (simp_all add: d)
qed

text \<open>
  C19. An accepted candidate stands on evidence: its destination is direct, its source auxiliary,
  it counts at least three unexpired samples of exactly this pair, its latency lies between the
  smallest and the largest of their round-trip times (the float mean, truncated), and its age is
  that of the newest of them. The bound on the sample limit keeps the float sum exact.
\<close>

theorem candidate_stands_on_samples:
  assumes "probeInv e now pm" "clock now"
    "0 < sourcePathProbeSampleLimitCount e" "sourcePathProbeSampleLimitCount e \<le> 1000000"
    "candidateScoreLocked fexp parseFloat e dst source now primaryRTT pm = (Some c, pm')"
  shows "isDirect dst \<and> \<not> isPrimary source \<and> csSource c = source
    \<and> 3 \<le> csSamples c \<and> csSamples c = int (length (freshSamples e dst source now pm))
    \<and> Min (smLatency ` set (freshSamples e dst source now pm)) \<le> csLatency c
    \<and> csLatency c \<le> Max (smLatency ` set (freshSamples e dst source now pm))
    \<and> csLastAt c = Max (smAt ` set (freshSamples e dst source now pm))"
proof -
  let ?sms = "freshSamples e dst source now pm"
  note ok = fresh_ok [OF assms(1,3,4), where dst = dst and source = source and now = now]
  have "scoreOf fexp parseFloat e dst now primaryRTT pm source = Some c" by (simp add: scoreOf_def assms(5))
  then obtain c0 sl sq where dir: "isDirect dst" "\<not> isPrimary source"
    and f: "foldl (scanSampleStep e dst source now) (None, Fin 0, Fin 0) ?sms = (Some c0, sl, sq)"
    and n: "sourcePathMinSamplesForUse \<le> csSamples c0"
    and g: "gate fexp parseFloat e primaryRTT (rawCandidate e dst source now pm c0 sl sq) = Some c"
    by (rule scoreOf_Some)
  from scan_spec [OF assms(2) ok] have sc: "scanned source ?sms (Some c0, sl, sq)" by (simp add: f)
  then have ne: "?sms \<noteq> []" and c0: "csSource c0 = source" "csSamples c0 = int (length ?sms)"
    "csLastAt c0 \<in> smAt ` set ?sms" "\<forall>sm\<in>set ?sms. smAt sm \<le> csLastAt c0"
    and sl: "sl = Fin (of_int (sum_list (map smLatency ?sms)))" by (simp_all add: scanned_def)
  have "csLastAt c0 = Max (smAt ` set ?sms)" using c0(3,4) by (intro Max_eqI [symmetric]) auto
  moreover have "3 \<le> csSamples c0" using n by (simp add: srcsel_consts)
  ultimately show ?thesis
    using dir c0 mean_latency_between [OF ne _ ok(2), of now] ok(1) by (simp add: gate_Some [OF g] sl)
qed

text \<open>
  The gate against the primary path. Without the multi-metric mode and with a measured
  primary round-trip time, a source is accepted exactly when it would be accepted without that
  measurement and its mean latency is smaller than the primary one by the configured percentage;
  the truncating integer cutoff of the code decides this comparison exactly.
\<close>

theorem threshold_gate_exact:
  assumes "\<not> sourcePathMultiMetricEnabled e" "0 < sourcePathAuxBeatThresholdPercentValue e"
    "0 < primaryRTT" "primaryRTT < 2 ^ 56"
  shows "scoreOf fexp parseFloat e dst now primaryRTT pm source =
     (case scoreOf fexp parseFloat e dst now 0 pm source of
        None \<Rightarrow> None
      | Some c \<Rightarrow> if 100 * csLatency c < primaryRTT * (100 - sourcePathAuxBeatThresholdPercentValue e) then Some c else None)"
proof -
  let ?p = "sourcePathAuxBeatThresholdPercentValue e"
  have p: "?p \<le> 100" by (rule threshold_bounds)
  have le: "primaryRTT * ?p \<le> primaryRTT * 100" using p assms by (intro mult_left_mono) auto
  also have "\<dots> < 2 ^ 63" using assms(4) by simp
  finally have small: "primaryRTT * ?p < 2 ^ 63" .
  have nonneg: "0 \<le> primaryRTT * ?p" using assms by simp
  have "(primaryRTT * ?p) div 100 \<le> (primaryRTT * 100) div 100"
    using le by (rule zdiv_mono1) simp
  then have "0 \<le> primaryRTT - (primaryRTT * ?p) div 100" by simp
  moreover have "0 \<le> (primaryRTT * ?p) div 100" using nonneg by simp
  ultimately have "is_i64 (primaryRTT - (primaryRTT * ?p) div 100)"
    using assms(4) by (intro is_i64_nonneg [where y = primaryRTT]) simp_all
  moreover have "is_i64 (primaryRTT * ?p)" using nonneg order_refl small by (rule is_i64_nonneg)
  ultimately have cut: "dsub primaryRTT (quot (dmul primaryRTT ?p) 100) = primaryRTT - (primaryRTT * ?p) div 100"
    by (simp add: dsub_def dmul_def i64_id quot_nonneg [OF nonneg])
  have "100 * x < primaryRTT * (100 - ?p) \<longleftrightarrow> x < primaryRTT - (primaryRTT * ?p) div 100" for x :: int
  proof -
    have "100 * x < primaryRTT * (100 - ?p) \<longleftrightarrow> primaryRTT * ?p < (primaryRTT - x) * 100" by (simp add: algebra_simps)
    also have "\<dots> \<longleftrightarrow> (primaryRTT * ?p) div 100 < primaryRTT - x"
    proof -
      have "y < z * 100 \<longleftrightarrow> y div 100 < z" for y z :: int
        using div_mult_mod_eq [of y 100] pos_mod_bound [of 100 y] pos_mod_sign [of 100 y] by auto
      then show ?thesis .
    qed
    finally show ?thesis by auto
  qed
  then show ?thesis using assms
    by (auto simp: scoreOf_eq gate_def cut not_less split: option.splits prod.splits)
qed

section \<open>The best candidate\<close>

definition comparable :: "bool \<Rightarrow> sourcePathCandidateScore \<Rightarrow> bool" where
  "comparable multiMetric c \<longleftrightarrow> clock (csLastAt c) \<and> (multiMetric \<longrightarrow> csScore c \<noteq> NaN)"

lemma flt_asym: "flt a b \<Longrightarrow> \<not> flt b a"
  by (cases a; cases b) auto

lemma flt_irrefl [simp]: "\<not> flt a a"
  by (cases a) auto

lemma flt_linear: "a \<noteq> NaN \<Longrightarrow> b \<noteq> NaN \<Longrightarrow> flt a b \<or> flt b a \<or> a = b"
  by (cases a; cases b) auto

lemma flt_trans: "flt a b \<Longrightarrow> flt b c \<Longrightarrow> flt a c"
  by (cases a; cases b; cases c) auto

lemma betterThan_iff:
  assumes "comparable m a" "comparable m b"
  shows "betterThan a b m \<longleftrightarrow>
     (if m then flt (csScore b) (csScore a) \<or> (csScore a = csScore b \<and> csLastAt b < csLastAt a)
      else csLatency a < csLatency b \<or> (csLatency a = csLatency b \<and> csLastAt b < csLastAt a))"
  using assms by (simp add: betterThan_def comparable_def msub_clock feq_def)

interpretation candidates: selection "\<lambda>c b. betterThan c b multiMetric" "comparable multiMetric" for multiMetric
proof
  fix a b c :: sourcePathCandidateScore
  assume ok: "comparable multiMetric a" "comparable multiMetric b"
  show "\<not> betterThan b a multiMetric" if "betterThan a b multiMetric"
    using that unfolding betterThan_iff [OF ok] betterThan_iff [OF ok(2,1)]
    by (cases multiMetric) (auto dest: flt_asym)
  assume okc: "comparable multiMetric c"
  note iffs = betterThan_iff [OF ok] betterThan_iff [OF ok(2) okc] betterThan_iff [OF ok(1) okc]
  assume nb: "\<not> betterThan a b multiMetric" "\<not> betterThan b c multiMetric"
  show "\<not> betterThan a c multiMetric"
  proof (cases multiMetric)
    case True
    then have "csScore a \<noteq> NaN" "csScore b \<noteq> NaN" "csScore c \<noteq> NaN"
      using ok okc by (simp_all add: comparable_def)
    then consider "flt (csScore a) (csScore b)" | "csScore a = csScore b" "\<not> csLastAt b < csLastAt a"
      using nb(1) flt_linear True unfolding iffs(1) by metis
    then show ?thesis
    proof cases
      case 1
      then show ?thesis using nb(2) True flt_trans [OF 1] flt_linear \<open>csScore b \<noteq> NaN\<close> \<open>csScore c \<noteq> NaN\<close>
        unfolding iffs(2,3) by (metis flt_asym)
    next
      case 2
      then show ?thesis using nb(2) True unfolding iffs(2,3) by auto
    qed
  next
    case False
    with nb show ?thesis unfolding iffs by auto
  qed
qed

lemma bestCandidateStep_eq:
  "bestCandidateStep fexp parseFloat e dst now rtt (best, pm) source =
     (case scoreOf fexp parseFloat e dst now rtt pm source of
        None \<Rightarrow> best
      | Some c \<Rightarrow> keepBest (\<lambda>c b. betterThan c b (sourcePathMultiMetricEnabled e)) best c,
      snd (candidateScoreLocked fexp parseFloat e dst source now rtt pm))"
  by (auto simp: bestCandidateStep_def scoreOf_def keepBest_def split: prod.splits option.splits)

lemma bestCandidate_foldl:
  assumes "pm1 \<in> {pm, pruneExpiredOutcomesLocked e now pm}"
  shows "fst (foldl (bestCandidateStep fexp parseFloat e dst now rtt) (best, pm1) sources) =
     foldl (keepBest (\<lambda>c b. betterThan c b (sourcePathMultiMetricEnabled e))) best
       (List.map_filter (scoreOf fexp parseFloat e dst now rtt pm) sources)
   \<and> snd (foldl (bestCandidateStep fexp parseFloat e dst now rtt) (best, pm1) sources)
       \<in> {pm, pruneExpiredOutcomesLocked e now pm}"
  using assms
proof (induction sources arbitrary: best pm1)
  case (Cons source sources)
  have sc: "scoreOf fexp parseFloat e dst now rtt pm1 source = scoreOf fexp parseFloat e dst now rtt pm source"
    using Cons.prems candidateScore_prune by auto
  have "snd (candidateScoreLocked fexp parseFloat e dst source now rtt pm1) \<in> {pm, pruneExpiredOutcomesLocked e now pm}"
    using candidateScore_state [of fexp parseFloat e dst source now rtt pm1] Cons.prems by auto
  note Cons.IH [OF this]
  then show ?case by (simp add: bestCandidateStep_eq sc List.map_filter_simps split: option.split)
qed (simp add: List.map_filter_simps)

lemma bestCandidate_eq:
  "fst (bestCandidateLocked fexp parseFloat e dst sources now rtt pm) =
     selectBest (\<lambda>c b. betterThan c b (sourcePathMultiMetricEnabled e))
       (List.map_filter (scoreOf fexp parseFloat e dst now rtt pm) sources)"
  using bestCandidate_foldl [of pm pm e now fexp parseFloat dst rtt None sources]
  by (simp add: bestCandidateLocked_def selectBest_def)

lemma candidate_comparable:
  assumes "probeInv e now pm" "clock now"
    "0 < sourcePathProbeSampleLimitCount e" "sourcePathProbeSampleLimitCount e \<le> 1000000"
    "scoreOf fexp parseFloat e dst now rtt pm source = Some c" "sourcePathMultiMetricEnabled e \<Longrightarrow> csScore c \<noteq> NaN"
  shows "comparable (sourcePathMultiMetricEnabled e) c"
proof -
  note ok = fresh_ok [OF assms(1,3,4), where dst = dst and source = source and now = now]
  from assms(5) obtain c0 sl sq where
    f: "foldl (scanSampleStep e dst source now) (None, Fin 0, Fin 0) (freshSamples e dst source now pm) = (Some c0, sl, sq)"
    and g: "gate fexp parseFloat e rtt (rawCandidate e dst source now pm c0 sl sq) = Some c"
    by (rule scoreOf_Some)
  from scan_spec [OF assms(2) ok] have "csLastAt c0 \<in> smAt ` set (freshSamples e dst source now pm)"
    by (simp add: f scanned_def)
  then have "clock (csLastAt c0)" using ok(1) assms(2) by (auto simp: sampleOk_def clock_def)
  with assms(6) show ?thesis by (simp add: comparable_def gate_Some [OF g])
qed

text \<open>
  C18. The best candidate is optimal. The selection finds a candidate exactly when some source of
  the list has one, the result is the score of a source of the list, and no source of the list
  has a better one: none has a higher score, or on equal scores a fresher sample, in multi-metric
  mode, and none a smaller mean latency, or an equal one and a fresher sample, otherwise. That
  scoring prunes the outcome history as it goes does not change any score.
\<close>

theorem best_candidate_optimal:
  assumes "probeInv e now pm" "clock now"
    "0 < sourcePathProbeSampleLimitCount e" "sourcePathProbeSampleLimitCount e \<le> 1000000"
    "\<And>s c. sourcePathMultiMetricEnabled e \<Longrightarrow> s \<in> set sources
       \<Longrightarrow> scoreOf fexp parseFloat e dst now primaryRTT pm s = Some c \<Longrightarrow> csScore c \<noteq> NaN"
  shows "case fst (bestCandidateLocked fexp parseFloat e dst sources now primaryRTT pm) of
      None \<Rightarrow> \<forall>s\<in>set sources. scoreOf fexp parseFloat e dst now primaryRTT pm s = None
    | Some b \<Rightarrow> (\<exists>s\<in>set sources. scoreOf fexp parseFloat e dst now primaryRTT pm s = Some b)
        \<and> (\<forall>s\<in>set sources. \<forall>c. scoreOf fexp parseFloat e dst now primaryRTT pm s = Some c
             \<longrightarrow> \<not> betterThan c b (sourcePathMultiMetricEnabled e))"
proof -
  let ?score = "scoreOf fexp parseFloat e dst now primaryRTT pm"
  let ?cs = "List.map_filter ?score sources"
  have cs: "c \<in> set ?cs \<longleftrightarrow> (\<exists>s\<in>set sources. ?score s = Some c)" for c
    by (auto simp: List.map_filter_def) force
  have ok: "\<forall>c\<in>set ?cs. comparable (sourcePathMultiMetricEnabled e) c"
    using candidate_comparable [OF assms(1-4)] assms(5) by (auto simp: cs)
  show ?thesis
  proof (cases "?cs = []")
    case True
    then have "\<forall>s\<in>set sources. ?score s = None" using cs by (metis empty_iff list.set(1) not_Some_eq)
    with True show ?thesis by (simp add: bestCandidate_eq)
  next
    case False
    from candidates.select_max [OF ok False] obtain b where b: "b \<in> set ?cs"
      "selectBest (\<lambda>c b. betterThan c b (sourcePathMultiMetricEnabled e)) ?cs = Some b"
      "\<forall>x\<in>set ?cs. \<not> betterThan x b (sourcePathMultiMetricEnabled e)" by blast
    then have "\<forall>s\<in>set sources. \<forall>c. ?score s = Some c \<longrightarrow> \<not> betterThan c b (sourcePathMultiMetricEnabled e)"
      using cs by blast
    with b(1,2) cs show ?thesis by (simp add: bestCandidate_eq)
  qed
qed

section \<open>Examples\<close>

definition exPongAt :: "mono \<Rightarrow> u8 \<Rightarrow> sourcePathProbeManager \<Rightarrow> sourcePathProbeManager" where
  "exPongAt t n pm = snd (handlePongLocked defaultEnv \<lparr>pgTxID = [n], pgSrc = ap exDst\<rparr> [9] exDst exAux t pm)"

definition exScored :: sourcePathProbeManager where
  "exScored = exPongAt 30 2 (exPongAt 20 1 (exPongAt 10 0 (exManager 3)))"

definition exExp :: "float64 \<Rightarrow> float64" where
  "exExp x = fadd (Fin 1) x"

definition exParse :: "string \<Rightarrow> float64 option" where
  "exParse s = None"

lemma exManager_Suc: "exManager (Suc n) = snd (addLocked defaultEnv (exTx (of_nat n) (int n)) (exManager n))"
  by (simp add: exManager_def)

lemma exManager_inv: "probeInv defaultEnv (int n) (exManager n)"
proof (induction n)
  case 0
  then show ?case by (simp add: exManager_def probeInv_empty)
next
  case (Suc n)
  have "\<not> isPrimary exAux" "isDirect exDst" by code_simp+
  then have "txOk (int n) (exTx (of_nat n) (int n))" by (simp add: txOk_def exTx_def)
  from probeInv_add [OF Suc this] have "probeInv defaultEnv (int n) (exManager (Suc n))"
    by (simp add: exManager_Suc exTx_def)
  then show ?case by (rule probeInv_later) simp
qed

lemma exScored_inv: "probeInv defaultEnv 30 exScored"
proof -
  have "probeInv defaultEnv 10 (exManager 3)" using exManager_inv [of 3] by (rule probeInv_later) simp
  from probeInv_pong [OF this, of _ _ exDst] have "probeInv defaultEnv 10 (exPongAt 10 0 (exManager 3))"
    by (simp add: exPongAt_def clock_def)
  then have "probeInv defaultEnv 20 (exPongAt 10 0 (exManager 3))" by (rule probeInv_later) simp
  from probeInv_pong [OF this, of _ _ exDst] have "probeInv defaultEnv 20 (exPongAt 20 1 (exPongAt 10 0 (exManager 3)))"
    by (simp add: exPongAt_def clock_def)
  then have "probeInv defaultEnv 30 (exPongAt 20 1 (exPongAt 10 0 (exManager 3)))" by (rule probeInv_later) simp
  from probeInv_pong [OF this, of _ _ exDst] show ?thesis by (simp add: exScored_def exPongAt_def clock_def)
qed

lemma exLimits: "0 < sourcePathProbeSampleLimitCount defaultEnv" "sourcePathProbeSampleLimitCount defaultEnv \<le> 1000000"
  by code_simp+

lemma exPlain: "\<not> sourcePathMultiMetricEnabled defaultEnv"
  by code_simp

lemma exScore: "\<exists>c. scoreOf exExp exParse defaultEnv exDst 30 0 exScored exAux = Some c"
proof -
  let ?sms = "freshSamples defaultEnv exDst exAux 30 exScored"
  have len: "length ?sms = 3" by code_simp
  have clk: "clock 30" by code_simp
  note ok = fresh_ok [OF exScored_inv exLimits, where dst = exDst and source = exAux and now = 30]
  obtain cand sl sq where f: "foldl (scanSampleStep defaultEnv exDst exAux 30) (None, Fin 0, Fin 0) ?sms = (cand, sl, sq)"
    by (cases "foldl (scanSampleStep defaultEnv exDst exAux 30) (None, Fin 0, Fin 0) ?sms")
  from scan_spec [OF clk ok] have "scanned exAux ?sms (cand, sl, sq)" unfolding f .
  with len obtain c0 where c0: "cand = Some c0" "csSamples c0 = 3" by (cases cand) (auto simp: scanned_def)
  have "isDirect exDst" "\<not> isPrimary exAux" by code_simp+
  then show ?thesis by (simp add: scoreOf_eq f c0 gate_def exPlain srcsel_consts)
qed

theorem candidate_stands_on_samples_witness:
  "\<exists>c pm'. candidateScoreLocked exExp exParse defaultEnv exDst exAux 30 0 exScored = (Some c, pm')
     \<and> csSamples c = 3 \<and> 10 \<le> csLatency c \<and> csLatency c \<le> 28"
proof -
  obtain c where "scoreOf exExp exParse defaultEnv exDst 30 0 exScored exAux = Some c" using exScore by blast
  then obtain pm' where eq: "candidateScoreLocked exExp exParse defaultEnv exDst exAux 30 0 exScored = (Some c, pm')"
    unfolding scoreOf_def by (metis prod.collapse)
  have clk: "clock 30" by code_simp
  have "Min (smLatency ` set (freshSamples defaultEnv exDst exAux 30 exScored)) = 10"
    "Max (smLatency ` set (freshSamples defaultEnv exDst exAux 30 exScored)) = 28"
    "length (freshSamples defaultEnv exDst exAux 30 exScored) = 3" by code_simp+
  with candidate_stands_on_samples [OF exScored_inv clk exLimits eq] eq show ?thesis by auto
qed

theorem threshold_gate_exact_witness:
  "\<exists>c. scoreOf exExp exParse defaultEnv exDst 30 0 exScored exAux = Some c
     \<and> scoreOf exExp exParse defaultEnv exDst 30 1000 exScored exAux = (if 100 * csLatency c < 90000 then Some c else None)"
proof -
  obtain c where c: "scoreOf exExp exParse defaultEnv exDst 30 0 exScored exAux = Some c" using exScore by blast
  have p: "sourcePathAuxBeatThresholdPercentValue defaultEnv = 10" by code_simp
  have "scoreOf exExp exParse defaultEnv exDst 30 1000 exScored exAux
      = (case scoreOf exExp exParse defaultEnv exDst 30 0 exScored exAux of None \<Rightarrow> None
         | Some c \<Rightarrow> if 100 * csLatency c < 1000 * (100 - sourcePathAuxBeatThresholdPercentValue defaultEnv) then Some c else None)"
    by (rule threshold_gate_exact) (simp_all add: exPlain p)
  with c p show ?thesis by simp
qed

theorem best_candidate_optimal_witness:
  "\<exists>b. fst (bestCandidateLocked exExp exParse defaultEnv exDst [primarySourceRxMeta, exAux] 30 0 exScored) = Some b
     \<and> (\<forall>c. scoreOf exExp exParse defaultEnv exDst 30 0 exScored exAux = Some c \<longrightarrow> \<not> betterThan c b False)"
proof -
  have clk: "clock 30" by code_simp
  from best_candidate_optimal [OF exScored_inv clk exLimits, of "[primarySourceRxMeta, exAux]" exExp exParse exDst 0]
    exScore show ?thesis by (auto simp: exPlain split: option.splits)
qed

end
