(* ===== verification/Srcsel_Flow.thy ===== *)
theory Srcsel_Flow
  imports Srcsel_Score
begin

unbundle bit_operations_syntax

text \<open>
  Flow state of the probe manager (\<open>assignFlowLocked\<close> to \<open>nextFlowRRLocked\<close> of
  \<open>src/wgengine/magicsock/sourcepath.go\<close>), the flow identifier computed from a packet, and the
  weighted choice between the primary and an auxiliary source. \<open>device.MessageTransportType\<close>
  belongs to another module and is the parameter \<open>transportType\<close>.
\<close>

section \<open>Flow identifiers\<close>

definition fnvOffset64 :: u64 where
  "fnvOffset64 = 14695981039346656037"

definition fnvPrime64 :: u64 where
  "fnvPrime64 = 1099511628211"

text \<open>\<open>hash/fnv.New64a\<close> over a byte slice.\<close>

definition fnv64a :: "u8 list \<Rightarrow> u64" where
  "fnv64a bs = foldl (\<lambda>h b. (h XOR ucast b) * fnvPrime64) fnvOffset64 bs"

text \<open>\<open>binary.LittleEndian.Uint32\<close> of the first four bytes.\<close>

definition le32 :: "u8 list \<Rightarrow> u32" where
  "le32 bs = ucast (bs ! 0) OR push_bit 8 (ucast (bs ! 1)) OR push_bit 16 (ucast (bs ! 2)) OR push_bit 24 (ucast (bs ! 3))"

definition sourcePathFlowIDFromPacket :: "u32 \<Rightarrow> u8 list \<Rightarrow> u64 option" where
  "sourcePathFlowIDFromPacket transportType b =
     (if length b < 4 then None
      else
        let msgType = le32 b in
        if msgType = transportType \<and> length b \<ge> 16 then Some (fnv64a (take 16 b))
        else let n = min (length b) 32 in Some (fnv64a (take n b)))"

definition sourcePathFlowIDFromBatch :: "u32 \<Rightarrow> u8 list list \<Rightarrow> int \<Rightarrow> u64 option" where
  "sourcePathFlowIDFromBatch transportType buffs offset =
     (if buffs = [] \<or> offset < 0 \<or> int (length (buffs ! 0)) \<le> offset then None
      else sourcePathFlowIDFromPacket transportType (drop (nat offset) (buffs ! 0)))"

section \<open>Mixing and the weighted choice\<close>

definition xorShift :: "nat \<Rightarrow> u64 \<Rightarrow> u64" where
  "xorShift k v = v XOR drop_bit k v"

definition sourcePathMix64 :: "u64 \<Rightarrow> u64" where
  "sourcePathMix64 v0 =
     (let v1 = xorShift 30 v0;
          v2 = v1 * 0xbf58476d1ce4e5b9;
          v3 = xorShift 27 v2;
          v4 = v3 * 0x94d049bb133111eb
      in xorShift 31 v4)"

text \<open>\<open>uint64(f)\<close> for a float in range.\<close>

fun fToUint64 :: "float64 \<Rightarrow> u64" where
  "fToUint64 (Fin a) = word_of_int (truncRat a)"
| "fToUint64 _ = push_bit 63 1"

definition sourcePathFlowChooseAuxByWeight :: "u64 \<Rightarrow> float64 \<Rightarrow> float64 \<Rightarrow> bool" where
  "sourcePathFlowChooseAuxByWeight flowID auxWeight primaryWeight =
     (let weightSum = fadd auxWeight primaryWeight in
      if fle weightSum (Fin 0) then sourcePathMix64 flowID AND 1 = 1
      else
        let cutoff = fToUint64 (fmul (fdiv auxWeight weightSum) (Fin 10000))
        in sourcePathMix64 flowID mod 10000 < cutoff)"

section \<open>The flow map\<close>

definition pruneExpiredFlowsLocked :: "env \<Rightarrow> mono \<Rightarrow> sourcePathProbeManager \<Rightarrow> sourcePathProbeManager" where
  "pruneExpiredFlowsLocked e now pm =
     (if gm_len (pmFlowMap pm) = 0 then pm
      else let idle = sourcePathFlowIdleValue e in
        if idle \<le> 0 then pm
        else pm\<lparr>pmFlowMap := gm_del_if (\<lambda>_ st. msub now (fsLastActivity st) > idle) (pmFlowMap pm)\<rparr>)"

text \<open>The scan of \<open>evictOldestFlowLocked\<close> keeps the entry whose last activity is earliest.\<close>

definition olderFlow ::
    "sourcePathFlowKey \<times> sourcePathFlowState \<Rightarrow> sourcePathFlowKey \<times> sourcePathFlowState \<Rightarrow> bool" where
  "olderFlow a b \<longleftrightarrow> msub (fsLastActivity (snd a)) (fsLastActivity (snd b)) < 0"

definition evictOldestFlowLocked :: "sourcePathProbeManager \<Rightarrow> bool \<times> sourcePathProbeManager" where
  "evictOldestFlowLocked pm = (case selectBest olderFlow (pmFlowMap pm) of
     None \<Rightarrow> (False, pm)
   | Some (oldestKey, _) \<Rightarrow> (True, pm\<lparr>pmFlowMap := gm_del oldestKey (pmFlowMap pm)\<rparr>))"

lemma selectBest_in: "selectBest better xs = Some x \<Longrightarrow> x \<in> set xs"
proof (induction xs arbitrary: x rule: rev_induct)
  case (snoc y xs)
  then show ?case by (auto simp: keepBest_def split: option.splits if_splits)
qed simp

lemma selectBest_None: "selectBest better xs = None \<longleftrightarrow> xs = []"
  by (induction xs rule: rev_induct) (auto simp: keepBest_def split: option.splits)

lemma evictOldest_shrinks:
  assumes "evictOldestFlowLocked pm = (True, pm')"
  shows "gm_len (pmFlowMap pm') < gm_len (pmFlowMap pm)"
proof -
  from assms obtain k st where sel: "selectBest olderFlow (pmFlowMap pm) = Some (k, st)"
    and pm': "pm' = pm\<lparr>pmFlowMap := gm_del k (pmFlowMap pm)\<rparr>"
    by (auto simp: evictOldestFlowLocked_def split: option.splits)
  have "(k, st) \<in> set (pmFlowMap pm)" using sel by (rule selectBest_in)
  then show ?thesis
    unfolding pm' gm_len_def gm_del_def by (auto simp: AList.delete_eq intro!: length_filter_less)
qed

text \<open>The loop \<open>for len(pm.flowMap) >= maxEntries { if !pm.evictOldestFlowLocked() { break } }\<close>.\<close>

function evictFlowsLoop :: "int \<Rightarrow> sourcePathProbeManager \<Rightarrow> sourcePathProbeManager" where
  "evictFlowsLoop maxEntries pm =
     (if int (gm_len (pmFlowMap pm)) \<ge> maxEntries
      then (case evictOldestFlowLocked pm of
              (True, pm') \<Rightarrow> evictFlowsLoop maxEntries pm'
            | (False, pm') \<Rightarrow> pm')
      else pm)"
  by auto
termination
  by (relation "measure (\<lambda>(_, pm). gm_len (pmFlowMap pm))") (use evictOldest_shrinks in auto)

declare evictFlowsLoop.simps [simp del]

definition assignFlowLocked ::
    "env \<Rightarrow> sourcePathFlowKey \<Rightarrow> sourceRxMeta \<Rightarrow> mono \<Rightarrow> sourcePathProbeManager \<Rightarrow> sourcePathProbeManager" where
  "assignFlowLocked e key source now pm0 =
     (let pm1 = pruneExpiredFlowsLocked e now pm0;
          maxEntries = sourcePathFlowMaxEntriesValue e;
          pm2 = (if maxEntries > 0 then evictFlowsLoop maxEntries pm1 else pm1)
      in pm2\<lparr>pmFlowMap := gm_set key \<lparr>fsSource = source, fsLastActivity = now\<rparr> (pmFlowMap pm2)\<rparr>)"

definition lookupFlowLocked ::
    "env \<Rightarrow> sourcePathFlowKey \<Rightarrow> mono \<Rightarrow> sourcePathProbeManager \<Rightarrow> sourcePathFlowState option \<times> sourcePathProbeManager" where
  "lookupFlowLocked e key now pm0 =
     (let pm = pruneExpiredFlowsLocked e now pm0 in
      case gm_get (pmFlowMap pm) key of
        None \<Rightarrow> (None, pm)
      | Some st0 \<Rightarrow>
          let st = st0\<lparr>fsLastActivity := now\<rparr>
          in (Some st, pm\<lparr>pmFlowMap := gm_set key st (pmFlowMap pm)\<rparr>))"

definition forgetFlowLocked :: "sourcePathFlowKey \<Rightarrow> sourceRxMeta \<Rightarrow> sourcePathProbeManager \<Rightarrow> sourcePathProbeManager" where
  "forgetFlowLocked key source pm = (case gm_get (pmFlowMap pm) key of
     None \<Rightarrow> pm
   | Some st \<Rightarrow> if fsSource st = source then pm\<lparr>pmFlowMap := gm_del key (pmFlowMap pm)\<rparr> else pm)"

definition dropFlowsLocked :: "epAddr \<Rightarrow> sourceRxMeta \<Rightarrow> sourcePathProbeManager \<Rightarrow> nat \<times> sourcePathProbeManager" where
  "dropFlowsLocked dst source pm =
     (if gm_len (pmFlowMap pm) = 0 then (0, pm)
      else (gm_count_if (\<lambda>k st. fkDst k = dst \<and> fsSource st = source) (pmFlowMap pm),
            pm\<lparr>pmFlowMap := gm_del_if (\<lambda>k st. fkDst k = dst \<and> fsSource st = source) (pmFlowMap pm)\<rparr>))"

definition nextFlowRRLocked :: "epAddr \<Rightarrow> sourcePathProbeManager \<Rightarrow> u64 \<times> sourcePathProbeManager" where
  "nextFlowRRLocked dst pm =
     (let v = (case gm_get (pmFlowRR pm) dst of None \<Rightarrow> 0 | Some n \<Rightarrow> n)
      in (v, pm\<lparr>pmFlowRR := gm_set dst (v + 1) (pmFlowRR pm)\<rparr>))"

section \<open>Eviction\<close>

definition flowClock :: "sourcePathFlowKey \<times> sourcePathFlowState \<Rightarrow> bool" where
  "flowClock kv \<longleftrightarrow> clock (fsLastActivity (snd kv))"

lemma olderFlow_iff:
  "flowClock a \<Longrightarrow> flowClock b \<Longrightarrow> olderFlow a b \<longleftrightarrow> fsLastActivity (snd a) < fsLastActivity (snd b)"
  by (simp add: olderFlow_def flowClock_def msub_clock)

interpretation oldest: selection olderFlow flowClock
  by unfold_locales (auto simp: olderFlow_iff)

definition flowInv :: "env \<Rightarrow> mono \<Rightarrow> sourcePathProbeManager \<Rightarrow> bool" where
  "flowInv e t pm \<longleftrightarrow> gm_wf (pmFlowMap pm)
     \<and> (\<forall>(_, st)\<in>set (pmFlowMap pm). 0 \<le> fsLastActivity st \<and> fsLastActivity st \<le> t)
     \<and> (0 < sourcePathFlowMaxEntriesValue e \<longrightarrow> int (gm_len (pmFlowMap pm)) \<le> sourcePathFlowMaxEntriesValue e)
     \<and> gm_wf (pmFlowRR pm)"

lemma flowInv_clock: "flowInv e t pm \<Longrightarrow> clock t \<Longrightarrow> \<forall>kv\<in>set (pmFlowMap pm). flowClock kv"
  by (auto simp: flowInv_def flowClock_def clock_def)

lemma evictOldest_spec:
  assumes "\<forall>kv\<in>set (pmFlowMap pm). flowClock kv" "evictOldestFlowLocked pm = (True, pm')" "gm_wf (pmFlowMap pm)"
  obtains k st where "(k, st) \<in> set (pmFlowMap pm)" "pm' = pm\<lparr>pmFlowMap := gm_del k (pmFlowMap pm)\<rparr>"
    "\<forall>kv\<in>set (pmFlowMap pm). fsLastActivity st \<le> fsLastActivity (snd kv)"
    "set (pmFlowMap pm') = set (pmFlowMap pm) - {(k, st)}"
proof -
  from assms(2) obtain k st where sel: "selectBest olderFlow (pmFlowMap pm) = Some (k, st)"
    and pm': "pm' = pm\<lparr>pmFlowMap := gm_del k (pmFlowMap pm)\<rparr>"
    by (auto simp: evictOldestFlowLocked_def split: option.splits)
  have mem: "(k, st) \<in> set (pmFlowMap pm)" using sel by (rule selectBest_in)
  then have "pmFlowMap pm \<noteq> []" by auto
  from oldest.select_max [OF assms(1) this] sel
  have "\<forall>kv\<in>set (pmFlowMap pm). \<not> olderFlow kv (k, st)" by auto
  then have "\<forall>kv\<in>set (pmFlowMap pm). fsLastActivity st \<le> fsLastActivity (snd kv)"
    using assms(1) mem by (metis linorder_not_less olderFlow_iff snd_conv)
  moreover have "set (gm_del k (pmFlowMap pm)) = set (pmFlowMap pm) - {(k, st)}"
  proof -
    have "kv \<in> set (gm_del k (pmFlowMap pm)) \<longleftrightarrow> kv \<in> set (pmFlowMap pm) \<and> kv \<noteq> (k, st)" for kv
      using gm_unique [OF assms(3) mem, of "snd kv"] mem by (cases kv) (auto simp: gm_del_def AList.delete_eq)
    then show ?thesis by blast
  qed
  ultimately show ?thesis using that mem pm' by simp
qed

lemma evictFlowsLoop_spec:
  assumes "\<forall>kv\<in>set (pmFlowMap pm). flowClock kv" "gm_wf (pmFlowMap pm)" "0 < maxEntries"
  shows "\<exists>m. evictFlowsLoop maxEntries pm = pm\<lparr>pmFlowMap := m\<rparr> \<and> gm_wf m \<and> set m \<subseteq> set (pmFlowMap pm)
     \<and> int (gm_len m) < maxEntries
     \<and> (\<forall>a\<in>set (pmFlowMap pm) - set m. \<forall>b\<in>set m. fsLastActivity (snd a) \<le> fsLastActivity (snd b))"
  using assms
proof (induction maxEntries pm rule: evictFlowsLoop.induct)
  case (1 n pm)
  show ?case
  proof (cases "int (gm_len (pmFlowMap pm)) \<ge> n")
    case False
    then have "evictFlowsLoop n pm = pm\<lparr>pmFlowMap := pmFlowMap pm\<rparr>" by (simp add: evictFlowsLoop.simps [of n pm])
    then show ?thesis using False 1(3) by (intro exI [of _ "pmFlowMap pm"]) simp
  next
    case True
    with 1(4) have "pmFlowMap pm \<noteq> []" by (auto simp: gm_len_def)
    then obtain old where "selectBest olderFlow (pmFlowMap pm) = Some old"
      using selectBest_None [of olderFlow "pmFlowMap pm"] by auto
    then obtain pm' where ev: "evictOldestFlowLocked pm = (True, pm')"
      by (cases old) (simp add: evictOldestFlowLocked_def)
    then have loop: "evictFlowsLoop n pm = evictFlowsLoop n pm'" using True by (simp add: evictFlowsLoop.simps [of n pm])
    obtain k st where e: "(k, st) \<in> set (pmFlowMap pm)" "pm' = pm\<lparr>pmFlowMap := gm_del k (pmFlowMap pm)\<rparr>"
      "\<forall>kv\<in>set (pmFlowMap pm). fsLastActivity st \<le> fsLastActivity (snd kv)"
      "set (pmFlowMap pm') = set (pmFlowMap pm) - {(k, st)}" by (rule evictOldest_spec [OF 1(2) ev 1(3)])
    have "\<forall>kv\<in>set (pmFlowMap pm'). flowClock kv" "gm_wf (pmFlowMap pm')" using 1(2,3) e(2,4) by (auto simp: gm_wf_del)
    from 1(1) [OF True ev [symmetric] refl this 1(4)] obtain m where m: "evictFlowsLoop n pm' = pm'\<lparr>pmFlowMap := m\<rparr>"
      "gm_wf m" "set m \<subseteq> set (pmFlowMap pm')" "int (gm_len m) < n"
      "\<forall>a\<in>set (pmFlowMap pm') - set m. \<forall>b\<in>set m. fsLastActivity (snd a) \<le> fsLastActivity (snd b)" by blast
    have "\<forall>a\<in>set (pmFlowMap pm) - set m. \<forall>b\<in>set m. fsLastActivity (snd a) \<le> fsLastActivity (snd b)"
    proof (intro ballI)
      fix a b assume a: "a \<in> set (pmFlowMap pm) - set m" and b: "b \<in> set m"
      show "fsLastActivity (snd a) \<le> fsLastActivity (snd b)"
        using a b m(3,5) e(3,4) by (cases "a = (k, st)") auto
    qed
    then show ?thesis using m e by (intro exI [of _ m]) (auto simp: loop)
  qed
qed

section \<open>Preservation\<close>

lemma pruneFlows_eq:
  "pruneExpiredFlowsLocked e now pm = pm\<lparr>pmFlowMap := (if sourcePathFlowIdleValue e \<le> 0 then pmFlowMap pm
     else gm_del_if (\<lambda>_ st. msub now (fsLastActivity st) > sourcePathFlowIdleValue e) (pmFlowMap pm))\<rparr>"
  by (simp add: pruneExpiredFlowsLocked_def Let_def gm_len_def gm_del_if_def)

lemma flowInv_subset:
  assumes "flowInv e t pm" "gm_wf m" "set m \<subseteq> set (pmFlowMap pm)" "gm_len m \<le> gm_len (pmFlowMap pm)"
  shows "flowInv e t (pm\<lparr>pmFlowMap := m\<rparr>)"
  using assms by (auto simp: flowInv_def)

lemma flowInv_del_if: "flowInv e t pm \<Longrightarrow> flowInv e t (pm\<lparr>pmFlowMap := gm_del_if P (pmFlowMap pm)\<rparr>)"
  by (rule flowInv_subset) (auto simp: flowInv_def gm_wf_del_if gm_del_if_entry gm_len_del_if)

lemma flowInv_del: "flowInv e t pm \<Longrightarrow> flowInv e t (pm\<lparr>pmFlowMap := gm_del k (pmFlowMap pm)\<rparr>)"
  by (rule flowInv_subset) (auto simp: flowInv_def gm_wf_del gm_len_del dest: gm_del_entry)

lemma flowInv_prune: "flowInv e t pm \<Longrightarrow> flowInv e t (pruneExpiredFlowsLocked e now pm)"
  by (simp add: pruneFlows_eq flowInv_del_if)

lemma flowInv_cong:
  "flowInv e t pm \<Longrightarrow> pmFlowMap pm' = pmFlowMap pm \<Longrightarrow> pmFlowRR pm' = pmFlowRR pm \<Longrightarrow> flowInv e t pm'"
  by (simp add: flowInv_def)

lemma flowInv_later: "flowInv e t pm \<Longrightarrow> t \<le> t' \<Longrightarrow> flowInv e t' pm"
  unfolding flowInv_def by fastforce

lemma flowInv_empty: "flowInv e t emptyManager" "flowInv e t (clearLocked pm)"
  by (simp_all add: flowInv_def emptyManager_def clearLocked_def gm_len_def)

lemma flowInv_forget: "flowInv e t pm \<Longrightarrow> flowInv e t (forgetFlowLocked key source pm)"
  by (simp add: forgetFlowLocked_def flowInv_del split: option.splits)

lemma flowInv_drop: "flowInv e t pm \<Longrightarrow> flowInv e t (snd (dropFlowsLocked dst source pm))"
  by (simp add: dropFlowsLocked_def flowInv_del_if)

lemma flowInv_nextRR: "flowInv e t pm \<Longrightarrow> flowInv e t (snd (nextFlowRRLocked dst pm))"
  by (simp add: nextFlowRRLocked_def flowInv_def gm_wf_set Let_def)

lemma flowInv_lookup:
  assumes "flowInv e t pm" "0 \<le> t"
  shows "flowInv e t (snd (lookupFlowLocked e key t pm))"
proof -
  let ?pm = "pruneExpiredFlowsLocked e t pm"
  have inv: "flowInv e t ?pm" using assms(1) by (rule flowInv_prune)
  show ?thesis
  proof (cases "gm_get (pmFlowMap ?pm) key")
    case (Some st)
    then have "gm_len (gm_set key (st\<lparr>fsLastActivity := t\<rparr>) (pmFlowMap ?pm)) = gm_len (pmFlowMap ?pm)"
      by (simp add: gm_len_set)
    with Some inv assms(2) show ?thesis
      by (auto simp: lookupFlowLocked_def Let_def flowInv_def gm_wf_set dest!: gm_set_entry)
  qed (simp add: lookupFlowLocked_def Let_def inv)
qed

lemma assignFlow_spec:
  assumes "flowInv e now pm" "clock now"
  obtains m where "assignFlowLocked e key source now pm = pm\<lparr>pmFlowMap := gm_set key \<lparr>fsSource = source, fsLastActivity = now\<rparr> m\<rparr>"
    "gm_wf m" "set m \<subseteq> set (pmFlowMap (pruneExpiredFlowsLocked e now pm))"
    "0 < sourcePathFlowMaxEntriesValue e \<longrightarrow> int (gm_len m) < sourcePathFlowMaxEntriesValue e"
    "\<forall>a\<in>set (pmFlowMap (pruneExpiredFlowsLocked e now pm)) - set m. \<forall>b\<in>set m.
       fsLastActivity (snd a) \<le> fsLastActivity (snd b)"
proof (cases "0 < sourcePathFlowMaxEntriesValue e")
  case True
  let ?pm = "pruneExpiredFlowsLocked e now pm"
  have inv: "flowInv e now ?pm" using assms(1) by (rule flowInv_prune)
  then have wf: "gm_wf (pmFlowMap ?pm)" by (simp add: flowInv_def)
  from evictFlowsLoop_spec [OF flowInv_clock [OF inv assms(2)] wf True] obtain m where
    m: "evictFlowsLoop (sourcePathFlowMaxEntriesValue e) ?pm = ?pm\<lparr>pmFlowMap := m\<rparr>" "gm_wf m"
      "set m \<subseteq> set (pmFlowMap ?pm)" "int (gm_len m) < sourcePathFlowMaxEntriesValue e"
      "\<forall>a\<in>set (pmFlowMap ?pm) - set m. \<forall>b\<in>set m. fsLastActivity (snd a) \<le> fsLastActivity (snd b)" by blast
  have "assignFlowLocked e key source now pm = pm\<lparr>pmFlowMap := gm_set key \<lparr>fsSource = source, fsLastActivity = now\<rparr> m\<rparr>"
    using True m(1) by (simp add: assignFlowLocked_def Let_def) (simp add: pruneFlows_eq)
  from that [OF this m(2,3) _ m(5)] m(4) show ?thesis by simp
next
  case False
  let ?m = "pmFlowMap (pruneExpiredFlowsLocked e now pm)"
  have "gm_wf ?m" using flowInv_prune [OF assms(1), of now] by (simp add: flowInv_def)
  moreover have "assignFlowLocked e key source now pm = pm\<lparr>pmFlowMap := gm_set key \<lparr>fsSource = source, fsLastActivity = now\<rparr> ?m\<rparr>"
    using False by (simp add: assignFlowLocked_def Let_def pruneFlows_eq)
  ultimately show ?thesis using that [of ?m] False by simp
qed

lemma flowInv_assign:
  assumes "flowInv e t pm" "clock t"
  shows "flowInv e t (assignFlowLocked e key source t pm)"
proof -
  let ?st = "\<lparr>fsSource = source, fsLastActivity = t\<rparr>"
  obtain m where m: "assignFlowLocked e key source t pm = pm\<lparr>pmFlowMap := gm_set key ?st m\<rparr>"
    "gm_wf m" "set m \<subseteq> set (pmFlowMap (pruneExpiredFlowsLocked e t pm))"
    "0 < sourcePathFlowMaxEntriesValue e \<longrightarrow> int (gm_len m) < sourcePathFlowMaxEntriesValue e"
    by (rule assignFlow_spec [OF assms, of key source])
  have "set m \<subseteq> set (pmFlowMap pm)" using m(3) by (auto simp: pruneFlows_eq gm_del_if_def split: if_splits)
  moreover have "gm_len (gm_set key ?st m) \<le> Suc (gm_len m)" by (simp add: gm_len_set)
  ultimately show ?thesis using m assms
    by (auto simp: flowInv_def gm_wf_set clock_def dest!: gm_set_entry)
qed

section \<open>Properties of flows\<close>

text \<open>
  C24. Assigning a flow. The flow is bound to the given source with activity \<open>now\<close>, the number of
  flows stays within the configured maximum, no other flow is added or changed, flows idle for
  too long are gone, and a live flow is evicted for space only if no flow that stays was active
  before it.
\<close>

theorem assign_flow_bounded_and_oldest_evicted:
  fixes key :: sourcePathFlowKey and source :: sourceRxMeta
  assumes "flowInv e now pm" "clock now"
  defines "pm' \<equiv> assignFlowLocked e key source now pm"
    and "idle \<equiv> \<lambda>st. 0 < sourcePathFlowIdleValue e \<and> sourcePathFlowIdleValue e < now - fsLastActivity st"
  shows "gm_get (pmFlowMap pm') key = Some \<lparr>fsSource = source, fsLastActivity = now\<rparr>
    \<and> (0 < sourcePathFlowMaxEntriesValue e \<longrightarrow> int (gm_len (pmFlowMap pm')) \<le> sourcePathFlowMaxEntriesValue e)
    \<and> (\<forall>k st. k \<noteq> key \<longrightarrow> gm_get (pmFlowMap pm') k = Some st \<longrightarrow> gm_get (pmFlowMap pm) k = Some st \<and> \<not> idle st)
    \<and> (\<forall>k st k' st'. gm_get (pmFlowMap pm) k = Some st \<longrightarrow> \<not> idle st \<longrightarrow> k \<noteq> key \<longrightarrow> gm_get (pmFlowMap pm') k = None
        \<longrightarrow> gm_get (pmFlowMap pm') k' = Some st' \<longrightarrow> fsLastActivity st \<le> fsLastActivity st')"
proof -
  let ?st = "\<lparr>fsSource = source, fsLastActivity = now\<rparr>"
  obtain m where m: "assignFlowLocked e key source now pm = pm\<lparr>pmFlowMap := gm_set key ?st m\<rparr>"
    "gm_wf m" "set m \<subseteq> set (pmFlowMap (pruneExpiredFlowsLocked e now pm))"
    "0 < sourcePathFlowMaxEntriesValue e \<longrightarrow> int (gm_len m) < sourcePathFlowMaxEntriesValue e"
    "\<forall>a\<in>set (pmFlowMap (pruneExpiredFlowsLocked e now pm)) - set m. \<forall>b\<in>set m.
       fsLastActivity (snd a) \<le> fsLastActivity (snd b)"
    by (rule assignFlow_spec [OF assms(1,2), of key source])
  have wf: "gm_wf (pmFlowMap pm)" and act: "\<And>k st. (k, st) \<in> set (pmFlowMap pm) \<Longrightarrow> 0 \<le> fsLastActivity st \<and> fsLastActivity st \<le> now"
    using assms(1) by (auto simp: flowInv_def)
  have live: "(k, st) \<in> set (pmFlowMap (pruneExpiredFlowsLocked e now pm)) \<longleftrightarrow> (k, st) \<in> set (pmFlowMap pm) \<and> \<not> idle st" for k st
  proof (cases "(k, st) \<in> set (pmFlowMap pm)")
    case True
    then have "msub now (fsLastActivity st) = now - fsLastActivity st"
      using act [OF True] assms(2) by (intro msub_clock) (auto simp: clock_def)
    with True show ?thesis by (auto simp: pruneFlows_eq gm_del_if_entry idle_def)
  qed (auto simp: pruneFlows_eq gm_del_if_entry)
  have pm': "pmFlowMap pm' = gm_set key ?st m" by (simp add: pm'_def m(1))
  have "gm_len (gm_set key ?st m) \<le> Suc (gm_len m)" by (simp add: gm_len_set)
  then have 1: "0 < sourcePathFlowMaxEntriesValue e \<longrightarrow> int (gm_len (pmFlowMap pm')) \<le> sourcePathFlowMaxEntriesValue e"
    using m(4) by (auto simp: pm')
  have 2: "gm_get (pmFlowMap pm) k = Some st \<and> \<not> idle st" if "k \<noteq> key" "gm_get (pmFlowMap pm') k = Some st" for k st
  proof -
    have "(k, st) \<in> set m" using that by (simp add: pm' gm_get_set gm_get_in)
    with m(3) live show ?thesis by (auto simp: gm_get_iff [OF wf])
  qed
  have 3: "fsLastActivity st \<le> fsLastActivity st'"
    if a: "gm_get (pmFlowMap pm) k = Some st" "\<not> idle st" "k \<noteq> key" "gm_get (pmFlowMap pm') k = None"
      and b: "gm_get (pmFlowMap pm') k' = Some st'" for k st k' st'
  proof (cases "k' = key")
    case True
    then show ?thesis using b act [OF gm_get_in [OF a(1)]] by (auto simp: pm' gm_get_set)
  next
    case False
    have "(k, st) \<notin> set m" using a(3,4) m(2) by (auto simp: pm' gm_get_set gm_get_None image_iff)
    moreover have "(k, st) \<in> set (pmFlowMap (pruneExpiredFlowsLocked e now pm))" using live a(1,2) by (simp add: gm_get_in)
    moreover have "(k', st') \<in> set m" using b False by (simp add: pm' gm_get_set gm_get_in)
    ultimately show ?thesis using m(5) [rule_format, of "(k, st)" "(k', st')"] by simp
  qed
  show ?thesis using 1 2 3 by (auto simp: pm' gm_get_set)
qed

theorem assign_flow_bounded_and_oldest_evicted_witness:
  "gm_get (pmFlowMap (assignFlowLocked defaultEnv \<lparr>fkDst = exDst, fkId = 5\<rparr> exAux 7 emptyManager)) \<lparr>fkDst = exDst, fkId = 5\<rparr>
     = Some \<lparr>fsSource = exAux, fsLastActivity = 7\<rparr>"
proof -
  have "clock 7" by code_simp
  from assign_flow_bounded_and_oldest_evicted [OF flowInv_empty(1) this, of defaultEnv "\<lparr>fkDst = exDst, fkId = 5\<rparr>" exAux]
  show ?thesis by blast
qed

text \<open>
  Flow stickiness. A flow looked up before it has been idle for the configured time (or with
  expiry switched off) gives the source it was assigned, and its activity becomes the lookup time;
  a flow idle for longer is not found and is forgotten.
\<close>

theorem flow_sticky_until_idle:
  assumes "flowInv e t pm" "clock t" "clock now" "t \<le> now" "gm_get (pmFlowMap pm) key = Some st"
  shows "(if sourcePathFlowIdleValue e \<le> 0 \<or> now - fsLastActivity st \<le> sourcePathFlowIdleValue e
      then fst (lookupFlowLocked e key now pm) = Some \<lparr>fsSource = fsSource st, fsLastActivity = now\<rparr>
         \<and> gm_get (pmFlowMap (snd (lookupFlowLocked e key now pm))) key = Some \<lparr>fsSource = fsSource st, fsLastActivity = now\<rparr>
      else fst (lookupFlowLocked e key now pm) = None
         \<and> gm_get (pmFlowMap (snd (lookupFlowLocked e key now pm))) key = None)"
proof -
  have wf: "gm_wf (pmFlowMap pm)" using assms(1) by (simp add: flowInv_def)
  have "clock (fsLastActivity st)"
    using flowInv_clock [OF assms(1,2)] gm_get_in [OF assms(5)] by (auto simp: flowClock_def)
  then have "msub now (fsLastActivity st) = now - fsLastActivity st" by (intro msub_clock assms(3))
  then have "gm_get (pmFlowMap (pruneExpiredFlowsLocked e now pm)) key =
      (if sourcePathFlowIdleValue e \<le> 0 \<or> now - fsLastActivity st \<le> sourcePathFlowIdleValue e then Some st else None)"
    using assms(5) by (auto simp: pruneFlows_eq gm_get_del_if [OF wf])
  then show ?thesis by (auto simp: lookupFlowLocked_def Let_def gm_get_set)
qed

theorem flow_sticky_until_idle_witness:
  "fst (lookupFlowLocked defaultEnv \<lparr>fkDst = exDst, fkId = 5\<rparr> 9
     (assignFlowLocked defaultEnv \<lparr>fkDst = exDst, fkId = 5\<rparr> exAux 7 emptyManager)) = Some \<lparr>fsSource = exAux, fsLastActivity = 9\<rparr>"
proof -
  let ?key = "\<lparr>fkDst = exDst, fkId = 5\<rparr>"
  have c: "clock 7" "clock 9" by code_simp+
  have inv: "flowInv defaultEnv 7 (assignFlowLocked defaultEnv ?key exAux 7 emptyManager)"
    by (rule flowInv_assign [OF flowInv_empty(1) c(1)])
  have "gm_get (pmFlowMap (assignFlowLocked defaultEnv ?key exAux 7 emptyManager)) ?key = Some \<lparr>fsSource = exAux, fsLastActivity = 7\<rparr>"
    "sourcePathFlowIdleValue defaultEnv = 30000000000" by code_simp+
  with flow_sticky_until_idle [OF inv c, of ?key] show ?thesis by simp
qed

section \<open>Mixing is a bijection\<close>

lemma xorShift_inj:
  assumes "0 < k" "xorShift k v = xorShift k w"
  shows "v = w"
proof -
  have "\<forall>n. 64 \<le> n + d \<longrightarrow> bit v n = bit w n" for d
  proof (induction d)
    case 0
    then show ?case by (auto dest: bit_imp_le_length)
  next
    case (Suc d)
    show ?case
    proof (intro allI impI)
      fix n assume n: "64 \<le> n + Suc d"
      have "bit (xorShift k v) n = bit (xorShift k w) n" by (simp add: assms(2))
      moreover have "bit v (k + n) = bit w (k + n)" using Suc n assms(1) by auto
      ultimately show "bit v n = bit w n" by (auto simp: xorShift_def bit_xor_iff bit_drop_bit_eq)
    qed
  qed
  from this [of 64] show ?thesis by (intro bit_word_eqI) simp
qed

lemma odd_mult_inj:
  fixes v w c d :: u64
  assumes "v * c = w * c" "c * d = 1"
  shows "v = w"
proof -
  have "v * c * d = w * c * d" using assms(1) by simp
  then show ?thesis by (simp only: mult.assoc assms(2) mult_1_right)
qed

text \<open>
  \<open>sourcePathMix64\<close> is a bijection on 64-bit flow identifiers: distinct flows get distinct
  mixed values, and every value is reached.
\<close>

theorem mix64_bijective: "bij sourcePathMix64"
proof -
  have "sourcePathMix64 v = sourcePathMix64 w \<Longrightarrow> v = w" for v w
    unfolding sourcePathMix64_def Let_def
    by (drule xorShift_inj [rotated], simp, drule odd_mult_inj [where d = "0x319642b2d24d8ec3"], simp,
        drule xorShift_inj [rotated], simp, drule odd_mult_inj [where d = "0x96de1b173f119089"], simp,
        drule xorShift_inj [rotated], simp)
  then have "inj sourcePathMix64" by (rule injI)
  then show ?thesis by (simp add: bij_def finite_UNIV_inj_surj)
qed

lemma fToUint64_nat: "0 \<le> a \<Longrightarrow> a \<le> 10000 \<Longrightarrow> fToUint64 (Fin a) = word_of_int \<lfloor>a\<rfloor>"
  by (simp add: truncRat_def)

text \<open>
  The weighted choice at its ends. A flow never goes to the auxiliary source when that source
  has weight zero and the primary a positive one, and always does the other way round.
\<close>

theorem choose_aux_extremes:
  assumes "0 < w" "w \<le> 2 ^ 53" "rnd w = w"
  shows "\<not> sourcePathFlowChooseAuxByWeight flowID (Fin 0) (Fin w)
    \<and> sourcePathFlowChooseAuxByWeight flowID (Fin w) (Fin 0)"
proof -
  have w: "toF w = Fin w" using assms by (simp add: toF_small)
  have c: "toF 0 = Fin 0" "toF 1 = Fin 1" "toF 10000 = Fin 10000"
    using toF_int [of 0] toF_int [of 1] toF_int [of 10000] by simp_all
  have t: "truncRat 0 = 0" "truncRat 10000 = 10000" by (simp_all add: truncRat_def)
  have "sourcePathMix64 flowID mod 10000 < 10000" by (simp add: word_less_nat_alt unat_mod)
  with assms(1) w c t show ?thesis by (simp add: sourcePathFlowChooseAuxByWeight_def Let_def)
qed

theorem choose_aux_extremes_witness:
  "\<not> sourcePathFlowChooseAuxByWeight 42 (Fin 0) (Fin 3) \<and> sourcePathFlowChooseAuxByWeight 42 (Fin 3) (Fin 0)"
proof -
  have "rnd 3 = 3" using rnd_int [of 3] by simp
  then show ?thesis by (intro choose_aux_extremes) simp_all
qed

end
