(* ===== verification/Srcsel_Sockets.thy ===== *)
theory Srcsel_Sockets
  imports Srcsel_Flow
begin

text \<open>
  The pool of auxiliary sockets of \<open>src/wgengine/magicsock/sourcepath_supported.go\<close>: the two
  first sockets, the extra ones, their identifiers and generations, binding, rebinding and
  closing. \<open>extraAux4\<close> and \<open>extra4Bound\<close> are always resized together, in one function, and are
  one list of pairs here (likewise for IPv6). What \<open>listenPacket\<close> answers for a slot is the
  argument \<open>listen\<close>; \<open>pconn\<close> records what a socket currently wraps.
\<close>

section \<open>Data\<close>

datatype pconnState =
    NilConn
  | BlockForever
  | Listening string
  | ClosedConn

record sourcePathSocket =
  skID :: u32
  skGeneration :: u64
  skPconn :: pconnState

definition zeroSocket :: sourcePathSocket where
  "zeroSocket = \<lparr>skID = 0, skGeneration = 0, skPconn = NilConn\<rparr>"

type_synonym slot = "sourcePathSocket \<times> bool"

record sourcePathState =
  spGeneration :: u64
  spAux4 :: slot
  spAux6 :: slot
  spExtra4 :: "slot list"
  spExtra6 :: "slot list"

definition zeroState :: sourcePathState where
  "zeroState = \<lparr>spGeneration = 0, spAux4 = (zeroSocket, False), spAux6 = (zeroSocket, False),
     spExtra4 = [], spExtra6 = []\<rparr>"

definition setID :: "u32 \<Rightarrow> sourcePathSocket \<Rightarrow> sourcePathSocket" where
  "setID sid s = s\<lparr>skID := sid\<rparr>"

definition rxMeta :: "sourcePathSocket \<Rightarrow> sourceRxMeta" where
  "rxMeta s = \<lparr>rxSocketID = skID s, rxGeneration = skGeneration s\<rparr>"

definition sourceIPv4SocketID :: u32 where "sourceIPv4SocketID = 1"
definition sourceIPv6SocketID :: u32 where "sourceIPv6SocketID = 2"
definition sourceIPv4ExtraSocketIDBase :: u32 where "sourceIPv4ExtraSocketIDBase = 100"
definition sourceIPv6ExtraSocketIDBase :: u32 where "sourceIPv6ExtraSocketIDBase = 200"

lemmas socket_ids = sourceIPv4SocketID_def sourceIPv6SocketID_def
  sourceIPv4ExtraSocketIDBase_def sourceIPv6ExtraSocketIDBase_def

definition sourcePathAuxSocketID :: "bool \<Rightarrow> nat \<Rightarrow> u32" where
  "sourcePathAuxSocketID v4 index =
     (if index = 0 then if v4 then sourceIPv4SocketID else sourceIPv6SocketID
      else if v4 then sourceIPv4ExtraSocketIDBase + of_nat (index - 1)
      else sourceIPv6ExtraSocketIDBase + of_nat (index - 1))"

section \<open>Iteration\<close>

text \<open>The slots of a family in the order the callback of \<open>forEachSourcePathSocketLocked\<close> sees
  them, and the same with the callback updating the slot and an accumulator.\<close>

definition socketsOf :: "bool \<Rightarrow> sourcePathState \<Rightarrow> slot list" where
  "socketsOf v4 sp = (if v4 then spAux4 sp # spExtra4 sp else spAux6 sp # spExtra6 sp)"

definition setSockets :: "bool \<Rightarrow> slot list \<Rightarrow> sourcePathState \<Rightarrow> sourcePathState" where
  "setSockets v4 ss sp = (if v4 then sp\<lparr>spAux4 := hd ss, spExtra4 := tl ss\<rparr> else sp\<lparr>spAux6 := hd ss, spExtra6 := tl ss\<rparr>)"

fun forSlots :: "(nat \<Rightarrow> slot \<Rightarrow> 'a \<Rightarrow> slot \<times> 'a) \<Rightarrow> nat \<Rightarrow> slot list \<Rightarrow> 'a \<Rightarrow> slot list \<times> 'a" where
  "forSlots fn i [] acc = ([], acc)"
| "forSlots fn i (s # ss) acc =
     (let (s', acc') = fn i s acc; (ss', acc'') = forSlots fn (Suc i) ss acc' in (s' # ss', acc''))"

definition forEachSourcePathSocketLocked ::
    "bool \<Rightarrow> (nat \<Rightarrow> slot \<Rightarrow> 'a \<Rightarrow> slot \<times> 'a) \<Rightarrow> sourcePathState \<Rightarrow> 'a \<Rightarrow> sourcePathState \<times> 'a" where
  "forEachSourcePathSocketLocked v4 fn sp acc =
     (let (ss, acc') = forSlots fn 0 (socketsOf v4 sp) acc in (setSockets v4 ss sp, acc'))"

section \<open>Sizing the pool\<close>

text \<open>\<open>closeSourcePathPConnLocked\<close>: closing a socket that has no connection is only logged.\<close>

definition closePconn :: "sourcePathSocket \<Rightarrow> sourcePathSocket" where
  "closePconn s = (if skPconn s = NilConn then s else s\<lparr>skPconn := ClosedConn\<rparr>)"

function shrinkExtra :: "nat \<Rightarrow> slot list \<Rightarrow> slot list" where
  "shrinkExtra wantExtra xs = (if length xs > wantExtra then shrinkExtra wantExtra (butlast xs) else xs)"
  by auto
termination by (relation "measure (\<lambda>(_, xs). length xs)") auto

function growExtra :: "nat \<Rightarrow> slot list \<Rightarrow> slot list" where
  "growExtra wantExtra xs =
     (if length xs < wantExtra then growExtra wantExtra (xs @ [(zeroSocket, False)]) else xs)"
  by auto
termination by (relation "measure (\<lambda>(n, xs). n - length xs)") auto

declare shrinkExtra.simps [simp del] growExtra.simps [simp del]

definition numberExtra :: "bool \<Rightarrow> slot list \<Rightarrow> slot list" where
  "numberExtra v4 xs = map (\<lambda>(i, s, b). (setID (sourcePathAuxSocketID v4 (i + 1)) s, b)) (enumerate 0 xs)"

definition ensureSourcePathAuxSocketCountLocked :: "int \<Rightarrow> sourcePathState \<Rightarrow> sourcePathState" where
  "ensureSourcePathAuxSocketCountLocked count0 sp =
     (let count1 = (if count0 < 1 then 1 else count0);
          count = (if count1 > sourcePathMaxAuxSockets then sourcePathMaxAuxSockets else count1);
          wantExtra = nat (count - 1)
      in sp\<lparr>spAux4 := (setID (sourcePathAuxSocketID True 0) (fst (spAux4 sp)), snd (spAux4 sp)),
            spAux6 := (setID (sourcePathAuxSocketID False 0) (fst (spAux6 sp)), snd (spAux6 sp)),
            spExtra4 := numberExtra True (growExtra wantExtra (shrinkExtra wantExtra (spExtra4 sp))),
            spExtra6 := numberExtra False (growExtra wantExtra (shrinkExtra wantExtra (spExtra6 sp)))\<rparr>)"

section \<open>Binding\<close>

text \<open>\<open>bindSourcePathSocketLocked\<close>, then the block-forever fallback of its callers: \<open>listen\<close> is
  the error of \<open>listenPacket\<close>, if any.\<close>

definition bindSourcePathSocketLocked :: "string option \<Rightarrow> string \<Rightarrow> sourcePathSocket \<Rightarrow> string option \<times> sourcePathSocket" where
  "bindSourcePathSocketLocked listen network s =
     (case listen of
        Some err \<Rightarrow> (Some err, closePconn s)
      | None \<Rightarrow> (None, s\<lparr>skPconn := Listening network\<rparr>))"

definition setSourcePathBlockForeverLocked :: "sourcePathSocket \<Rightarrow> sourcePathSocket" where
  "setSourcePathBlockForeverLocked s = (closePconn s)\<lparr>skPconn := BlockForever\<rparr>"

definition ensureSourcePathPConnLocked :: "sourcePathSocket \<Rightarrow> sourcePathSocket" where
  "ensureSourcePathPConnLocked s = (if skPconn s \<noteq> NilConn then s else s\<lparr>skPconn := BlockForever\<rparr>)"

definition bindSlot ::
    "(nat \<Rightarrow> string option) \<Rightarrow> string \<Rightarrow> u64 \<Rightarrow> nat \<Rightarrow> slot \<Rightarrow> string option \<times> bool \<Rightarrow> slot \<times> string option \<times> bool" where
  "bindSlot listen network gen i sl st = (case (sl, st) of ((s, _), (firstErr, anyBound)) \<Rightarrow>
     (case bindSourcePathSocketLocked (listen i) network (s\<lparr>skGeneration := gen\<rparr>) of
        (Some err, s') \<Rightarrow>
          ((setSourcePathBlockForeverLocked s', False), (if firstErr = None then Some err else firstErr, anyBound))
      | (None, s') \<Rightarrow> ((s', True), (firstErr, True))))"

definition bindSourcePathSocketFamilyLocked ::
    "bool \<Rightarrow> string \<Rightarrow> (nat \<Rightarrow> string option) \<Rightarrow> sourcePathState \<Rightarrow> string option \<times> sourcePathState" where
  "bindSourcePathSocketFamilyLocked v4 network listen sp =
     (case forEachSourcePathSocketLocked v4 (bindSlot listen network (spGeneration sp)) sp (None, False) of
        (sp', (firstErr, anyBound)) \<Rightarrow> (if anyBound then None else firstErr, sp'))"

text \<open>\<open>errors.Join\<close>: nil when every error is.\<close>

definition sourcePathBindError :: "string option list \<Rightarrow> string list" where
  "sourcePathBindError errs = List.map_filter id errs"

definition closeSlot :: "slot \<Rightarrow> slot" where
  "closeSlot sl = (closePconn (fst sl), False)"

definition closeSourcePathSockets :: "sourcePathState \<Rightarrow> sourcePathState" where
  "closeSourcePathSockets sp = sp\<lparr>spAux4 := closeSlot (spAux4 sp), spAux6 := closeSlot (spAux6 sp),
     spExtra4 := map closeSlot (spExtra4 sp), spExtra6 := map closeSlot (spExtra6 sp)\<rparr>"

text \<open>\<open>rebindSourcePathSockets\<close>: with the pool switched off it closes everything and clears the
  probe manager. Returns the errors, the sockets and the manager.\<close>

definition rebindSourcePathSockets ::
    "env \<Rightarrow> (bool \<Rightarrow> nat \<Rightarrow> string option) \<Rightarrow> sourcePathState \<Rightarrow> sourcePathProbeManager
      \<Rightarrow> string list \<times> sourcePathState \<times> sourcePathProbeManager" where
  "rebindSourcePathSockets e listen sp pm =
     (let count = sourcePathAuxSocketCount e in
      if count = 0 then ([], closeSourcePathSockets sp, clearLocked pm)
      else
        let sp1 = ensureSourcePathAuxSocketCountLocked count sp;
            sp2 = sp1\<lparr>spGeneration := spGeneration sp1 + 1\<rparr>;
            (err4, sp3) = bindSourcePathSocketFamilyLocked True ''udp4'' (listen True) sp2;
            (err6, sp4) = bindSourcePathSocketFamilyLocked False ''udp6'' (listen False) sp3
        in (sourcePathBindError [err4, err6], sp4, pm))"

section \<open>Looking up a slot\<close>

text \<open>The slot \<open>sourcePathSocketSlotLocked\<close> points to, as family and index, with its network.\<close>

definition sourcePathSocketSlotLocked :: "u32 \<Rightarrow> sourcePathState \<Rightarrow> ((bool \<times> nat) \<times> string) option" where
  "sourcePathSocketSlotLocked sid sp =
     (if sid = sourceIPv4SocketID then Some ((True, 0), ''udp4'')
      else if sid = sourceIPv6SocketID then Some ((False, 0), ''udp6'')
      else if sid \<ge> sourceIPv4ExtraSocketIDBase
            \<and> sid < sourceIPv4ExtraSocketIDBase + word_of_int sourcePathMaxAuxSockets
            \<and> unat (sid - sourceIPv4ExtraSocketIDBase) < length (spExtra4 sp)
        then Some ((True, Suc (unat (sid - sourceIPv4ExtraSocketIDBase))), ''udp4'')
      else if sid \<ge> sourceIPv6ExtraSocketIDBase
            \<and> sid < sourceIPv6ExtraSocketIDBase + word_of_int sourcePathMaxAuxSockets
            \<and> unat (sid - sourceIPv6ExtraSocketIDBase) < length (spExtra6 sp)
        then Some ((False, Suc (unat (sid - sourceIPv6ExtraSocketIDBase))), ''udp6'')
      else None)"

definition getSlot :: "bool \<times> nat \<Rightarrow> sourcePathState \<Rightarrow> slot" where
  "getSlot p sp = socketsOf (fst p) sp ! snd p"

definition putSlot :: "bool \<times> nat \<Rightarrow> slot \<Rightarrow> sourcePathState \<Rightarrow> sourcePathState" where
  "putSlot p sl sp = setSockets (fst p) ((socketsOf (fst p) sp)[snd p := sl]) sp"

datatype rebindResult =
    RebindUnavailable
  | RebindStale sourceRxMeta
  | RebindFailed sourceRxMeta string
  | Rebound sourceRxMeta

text \<open>The return values \<open>(meta, rebound, err)\<close>: unavailable is \<open>rebound = false\<close> with an error,
  stale is \<open>false\<close> without, the other two are \<open>true\<close> with and without one.\<close>

definition rebindSourcePathSocket ::
    "env \<Rightarrow> string option \<Rightarrow> sourceRxMeta \<Rightarrow> sourcePathState \<Rightarrow> rebindResult \<times> sourcePathState" where
  "rebindSourcePathSocket e listen source sp =
     (if sourcePathAuxSocketCount e = 0 \<or> isPrimary source then (RebindUnavailable, sp)
      else case sourcePathSocketSlotLocked (rxSocketID source) sp of
        None \<Rightarrow> (RebindUnavailable, sp)
      | Some (p, network) \<Rightarrow>
          let target = fst (getSlot p sp); current = rxMeta target in
          if source \<noteq> current then (RebindStale current, sp)
          else
            let sp1 = sp\<lparr>spGeneration := spGeneration sp + 1\<rparr>;
                target1 = target\<lparr>skGeneration := spGeneration sp1\<rparr>
            in case bindSourcePathSocketLocked listen network target1 of
                 (Some err, target2) \<Rightarrow>
                   let target3 = setSourcePathBlockForeverLocked target2
                   in (RebindFailed (rxMeta target3) err, putSlot p (target3, False) sp1)
               | (None, target2) \<Rightarrow> (Rebound (rxMeta target2), putSlot p (target2, True) sp1))"

section \<open>Who can send\<close>

definition sourcePathProbeSources :: "env \<Rightarrow> bool \<Rightarrow> sourcePathState \<Rightarrow> sourceRxMeta list" where
  "sourcePathProbeSources e v4 sp =
     (if sourcePathAuxSocketCount e = 0 then []
      else map (\<lambda>sl. rxMeta (fst sl)) (filter snd (socketsOf v4 sp)))"

definition sourcePathReceiveFuncs :: "env \<Rightarrow> sourcePathState \<Rightarrow> sourceRxMeta list \<times> sourcePathState" where
  "sourcePathReceiveFuncs e sp =
     (let count = sourcePathAuxSocketCount e in
      if count = 0 then ([], sp)
      else
        let sp1 = ensureSourcePathAuxSocketCountLocked count sp;
            visit = (\<lambda>(_ :: nat) (s, b) fns. ((ensureSourcePathPConnLocked s, b), fns @ [rxMeta s]));
            (sp2, fns4) = forEachSourcePathSocketLocked True visit sp1 [];
            (sp3, fns) = forEachSourcePathSocketLocked False visit sp2 fns4
        in (fns, sp3))"

text \<open>The socket a write picks: the first bound one whose current metadata is the source's.\<close>

definition pickSocket :: "bool \<Rightarrow> sourceRxMeta \<Rightarrow> sourcePathState \<Rightarrow> sourcePathSocket option" where
  "pickSocket v4 source sp = map_option fst (List.find (\<lambda>(s, b). b \<and> source = rxMeta s) (socketsOf v4 sp))"

definition sourcePathWriteWireGuardBatchTo ::
    "sourceRxMeta \<Rightarrow> epAddr \<Rightarrow> (sourcePathSocket \<Rightarrow> 'err) \<Rightarrow> 'err \<Rightarrow> sourcePathState \<Rightarrow> 'err" where
  "sourcePathWriteWireGuardBatchTo source dst write unavailable sp =
     (case (if isDirect dst then pickSocket (is4 (apAddr (ap dst))) source sp else None) of
        None \<Rightarrow> unavailable
      | Some s \<Rightarrow> write s)"

definition sourcePathWriteTo ::
    "sourceRxMeta \<Rightarrow> addrPort \<Rightarrow> (sourcePathSocket \<Rightarrow> 'err) \<Rightarrow> 'err \<Rightarrow> sourcePathState \<Rightarrow> 'err" where
  "sourcePathWriteTo source dst write unavailable sp =
     (case pickSocket (is4 (apAddr dst)) source sp of
        None \<Rightarrow> unavailable
      | Some s \<Rightarrow> write s)"

definition forcedStep :: "sourceRxMeta \<Rightarrow> slot \<Rightarrow> sourceRxMeta" where
  "forcedStep source sl = (if isPrimary source \<and> snd sl then rxMeta (fst sl) else source)"

definition sourcePathForcedDataSendSource :: "epAddr \<Rightarrow> sourcePathState \<Rightarrow> sourceRxMeta" where
  "sourcePathForcedDataSendSource dst sp =
     (let source = foldl forcedStep \<lparr>rxSocketID = 0, rxGeneration = 0\<rparr> (socketsOf (is4 (apAddr (ap dst))) sp)
      in if isPrimary source then primarySourceRxMeta else source)"

definition sourcePathForcedDataSourceModeAllowsAddr :: "string \<Rightarrow> addr \<Rightarrow> bool" where
  "sourcePathForcedDataSourceModeAllowsAddr mode a =
     (if mode = ''aux'' then True
      else if mode \<in> set [''aux4'', ''ipv4'', ''v4''] then is4 a
      else if mode \<in> set [''aux6'', ''ipv6'', ''v6''] then is6 a
      else False)"

section \<open>Identifiers\<close>

lemma unat_auxSocketID:
  assumes "i < 32"
  shows "unat (sourcePathAuxSocketID v4 i) = (if i = 0 then if v4 then 1 else 2 else (if v4 then 99 else 199) + i)"
proof (cases i)
  case 0
  then show ?thesis by (simp add: sourcePathAuxSocketID_def socket_ids)
next
  case (Suc j)
  have "unat (of_nat j :: u32) = j" using assms Suc by (simp add: unat_of_nat)
  with Suc assms show ?thesis by (simp add: sourcePathAuxSocketID_def socket_ids unat_word_ariths)
qed

lemma auxSocketID_inj:
  assumes "i < 32" "j < 32" "sourcePathAuxSocketID v4 i = sourcePathAuxSocketID w4 j"
  shows "v4 = w4 \<and> i = j"
proof -
  from assms(3) have "unat (sourcePathAuxSocketID v4 i) = unat (sourcePathAuxSocketID w4 j)" by simp
  then show ?thesis using assms(1,2) by (auto simp: unat_auxSocketID split: if_splits)
qed

lemma auxSocketID_not_primary: "i < 32 \<Longrightarrow> sourcePathAuxSocketID v4 i \<noteq> 0"
  using unat_auxSocketID [of i v4] by (auto split: if_splits)

definition networkOf :: "bool \<Rightarrow> string" where
  "networkOf v4 = (if v4 then ''udp4'' else ''udp6'')"

lemma slot_of_auxSocketID:
  assumes "i < length (socketsOf v4 sp)" "length (socketsOf v4 sp) \<le> 32"
  shows "sourcePathSocketSlotLocked (sourcePathAuxSocketID v4 i) sp = Some ((v4, i), networkOf v4)"
proof -
  have i: "i < 32" using assms by simp
  have max: "word_of_int sourcePathMaxAuxSockets = (32 :: u32)" by (simp add: srcsel_consts)
  show ?thesis
  proof (cases i)
    case 0
    then show ?thesis by (simp add: sourcePathSocketSlotLocked_def sourcePathAuxSocketID_def networkOf_def socket_ids)
  next
    case (Suc j)
    have u: "unat (of_nat j :: u32) = j" using i Suc by (simp add: unat_of_nat)
    have u1: "unat (100 + of_nat j :: u32) = 100 + j" "unat (200 + of_nat j :: u32) = 200 + j"
      using i Suc u by (simp_all add: unat_word_ariths)
    show ?thesis using Suc i assms u u1
      by (cases v4) (auto simp: sourcePathSocketSlotLocked_def sourcePathAuxSocketID_def networkOf_def socket_ids
          max socketsOf_def word_le_nat_alt word_less_nat_alt word_unat_eq_iff)
  qed
qed

section \<open>Sizing\<close>

lemma shrinkExtra_eq: "shrinkExtra n xs = take n xs"
proof (induction n xs rule: shrinkExtra.induct)
  case (1 n xs)
  show ?case
  proof (cases "length xs > n")
    case True
    then have "n \<le> length xs - 1" by simp
    then show ?thesis using 1 True by (subst shrinkExtra.simps) (simp add: take_butlast)
  qed (simp add: shrinkExtra.simps [of n xs])
qed

lemma growExtra_eq: "growExtra n xs = xs @ replicate (n - length xs) (zeroSocket, False)"
proof (induction n xs rule: growExtra.induct)
  case (1 n xs)
  show ?case
  proof (cases "length xs < n")
    case True
    then have "n - length xs = Suc (n - Suc (length xs))" by simp
    then show ?thesis using 1 [OF True] True by (subst growExtra.simps) simp
  qed (simp add: growExtra.simps [of n xs])
qed

lemma numberExtra_nth:
  "i < length xs \<Longrightarrow> numberExtra v4 xs ! i = (setID (sourcePathAuxSocketID v4 (Suc i)) (fst (xs ! i)), snd (xs ! i))"
  by (simp add: numberExtra_def nth_enumerate_eq case_prod_unfold)

lemma length_numberExtra [simp]: "length (numberExtra v4 xs) = length xs"
  by (simp add: numberExtra_def)

text \<open>The number of sockets per family for a configured count.\<close>

definition poolSize :: "int \<Rightarrow> nat" where
  "poolSize cnt = nat (max 1 (min 32 cnt))"

lemma ensure_sockets:
  fixes cnt :: int
  defines "n \<equiv> poolSize cnt"
  shows "length (socketsOf v4 (ensureSourcePathAuxSocketCountLocked cnt sp)) = n"
    and "i < n \<Longrightarrow> socketsOf v4 (ensureSourcePathAuxSocketCountLocked cnt sp) ! i =
      (let sl = (if i < length (socketsOf v4 sp) then socketsOf v4 sp ! i else (zeroSocket, False))
       in (setID (sourcePathAuxSocketID v4 i) (fst sl), snd sl))"
    and "spGeneration (ensureSourcePathAuxSocketCountLocked cnt sp) = spGeneration sp"
proof -
  let ?want = "nat ((if (if cnt < 1 then 1 else cnt) > 32 then 32 else (if cnt < 1 then 1 else cnt)) - 1)"
  have want: "Suc ?want = n" by (auto simp: n_def poolSize_def)
  let ?sp = "ensureSourcePathAuxSocketCountLocked cnt sp"
  have len: "length (growExtra ?want (shrinkExtra ?want xs)) = ?want" for xs
    by (simp add: growExtra_eq shrinkExtra_eq)
  have nth: "growExtra ?want (shrinkExtra ?want xs) ! j = (if j < length xs then xs ! j else (zeroSocket, False))"
    if "j < ?want" for xs j using that by (auto simp: growExtra_eq shrinkExtra_eq nth_append)
  have s: "socketsOf v4 ?sp = (setID (sourcePathAuxSocketID v4 0) (fst (hd (socketsOf v4 sp))), snd (hd (socketsOf v4 sp)))
      # numberExtra v4 (growExtra ?want (shrinkExtra ?want (tl (socketsOf v4 sp))))"
    by (simp add: socketsOf_def ensureSourcePathAuxSocketCountLocked_def srcsel_consts Let_def)
  show "length (socketsOf v4 ?sp) = n" by (simp add: s len want)
  show "spGeneration ?sp = spGeneration sp" by (simp add: ensureSourcePathAuxSocketCountLocked_def Let_def)
  assume i: "i < n"
  show "socketsOf v4 ?sp ! i = (let sl = (if i < length (socketsOf v4 sp) then socketsOf v4 sp ! i else (zeroSocket, False))
       in (setID (sourcePathAuxSocketID v4 i) (fst sl), snd sl))"
  proof (cases i)
    case 0
    then show ?thesis unfolding s by (simp add: socketsOf_def Let_def)
  next
    case (Suc j)
    then have j: "j < ?want" using i want by simp
    then show ?thesis using Suc unfolding s
      by (simp add: numberExtra_nth len nth [OF j]) (simp add: socketsOf_def Let_def)
  qed
qed

section \<open>Binding a family\<close>

lemma socketsOf_setSockets [simp]:
  "ss \<noteq> [] \<Longrightarrow> socketsOf w4 (setSockets v4 ss sp) = (if w4 = v4 then ss else socketsOf w4 sp)"
  by (auto simp: socketsOf_def setSockets_def)

lemma spGeneration_setSockets [simp]: "spGeneration (setSockets v4 ss sp) = spGeneration sp"
  by (simp add: setSockets_def)

lemma socketsOf_nonempty [simp]: "socketsOf v4 sp \<noteq> []"
  by (simp add: socketsOf_def)

lemma socketsOf_generation [simp]: "socketsOf v4 (sp\<lparr>spGeneration := g\<rparr>) = socketsOf v4 sp"
  by (simp add: socketsOf_def)

text \<open>What binding leaves in a slot.\<close>

definition boundSlot :: "(nat \<Rightarrow> string option) \<Rightarrow> string \<Rightarrow> u64 \<Rightarrow> nat \<Rightarrow> slot \<Rightarrow> slot" where
  "boundSlot listen network gen i sl =
     (if listen i = None then (fst sl\<lparr>skGeneration := gen, skPconn := Listening network\<rparr>, True)
      else (fst sl\<lparr>skGeneration := gen, skPconn := BlockForever\<rparr>, False))"

lemma bindSlot_eq:
  "bindSlot listen network gen i sl (firstErr, anyBound) =
     (boundSlot listen network gen i sl,
      if listen i = None then (firstErr, True) else (if firstErr = None then listen i else firstErr, anyBound))"
  by (cases sl) (auto simp: bindSlot_def boundSlot_def bindSourcePathSocketLocked_def
      setSourcePathBlockForeverLocked_def closePconn_def split: option.splits)

lemma forSlots_bind:
  "fst (forSlots (bindSlot listen network gen) k ss acc) = map (\<lambda>(i, sl). boundSlot listen network gen i sl) (enumerate k ss)"
  by (induction ss arbitrary: k acc) (auto simp: bindSlot_eq Let_def case_prod_unfold)

lemma forSlots_bind_any:
  "snd (snd (forSlots (bindSlot listen network gen) k ss (firstErr, anyBound))) \<longleftrightarrow> anyBound \<or> (\<exists>i<length ss. listen (k + i) = None)"
proof (induction ss arbitrary: k firstErr anyBound)
  case (Cons sl ss)
  have "(\<exists>i<length (sl # ss). listen (k + i) = None) \<longleftrightarrow> listen k = None \<or> (\<exists>i<length ss. listen (Suc k + i) = None)"
    by (auto simp: less_Suc_eq_0_disj)
  then show ?case using Cons by (auto simp: bindSlot_eq Let_def case_prod_unfold)
qed simp

lemma bindFamily_sockets:
  assumes "bindSourcePathSocketFamilyLocked v4 network listen sp = (err, sp')"
  shows "socketsOf v4 sp' = map (\<lambda>(i, sl). boundSlot listen network (spGeneration sp) i sl) (enumerate 0 (socketsOf v4 sp))"
    and "w4 \<noteq> v4 \<Longrightarrow> socketsOf w4 sp' = socketsOf w4 sp" and "spGeneration sp' = spGeneration sp"
proof -
  have sp': "sp' = setSockets v4 (fst (forSlots (bindSlot listen network (spGeneration sp)) 0 (socketsOf v4 sp) (None, False))) sp"
    using assms by (auto simp: bindSourcePathSocketFamilyLocked_def forEachSourcePathSocketLocked_def Let_def split: prod.splits)
  have ne: "map (\<lambda>(i, sl). boundSlot listen network (spGeneration sp) i sl) (enumerate 0 (socketsOf v4 sp)) \<noteq> []"
    by (simp add: enumerate_eq_zip)
  show "socketsOf v4 sp' = map (\<lambda>(i, sl). boundSlot listen network (spGeneration sp) i sl) (enumerate 0 (socketsOf v4 sp))"
    "w4 \<noteq> v4 \<Longrightarrow> socketsOf w4 sp' = socketsOf w4 sp" "spGeneration sp' = spGeneration sp"
    using ne by (simp_all add: sp' forSlots_bind)
qed

section \<open>Invariant\<close>

text \<open>Slot \<open>i\<close> of a family: its generation is not ahead of the pool's; if it is bound it listens on
  the family's network and carries the identifier of its position.\<close>

definition slotOk :: "bool \<Rightarrow> u64 \<Rightarrow> nat \<Rightarrow> slot \<Rightarrow> bool" where
  "slotOk v4 g i sl \<longleftrightarrow> skGeneration (fst sl) \<le> g
     \<and> (snd sl \<longrightarrow> skID (fst sl) = sourcePathAuxSocketID v4 i \<and> skPconn (fst sl) = Listening (networkOf v4))"

definition poolInv :: "sourcePathState \<Rightarrow> bool" where
  "poolInv sp \<longleftrightarrow> (\<forall>v4. length (socketsOf v4 sp) \<le> 32
     \<and> (\<forall>i<length (socketsOf v4 sp). slotOk v4 (spGeneration sp) i (socketsOf v4 sp ! i)))"

lemma poolInv_zero: "poolInv zeroState"
  by (simp add: poolInv_def zeroState_def socketsOf_def slotOk_def zeroSocket_def)

lemma poolSize_le: "poolSize cnt \<le> 32"
  by (simp add: poolSize_def)

lemma poolInv_ensure:
  assumes "poolInv sp"
  shows "poolInv (ensureSourcePathAuxSocketCountLocked cnt sp)"
  unfolding poolInv_def ensure_sockets
proof (intro allI conjI impI)
  fix v4 i assume i: "i < poolSize cnt"
  have "slotOk v4 (spGeneration sp) i (socketsOf v4 sp ! i)" if "i < length (socketsOf v4 sp)"
    using assms that by (simp add: poolInv_def)
  then show "slotOk v4 (spGeneration sp) i (socketsOf v4 (ensureSourcePathAuxSocketCountLocked cnt sp) ! i)"
    by (auto simp: ensure_sockets(2) [OF i] slotOk_def setID_def zeroSocket_def Let_def)
qed (rule poolSize_le)

lemma word_inc_le:
  fixes a g :: u64
  assumes "a \<le> g" "g \<noteq> - 1"
  shows "a \<le> g + 1" "g < g + 1"
proof -
  have "1 + g \<noteq> 0" using assms(2) by (metis add.commute eq_neg_iff_add_eq_0)
  then have "g < g + 1" using unatSuc [of g] by (simp add: word_less_nat_alt add.commute)
  then show "g < g + 1" .
  with assms(1) show "a \<le> g + 1" by simp
qed

lemma poolInv_bindFamily:
  assumes "poolInv sp" "bindSourcePathSocketFamilyLocked v4 (networkOf v4) listen sp = (err, sp')"
    "\<forall>i<length (socketsOf v4 sp). skID (fst (socketsOf v4 sp ! i)) = sourcePathAuxSocketID v4 i"
  shows "poolInv sp'"
  unfolding poolInv_def
proof (intro allI)
  note b = bindFamily_sockets [OF assms(2)]
  fix w4
  show "length (socketsOf w4 sp') \<le> 32 \<and> (\<forall>i<length (socketsOf w4 sp'). slotOk w4 (spGeneration sp') i (socketsOf w4 sp' ! i))"
  proof (cases "w4 = v4")
    case True
    show ?thesis using assms(1,3) unfolding True b(1,3)
      by (auto simp: poolInv_def nth_enumerate_eq boundSlot_def slotOk_def)
  next
    case False
    then show ?thesis using assms(1) b(2) [OF False] by (simp add: b(3) poolInv_def)
  qed
qed

lemma poolInv_generation:
  assumes "poolInv sp" "spGeneration sp \<noteq> - 1"
  shows "poolInv (sp\<lparr>spGeneration := spGeneration sp + 1\<rparr>)"
  using assms by (auto simp: poolInv_def slotOk_def intro: word_inc_le(1))

lemma ensure_ids:
  "i < length (socketsOf v4 (ensureSourcePathAuxSocketCountLocked cnt sp))
     \<Longrightarrow> skID (fst (socketsOf v4 (ensureSourcePathAuxSocketCountLocked cnt sp) ! i)) = sourcePathAuxSocketID v4 i"
  unfolding ensure_sockets(1) by (simp add: ensure_sockets(2) setID_def Let_def)

text \<open>A full rebind with the pool switched on.\<close>

lemma rebindAll_eq:
  assumes "sourcePathAuxSocketCount e \<noteq> 0" "rebindSourcePathSockets e listen sp pm = (errs, sp', pm')"
  defines "sp1 \<equiv> ensureSourcePathAuxSocketCountLocked (sourcePathAuxSocketCount e) sp"
  shows "socketsOf v4 sp' = map (\<lambda>(i, sl). boundSlot (listen v4) (networkOf v4) (spGeneration sp + 1) i sl) (enumerate 0 (socketsOf v4 sp1))"
    and "spGeneration sp' = spGeneration sp + 1" and "pm' = pm"
    and "poolInv sp \<Longrightarrow> spGeneration sp \<noteq> - 1 \<Longrightarrow> poolInv sp'"
proof -
  define sp2 where "sp2 = sp1\<lparr>spGeneration := spGeneration sp1 + 1\<rparr>"
  have g1: "spGeneration sp1 = spGeneration sp" by (simp add: sp1_def ensure_sockets(3))
  obtain err4 sp3 where f4: "bindSourcePathSocketFamilyLocked True ''udp4'' (listen True) sp2 = (err4, sp3)"
    by (cases "bindSourcePathSocketFamilyLocked True ''udp4'' (listen True) sp2")
  obtain err6 sp4 where f6: "bindSourcePathSocketFamilyLocked False ''udp6'' (listen False) sp3 = (err6, sp4)"
    by (cases "bindSourcePathSocketFamilyLocked False ''udp6'' (listen False) sp3")
  have sp': "sp' = sp4" and pm': "pm' = pm"
    using assms(1,2) f4 f6 by (simp_all add: rebindSourcePathSockets_def Let_def sp1_def [symmetric] sp2_def [symmetric])
  note b4 = bindFamily_sockets [OF f4] and b6 = bindFamily_sockets [OF f6]
  show "pm' = pm" by (rule pm')
  show "spGeneration sp' = spGeneration sp + 1" by (simp add: sp' b6(3) b4(3) sp2_def g1)
  show "socketsOf v4 sp' = map (\<lambda>(i, sl). boundSlot (listen v4) (networkOf v4) (spGeneration sp + 1) i sl) (enumerate 0 (socketsOf v4 sp1))"
    using b4(1) b4(2) [of False] b6(1) b6(2) [of True]
    by (cases v4) (simp_all add: sp' b4(3) sp2_def g1 networkOf_def)
  assume inv: "poolInv sp" "spGeneration sp \<noteq> - 1"
  have ids: "skID (fst (socketsOf v4 sp2 ! i)) = sourcePathAuxSocketID v4 i" if "i < length (socketsOf v4 sp2)" for v4 i
    using ensure_ids [of i v4] that by (simp add: sp2_def sp1_def)
  have "poolInv sp2" unfolding sp2_def using poolInv_ensure [OF inv(1)] inv(2) g1
    by (intro poolInv_generation) (simp_all add: sp1_def)
  then have "poolInv sp3" by (rule poolInv_bindFamily [OF _ f4 [folded networkOf_def [of True, simplified]]]) (simp add: ids)
  then show "poolInv sp'" unfolding sp'
    by (rule poolInv_bindFamily [OF _ f6 [folded networkOf_def [of False, simplified]]]) (use b4(2) [of False] ids in simp)
qed

lemma getSlot_put:
  assumes "i < length (socketsOf v4 sp)"
  shows "socketsOf w4 (putSlot (v4, i) sl sp) = (if w4 = v4 then (socketsOf v4 sp)[i := sl] else socketsOf w4 sp)"
    "spGeneration (putSlot p sl sp) = spGeneration sp"
  by (simp_all add: putSlot_def)

lemma slotLocked_cases:
  assumes "sourcePathSocketSlotLocked sid sp = Some (p, network)"
  obtains v4 i where "p = (v4, i)" "i < length (socketsOf v4 sp)" "network = networkOf v4"
  using assms
  by (auto simp: sourcePathSocketSlotLocked_def socketsOf_def networkOf_def split: if_splits)

text \<open>A single rebind either changes nothing or moves one slot to the next generation.\<close>

lemma rebindOne_cases:
  assumes "rebindSourcePathSocket e listen source sp = (r, sp')"
  obtains "sp' = sp" "\<nexists>m. r = Rebound m" "\<nexists>m err. r = RebindFailed m err"
  | v4 i where "i < length (socketsOf v4 sp)" "\<not> isPrimary source" "source = rxMeta (fst (socketsOf v4 sp ! i))"
      "sourcePathSocketSlotLocked (rxSocketID source) sp = Some ((v4, i), networkOf v4)"
      "sp' = putSlot (v4, i) (boundSlot (\<lambda>_. listen) (networkOf v4) (spGeneration sp + 1) i (socketsOf v4 sp ! i))
               (sp\<lparr>spGeneration := spGeneration sp + 1\<rparr>)"
      "r = (case listen of None \<Rightarrow> Rebound \<lparr>rxSocketID = rxSocketID source, rxGeneration = spGeneration sp + 1\<rparr>
            | Some err \<Rightarrow> RebindFailed \<lparr>rxSocketID = rxSocketID source, rxGeneration = spGeneration sp + 1\<rparr> err)"
proof (cases "sourcePathAuxSocketCount e = 0 \<or> isPrimary source \<or> sourcePathSocketSlotLocked (rxSocketID source) sp = None
    \<or> (\<exists>p n. sourcePathSocketSlotLocked (rxSocketID source) sp = Some (p, n) \<and> source \<noteq> rxMeta (fst (getSlot p sp)))")
  case True
  then have "fst (rebindSourcePathSocket e listen source sp) \<in> {RebindUnavailable} \<union> range RebindStale
      \<and> snd (rebindSourcePathSocket e listen source sp) = sp"
    by (elim disjE exE) (simp_all add: rebindSourcePathSocket_def Let_def)
  then have "sp' = sp" "\<nexists>m. r = Rebound m" "\<nexists>m err. r = RebindFailed m err" using assms by auto
  then show ?thesis by (rule that(1))
next
  case False
  then obtain p n where p: "sourcePathSocketSlotLocked (rxSocketID source) sp = Some (p, n)" by auto
  then obtain v4 i where pi: "p = (v4, i)" "i < length (socketsOf v4 sp)" "n = networkOf v4" by (rule slotLocked_cases)
  have src: "source = rxMeta (fst (socketsOf v4 sp ! i))" using False p by (simp add: pi getSlot_def)
  have eq: "(r, sp') = (case listen of
        None \<Rightarrow> (Rebound (rxMeta (fst (socketsOf v4 sp ! i)\<lparr>skGeneration := spGeneration sp + 1\<rparr>)),
          putSlot (v4, i) (boundSlot (\<lambda>_. listen) (networkOf v4) (spGeneration sp + 1) i (socketsOf v4 sp ! i))
               (sp\<lparr>spGeneration := spGeneration sp + 1\<rparr>))
      | Some err \<Rightarrow> (RebindFailed (rxMeta (fst (socketsOf v4 sp ! i)\<lparr>skGeneration := spGeneration sp + 1\<rparr>)) err,
          putSlot (v4, i) (boundSlot (\<lambda>_. listen) (networkOf v4) (spGeneration sp + 1) i (socketsOf v4 sp ! i))
               (sp\<lparr>spGeneration := spGeneration sp + 1\<rparr>)))"
    unfolding assms [symmetric] using False p src
    by (cases listen) (simp_all add: rebindSourcePathSocket_def pi getSlot_def bindSourcePathSocketLocked_def boundSlot_def
        Let_def setSourcePathBlockForeverLocked_def closePconn_def rxMeta_def)
  show ?thesis
  proof (rule that(2) [OF pi(2) _ src])
    show "\<not> isPrimary source" using False by simp
    show "sourcePathSocketSlotLocked (rxSocketID source) sp = Some ((v4, i), networkOf v4)" using p pi by simp
    show "sp' = putSlot (v4, i) (boundSlot (\<lambda>_. listen) (networkOf v4) (spGeneration sp + 1) i (socketsOf v4 sp ! i))
               (sp\<lparr>spGeneration := spGeneration sp + 1\<rparr>)"
      "r = (case listen of None \<Rightarrow> Rebound \<lparr>rxSocketID = rxSocketID source, rxGeneration = spGeneration sp + 1\<rparr>
            | Some err \<Rightarrow> RebindFailed \<lparr>rxSocketID = rxSocketID source, rxGeneration = spGeneration sp + 1\<rparr> err)"
      using eq by (simp_all add: rxMeta_def boundSlot_def src split: option.splits)
  qed
qed

lemma slotLocked_id:
  assumes "sourcePathSocketSlotLocked sid sp = Some ((v4, i), n)"
  shows "sid = sourcePathAuxSocketID v4 i"
  using assms by (auto simp: sourcePathSocketSlotLocked_def sourcePathAuxSocketID_def split: if_splits)

lemma poolInv_rebindOne:
  assumes "poolInv sp" "spGeneration sp \<noteq> - 1" "rebindSourcePathSocket e listen source sp = (r, sp')"
  shows "poolInv sp'"
  using assms(3)
proof (cases rule: rebindOne_cases)
  case 1
  then show ?thesis using assms(1) by simp
next
  case (2 v4 i)
  let ?g = "spGeneration sp + 1"
  have sid: "skID (fst (socketsOf v4 sp ! i)) = sourcePathAuxSocketID v4 i"
    using slotLocked_id [OF 2(4)] by (simp add: 2(3) rxMeta_def)
  have g: "poolInv (sp\<lparr>spGeneration := ?g\<rparr>)" using assms(1,2) by (rule poolInv_generation)
  have ok: "slotOk v4 ?g i (boundSlot (\<lambda>_. listen) (networkOf v4) ?g i (socketsOf v4 sp ! i))"
    by (simp add: slotOk_def boundSlot_def sid)
  have i: "i < length (socketsOf v4 (sp\<lparr>spGeneration := ?g\<rparr>))" using 2(1) by simp
  show ?thesis using g ok 2(1) unfolding 2(5) poolInv_def getSlot_put [OF i]
    by (auto simp: nth_list_update)
qed

lemma poolInv_close: "poolInv sp \<Longrightarrow> poolInv (closeSourcePathSockets sp)"
proof -
  assume inv: "poolInv sp"
  have "socketsOf v4 (closeSourcePathSockets sp) = map closeSlot (socketsOf v4 sp)" for v4
    by (simp add: socketsOf_def closeSourcePathSockets_def)
  then show ?thesis using inv
    by (auto simp: poolInv_def slotOk_def closeSlot_def closePconn_def closeSourcePathSockets_def)
qed

definition visitSlot :: "nat \<Rightarrow> slot \<Rightarrow> sourceRxMeta list \<Rightarrow> slot \<times> sourceRxMeta list" where
  "visitSlot i sl fns = ((ensureSourcePathPConnLocked (fst sl), snd sl), fns @ [rxMeta (fst sl)])"

lemma forSlots_visit:
  "forSlots visitSlot k ss fns = (map (\<lambda>sl. (ensureSourcePathPConnLocked (fst sl), snd sl)) ss, fns @ map (rxMeta \<circ> fst) ss)"
  by (induction ss arbitrary: k fns) (simp_all add: visitSlot_def)

lemma receiveFuncs_eq:
  assumes "sourcePathAuxSocketCount e \<noteq> 0" "sourcePathReceiveFuncs e sp = (fns, sp')"
  defines "sp1 \<equiv> ensureSourcePathAuxSocketCountLocked (sourcePathAuxSocketCount e) sp"
  shows "socketsOf v4 sp' = map (\<lambda>sl. (ensureSourcePathPConnLocked (fst sl), snd sl)) (socketsOf v4 sp1)"
    "spGeneration sp' = spGeneration sp" "fns = map (rxMeta \<circ> fst) (socketsOf True sp1 @ socketsOf False sp1)"
proof -
  have v: "(\<lambda>(_ :: nat) (s, b) fns. ((ensureSourcePathPConnLocked s, b), fns @ [rxMeta s])) = visitSlot"
    by (auto simp: visitSlot_def fun_eq_iff)
  have g: "spGeneration sp1 = spGeneration sp" by (simp add: sp1_def ensure_sockets(3))
  show "socketsOf v4 sp' = map (\<lambda>sl. (ensureSourcePathPConnLocked (fst sl), snd sl)) (socketsOf v4 sp1)"
    "spGeneration sp' = spGeneration sp" "fns = map (rxMeta \<circ> fst) (socketsOf True sp1 @ socketsOf False sp1)"
    using assms(1,2) g unfolding sourcePathReceiveFuncs_def v sp1_def [symmetric]
    by (auto simp: forEachSourcePathSocketLocked_def forSlots_visit Let_def sp1_def [symmetric])
qed

lemma poolInv_receiveFuncs:
  assumes "poolInv sp" "sourcePathReceiveFuncs e sp = (fns, sp')"
  shows "poolInv sp'"
proof (cases "sourcePathAuxSocketCount e = 0")
  case True
  then show ?thesis using assms by (simp add: sourcePathReceiveFuncs_def)
next
  case False
  note r = receiveFuncs_eq [OF False assms(2)]
  show ?thesis using poolInv_ensure [OF assms(1), of "sourcePathAuxSocketCount e"]
    unfolding poolInv_def r by (auto simp: ensure_sockets(3) slotOk_def ensureSourcePathPConnLocked_def)
qed

section \<open>Runs of the pool\<close>

text \<open>The operations on the pool, in any order, under any configuration and with any answers of
  \<open>listenPacket\<close>; the generation counter is assumed not to wrap (it would take 2 to the 64 rebinds).\<close>

inductive poolStep :: "sourcePathState \<Rightarrow> sourcePathState \<Rightarrow> bool" where
  receive: "sourcePathReceiveFuncs e sp = (fns, sp') \<Longrightarrow> poolStep sp sp'"
| rebindAll: "spGeneration sp \<noteq> - 1 \<Longrightarrow> rebindSourcePathSockets e listen sp pm = (errs, sp', pm') \<Longrightarrow> poolStep sp sp'"
| rebindOne: "spGeneration sp \<noteq> - 1 \<Longrightarrow> rebindSourcePathSocket e lst source sp = (r, sp') \<Longrightarrow> poolStep sp sp'"
| close: "poolStep sp (closeSourcePathSockets sp)"

definition boundMetas :: "bool \<Rightarrow> sourcePathState \<Rightarrow> sourceRxMeta set" where
  "boundMetas v4 sp = (\<lambda>sl. rxMeta (fst sl)) ` {sl \<in> set (socketsOf v4 sp). snd sl}"

lemma boundMetas_nth:
  "m \<in> boundMetas v4 sp \<longleftrightarrow> (\<exists>i<length (socketsOf v4 sp). snd (socketsOf v4 sp ! i) \<and> m = rxMeta (fst (socketsOf v4 sp ! i)))"
  unfolding boundMetas_def image_iff Bex_def mem_Collect_eq in_set_conv_nth by blast

lemma pickSocket_None: "pickSocket v4 m sp = None \<longleftrightarrow> m \<notin> boundMetas v4 sp"
  unfolding pickSocket_def boundMetas_def by (simp add: find_None_iff image_iff case_prod_unfold)

lemma poolInv_step:
  assumes "poolStep sp sp'" "poolInv sp"
  shows "poolInv sp'"
  using assms
proof cases
  case (rebindAll e listen pm errs pm')
  then show ?thesis using assms(2) rebindAll_eq(4) poolInv_close
    by (cases "sourcePathAuxSocketCount e = 0") (fastforce simp: rebindSourcePathSockets_def)+
qed (use poolInv_receiveFuncs poolInv_rebindOne poolInv_close in blast)+

text \<open>Sizing keeps what is bound, or drops it.\<close>

lemma boundMetas_ensure:
  assumes "poolInv sp"
  shows "boundMetas v4 (ensureSourcePathAuxSocketCountLocked cnt sp) \<subseteq> boundMetas v4 sp"
proof
  let ?sp = "ensureSourcePathAuxSocketCountLocked cnt sp"
  fix m assume "m \<in> boundMetas v4 ?sp"
  then obtain i where i: "i < poolSize cnt" "snd (socketsOf v4 ?sp ! i)" "m = rxMeta (fst (socketsOf v4 ?sp ! i))"
    by (auto simp: boundMetas_nth ensure_sockets(1))
  note e = ensure_sockets(2) [OF i(1), of v4 sp]
  have len: "i < length (socketsOf v4 sp)" using i(2) e by (auto split: if_splits)
  then have "slotOk v4 (spGeneration sp) i (socketsOf v4 sp ! i)" using assms by (simp add: poolInv_def)
  with len i(2,3) e have "snd (socketsOf v4 sp ! i)" "m = rxMeta (fst (socketsOf v4 sp ! i))"
    by (simp_all add: Let_def setID_def slotOk_def rxMeta_def)
  with len show "m \<in> boundMetas v4 sp" by (auto simp: boundMetas_nth)
qed

lemma boundMetas_step:
  assumes "poolStep sp sp'" "poolInv sp"
  shows "(m \<in> boundMetas v4 sp' \<longrightarrow> m \<in> boundMetas v4 sp \<or> spGeneration sp < rxGeneration m)
    \<and> spGeneration sp \<le> spGeneration sp'"
  using assms
proof cases
  case (receive e fns)
  show ?thesis
  proof (cases "sourcePathAuxSocketCount e = 0")
    case True
    with receive show ?thesis by (simp add: sourcePathReceiveFuncs_def)
  next
    case False
    note r = receiveFuncs_eq [OF False receive]
    have "boundMetas v4 sp' = boundMetas v4 (ensureSourcePathAuxSocketCountLocked (sourcePathAuxSocketCount e) sp)"
      by (auto simp: set_eq_iff boundMetas_nth r rxMeta_def ensureSourcePathPConnLocked_def)
    with boundMetas_ensure [OF assms(2), of v4 "sourcePathAuxSocketCount e"] show ?thesis by (auto simp: r(2))
  qed
next
  case (rebindAll e listen pm errs pm')
  show ?thesis
  proof (cases "sourcePathAuxSocketCount e = 0")
    case True
    then have "sp' = closeSourcePathSockets sp" using rebindAll by (simp add: rebindSourcePathSockets_def)
    then show ?thesis by (auto simp: boundMetas_def socketsOf_def closeSourcePathSockets_def closeSlot_def)
  next
    case False
    note r = rebindAll_eq [OF False rebindAll(2)]
    have "rxGeneration m = spGeneration sp + 1" if "m \<in> boundMetas v4 sp'"
      using that unfolding boundMetas_def r(1)
      by (auto simp: boundSlot_def rxMeta_def enumerate_eq_zip split: if_splits)
    with word_inc_le [OF order_refl rebindAll(1)] show ?thesis by (auto simp: r(2))
  qed
next
  case (rebindOne e lst source r)
  from rebindOne(2) show ?thesis
  proof (cases rule: rebindOne_cases)
    case (2 w4 i)
    have i: "i < length (socketsOf w4 (sp\<lparr>spGeneration := spGeneration sp + 1\<rparr>))" using 2(1) by simp
    have "m \<in> boundMetas v4 sp \<or> rxGeneration m = spGeneration sp + 1" if mem: "m \<in> boundMetas v4 sp'"
    proof (cases "v4 = w4")
      case True
      let ?b = "boundSlot (\<lambda>_. lst) (networkOf w4) (spGeneration sp + 1) i (socketsOf w4 sp ! i)"
      obtain j where j: "j < length (socketsOf w4 sp)" "snd ((socketsOf w4 sp)[i := ?b] ! j)"
          "m = rxMeta (fst ((socketsOf w4 sp)[i := ?b] ! j))"
        using mem True by (auto simp: boundMetas_nth 2(5) getSlot_put [OF i])
      show ?thesis
      proof (cases "j = i")
        case True
        with j show ?thesis by (simp add: boundSlot_def rxMeta_def split: if_splits)
      next
        case False
        with j \<open>v4 = w4\<close> show ?thesis by (auto simp: boundMetas_nth)
      qed
    next
      case False
      then show ?thesis using mem by (simp add: boundMetas_nth 2(5) getSlot_put [OF i])
    qed
    with word_inc_le [OF order_refl rebindOne(1)] show ?thesis by (auto simp: 2(5) getSlot_put [OF i])
  qed simp
next
  case close
  then show ?thesis by (auto simp: boundMetas_def socketsOf_def closeSourcePathSockets_def closeSlot_def)
qed

lemma boundMetas_steps:
  assumes "poolStep\<^sup>*\<^sup>* sp sp'" "poolInv sp"
  shows "poolInv sp' \<and> spGeneration sp \<le> spGeneration sp'
    \<and> (\<forall>v4 m. m \<in> boundMetas v4 sp' \<longrightarrow> m \<in> boundMetas v4 sp \<or> spGeneration sp < rxGeneration m)"
  using assms
proof (induction rule: rtranclp_induct)
  case (step sp1 sp2)
  then have "poolInv sp1" "spGeneration sp \<le> spGeneration sp1" by simp_all
  with step boundMetas_step [OF step(2)] poolInv_step [OF step(2)] show ?case
    by (meson le_less_trans order_trans)
qed simp

section \<open>Properties of the pool\<close>

text \<open>
  C20. A replaced socket generation is dead for good. Whatever sequence of rebinds, rotations,
  resizes and closes follows, source metadata that is not bound now and not newer than the pool's
  current generation is never bound again, so a write or a pong for it can never reach another
  socket that reuses the identifier.
\<close>

theorem stale_generation_never_bound_again:
  assumes "poolStep\<^sup>*\<^sup>* zeroState sp" "poolStep\<^sup>*\<^sup>* sp sp'"
    "m \<notin> boundMetas v4 sp" "rxGeneration m \<le> spGeneration sp"
  shows "m \<notin> boundMetas v4 sp' \<and> pickSocket v4 m sp' = None"
proof -
  have "poolInv sp" using boundMetas_steps [OF assms(1) poolInv_zero] by simp
  from boundMetas_steps [OF assms(2) this] assms(3,4) have "m \<notin> boundMetas v4 sp'" by (meson leD)
  then show ?thesis by (simp add: pickSocket_None)
qed

definition exPool :: "nat \<Rightarrow> sourcePathState" where
  "exPool n = ((\<lambda>sp. fst (snd (rebindSourcePathSockets defaultEnv (\<lambda>_ _. None) sp emptyManager))) ^^ n) zeroState"

lemma exPool_Suc:
  "\<exists>errs. rebindSourcePathSockets defaultEnv (\<lambda>_ _. None) (exPool n) emptyManager = (errs, exPool (Suc n), emptyManager)"
proof -
  obtain errs sp' pm' where r: "rebindSourcePathSockets defaultEnv (\<lambda>_ _. None) (exPool n) emptyManager = (errs, sp', pm')"
    by (metis prod_cases3)
  have "sourcePathAuxSocketCount defaultEnv \<noteq> 0" by code_simp
  from rebindAll_eq(3) [OF this r] r show ?thesis by (simp add: exPool_def)
qed

lemma exPool_gen: "spGeneration (exPool n) = of_nat n" "m \<in> boundMetas v4 (exPool n) \<Longrightarrow> rxGeneration m = of_nat n"
proof -
  have on: "sourcePathAuxSocketCount defaultEnv \<noteq> 0" by code_simp
  show g: "spGeneration (exPool n) = of_nat n" for n
  proof (induction n)
    case 0
    then show ?case by (simp add: exPool_def zeroState_def)
  next
    case (Suc n)
    obtain errs where r: "rebindSourcePathSockets defaultEnv (\<lambda>_ _. None) (exPool n) emptyManager = (errs, exPool (Suc n), emptyManager)"
      using exPool_Suc by blast
    show ?case using rebindAll_eq(2) [OF on r] Suc by (simp add: add.commute)
  qed
  show "rxGeneration m = of_nat n" if "m \<in> boundMetas v4 (exPool n)"
  proof (cases n)
    case 0
    then show ?thesis using that by (auto simp: exPool_def zeroState_def boundMetas_def socketsOf_def split: if_splits)
  next
    case (Suc k)
    obtain errs where r: "rebindSourcePathSockets defaultEnv (\<lambda>_ _. None) (exPool k) emptyManager = (errs, exPool (Suc k), emptyManager)"
      using exPool_Suc by blast
    show ?thesis using that unfolding Suc boundMetas_def rebindAll_eq(1) [OF on r]
      by (auto simp: boundSlot_def rxMeta_def enumerate_eq_zip g add.commute)
  qed
qed

lemma exPool_step: "n < 10 \<Longrightarrow> poolStep (exPool n) (exPool (Suc n))"
proof -
  assume n: "n < 10"
  obtain errs where r: "rebindSourcePathSockets defaultEnv (\<lambda>_ _. None) (exPool n) emptyManager = (errs, exPool (Suc n), emptyManager)"
    using exPool_Suc by blast
  have "spGeneration (exPool n) \<noteq> - 1"
  proof
    assume "spGeneration (exPool n) = - 1"
    then have "of_nat (Suc n) = (0 :: u64)" by (simp add: exPool_gen)
    then have "2 ^ 64 dvd Suc n" by (simp only: word_of_nat_eq_0_iff) simp
    then show False using n by (auto dest: dvd_imp_le)
  qed
  from poolStep.rebindAll [OF this r] show ?thesis .
qed

theorem stale_generation_never_bound_again_witness:
  "pickSocket True \<lparr>rxSocketID = 1, rxGeneration = 1\<rparr> (exPool 1) \<noteq> None
   \<and> pickSocket True \<lparr>rxSocketID = 1, rxGeneration = 1\<rparr> (exPool 3) = None"
proof -
  have z: "exPool 0 = zeroState" by (simp add: exPool_def)
  have s: "poolStep (exPool 0) (exPool 1)" "poolStep (exPool 1) (exPool 2)" "poolStep (exPool 2) (exPool 3)"
    using exPool_step [of 0] exPool_step [of 1] exPool_step [of 2] by (simp_all add: numeral_2_eq_2 numeral_3_eq_3)
  then have "poolStep\<^sup>*\<^sup>* zeroState (exPool 2)" "poolStep\<^sup>*\<^sup>* (exPool 2) (exPool 3)" by (simp_all add: z)
  moreover have "\<lparr>rxSocketID = 1, rxGeneration = 1\<rparr> \<notin> boundMetas True (exPool 2)"
    using exPool_gen(2) [of "\<lparr>rxSocketID = 1, rxGeneration = 1\<rparr>" True 2] by auto
  moreover have "rxGeneration \<lparr>rxSocketID = 1, rxGeneration = 1\<rparr> \<le> spGeneration (exPool 2)" by (simp add: exPool_gen)
  ultimately have "pickSocket True \<lparr>rxSocketID = 1, rxGeneration = 1\<rparr> (exPool 3) = None"
    using stale_generation_never_bound_again by blast
  moreover have "pickSocket True \<lparr>rxSocketID = 1, rxGeneration = 1\<rparr> (exPool 1) \<noteq> None" by code_simp
  ultimately show ?thesis by simp
qed

text \<open>
  Sockets are told apart by their identifiers. In every reachable pool, metadata is bound in
  at most one slot of one family, is never the primary's, and its identifier leads
  \<open>sourcePathSocketSlotLocked\<close> back to exactly that slot and the network it listens on; a write
  with it picks that socket.
\<close>

theorem bound_metadata_identifies_slot:
  assumes "poolStep\<^sup>*\<^sup>* zeroState sp"
    "i < length (socketsOf v4 sp)" "snd (socketsOf v4 sp ! i)" "m = rxMeta (fst (socketsOf v4 sp ! i))"
  shows "\<not> isPrimary m
    \<and> sourcePathSocketSlotLocked (rxSocketID m) sp = Some ((v4, i), networkOf v4)
    \<and> skPconn (fst (socketsOf v4 sp ! i)) = Listening (networkOf v4)
    \<and> pickSocket v4 m sp = Some (fst (socketsOf v4 sp ! i))
    \<and> (\<forall>w4 j. j < length (socketsOf w4 sp) \<longrightarrow> snd (socketsOf w4 sp ! j) \<longrightarrow> m = rxMeta (fst (socketsOf w4 sp ! j))
         \<longrightarrow> w4 = v4 \<and> j = i)"
proof -
  have inv: "poolInv sp" using boundMetas_steps [OF assms(1) poolInv_zero] by simp
  have len: "length (socketsOf w4 sp) \<le> 32" for w4 using inv by (simp add: poolInv_def)
  have ok: "skID (fst (socketsOf w4 sp ! j)) = sourcePathAuxSocketID w4 j \<and> skPconn (fst (socketsOf w4 sp ! j)) = Listening (networkOf w4)"
    if "j < length (socketsOf w4 sp)" "snd (socketsOf w4 sp ! j)" for w4 j
    using inv that by (auto simp: poolInv_def slotOk_def)
  have sid: "rxSocketID m = sourcePathAuxSocketID v4 i" using ok [OF assms(2,3)] assms(4) by (simp add: rxMeta_def)
  have uniq: "w4 = v4 \<and> j = i"
    if "j < length (socketsOf w4 sp)" "snd (socketsOf w4 sp ! j)" "m = rxMeta (fst (socketsOf w4 sp ! j))" for w4 j
  proof -
    have "sourcePathAuxSocketID w4 j = sourcePathAuxSocketID v4 i" using ok [OF that(1,2)] that(3) sid by (simp add: rxMeta_def)
    moreover have "j < 32" "i < 32" using that(1) assms(2) len [of w4] len [of v4] by linarith+
    ultimately show ?thesis by (metis auxSocketID_inj)
  qed
  obtain s where s: "pickSocket v4 m sp = Some s"
    using assms pickSocket_None [of v4 m sp] by (auto simp: boundMetas_nth)
  then obtain j where "j < length (socketsOf v4 sp)" "snd (socketsOf v4 sp ! j)" "m = rxMeta (fst (socketsOf v4 sp ! j))"
      "s = fst (socketsOf v4 sp ! j)"
    by (auto simp: pickSocket_def find_Some_iff case_prod_unfold) (metis fst_conv)
  with uniq s have "pickSocket v4 m sp = Some (fst (socketsOf v4 sp ! i))" by blast
  moreover have "\<not> isPrimary m" using auxSocketID_not_primary [of i v4] sid assms(2) len [of v4]
    by (simp add: isPrimary_def primarySourceSocketID_def)
  moreover have "sourcePathSocketSlotLocked (rxSocketID m) sp = Some ((v4, i), networkOf v4)"
    using slot_of_auxSocketID [OF assms(2) len] by (simp only: sid)
  moreover have "skPconn (fst (socketsOf v4 sp ! i)) = Listening (networkOf v4)" using ok [OF assms(2,3)] by simp
  moreover have "\<forall>w4 j. j < length (socketsOf w4 sp) \<longrightarrow> snd (socketsOf w4 sp ! j) \<longrightarrow> m = rxMeta (fst (socketsOf w4 sp ! j))
         \<longrightarrow> w4 = v4 \<and> j = i" using uniq by blast
  ultimately show ?thesis by (intro conjI)
qed

theorem bound_metadata_identifies_slot_witness:
  "sourcePathSocketSlotLocked 2 (exPool 1) = Some ((False, 0), ''udp6'')
   \<and> pickSocket False \<lparr>rxSocketID = 2, rxGeneration = 1\<rparr> (exPool 1) \<noteq> None"
proof -
  let ?m = "\<lparr>rxSocketID = 2, rxGeneration = 1\<rparr>"
  have p: "poolStep\<^sup>*\<^sup>* zeroState (exPool 1)" using exPool_step [of 0] by (simp add: exPool_def)
  have i: "0 < length (socketsOf False (exPool 1))" "snd (socketsOf False (exPool 1) ! 0)"
    "?m = rxMeta (fst (socketsOf False (exPool 1) ! 0))" by code_simp+
  from bound_metadata_identifies_slot [OF p i] show ?thesis by (simp add: networkOf_def)
qed

lemma forSlots_bind_err:
  "fst (snd (forSlots (bindSlot listen network gen) k ss (firstErr, anyBound))) = None
     \<longleftrightarrow> firstErr = None \<and> (\<forall>i<length ss. listen (k + i) = None)"
proof (induction ss arbitrary: k firstErr anyBound)
  case (Cons sl ss)
  have "(\<forall>i<length (sl # ss). listen (k + i) = None) \<longleftrightarrow> listen k = None \<and> (\<forall>i<length ss. listen (Suc k + i) = None)"
    by (auto simp: less_Suc_eq_0_disj)
  then show ?case using Cons by (auto simp: bindSlot_eq Let_def case_prod_unfold)
qed simp

lemma bindFamily_err:
  assumes "bindSourcePathSocketFamilyLocked v4 network listen sp = (err, sp')"
  shows "err = None \<longleftrightarrow> (\<exists>i<length (socketsOf v4 sp). listen i = None)"
proof -
  let ?r = "snd (forSlots (bindSlot listen network (spGeneration sp)) 0 (socketsOf v4 sp) (None, False))"
  have err: "err = (if snd ?r then None else fst ?r)"
    using assms by (auto simp: bindSourcePathSocketFamilyLocked_def forEachSourcePathSocketLocked_def Let_def split: prod.splits)
  have "\<exists>i. i < length (socketsOf v4 sp)" by (rule exI [of _ 0]) simp
  then show ?thesis unfolding err
    using forSlots_bind_any [of listen network "spGeneration sp" 0 "socketsOf v4 sp" None False]
      forSlots_bind_err [of listen network "spGeneration sp" 0 "socketsOf v4 sp" None False] by auto
qed

text \<open>
  A full rebind. With the pool switched on, both families get the configured number of
  sockets, every socket moves to the next generation and carries the identifier of its position,
  it is bound exactly if the system gave it a port, and the call reports success exactly if each
  family has at least one bound socket; the probe manager is left alone.
\<close>

theorem rebind_all_exact:
  assumes "sourcePathAuxSocketCount e \<noteq> 0" "rebindSourcePathSockets e listen sp pm = (errs, sp', pm')"
  shows "(\<forall>v4. length (socketsOf v4 sp') = nat (sourcePathAuxSocketCount e)
      \<and> (\<forall>i<nat (sourcePathAuxSocketCount e).
           skGeneration (fst (socketsOf v4 sp' ! i)) = spGeneration sp + 1
         \<and> skID (fst (socketsOf v4 sp' ! i)) = sourcePathAuxSocketID v4 i
         \<and> (snd (socketsOf v4 sp' ! i) \<longleftrightarrow> listen v4 i = None)))
    \<and> spGeneration sp' = spGeneration sp + 1 \<and> pm' = pm
    \<and> (errs = [] \<longleftrightarrow> (\<forall>v4. \<exists>i<nat (sourcePathAuxSocketCount e). listen v4 i = None))"
proof -
  let ?n = "nat (sourcePathAuxSocketCount e)"
  define sp1 where "sp1 = ensureSourcePathAuxSocketCountLocked (sourcePathAuxSocketCount e) sp"
  define sp2 where "sp2 = sp1\<lparr>spGeneration := spGeneration sp1 + 1\<rparr>"
  note r = rebindAll_eq [OF assms, folded sp1_def]
  have "poolSize (sourcePathAuxSocketCount e) = ?n"
    using assms(1) auxSocketCount_bounds [of e] by (auto simp: poolSize_def)
  then have len: "length (socketsOf v4 sp1) = ?n" for v4 by (simp add: sp1_def ensure_sockets(1))
  obtain err4 sp3 where f4: "bindSourcePathSocketFamilyLocked True ''udp4'' (listen True) sp2 = (err4, sp3)"
    by (cases "bindSourcePathSocketFamilyLocked True ''udp4'' (listen True) sp2")
  obtain err6 sp4 where f6: "bindSourcePathSocketFamilyLocked False ''udp6'' (listen False) sp3 = (err6, sp4)"
    by (cases "bindSourcePathSocketFamilyLocked False ''udp6'' (listen False) sp3")
  have errs: "errs = List.map_filter id [err4, err6]"
    using assms f4 f6 by (simp add: rebindSourcePathSockets_def Let_def sp1_def [symmetric] sp2_def [symmetric] sourcePathBindError_def)
  have "err4 = None \<longleftrightarrow> (\<exists>i<?n. listen True i = None)" "err6 = None \<longleftrightarrow> (\<exists>i<?n. listen False i = None)"
    using bindFamily_err [OF f4] bindFamily_err [OF f6] bindFamily_sockets(2) [OF f4, of False] len by (simp_all add: sp2_def)
  then have e: "errs = [] \<longleftrightarrow> (\<forall>v4. \<exists>i<?n. listen v4 i = None)"
    unfolding errs by (auto simp: List.map_filter_simps all_bool_eq split: option.splits)
  have "length (socketsOf v4 sp') = ?n" for v4 by (simp add: r(1) len)
  moreover have "skGeneration (fst (socketsOf v4 sp' ! i)) = spGeneration sp + 1
         \<and> skID (fst (socketsOf v4 sp' ! i)) = sourcePathAuxSocketID v4 i
         \<and> (snd (socketsOf v4 sp' ! i) \<longleftrightarrow> listen v4 i = None)" if "i < ?n" for v4 i
    using that ensure_ids [of i v4 "sourcePathAuxSocketCount e" sp, folded sp1_def] len
    by (simp add: r(1) nth_enumerate_eq boundSlot_def)
  ultimately show ?thesis using e r(2,3) by blast
qed

theorem rebind_all_exact_witness:
  "length (socketsOf True (exPool 1)) = 2 \<and> spGeneration (exPool 1) = 1"
proof -
  obtain errs where r: "rebindSourcePathSockets defaultEnv (\<lambda>_ _. None) (exPool 0) emptyManager = (errs, exPool 1, emptyManager)"
    using exPool_Suc [of 0] by auto
  have c: "sourcePathAuxSocketCount defaultEnv = 2" by code_simp
  then have "sourcePathAuxSocketCount defaultEnv \<noteq> 0" by simp
  from rebind_all_exact [OF this r] c show ?thesis by (auto simp: exPool_def zeroState_def)
qed

end
