(* ===== verification/Srcsel_Paths.thy ===== *)
theory Srcsel_Paths
  imports Srcsel_Sockets
begin

text \<open>
  Ranked send paths (\<open>sourcePathSendPath\<close> and its comparison in
  \<open>src/wgengine/magicsock/sourcepath.go\<close>) and the policy that keeps two of them active
  (\<open>sourcePathApplyActivePathPolicyLocked\<close> and helpers in \<open>src/wgengine/magicsock/endpoint.go\<close>).
\<close>

section \<open>Paths\<close>

record sourcePathSendPath =
  pDst :: epAddr
  pSource :: sourceRxMeta
  pLatency :: duration
  pHasLatency :: bool
  pLastAt :: mono

definition zeroPath :: sourcePathSendPath where
  "zeroPath = \<lparr>pDst = zeroEpAddr, pSource = \<lparr>rxSocketID = 0, rxGeneration = 0\<rparr>, pLatency = 0, pHasLatency = False, pLastAt = 0\<rparr>"

definition compareSourcePathSendPath :: "sourcePathSendPath \<Rightarrow> sourcePathSendPath \<Rightarrow> int" where
  "compareSourcePathSendPath a b =
     (if pHasLatency a \<noteq> pHasLatency b then if pHasLatency a then - 1 else 1
      else if pHasLatency a \<and> pLatency a \<noteq> pLatency b then if pLatency a < pLatency b then - 1 else 1
      else if pLastAt a \<noteq> pLastAt b then if msub (pLastAt a) (pLastAt b) > 0 then - 1 else 1
      else if isPrimary (pSource a) \<noteq> isPrimary (pSource b) then if isPrimary (pSource a) then - 1 else 1
      else if rxSocketID (pSource a) < rxSocketID (pSource b) then - 1
      else if rxSocketID (pSource a) > rxSocketID (pSource b) then 1
      else if apString (ap (pDst a)) < apString (ap (pDst b)) then - 1
      else if apString (ap (pDst a)) > apString (ap (pDst b)) then 1
      else 0)"

definition sameSourcePathSendPath :: "sourcePathSendPath \<Rightarrow> sourcePathSendPath \<Rightarrow> bool" where
  "sameSourcePathSendPath a b \<longleftrightarrow> pDst a = pDst b \<and> pSource a = pSource b"

text \<open>The index of the first path with the same destination and source; \<open>None\<close> is \<open>-1\<close>.\<close>

fun sourcePathSendPathIndex :: "sourcePathSendPath list \<Rightarrow> sourcePathSendPath \<Rightarrow> nat option" where
  "sourcePathSendPathIndex [] want = None"
| "sourcePathSendPathIndex (p # ps) want =
     (if sameSourcePathSendPath p want then Some 0 else map_option Suc (sourcePathSendPathIndex ps want))"

section \<open>The active pair\<close>

text \<open>The five fields of \<open>endpoint\<close> the policy owns.\<close>

record activePaths =
  acPaths :: "sourcePathSendPath list"
  acCount :: nat
  acLastReplace :: mono
  acLastRefresh :: mono
  acPromoteBudget :: int

definition zeroActive :: activePaths where
  "zeroActive = \<lparr>acPaths = [zeroPath, zeroPath], acCount = 0, acLastReplace = 0, acLastRefresh = 0, acPromoteBudget = 0\<rparr>"

record sourcePathActivePolicyEvent =
  evRefreshed :: bool
  evReplaced :: bool
  evOldPath :: sourcePathSendPath
  evNewPath :: sourcePathSendPath
  evStandbyCandidates :: int

definition noEvent :: sourcePathActivePolicyEvent where
  "noEvent = \<lparr>evRefreshed = False, evReplaced = False, evOldPath = zeroPath, evNewPath = zeroPath, evStandbyCandidates = 0\<rparr>"

definition distinctDstStep :: "epAddr list \<Rightarrow> sourcePathSendPath \<Rightarrow> epAddr list" where
  "distinctDstStep seen path = (if pDst path \<in> set seen then seen else seen @ [pDst path])"

definition sourcePathDistinctDstCount :: "sourcePathSendPath list \<Rightarrow> nat" where
  "sourcePathDistinctDstCount paths = length (foldl distinctDstStep [] paths)"

definition eligiblePath :: "sourcePathSendPath list \<Rightarrow> bool \<Rightarrow> sourcePathSendPath \<Rightarrow> bool" where
  "eligiblePath current requireDistinctDst candidate \<longleftrightarrow>
     sourcePathSendPathIndex current candidate = None
     \<and> \<not> (requireDistinctDst \<and> current \<noteq> [] \<and> (\<exists>active\<in>set current. pDst active = pDst candidate))"

fun firstIndex :: "('a \<Rightarrow> bool) \<Rightarrow> 'a list \<Rightarrow> nat option" where
  "firstIndex P [] = None"
| "firstIndex P (x # xs) = (if P x then Some 0 else map_option Suc (firstIndex P xs))"

definition sourcePathFirstEligibleActivePath ::
    "sourcePathSendPath list \<Rightarrow> sourcePathSendPath list \<Rightarrow> bool \<Rightarrow> nat option" where
  "sourcePathFirstEligibleActivePath current ranked requireDistinctDst = firstIndex (eligiblePath current requireDistinctDst) ranked"

text \<open>The loop of \<open>sourcePathFillActivePaths\<close> adds one path per turn until there are two.\<close>

function fillLoop :: "sourcePathSendPath list \<Rightarrow> bool \<Rightarrow> sourcePathSendPath list \<Rightarrow> sourcePathSendPath list" where
  "fillLoop ranked preferDistinctDst current =
     (if length current < 2 then
        let idx0 = sourcePathFirstEligibleActivePath current ranked preferDistinctDst;
            idx = (if idx0 = None \<and> preferDistinctDst then sourcePathFirstEligibleActivePath current ranked False else idx0)
        in case idx of
             None \<Rightarrow> current
           | Some i \<Rightarrow> fillLoop ranked preferDistinctDst (current @ [ranked ! i])
      else current)"
  by auto
termination by (relation "measure (\<lambda>(_, _, current). 2 - length current)") auto

declare fillLoop.simps [simp del]

definition sourcePathFillActivePaths :: "sourcePathSendPath list \<Rightarrow> sourcePathSendPath list \<Rightarrow> sourcePathSendPath list" where
  "sourcePathFillActivePaths current ranked = fillLoop ranked (sourcePathDistinctDstCount ranked \<ge> 2) current"

definition sourcePathPromotionSlot :: "sourcePathSendPath list \<Rightarrow> sourcePathSendPath \<Rightarrow> bool \<Rightarrow> nat option" where
  "sourcePathPromotionSlot current candidate distinctDstAvailable =
     (if length current < 2 then None
      else
        case (if distinctDstAvailable then firstIndex (\<lambda>active. pDst active = pDst candidate) current else None) of
          Some i \<Rightarrow> Some i
        | None \<Rightarrow> if compareSourcePathSendPath (current ! 0) (current ! 1) \<ge> 0 then Some 0 else Some 1)"

text \<open>The slot \<open>candidate\<close> would take, if it may be promoted.\<close>

definition promotableSlot :: "sourcePathSendPath list \<Rightarrow> bool \<Rightarrow> sourcePathSendPath \<Rightarrow> nat option" where
  "promotableSlot current distinctDstAvailable candidate =
     (if sourcePathSendPathIndex current candidate \<noteq> None then None
      else case sourcePathPromotionSlot current candidate distinctDstAvailable of
        None \<Rightarrow> None
      | Some slot \<Rightarrow> if compareSourcePathSendPath candidate (current ! slot) \<ge> 0 then None else Some slot)"

definition sourcePathBestPromotion :: "sourcePathSendPath list \<Rightarrow> sourcePathSendPath list \<Rightarrow> (nat \<times> nat) option" where
  "sourcePathBestPromotion current ranked =
     (let distinctDstAvailable = (sourcePathDistinctDstCount ranked \<ge> 2) in
      case firstIndex (\<lambda>candidate. promotableSlot current distinctDstAvailable candidate \<noteq> None) ranked of
        None \<Rightarrow> None
      | Some i \<Rightarrow> map_option (Pair i) (promotableSlot current distinctDstAvailable (ranked ! i)))"

definition setSourcePathActivePathsLocked :: "sourcePathSendPath list \<Rightarrow> activePaths \<Rightarrow> sourcePathSendPath list \<times> activePaths" where
  "setSourcePathActivePathsLocked paths st =
     (let sorted = sortFunc compareSourcePathSendPath paths in
      ([sorted ! 0, sorted ! 1], st\<lparr>acPaths := [sorted ! 0, sorted ! 1], acCount := 2\<rparr>))"

text \<open>The loop that looks the active paths up in the ranking; the state is \<open>(current, missingActive)\<close>.\<close>

definition currentStep ::
    "sourcePathSendPath list \<Rightarrow> sourcePathSendPath list \<times> bool \<Rightarrow> sourcePathSendPath \<Rightarrow> sourcePathSendPath list \<times> bool" where
  "currentStep ranked st active = (case st of (current, missingActive) \<Rightarrow>
     case sourcePathSendPathIndex ranked active of
       None \<Rightarrow> (current, True)
     | Some idx \<Rightarrow>
         (if sourcePathSendPathIndex current (ranked ! idx) = None then current @ [ranked ! idx] else current, missingActive))"

definition sourcePathApplyActivePathPolicyLocked ::
    "mono \<Rightarrow> sourcePathSendPath list \<Rightarrow> activePaths
      \<Rightarrow> sourcePathSendPath list \<times> sourcePathActivePolicyEvent \<times> activePaths" where
  "sourcePathApplyActivePathPolicyLocked now ranked st0 =
     (if length ranked < 2
      then ([], noEvent, st0\<lparr>acPaths := [zeroPath, zeroPath], acCount := 0\<rparr>)
      else
        let (ev, st) =
              (if length ranked > 2 \<and> (mzero (acLastRefresh st0) \<or> msub now (acLastRefresh st0) \<ge> sourcePathStandbyRefreshEvery)
               then (noEvent\<lparr>evRefreshed := True, evStandbyCandidates := int (length ranked) - 2\<rparr>,
                     st0\<lparr>acLastRefresh := now, acPromoteBudget := 2\<rparr>)
               else (noEvent, st0));
            (current, missingActive) = foldl (currentStep ranked) ([], acCount st < 2) (take (acCount st) (acPaths st))
        in if missingActive \<or> length current < 2
           then
             let current' = sourcePathFillActivePaths current ranked in
             if length current' < 2
             then ([], ev, st\<lparr>acPaths := [zeroPath, zeroPath], acCount := 0, acPromoteBudget := 0\<rparr>)
             else
               let st1 = (if acCount st = 2 then st\<lparr>acLastReplace := now\<rparr> else st);
                   (out, st2) = setSourcePathActivePathsLocked current' (st1\<lparr>acPromoteBudget := 0\<rparr>)
               in (out, ev, st2)
           else
             let canPromote = (acPromoteBudget st > 0
                   \<and> (mzero (acLastReplace st) \<or> msub now (acLastReplace st) \<ge> sourcePathActiveReplaceCooldown))
             in case (if canPromote then sourcePathBestPromotion current ranked else None) of
                  None \<Rightarrow> (let (out, st1) = setSourcePathActivePathsLocked current st in (out, ev, st1))
                | Some (idx, slot) \<Rightarrow>
                    let ev1 = ev\<lparr>evReplaced := True, evOldPath := current ! slot, evNewPath := ranked ! idx\<rparr>;
                        (out, st1) = setSourcePathActivePathsLocked (current[slot := ranked ! idx])
                          (st\<lparr>acLastReplace := now, acPromoteBudget := acPromoteBudget st - 1\<rparr>)
                    in (out, ev1, st1))"

section \<open>The ranking order\<close>

definition pathKey :: "sourcePathSendPath \<Rightarrow> bool \<times> int \<times> int \<times> bool \<times> u32 \<times> string" where
  "pathKey p = (\<not> pHasLatency p, if pHasLatency p then pLatency p else 0, - pLastAt p,
     \<not> isPrimary (pSource p), rxSocketID (pSource p), apString (ap (pDst p)))"

definition pathClock :: "sourcePathSendPath \<Rightarrow> bool" where
  "pathClock p \<longleftrightarrow> clock (pLastAt p)"

lemma compare_key:
  assumes "pathClock a" "pathClock b"
  shows "compareSourcePathSendPath a b = cmpOf pathKey a b"
proof -
  have "msub (pLastAt a) (pLastAt b) = pLastAt a - pLastAt b" using assms by (simp add: pathClock_def msub_clock)
  then show ?thesis
    by (simp add: compareSourcePathSendPath_def cmpOf_def pathKey_def less_prod_def')
qed

interpretation paths: comparison compareSourcePathSendPath pathClock
  by (rule comparison_by_key) (rule compare_key)

section \<open>Searching\<close>

lemma firstIndex_Some:
  "firstIndex P xs = Some i \<Longrightarrow> i < length xs \<and> P (xs ! i)"
  by (induction xs arbitrary: i) (auto split: if_splits)

lemma firstIndex_None: "firstIndex P xs = None \<longleftrightarrow> (\<forall>x\<in>set xs. \<not> P x)"
  by (induction xs) auto

lemma firstIndex_first: "firstIndex P xs = Some i \<Longrightarrow> j < i \<Longrightarrow> \<not> P (xs ! j)"
proof (induction xs arbitrary: i j)
  case (Cons x xs)
  then show ?case by (cases j) (auto split: if_splits)
qed simp

lemma sendPathIndex_eq: "sourcePathSendPathIndex ps want = firstIndex (\<lambda>p. sameSourcePathSendPath p want) ps"
  by (induction ps) auto

definition pathId :: "sourcePathSendPath \<Rightarrow> epAddr \<times> sourceRxMeta" where
  "pathId p = (pDst p, pSource p)"

lemma same_pathId: "sameSourcePathSendPath a b \<longleftrightarrow> pathId a = pathId b"
  by (simp add: sameSourcePathSendPath_def pathId_def)

lemma sendPathIndex_None: "sourcePathSendPathIndex ps want = None \<longleftrightarrow> pathId want \<notin> pathId ` set ps"
  by (auto simp: sendPathIndex_eq firstIndex_None same_pathId image_iff)

lemma sendPathIndex_Some:
  "sourcePathSendPathIndex ps want = Some i \<Longrightarrow> i < length ps \<and> pathId (ps ! i) = pathId want"
  unfolding sendPathIndex_eq same_pathId by (rule firstIndex_Some)

lemma distinctDst_foldl:
  "distinct seen \<Longrightarrow> distinct (foldl distinctDstStep seen ps) \<and> set (foldl distinctDstStep seen ps) = set seen \<union> pDst ` set ps"
  by (induction ps arbitrary: seen) (auto simp: distinctDstStep_def)

lemma distinctDstCount_eq: "sourcePathDistinctDstCount ps = card (pDst ` set ps)"
  using distinctDst_foldl [of "[]" ps] distinct_card [of "foldl distinctDstStep [] ps"]
  by (simp add: sourcePathDistinctDstCount_def)

section \<open>Filling\<close>

lemma ex_other:
  assumes "card A \<ge> 2"
  shows "\<exists>x\<in>A. x \<noteq> y"
proof (rule ccontr)
  assume "\<not> (\<exists>x\<in>A. x \<noteq> y)"
  then have "A \<subseteq> {y}" by auto
  then have "card A \<le> 1" by (metis card.empty card_insert_le_m1 card_mono finite.emptyI finite_insert is_singletonI is_singleton_altdef le_numeral_extra(4))
  with assms show False by simp
qed

lemma firstEligible_Some:
  assumes "sourcePathFirstEligibleActivePath current ranked req = Some i"
  shows "i < length ranked" "pathId (ranked ! i) \<notin> pathId ` set current"
    "req \<Longrightarrow> current \<noteq> [] \<Longrightarrow> \<forall>a\<in>set current. pDst a \<noteq> pDst (ranked ! i)"
  using firstIndex_Some [OF assms [unfolded sourcePathFirstEligibleActivePath_def]]
  by (auto simp: eligiblePath_def sendPathIndex_None)

lemma firstEligible_exists:
  assumes "x \<in> set ranked" "pathId x \<notin> pathId ` set current" "req \<Longrightarrow> \<forall>a\<in>set current. pDst a \<noteq> pDst x"
  shows "sourcePathFirstEligibleActivePath current ranked req \<noteq> None"
  using assms by (auto simp: sourcePathFirstEligibleActivePath_def firstIndex_None eligiblePath_def sendPathIndex_None)

text \<open>One path becomes two, on another destination when there is one.\<close>

lemma fill_one:
  assumes "p \<in> set ranked" "card (pathId ` set ranked) \<ge> 2"
  obtains q where "fillLoop ranked (sourcePathDistinctDstCount ranked \<ge> 2) [p] = [p, q]" "q \<in> set ranked"
    "pathId q \<noteq> pathId p" "sourcePathDistinctDstCount ranked \<ge> 2 \<longrightarrow> pDst q \<noteq> pDst p"
proof (cases "sourcePathDistinctDstCount ranked \<ge> 2")
  case True
  then obtain x where x: "x \<in> set ranked" "pDst x \<noteq> pDst p"
    using ex_other [of "pDst ` set ranked" "pDst p"] by (auto simp: distinctDstCount_eq)
  then have "sourcePathFirstEligibleActivePath [p] ranked True \<noteq> None"
    by (intro firstEligible_exists) (auto simp: pathId_def)
  then obtain i where i: "sourcePathFirstEligibleActivePath [p] ranked True = Some i" by blast
  note f = firstEligible_Some [OF i]
  have "fillLoop ranked True [p] = [p, ranked ! i]"
    by (subst fillLoop.simps) (simp add: i fillLoop.simps [of _ _ "[p, _]"])
  then show ?thesis using that [of "ranked ! i"] f True by auto
next
  case False
  obtain x where x: "x \<in> set ranked" "pathId x \<noteq> pathId p"
    using ex_other [OF assms(2), of "pathId p"] by auto
  then have "sourcePathFirstEligibleActivePath [p] ranked False \<noteq> None" by (intro firstEligible_exists) auto
  then obtain i where i: "sourcePathFirstEligibleActivePath [p] ranked False = Some i" by blast
  note f = firstEligible_Some [OF i]
  have "fillLoop ranked False [p] = [p, ranked ! i]"
    by (subst fillLoop.simps) (simp add: i fillLoop.simps [of _ _ "[p, _]"])
  then show ?thesis using that [of "ranked ! i"] f False by auto
qed

lemma fill_zero:
  assumes "ranked \<noteq> []"
  shows "fillLoop ranked prefer [] = fillLoop ranked prefer [ranked ! 0]"
proof -
  have "sourcePathFirstEligibleActivePath [] ranked req = Some 0" for req
    using assms by (cases ranked) (simp_all add: sourcePathFirstEligibleActivePath_def eligiblePath_def)
  then show ?thesis by (subst fillLoop.simps) simp
qed

section \<open>One application of the policy\<close>

definition activeInv :: "activePaths \<Rightarrow> bool" where
  "activeInv st \<longleftrightarrow> (\<exists>a b. acPaths st = [a, b] \<and> (acCount st = 0 \<or> acCount st = 2 \<and> pathId a \<noteq> pathId b))"

lemma activeInv_zero: "activeInv zeroActive"
  by (simp add: activeInv_def zeroActive_def)

lemma current_cases:
  assumes "activeInv st" "foldl (currentStep ranked) ([], acCount st < 2) (take (acCount st) (acPaths st)) = (current, missing)"
  obtains (both) x y where "\<not> missing" "current = [x, y]" "x \<in> set ranked" "y \<in> set ranked" "pathId x \<noteq> pathId y"
      "acCount st = 2" "pathId x = pathId (acPaths st ! 0)" "pathId y = pathId (acPaths st ! 1)"
  | (one) x where "missing" "current = [x]" "x \<in> set ranked"
  | (none) "missing" "current = []"
proof -
  from assms(1) obtain a b where ab: "acPaths st = [a, b]" "acCount st = 0 \<or> acCount st = 2 \<and> pathId a \<noteq> pathId b"
    by (auto simp: activeInv_def)
  show ?thesis
  proof (cases "acCount st = 0")
    case True
    with assms(2) show ?thesis using none by simp
  next
    case False
    with ab have two: "acCount st = 2" "pathId a \<noteq> pathId b" by auto
    have found: "ranked ! i \<in> set ranked" "pathId (ranked ! i) = pathId p" if "sourcePathSendPathIndex ranked p = Some i" for i p
      using sendPathIndex_Some [OF that] by auto
    show ?thesis
    proof (cases "sourcePathSendPathIndex ranked a")
      case None
      then show ?thesis using assms(2) two ab none one found
        by (cases "sourcePathSendPathIndex ranked b") (auto simp: currentStep_def)
    next
      case (Some i)
      show ?thesis
      proof (cases "sourcePathSendPathIndex ranked b")
        case None
        then show ?thesis using assms(2) two ab Some one found by (auto simp: currentStep_def)
      next
        case (Some j)
        have "sourcePathSendPathIndex [ranked ! i] (ranked ! j) = None"
          using two found [OF \<open>sourcePathSendPathIndex ranked a = Some i\<close>] found [OF Some] by (simp add: same_pathId)
        then have "current = [ranked ! i, ranked ! j]" "\<not> missing"
          using assms(2) two ab Some \<open>sourcePathSendPathIndex ranked a = Some i\<close> by (auto simp: currentStep_def)
        then show ?thesis
          using both two ab found [OF \<open>sourcePathSendPathIndex ranked a = Some i\<close>] found [OF Some] by simp
      qed
    qed
  qed
qed

text \<open>What the sorted pair looks like.\<close>

lemma setActive_pair:
  assumes "pathClock x" "pathClock y" "pathId x \<noteq> pathId y"
    "setSourcePathActivePathsLocked [x, y] st = (out, st')"
  obtains a b where "out = [a, b]" "{a, b} = {x, y}" "compareSourcePathSendPath a b \<le> 0" "pathId a \<noteq> pathId b"
    "st' = st\<lparr>acPaths := [a, b], acCount := 2\<rparr>"
proof -
  have "sortFunc compareSourcePathSendPath [x, y] = (if compareSourcePathSendPath x y \<le> 0 then [x, y] else [y, x])"
    by (simp add: sortFunc_def)
  then obtain a b where ab: "sortFunc compareSourcePathSendPath [x, y] = [a, b]" "{a, b} = {x, y}"
    by (metis insert_commute)
  have "sorted_wrt (\<lambda>a b. compareSourcePathSendPath a b \<le> 0) [a, b]"
    using paths.sorted_sortFunc [of "[x, y]"] assms(1,2) ab by simp
  then have "compareSourcePathSendPath a b \<le> 0" by simp
  moreover have "pathId a \<noteq> pathId b" using ab(2) assms(3) by (metis doubleton_eq_iff)
  moreover have "out = [a, b]" "st' = st\<lparr>acPaths := [a, b], acCount := 2\<rparr>"
    using assms(4) by (auto simp: setSourcePathActivePathsLocked_def ab Let_def)
  ultimately show ?thesis using that ab(2) by blast
qed

lemma fillPaths_two:
  assumes "current = [] \<or> (\<exists>x\<in>set ranked. current = [x])" "card (pathId ` set ranked) \<ge> 2"
  obtains x y where "sourcePathFillActivePaths current ranked = [x, y]" "x \<in> set ranked" "y \<in> set ranked"
    "pathId x \<noteq> pathId y" "sourcePathDistinctDstCount ranked \<ge> 2 \<longrightarrow> pDst x \<noteq> pDst y"
proof -
  have ne: "ranked \<noteq> []" using assms(2) by auto
  obtain x where x: "x \<in> set ranked" "sourcePathFillActivePaths current ranked = fillLoop ranked (sourcePathDistinctDstCount ranked \<ge> 2) [x]"
  proof (cases "current = []")
    case True
    then show ?thesis using that [of "ranked ! 0"] fill_zero [OF ne] ne by (simp add: sourcePathFillActivePaths_def)
  next
    case False
    then show ?thesis using that assms(1) by (auto simp: sourcePathFillActivePaths_def)
  qed
  obtain q where q: "fillLoop ranked (sourcePathDistinctDstCount ranked \<ge> 2) [x] = [x, q]" "q \<in> set ranked"
    "pathId q \<noteq> pathId x" "sourcePathDistinctDstCount ranked \<ge> 2 \<longrightarrow> pDst q \<noteq> pDst x"
    by (rule fill_one [OF x(1) assms(2)])
  then show ?thesis using that [of x q] x by auto
qed

text \<open>A promotion replaces a worse path and keeps destinations apart.\<close>

lemma bestPromotion_Some:
  assumes "sourcePathBestPromotion [x, y] ranked = Some (i, slot)" "pathId x \<noteq> pathId y"
  obtains x' y' where "i < length ranked" "slot < 2" "[x, y][slot := ranked ! i] = [x', y']" "pathId x' \<noteq> pathId y'"
    "compareSourcePathSendPath (ranked ! i) ([x, y] ! slot) < 0" "pathId (ranked ! i) \<notin> {pathId x, pathId y}"
    "sourcePathDistinctDstCount ranked \<ge> 2 \<and> pDst x \<noteq> pDst y \<longrightarrow> pDst x' \<noteq> pDst y'"
proof -
  let ?d = "sourcePathDistinctDstCount ranked \<ge> 2" and ?c = "ranked ! i"
  from assms(1) have f: "firstIndex (\<lambda>c. promotableSlot [x, y] ?d c \<noteq> None) ranked = Some i"
      and s: "promotableSlot [x, y] ?d ?c = Some slot"
    by (auto simp: sourcePathBestPromotion_def Let_def split: option.splits)
  from s have new: "pathId ?c \<notin> {pathId x, pathId y}" and slot: "sourcePathPromotionSlot [x, y] ?c ?d = Some slot"
      and better: "compareSourcePathSendPath ?c ([x, y] ! slot) < 0"
    by (auto simp: promotableSlot_def same_pathId split: option.splits if_splits)
  have i: "i < length ranked" using firstIndex_Some [OF f] by simp
  have lt: "slot = 0 \<or> slot = 1" using slot
    by (auto simp: sourcePathPromotionSlot_def split: option.splits if_splits)
  have dst: "pDst ?c \<noteq> pDst ([x, y] ! (1 - slot))" if "?d" "pDst x \<noteq> pDst y"
    using slot that lt by (auto simp: sourcePathPromotionSlot_def split: option.splits if_splits)
  show ?thesis
    using lt
  proof
    assume "slot = 0"
    then show ?thesis using that [of ?c y] i new better dst by auto
  next
    assume "slot = 1"
    then show ?thesis using that [of x ?c] i new better dst [THEN not_sym] by auto
  qed
qed

text \<open>
  What one application gives: two paths of the ranking, apart in identity and, when possible, in
  destination; and if a path was promoted, what allowed it.
\<close>

definition policyOk ::
    "mono \<Rightarrow> sourcePathSendPath list \<Rightarrow> activePaths \<Rightarrow> sourcePathSendPath list \<times> sourcePathActivePolicyEvent \<times> activePaths \<Rightarrow> bool" where
  "policyOk now ranked st r \<longleftrightarrow> (case r of (out, ev, st') \<Rightarrow>
     (\<exists>x y. out = [x, y] \<and> x \<in> set ranked \<and> y \<in> set ranked \<and> pathId x \<noteq> pathId y
        \<and> compareSourcePathSendPath x y \<le> 0 \<and> acPaths st' = [x, y] \<and> acCount st' = 2
        \<and> (sourcePathDistinctDstCount ranked \<ge> 2 \<and> (acCount st = 2 \<longrightarrow> pDst (acPaths st ! 0) \<noteq> pDst (acPaths st ! 1))
             \<longrightarrow> pDst x \<noteq> pDst y))
   \<and> (evReplaced ev \<longrightarrow> acCount st = 2 \<and> evNewPath ev \<in> set ranked
        \<and> compareSourcePathSendPath (evNewPath ev) (evOldPath ev) < 0
        \<and> (acLastReplace st = 0 \<or> msub now (acLastReplace st) \<ge> sourcePathActiveReplaceCooldown)
        \<and> acLastReplace st' = now)
   \<and> (acLastReplace st' \<noteq> acLastReplace st \<longrightarrow> acLastReplace st' = now)
   \<and> acPromoteBudget st' \<le> (if evRefreshed ev then 2 else acPromoteBudget st) - of_bool (evReplaced ev)
   \<and> 0 \<le> acPromoteBudget st')"

lemma policyOk_pair:
  assumes "x \<in> set ranked" "y \<in> set ranked" "pathId x \<noteq> pathId y" "\<forall>p\<in>set ranked. pathClock p"
    "setSourcePathActivePathsLocked [x, y] st1 = (out, st2)"
    "sourcePathDistinctDstCount ranked \<ge> 2 \<and> (acCount st = 2 \<longrightarrow> pDst (acPaths st ! 0) \<noteq> pDst (acPaths st ! 1)) \<longrightarrow> pDst x \<noteq> pDst y"
    "evReplaced ev \<longrightarrow> acCount st = 2 \<and> evNewPath ev \<in> set ranked
        \<and> compareSourcePathSendPath (evNewPath ev) (evOldPath ev) < 0
        \<and> (acLastReplace st = 0 \<or> msub now (acLastReplace st) \<ge> sourcePathActiveReplaceCooldown)
        \<and> acLastReplace st1 = now"
    "acLastReplace st1 \<noteq> acLastReplace st \<longrightarrow> acLastReplace st1 = now"
    "acPromoteBudget st1 \<le> (if evRefreshed ev then 2 else acPromoteBudget st) - of_bool (evReplaced ev)" "0 \<le> acPromoteBudget st1"
  shows "policyOk now ranked st (out, ev, st2)"
proof -
  have clk: "pathClock x" "pathClock y" using assms(1,2,4) by auto
  obtain a b where ab: "out = [a, b]" "{a, b} = {x, y}" "compareSourcePathSendPath a b \<le> 0" "pathId a \<noteq> pathId b"
    "st2 = st1\<lparr>acPaths := [a, b], acCount := 2\<rparr>"
    by (rule setActive_pair [OF clk assms(3,5)])
  from ab(2) have "a = x \<and> b = y \<or> a = y \<and> b = x" by (auto simp: doubleton_eq_iff)
  then show ?thesis using assms ab unfolding policyOk_def prod.case by (elim disjE) auto
qed

lemma policy_ok:
  assumes "activeInv st" "0 \<le> acPromoteBudget st" "card (pathId ` set ranked) \<ge> 2" "\<forall>p\<in>set ranked. pathClock p"
  shows "policyOk now ranked st (sourcePathApplyActivePathPolicyLocked now ranked st)"
proof -
  have len: "\<not> length ranked < 2"
    using assms(3) card_image_le [of "set ranked" pathId] card_length [of ranked] by simp
  define refresh where "refresh \<longleftrightarrow> length ranked > 2 \<and> (mzero (acLastRefresh st) \<or> msub now (acLastRefresh st) \<ge> sourcePathStandbyRefreshEvery)"
  define ev where "ev = (if refresh then noEvent\<lparr>evRefreshed := True, evStandbyCandidates := int (length ranked) - 2\<rparr> else noEvent)"
  define st1 where "st1 = (if refresh then st\<lparr>acLastRefresh := now, acPromoteBudget := 2\<rparr> else st)"
  have evst: "(if refresh then (noEvent\<lparr>evRefreshed := True, evStandbyCandidates := int (length ranked) - 2\<rparr>,
                     st\<lparr>acLastRefresh := now, acPromoteBudget := 2\<rparr>)
               else (noEvent, st)) = (ev, st1)" by (cases refresh) (simp_all add: ev_def st1_def)
  have ev: "\<not> evReplaced ev" by (simp add: ev_def noEvent_def)
  have st1: "acPaths st1 = acPaths st" "acCount st1 = acCount st" "acLastReplace st1 = acLastReplace st"
    "acPromoteBudget st1 = (if evRefreshed ev then 2 else acPromoteBudget st)"
    by (simp_all add: st1_def ev_def noEvent_def)
  have inv1: "activeInv st1" using assms(1) by (simp add: activeInv_def st1)
  obtain current missing where cur: "foldl (currentStep ranked) ([], acCount st1 < 2) (take (acCount st1) (acPaths st1)) = (current, missing)"
    by (cases "foldl (currentStep ranked) ([], acCount st1 < 2) (take (acCount st1) (acPaths st1))")
  have b1: "0 \<le> acPromoteBudget st1" using assms(2) by (simp add: st1)
  note unf = sourcePathApplyActivePathPolicyLocked_def [of now ranked st, folded refresh_def, unfolded evst prod.case, unfolded cur prod.case Let_def]
  show ?thesis
  proof (cases "missing \<or> length current < 2")
    case True
    have c: "current = [] \<or> (\<exists>x\<in>set ranked. current = [x])"
      using True by (cases rule: current_cases [OF inv1 cur]) auto
    obtain x y where xy: "sourcePathFillActivePaths current ranked = [x, y]" "x \<in> set ranked" "y \<in> set ranked"
      "pathId x \<noteq> pathId y" "sourcePathDistinctDstCount ranked \<ge> 2 \<longrightarrow> pDst x \<noteq> pDst y"
      by (rule fillPaths_two [OF c assms(3)])
    define st2 where "st2 = (if acCount st1 = 2 then st1\<lparr>acLastReplace := now\<rparr> else st1)\<lparr>acPromoteBudget := 0\<rparr>"
    obtain out st3 where set: "setSourcePathActivePathsLocked [x, y] st2 = (out, st3)" by (cases "setSourcePathActivePathsLocked [x, y] st2")
    have r: "sourcePathApplyActivePathPolicyLocked now ranked st = (out, ev, st3)"
      using len True xy(1) set by (simp add: unf st2_def [symmetric])
    have "acLastReplace st2 = now \<or> acLastReplace st2 = acLastReplace st" "acPromoteBudget st2 = 0"
      by (auto simp: st2_def st1)
    then show ?thesis unfolding r
      by (intro policyOk_pair [OF xy(2-4) assms(4) set]) (use xy(5) ev assms(2) in auto)
  next
    case False
    obtain x y where xy: "\<not> missing" "current = [x, y]" "x \<in> set ranked" "y \<in> set ranked" "pathId x \<noteq> pathId y"
      "acCount st = 2" "pathId x = pathId (acPaths st ! 0)" "pathId y = pathId (acPaths st ! 1)"
      using False by (cases rule: current_cases [OF inv1 cur]) (auto simp: st1)
    have dst: "pDst x = pDst (acPaths st ! 0)" "pDst y = pDst (acPaths st ! 1)" using xy(7,8) by (simp_all add: pathId_def)
    define can where "can \<longleftrightarrow> acPromoteBudget st1 > 0 \<and> (mzero (acLastReplace st1) \<or> msub now (acLastReplace st1) \<ge> sourcePathActiveReplaceCooldown)"
    show ?thesis
    proof (cases "if can then sourcePathBestPromotion current ranked else None")
      case None
      obtain out st3 where set: "setSourcePathActivePathsLocked [x, y] st1 = (out, st3)" by (cases "setSourcePathActivePathsLocked [x, y] st1")
      have r: "sourcePathApplyActivePathPolicyLocked now ranked st = (out, ev, st3)"
        using len False None set xy(2) by (simp add: unf can_def [symmetric])
      show ?thesis unfolding r
        by (intro policyOk_pair [OF xy(3-5) assms(4) set]) (use xy(6) dst ev b1 st1 in auto)
    next
      case (Some pr)
      obtain i slot where pr: "pr = (i, slot)" by (cases pr)
      have can: can and prom: "sourcePathBestPromotion [x, y] ranked = Some (i, slot)"
        using Some xy(2) by (auto simp: pr split: if_splits)
      obtain x' y' where p: "i < length ranked" "slot < 2" "[x, y][slot := ranked ! i] = [x', y']" "pathId x' \<noteq> pathId y'"
        "compareSourcePathSendPath (ranked ! i) ([x, y] ! slot) < 0" "pathId (ranked ! i) \<notin> {pathId x, pathId y}"
        "sourcePathDistinctDstCount ranked \<ge> 2 \<and> pDst x \<noteq> pDst y \<longrightarrow> pDst x' \<noteq> pDst y'"
        by (rule bestPromotion_Some [OF prom xy(5)])
      define st2 where "st2 = st1\<lparr>acLastReplace := now, acPromoteBudget := acPromoteBudget st1 - 1\<rparr>"
      define ev1 where "ev1 = ev\<lparr>evReplaced := True, evOldPath := [x, y] ! slot, evNewPath := ranked ! i\<rparr>"
      obtain out st3 where set: "setSourcePathActivePathsLocked [x', y'] st2 = (out, st3)" by (cases "setSourcePathActivePathsLocked [x', y'] st2")
      have r: "sourcePathApplyActivePathPolicyLocked now ranked st = (out, ev1, st3)"
        using len False can prom set xy(2) p(3) by (simp add: unf can_def [symmetric] st2_def [symmetric] ev1_def [symmetric])
      have mem: "x' \<in> set ranked" "y' \<in> set ranked"
      proof -
        have "set [x', y'] \<subseteq> set [x, y] \<union> {ranked ! i}" unfolding p(3) [symmetric] using set_update_subset_insert [of "[x, y]" slot "ranked ! i"] by auto
        then show "x' \<in> set ranked" "y' \<in> set ranked" using xy(3,4) p(1) by auto
      qed
      show ?thesis unfolding r
        by (intro policyOk_pair [OF mem p(4) assms(4) set])
          (use xy(6) dst p can in \<open>auto simp: ev1_def st2_def st1 can_def mzero_def\<close>)
    qed
  qed
qed

section \<open>Properties of the active pair\<close>

definition rankedOk :: "sourcePathSendPath list \<Rightarrow> bool" where
  "rankedOk ranked \<longleftrightarrow> distinct (map pathId ranked) \<and> (\<forall>p\<in>set ranked. pathClock p)"

lemma rankedOk_card: "rankedOk ranked \<Longrightarrow> card (pathId ` set ranked) = length ranked"
  using distinct_card [of "map pathId ranked"] by (simp add: rankedOk_def)

lemma policy_small:
  "length ranked < 2 \<Longrightarrow> sourcePathApplyActivePathPolicyLocked now ranked st
     = ([], noEvent, st\<lparr>acPaths := [zeroPath, zeroPath], acCount := 0\<rparr>)"
  by (simp add: sourcePathApplyActivePathPolicyLocked_def)

lemma policy_inv:
  assumes "activeInv st" "0 \<le> acPromoteBudget st" "rankedOk ranked"
    "sourcePathApplyActivePathPolicyLocked now ranked st = (out, ev, st')"
  shows "activeInv st' \<and> 0 \<le> acPromoteBudget st'"
proof (cases "length ranked < 2")
  case True
  then show ?thesis using assms(2,4) by (auto simp: policy_small activeInv_def)
next
  case False
  then have "policyOk now ranked st (out, ev, st')"
    using policy_ok [OF assms(1,2), of ranked now] assms(3,4) by (simp add: rankedOk_card) (simp add: rankedOk_def)
  then show ?thesis by (auto simp: policyOk_def activeInv_def)
qed


fun runPolicy :: "(mono \<times> sourcePathSendPath list) list \<Rightarrow> activePaths \<Rightarrow> (mono \<times> sourcePathActivePolicyEvent) list" where
  "runPolicy [] st = []"
| "runPolicy ((now, ranked) # calls) st =
     (case sourcePathApplyActivePathPolicyLocked now ranked st of (_, ev, st') \<Rightarrow> (now, ev) # runPolicy calls st')"

lemma promotion_after:
  assumes "activeInv st" "0 \<le> acPromoteBudget st" "0 < t" "t \<le> acLastReplace st" "clock (acLastReplace st)"
    "\<forall>(now, ranked)\<in>set calls. clock now \<and> t \<le> now \<and> rankedOk ranked"
    "(now', ev') \<in> set (runPolicy calls st)" "evReplaced ev'"
  shows "now' - t \<ge> sourcePathActiveReplaceCooldown"
  using assms(1,2,4-7)
proof (induction calls arbitrary: st)
  case (Cons call calls)
  obtain now ranked where call: "call = (now, ranked)" by (cases call)
  obtain out ev st' where r: "sourcePathApplyActivePathPolicyLocked now ranked st = (out, ev, st')"
    by (metis prod_cases3)
  have now: "clock now" "t \<le> now" "rankedOk ranked" using Cons.prems(5) by (auto simp: call)
  have inv: "activeInv st'" "0 \<le> acPromoteBudget st'" using policy_inv [OF Cons.prems(1,2) now(3) r] by simp_all
  have ok: "policyOk now ranked st (out, ev, st')" if "\<not> length ranked < 2"
    using policy_ok [OF Cons.prems(1,2), of ranked now] now(3) that r by (simp add: rankedOk_card) (simp add: rankedOk_def)
  have last: "t \<le> acLastReplace st'" "clock (acLastReplace st')"
    using Cons.prems(3,4) now ok r by (cases "length ranked < 2"; fastforce simp: policy_small policyOk_def)+
  have here: "now - t \<ge> sourcePathActiveReplaceCooldown" if "evReplaced ev"
  proof -
    have "\<not> length ranked < 2" using that r by (auto simp: policy_small noEvent_def)
    with ok that have "acLastReplace st = 0 \<or> msub now (acLastReplace st) \<ge> sourcePathActiveReplaceCooldown"
      by (simp add: policyOk_def)
    then show ?thesis using assms(3) Cons.prems(3,4) now(1) by (auto simp: msub_clock)
  qed
  have "(now', ev') = (now, ev) \<or> (now', ev') \<in> set (runPolicy calls st')" using Cons.prems(6) by (simp add: call r)
  then show ?case using here assms(8) Cons.IH [OF inv last] Cons.prems(5) by auto
qed simp

text \<open>
  C22. Promotions are spaced. Over any sequence of calls with increasing clock readings, starting
  from a new endpoint, two promotions of a standby path are at least the replacement cooldown
  (one minute) apart.
\<close>

theorem promotions_spaced_by_cooldown:
  assumes "sorted (map fst calls)" "\<forall>(now, ranked)\<in>set calls. clock now \<and> 0 < now \<and> rankedOk ranked"
    "i < j" "j < length calls"
    "evReplaced (snd (runPolicy calls zeroActive ! i))" "evReplaced (snd (runPolicy calls zeroActive ! j))"
  shows "fst (runPolicy calls zeroActive ! j) - fst (runPolicy calls zeroActive ! i) \<ge> minute"
proof -
  have "fst (runPolicy calls st ! j) - fst (runPolicy calls st ! i) \<ge> sourcePathActiveReplaceCooldown"
    if "activeInv st" "0 \<le> acPromoteBudget st" "evReplaced (snd (runPolicy calls st ! i))" "evReplaced (snd (runPolicy calls st ! j))" for st
    using assms(1-4) that
  proof (induction calls arbitrary: st i j)
    case (Cons call calls)
    obtain now ranked where call: "call = (now, ranked)" by (cases call)
    obtain out ev st' where r: "sourcePathApplyActivePathPolicyLocked now ranked st = (out, ev, st')"
      by (metis prod_cases3)
    have now: "clock now" "0 < now" "rankedOk ranked" using Cons.prems(2) by (auto simp: call)
    have inv: "activeInv st'" "0 \<le> acPromoteBudget st'" using policy_inv [OF Cons.prems(5,6) now(3) r] by simp_all
    have len: "length (runPolicy cs s) = length cs" for cs s by (induction cs s rule: runPolicy.induct) (auto split: prod.splits)
    obtain j' where j: "j = Suc j'" using Cons.prems(3) by (cases j) auto
    have run: "runPolicy (call # calls) st = (now, ev) # runPolicy calls st'" by (simp add: call r)
    show ?case
    proof (cases i)
      case 0
      then have rep: "evReplaced ev" using Cons.prems(7) by (simp add: run)
      then have big: "\<not> length ranked < 2" using r by (auto simp: policy_small noEvent_def)
      then have "policyOk now ranked st (out, ev, st')"
        using policy_ok [OF Cons.prems(5,6), of ranked now] now(3) r by (simp add: rankedOk_card) (simp add: rankedOk_def)
      then have last: "acLastReplace st' = now" using rep by (simp add: policyOk_def)
      have "\<forall>(n, rk)\<in>set calls. clock n \<and> now \<le> n \<and> rankedOk rk" using Cons.prems(1,2) by (force simp: call)
      moreover have "runPolicy calls st' ! j' \<in> set (runPolicy calls st')" using Cons.prems(4) j by (simp add: len)
      ultimately show ?thesis
        using promotion_after [OF inv now(2), of calls "fst (runPolicy calls st' ! j')" "snd (runPolicy calls st' ! j')"] last now(1)
          Cons.prems(8) 0 j by (simp add: run)
    next
      case (Suc i')
      have "sorted (map fst calls)" "\<forall>(now, ranked)\<in>set calls. clock now \<and> 0 < now \<and> rankedOk ranked"
        using Cons.prems(1,2) by (auto simp: call)
      from Cons.IH [OF this _ _ inv, of i' j'] Cons.prems(3,4,7,8) Suc j show ?thesis by (simp add: run)
    qed
  qed simp
  from this [OF activeInv_zero _ assms(5,6)] show ?thesis by (simp add: zeroActive_def srcsel_consts)
qed

section \<open>Examples\<close>

definition exPath :: "u32 \<Rightarrow> duration \<Rightarrow> sourcePathSendPath" where
  "exPath sock lat = \<lparr>pDst = exDst, pSource = \<lparr>rxSocketID = sock, rxGeneration = 1\<rparr>, pLatency = lat, pHasLatency = True, pLastAt = 5\<rparr>"


definition exCalls :: "(mono \<times> sourcePathSendPath list) list" where
  "exCalls = [(1, [exPath 1 10, exPath 2 20, exPath 100 30]),
     (hour + 1, [exPath 100 5, exPath 1 10, exPath 2 20]),
     (hour + minute + 1, [exPath 2 3, exPath 100 5, exPath 1 10])]"

theorem promotions_spaced_by_cooldown_witness:
  "evReplaced (snd (runPolicy exCalls zeroActive ! 1)) \<and> evReplaced (snd (runPolicy exCalls zeroActive ! 2))
   \<and> fst (runPolicy exCalls zeroActive ! 2) - fst (runPolicy exCalls zeroActive ! 1) \<ge> minute"
proof -
  have ev: "evReplaced (snd (runPolicy exCalls zeroActive ! 1))" "evReplaced (snd (runPolicy exCalls zeroActive ! 2))" by code_simp+
  have s: "sorted (map fst exCalls)" "\<forall>(now, ranked)\<in>set exCalls. clock now \<and> 0 < now \<and> rankedOk ranked" by code_simp+
  have "(1 :: nat) < 2" "2 < length exCalls" by code_simp+
  from promotions_spaced_by_cooldown [OF s this ev] ev show ?thesis by blast
qed

end
