(* ===== verification/Endpoint.thy ===== *)
theory Endpoint
  imports Endpoint_State Srcsel_Paths
begin

text \<open>
  The \<open>endpoint\<close> of \<open>src/wgengine/magicsock/endpoint.go\<close>: what the node knows about one peer,
  which path it uses, the discovery pings in flight and the timers. A method takes the endpoint and
  returns it updated with the list of what it starts outside of it (\<open>epAction\<close>): goroutines that
  send, calls into the relay manager and the peer map, answers to callers. A reading of the
  monotonic clock is an argument \<open>now\<close>, of the wall clock \<open>wnow\<close>. Debug ring buffers, metrics
  and log lines are left out.
\<close>

section \<open>Data\<close>

type_synonym nodeKey = "u8 list"

datatype discoPingPurpose = pingDiscovery | pingHeartbeat | pingCLI | pingHeartbeatForUDPLifetime

datatype discoPingResult = discoPingResultUnknown | discoPingFailed | discoPingTimedOut | discoPongReceived

text \<open>The timer of a sent ping runs exactly as long as the ping is in the map. \<open>spResCB\<close> names
  the shared \<open>pingResultAndCallback\<close> object, if any.\<close>

record sentPing =
  spTo :: epAddr
  spAt :: mono
  spPurpose :: discoPingPurpose
  spSize :: int
  spResCB :: "nat option"

text \<open>
  The fields in the order of the struct. A \<open>*time.Timer\<close> is its delay or \<open>None\<close> for nil. The
  two arrays of remote slots and times seen are one list of two pairs, the active-path fields one
  record (\<open>activePaths\<close>). Two fields are not in the struct: \<open>deTaken\<close> is the set of
  callback objects whose \<open>taken\<close> flag is set, \<open>deDraws\<close> counts the calls of
  \<open>stun.NewTxID\<close>, whose results are the argument \<open>newTxID\<close>.
\<close>

record endpoint =
  deLastRecvWG :: mono
  deLastRecvUDPAny :: mono
  deNumStopAndReset :: int
  deNodeID :: int
  dePublicKey :: nodeKey
  deDisco :: "discoKey option"
  deHeartBeatTimer :: "duration option"
  deLastSendExt :: mono
  deLastSendAny :: mono
  deLastFullPing :: mono
  deLastUDPRelayPathDiscovery :: mono
  deLastDirectVsRelaySwap :: mono
  deDerpAddr :: addrPort
  deBestAddr :: addrQuality
  deBestAddrAt :: mono
  deTrustBestAddrUntil :: mono
  deRemoteSlots :: "(epAddr \<times> mono) list"
  dePeerAware :: "(epAddr \<times> sourceRxMeta) list"
  deSingleSince :: mono
  deSinglePkts :: int
  deActive :: activePaths
  deSentPing :: "(txID, sentPing) gomap"
  deEndpointState :: "(addrPort, endpointState) gomap"
  deIsCallMeMaybeEP :: "(addrPort, bool) gomap"
  deHeartbeatDisabled :: bool
  deProbeUDPLifetime :: "probeUDPLifetime option"
  deExpired :: bool
  deIsWireguardOnly :: bool
  deRelayCapable :: bool
  deTaken :: "nat list"
  deDraws :: nat
  deNodeAddr :: addr
  deLastDiscoKeyAdvertisement :: mono

text \<open>What the methods read of the \<open>Conn\<close>, the platform and the debug knobs.\<close>

record connView =
  cvDvr :: dvrEnv
  cvJS :: bool
  cvNeverDirectUDP :: bool
  cvHasPeerRelayServers :: bool
  cvDiscoPublic :: discoKey
  cvPeerMTUEnabled :: bool
  cvNoV4 :: bool
  cvNoV6 :: bool
  cvMaxPacketSize :: int
  cvProbeSources :: "bool \<Rightarrow> sourceRxMeta list"
  cvOmit :: "addrPort \<Rightarrow> bool"

datatype epAction =
    SendDiscoPing epAddr discoKey txID int bool
  | SendSourcePathPing sourceRxMeta epAddr discoKey txID int bool
  | SendWireGuardOnlyPing addrPort
  | EnqueueCallMeMaybe addrPort
  | StartRelayPathDiscovery addrQuality bool
  | StopRelayWork
  | SetNodeKeyForEpAddr epAddr
  | HandleDERPHomeChange u16
  | ReplyPing nat duration epAddr
  | FailPing nat string
  | IndexPanic

type_synonym 'a step = "'a \<times> epAction list"

text \<open>Running \<open>f\<close> after a step, with the actions in order.\<close>

definition andThen :: "'a step \<Rightarrow> ('a \<Rightarrow> 'b step) \<Rightarrow> 'b step" where
  "andThen s f = (case f (fst s) of (y, acts) \<Rightarrow> (y, snd s @ acts))"

lemma andThen_Pair [simp]: "andThen (x, as) f = (fst (f x), as @ snd (f x))"
  by (simp add: andThen_def split: prod.split)

lemma fst_andThen: "fst (andThen s f) = fst (f (fst s))"
  by (simp add: andThen_def split: prod.split)

lemma snd_andThen: "snd (andThen s f) = snd s @ snd (f (fst s))"
  by (simp add: andThen_def split: prod.split)

section \<open>Constants\<close>

definition trustUDPAddrDuration :: duration where "trustUDPAddrDuration = 6500 * millisecond"
definition upgradeUDPDirectInterval :: duration where "upgradeUDPDirectInterval = minute"
definition upgradeUDPRelayInterval :: duration where "upgradeUDPRelayInterval = minute"
definition discoverUDPRelayPathsInterval :: duration where "discoverUDPRelayPathsInterval = 30 * second"
definition goodEnoughLatency :: duration where "goodEnoughLatency = 5 * millisecond"
definition discoPingInterval :: duration where "discoPingInterval = 5 * second"
definition wireguardPingInterval :: duration where "wireguardPingInterval = 5 * second"

lemmas ep_consts = trustUDPAddrDuration_def upgradeUDPDirectInterval_def upgradeUDPRelayInterval_def
  discoverUDPRelayPathsInterval_def goodEnoughLatency_def discoPingInterval_def wireguardPingInterval_def
  heartbeatInterval_def udpLifetimeProbeCliffSlack_def udpLifetimeProbeSchedulingTolerance_def
  sessionActiveTimeout_def duration_units

section \<open>The best address\<close>

definition setBestAddrLocked :: "addrQuality \<Rightarrow> endpoint \<Rightarrow> endpoint" where
  "setBestAddrLocked v de =
     (let de1 = (if aqAddr v \<noteq> aqAddr (deBestAddr de)
                 then de\<lparr>deProbeUDPLifetime := map_option resetCycleEndpointLocked (deProbeUDPLifetime de)\<rparr> else de)
      in de1\<lparr>deBestAddr := v\<rparr>)"

definition clearBestAddrLocked :: "endpoint \<Rightarrow> endpoint" where
  "clearBestAddrLocked de =
     (setBestAddrLocked zeroAddrQuality de)\<lparr>deBestAddrAt := 0, deTrustBestAddrUntil := 0, deLastDirectVsRelaySwap := 0\<rparr>"

definition udpRelayEndpointReady :: "dvrEnv \<Rightarrow> addrQuality \<Rightarrow> mono \<Rightarrow> endpoint \<Rightarrow> endpoint" where
  "udpRelayEndpointReady d maybeBest now de =
     (let curBestAddrTrusted = mbefore now (deTrustBestAddrUntil de);
          sameRelayServer = (vniIsSet (vni (aqAddr (deBestAddr de)))
            \<and> aqRelayServerDisco maybeBest = aqRelayServerDisco (deBestAddr de));
          bypassHysteresis = (\<not> curBestAddrTrusted \<or> sameRelayServer)
      in if bypassHysteresis \<or> betterAddr d maybeBest (deBestAddr de)
         then
           if \<not> bypassHysteresis
              \<and> \<not> wouldAllowDirectVsRelaySwapLocked d (deLastDirectVsRelaySwap de) (deBestAddr de) maybeBest now
           then de
           else
             let prev = deBestAddr de;
                 de1 = setBestAddrLocked maybeBest de
             in de1\<lparr>deTrustBestAddrUntil := madd now trustUDPAddrDuration,
                    deLastDirectVsRelaySwap :=
                      noteDirectVsRelaySwapLocked d prev maybeBest now (deLastDirectVsRelaySwap de1)\<rparr>
         else de)"

definition deleteEndpointLocked :: "addrPort \<Rightarrow> endpoint \<Rightarrow> endpoint" where
  "deleteEndpointLocked ep de =
     (let asEpAddr = \<lparr>ap = ep, vni = 0\<rparr>;
          de1 = de\<lparr>deEndpointState := gm_del ep (deEndpointState de),
                   deRemoteSlots := map (\<lambda>(slot, seen). if slot = asEpAddr then (zeroEpAddr, 0) else (slot, seen))
                                      (deRemoteSlots de)\<rparr>
      in if aqAddr (deBestAddr de1) = asEpAddr then setBestAddrLocked zeroAddrQuality de1 else de1)"

definition noteBadEndpoint :: "epAddr \<Rightarrow> endpoint \<Rightarrow> endpoint" where
  "noteBadEndpoint udpAddr de =
     (let de1 = clearBestAddrLocked de in
      if vniIsSet (vni udpAddr) then de1
      else case gm_get (deEndpointState de1) (ap udpAddr) of
        None \<Rightarrow> de1
      | Some st \<Rightarrow> de1\<lparr>deEndpointState := gm_set (ap udpAddr) (clearEndpointState st) (deEndpointState de1)\<rparr>)"

definition noteConnectivityChange :: "endpoint \<Rightarrow> endpoint" where
  "noteConnectivityChange de =
     (let de1 = clearBestAddrLocked de in
      de1\<lparr>deEndpointState := map (\<lambda>(k, st). (k, clearEndpointState st)) (deEndpointState de1)\<rparr>)"

section \<open>Round-trip times\<close>

definition primaryRTTForLocked :: "epAddr \<Rightarrow> endpoint \<Rightarrow> duration" where
  "primaryRTTForLocked dst de =
     (case (case gm_get (deEndpointState de) (ap dst) of None \<Rightarrow> None | Some st \<Rightarrow> latencyLocked st) of
        Some rtt \<Rightarrow> if rtt > 0 then rtt
          else if aqAddr (deBestAddr de) = dst \<and> aqLatency (deBestAddr de) > 0 then aqLatency (deBestAddr de) else 0
      | None \<Rightarrow>
          if aqAddr (deBestAddr de) = dst \<and> aqLatency (deBestAddr de) > 0 then aqLatency (deBestAddr de) else 0)"

definition primaryPongsSinceLocked :: "epAddr \<Rightarrow> mono \<Rightarrow> endpoint \<Rightarrow> nat" where
  "primaryPongsSinceLocked dst since de =
     (case gm_get (deEndpointState de) (ap dst) of
        None \<Rightarrow> 0
      | Some st \<Rightarrow> length (filter (\<lambda>p. \<not> (mzero (prPongAt p) \<or> mbefore (prPongAt p) since)) (esRecentPongs st)))"

section \<open>Where to send\<close>

text \<open>One turn of the loop over the addresses; the state is the oldest ping, the lowest latency and
  the address that has it.\<close>

definition wgScanStep ::
    "mono \<times> duration \<times> addrPort \<Rightarrow> addrPort \<times> endpointState \<Rightarrow> mono \<times> duration \<times> addrPort" where
  "wgScanStep acc entry = (case (acc, entry) of ((oldestPing, lowestLatency, best), (ipp, st)) \<Rightarrow>
     let oldestPing' = (if mzero oldestPing then esLastPing st
                        else if mbefore (esLastPing st) oldestPing then esLastPing st else oldestPing)
     in case latencyLocked st of
          None \<Rightarrow> (oldestPing', lowestLatency, best)
        | Some latency \<Rightarrow>
            if latency < lowestLatency \<or> (latency = lowestLatency \<and> is6 (apAddr ipp))
            then (oldestPing', latency, ipp) else (oldestPing', lowestLatency, best))"

text \<open>\<open>pick\<close> is what \<open>rand.IntN\<close> draws from.\<close>

definition addrForWireGuardSendLocked :: "nat \<Rightarrow> mono \<Rightarrow> endpoint \<Rightarrow> (epAddr \<times> bool) \<times> endpoint" where
  "addrForWireGuardSendLocked pick now de =
     (if deEndpointState de = [] then ((zeroEpAddr, False), de)
      else
        case foldl wgScanStep (0, hour, zeroAddrPort) (deEndpointState de) of (oldestPing, _, best0) \<Rightarrow>
        let needPing = (gm_len (deEndpointState de) > 1 \<and> msub now oldestPing > wireguardPingInterval);
            candidates = map fst (deEndpointState de);
            best = (if apIsValid best0 then best0 else candidates ! (pick mod length candidates));
            udpAddr = \<lparr>ap = best, vni = 0\<rparr>
        in ((udpAddr, needPing),
            de\<lparr>deBestAddr := (deBestAddr de)\<lparr>aqAddr := udpAddr\<rparr>, deTrustBestAddrUntil := madd now second\<rparr>))"

text \<open>Returns \<open>(udpAddr, derpAddr, sendWGPing)\<close>.\<close>

definition addrForSendLocked :: "nat \<Rightarrow> mono \<Rightarrow> endpoint \<Rightarrow> (epAddr \<times> addrPort \<times> bool) \<times> endpoint" where
  "addrForSendLocked pick now de =
     (let udpAddr = aqAddr (deBestAddr de) in
      if apIsValid (ap udpAddr) \<and> \<not> mafter now (deTrustBestAddrUntil de)
      then ((udpAddr, zeroAddrPort, False), de)
      else if deIsWireguardOnly de
      then (case addrForWireGuardSendLocked pick now de of
              ((wgAddr, shouldPing), de') \<Rightarrow> ((wgAddr, zeroAddrPort, shouldPing), de'))
      else ((udpAddr, deDerpAddr de, False), de))"

definition addrForPingSizeLocked :: "nat \<Rightarrow> mono \<Rightarrow> int \<Rightarrow> endpoint \<Rightarrow> (epAddr \<times> addrPort) \<times> endpoint" where
  "addrForPingSizeLocked pick now sz de =
     (if sz = 0
      then (case addrForSendLocked pick now de of ((udpAddr, derpAddr, _), de') \<Rightarrow> ((udpAddr, derpAddr), de'))
      else
        let udpAddr = aqAddr (deBestAddr de);
            mtuOk = (pingSizeToPktLen sz udpAddr \<le> aqWireMTU (deBestAddr de))
        in if apIsValid (ap udpAddr) \<and> mtuOk
           then if \<not> mafter now (deTrustBestAddrUntil de) then ((udpAddr, zeroAddrPort), de)
                else ((udpAddr, deDerpAddr de), de)
           else ((zeroEpAddr, deDerpAddr de), de))"

section \<open>UDP path lifetime\<close>

datatype maybeProbe = ProbeNo | ProbeAfter duration | ProbePanic

definition maybeProbeUDPLifetimeLocked :: "connView \<Rightarrow> walltime \<Rightarrow> endpoint \<Rightarrow> maybeProbe" where
  "maybeProbeUDPLifetimeLocked cv wnow de =
     (case deProbeUDPLifetime de of
        None \<Rightarrow> ProbeNo
      | Some p \<Rightarrow>
          if \<not> apIsValid (ap (aqAddr (deBestAddr de))) then ProbeNo
          else case deDisco de of
            None \<Rightarrow> ProbeNo
          | Some epDisco \<Rightarrow>
              if \<not> cvDiscoPublic cv < epDisco then ProbeNo
              else if \<not> plCycleActive p \<and> wsince wnow (plCycleStartedAt p) < pcCycleCanStartEvery (plConfig p) then ProbeNo
              else case currentCliffDurationEndpointLocked p of
                None \<Rightarrow> ProbePanic
              | Some cliff \<Rightarrow>
                  let afterInactivityFor = dsub cliff udpLifetimeProbeCliffSlack
                  in if afterInactivityFor < 0 then ProbeNo else ProbeAfter afterInactivityFor)"

text \<open>The log line reads the current cliff, which panics when the index is out of range.\<close>

definition scheduleHeartbeatForLifetimeLocked :: "duration \<Rightarrow> endpoint \<Rightarrow> endpoint step" where
  "scheduleHeartbeatForLifetimeLocked after de =
     (case deProbeUDPLifetime de of
        None \<Rightarrow> (de, [])
      | Some p \<Rightarrow>
          if currentCliffDurationEndpointLocked p = None then (de, [IndexPanic])
          else (de\<lparr>deProbeUDPLifetime := Some (p\<lparr>plBestAddr := aqAddr (deBestAddr de), plTimer := Some after\<rparr>)\<rparr>, []))"

definition probeUDPLifetimeCliffDoneLocked ::
    "connView \<Rightarrow> walltime \<Rightarrow> discoPingResult \<Rightarrow> txID \<Rightarrow> endpoint \<Rightarrow> endpoint step" where
  "probeUDPLifetimeCliffDoneLocked cv wnow result txid de =
     (case deProbeUDPLifetime de of
        None \<Rightarrow> (de, [])
      | Some p \<Rightarrow>
          if \<not> plCycleActive p \<or> plTimer p \<noteq> None \<or> txid \<noteq> plLastTxID p then (de, [])
          else if result \<noteq> discoPongReceived \<or> plCurrentCliff p \<ge> int (length (pcCliffs (plConfig p))) - 1
          then
            let maxCliffIndex = (if result \<noteq> discoPongReceived then plCurrentCliff p - 1 else plCurrentCliff p)
            in if maxCliffIndex \<ge> int (length (pcCliffs (plConfig p))) then (de, [IndexPanic])
               else (de\<lparr>deProbeUDPLifetime := Some (resetCycleEndpointLocked p)\<rparr>, [])
          else
            let de1 = de\<lparr>deProbeUDPLifetime := Some (p\<lparr>plCurrentCliff := plCurrentCliff p + 1\<rparr>)\<rparr>
            in case maybeProbeUDPLifetimeLocked cv wnow de1 of
                 ProbeNo \<Rightarrow> (de1, [])
               | ProbeAfter after \<Rightarrow> scheduleHeartbeatForLifetimeLocked after de1
               | ProbePanic \<Rightarrow> (de1, [IndexPanic]))"

section \<open>Pings in flight\<close>

definition removeSentDiscoPingLocked ::
    "connView \<Rightarrow> walltime \<Rightarrow> txID \<Rightarrow> sentPing \<Rightarrow> discoPingResult \<Rightarrow> endpoint \<Rightarrow> endpoint step" where
  "removeSentDiscoPingLocked cv wnow txid sp result de =
     andThen (if spPurpose sp = pingHeartbeatForUDPLifetime
              then probeUDPLifetimeCliffDoneLocked cv wnow result txid de else (de, []))
       (\<lambda>de1. (de1\<lparr>deSentPing := gm_del txid (deSentPing de1)\<rparr>, []))"

definition discoPingTimeout :: "connView \<Rightarrow> mono \<Rightarrow> walltime \<Rightarrow> txID \<Rightarrow> endpoint \<Rightarrow> endpoint step" where
  "discoPingTimeout cv now wnow txid de =
     (case gm_get (deSentPing de) txid of
        None \<Rightarrow> (de, [])
      | Some sp \<Rightarrow>
          let bestUntrusted = mafter now (deTrustBestAddrUntil de);
              de1 = (if spTo sp = aqAddr (deBestAddr de) \<and> bestUntrusted then clearBestAddrLocked de else de)
          in removeSentDiscoPingLocked cv wnow txid sp discoPingTimedOut de1)"

definition forgetDiscoPing :: "connView \<Rightarrow> walltime \<Rightarrow> txID \<Rightarrow> endpoint \<Rightarrow> endpoint step" where
  "forgetDiscoPing cv wnow txid de =
     (case gm_get (deSentPing de) txid of
        None \<Rightarrow> (de, [])
      | Some sp \<Rightarrow> removeSentDiscoPingLocked cv wnow txid sp discoPingFailed de)"

definition noteTxActivityExtTriggerLocked :: "mono \<Rightarrow> endpoint \<Rightarrow> endpoint" where
  "noteTxActivityExtTriggerLocked now de =
     (let de1 = de\<lparr>deLastSendExt := now\<rparr> in
      if deHeartBeatTimer de1 = None \<and> \<not> deHeartbeatDisabled de1
      then de1\<lparr>deHeartBeatTimer := Some heartbeatInterval\<rparr> else de1)"

text \<open>The probes from the auxiliary sockets that accompany one ping.\<close>

fun sourcePathPings ::
    "(nat \<Rightarrow> txID) \<Rightarrow> epAddr \<Rightarrow> discoKey \<Rightarrow> int \<Rightarrow> bool \<Rightarrow> nat \<Rightarrow> sourceRxMeta list \<Rightarrow> epAction list" where
  "sourcePathPings newTxID ep disco s verbose n [] = []"
| "sourcePathPings newTxID ep disco s verbose n (source # sources) =
     SendSourcePathPing source ep disco (newTxID n) s verbose # sourcePathPings newTxID ep disco s verbose (Suc n) sources"

text \<open>One turn of the loop over the ping sizes.\<close>

definition startOnePing ::
    "connView \<Rightarrow> (nat \<Rightarrow> txID) \<Rightarrow> epAddr \<Rightarrow> discoKey \<Rightarrow> mono \<Rightarrow> discoPingPurpose \<Rightarrow> nat option \<Rightarrow> bool \<Rightarrow> endpoint \<Rightarrow> int
      \<Rightarrow> endpoint step" where
  "startOnePing cv newTxID ep disco now purpose resCB verbose de s =
     (let txid = newTxID (deDraws de);
          de1 = de\<lparr>deSentPing := gm_set txid
                     \<lparr>spTo = ep, spAt = now, spPurpose = purpose, spSize = s, spResCB = resCB\<rparr> (deSentPing de),
                   deDraws := Suc (deDraws de)\<rparr>;
          de2 = (if purpose = pingHeartbeatForUDPLifetime
                 then de1\<lparr>deProbeUDPLifetime := map_option (\<lambda>p. p\<lparr>plLastTxID := txid\<rparr>) (deProbeUDPLifetime de1)\<rparr> else de1);
          sources = (if purpose \<noteq> pingCLI \<and> isDirect ep then cvProbeSources cv (is4 (apAddr (ap ep))) else [])
      in (de2\<lparr>deDraws := deDraws de2 + length sources\<rparr>,
          SendDiscoPing ep disco txid s verbose
            # sourcePathPings newTxID ep disco s verbose (deDraws de2) sources))"

fun startPings ::
    "connView \<Rightarrow> (nat \<Rightarrow> txID) \<Rightarrow> epAddr \<Rightarrow> discoKey \<Rightarrow> mono \<Rightarrow> discoPingPurpose \<Rightarrow> nat option \<Rightarrow> bool \<Rightarrow> int list \<Rightarrow> endpoint
      \<Rightarrow> endpoint step" where
  "startPings cv newTxID ep disco now purpose resCB verbose [] de = (de, [])"
| "startPings cv newTxID ep disco now purpose resCB verbose (s # sizes) de =
     andThen (startOnePing cv newTxID ep disco now purpose resCB verbose de s)
       (startPings cv newTxID ep disco now purpose resCB verbose sizes)"

definition pingSizes :: "connView \<Rightarrow> epAddr \<Rightarrow> discoPingPurpose \<Rightarrow> int \<Rightarrow> int list" where
  "pingSizes cv ep purpose sz =
     (if cvPeerMTUEnabled cv \<and> apAddr (ap ep) \<noteq> derpMagicIPAddr
         \<and> (purpose = pingDiscovery \<or> (purpose = pingCLI \<and> sz = 0))
      then mtuProbePingSizes (is6 (apAddr (ap ep))) else [sz])"

definition startDiscoPingLocked ::
    "connView \<Rightarrow> (nat \<Rightarrow> txID) \<Rightarrow> epAddr \<Rightarrow> mono \<Rightarrow> discoPingPurpose \<Rightarrow> int \<Rightarrow> nat option \<Rightarrow> endpoint \<Rightarrow> endpoint step" where
  "startDiscoPingLocked cv newTxID ep now purpose sz resCB de =
     (if cvJS cv then (de, [])
      else if cvNeverDirectUDP cv \<and> \<not> vniIsSet (vni ep) \<and> apAddr (ap ep) \<noteq> derpMagicIPAddr then (de, [])
      else case deDisco de of
        None \<Rightarrow> (de, [])
      | Some epDisco \<Rightarrow>
          let tracked = (purpose \<noteq> pingCLI \<and> \<not> vniIsSet (vni ep)) in
          if tracked \<and> gm_get (deEndpointState de) (ap ep) = None then (de, [])
          else
            let de1 = (if tracked
                       then (case gm_get (deEndpointState de) (ap ep) of
                               Some st \<Rightarrow> de\<lparr>deEndpointState := gm_set (ap ep) (st\<lparr>esLastPing := now\<rparr>) (deEndpointState de)\<rparr>
                             | None \<Rightarrow> de)
                       else de);
                verbose = (purpose = pingHeartbeat);
                de2 = (if purpose = pingCLI then noteTxActivityExtTriggerLocked now de1 else de1)
            in startPings cv newTxID ep epDisco now purpose resCB verbose (pingSizes cv ep purpose sz)
                 (de2\<lparr>deLastSendAny := now\<rparr>))"

section \<open>Discovery\<close>

definition wantUDPRelayPathDiscoveryLocked :: "connView \<Rightarrow> mono \<Rightarrow> endpoint \<Rightarrow> bool" where
  "wantUDPRelayPathDiscoveryLocked cv now de =
     (let last = deLastUDPRelayPathDiscovery de in
      if cvJS cv then False
      else if \<not> cvHasPeerRelayServers cv then False
      else if \<not> deRelayCapable de then False
      else if isDirect (aqAddr (deBestAddr de)) \<and> mbefore now (deTrustBestAddrUntil de)
      then
        if \<not> directVsRelayCompareEnabled (cvDvr cv) then False
        else
          let interval = directVsRelayCompareIntervalValue (cvDvr cv);
              effectiveInterval = (if interval < discoverUDPRelayPathsInterval then discoverUDPRelayPathsInterval else interval)
          in \<not> (\<not> mzero last \<and> msub now last < effectiveInterval)
      else if \<not> mzero last \<and> msub now last < discoverUDPRelayPathsInterval then False
      else if mafter now (deTrustBestAddrUntil de) then True
      else \<not> mzero last \<and> msub now last \<ge> upgradeUDPRelayInterval)"

text \<open>\<open>now2\<close> is the second reading of the clock.\<close>

definition discoverUDPRelayPathsLocked :: "mono \<Rightarrow> mono \<Rightarrow> endpoint \<Rightarrow> endpoint step" where
  "discoverUDPRelayPathsLocked now now2 de =
     (de\<lparr>deLastUDPRelayPathDiscovery := now\<rparr>,
      [StartRelayPathDiscovery (deBestAddr de) (mbefore now2 (deTrustBestAddrUntil de))])"

definition wantFullPingLocked :: "connView \<Rightarrow> mono \<Rightarrow> endpoint \<Rightarrow> bool" where
  "wantFullPingLocked cv now de =
     (if cvJS cv then False
      else if \<not> isDirect (aqAddr (deBestAddr de)) \<or> mzero (deLastFullPing de) then True
      else if mafter now (deTrustBestAddrUntil de) then True
      else if aqLatency (deBestAddr de) \<le> goodEnoughLatency then False
      else msub now (deLastFullPing de) \<ge> upgradeUDPDirectInterval)"

text \<open>One turn of the loop of \<open>sendDiscoPingsLocked\<close>; the state is the endpoint and \<open>sentAny\<close>.\<close>

definition sendPingsStep ::
    "connView \<Rightarrow> (nat \<Rightarrow> txID) \<Rightarrow> mono \<Rightarrow> walltime \<Rightarrow> (endpoint \<times> bool) step \<Rightarrow> addrPort \<times> endpointState \<Rightarrow> (endpoint \<times> bool) step" where
  "sendPingsStep cv newTxID now wnow s entry = (case entry of (ep, st) \<Rightarrow>
     andThen s (\<lambda>(de, sentAny).
       if shouldDeleteLocked wnow st then ((deleteEndpointLocked ep de, sentAny), [])
       else if cvJS cv then ((de, sentAny), [])
       else if \<not> mzero (esLastPing st) \<and> msub now (esLastPing st) < discoPingInterval then ((de, sentAny), [])
       else andThen (startDiscoPingLocked cv newTxID \<lparr>ap = ep, vni = 0\<rparr> now pingDiscovery 0 None de)
              (\<lambda>de'. ((de', True), []))))"

definition sendDiscoPingsLocked ::
    "connView \<Rightarrow> (nat \<Rightarrow> txID) \<Rightarrow> mono \<Rightarrow> walltime \<Rightarrow> bool \<Rightarrow> endpoint \<Rightarrow> endpoint step" where
  "sendDiscoPingsLocked cv newTxID now wnow sendCallMeMaybe de =
     (let de0 = de\<lparr>deLastFullPing := now\<rparr> in
      andThen (foldl (sendPingsStep cv newTxID now wnow) ((de0, False), []) (deEndpointState de0))
        (\<lambda>(de1, sentAny). (de1, if sentAny \<and> sendCallMeMaybe \<and> apIsValid (deDerpAddr de1)
                               then [EnqueueCallMeMaybe (deDerpAddr de1)] else [])))"

definition sendWireGuardOnlyPingsLocked :: "connView \<Rightarrow> mono \<Rightarrow> endpoint \<Rightarrow> endpoint step" where
  "sendWireGuardOnlyPingsLocked cv now de =
     (if cvJS cv then (de, [])
      else if \<not> mafter now (madd (deLastFullPing de) (10 * second)) then (de, [])
      else
        (de\<lparr>deLastFullPing := now\<rparr>,
         map SendWireGuardOnlyPing
           (filter (\<lambda>ipp. \<not> (is4 (apAddr ipp) \<and> cvNoV4 cv) \<and> \<not> (is6 (apAddr ipp) \<and> cvNoV6 cv))
             (map fst (deEndpointState de)))))"

definition setLastPing :: "addrPort \<Rightarrow> mono \<Rightarrow> endpoint \<Rightarrow> endpoint" where
  "setLastPing ipp now de =
     (case gm_get (deEndpointState de) ipp of
        None \<Rightarrow> de
      | Some st \<Rightarrow> de\<lparr>deEndpointState := gm_set ipp (st\<lparr>esLastPing := now\<rparr>) (deEndpointState de)\<rparr>)"

text \<open>\<open>sendWireGuardOnlyPing\<close>: \<open>pinger\<close> is whether there is one, \<open>reply\<close> the latency it
  measured or \<open>None\<close> for an error. The lock is released while it waits, so the endpoint it
  comes back to is the argument of \<open>wireGuardOnlyPong\<close>.\<close>

definition wireGuardOnlyPong :: "addrPort \<Rightarrow> mono \<Rightarrow> duration option \<Rightarrow> endpoint \<Rightarrow> endpoint" where
  "wireGuardOnlyPong ipp now reply de =
     (case reply of
        None \<Rightarrow> de
      | Some latency \<Rightarrow>
          (case gm_get (deEndpointState de) ipp of
             None \<Rightarrow> de
           | Some st \<Rightarrow>
               de\<lparr>deEndpointState := gm_set ipp
                    (addPongReplyLocked \<lparr>prLatency = latency, prPongAt = now, prFrom = ipp, prPongSrc = zeroAddrPort\<rparr> st)
                    (deEndpointState de)\<rparr>))"

section \<open>Timers\<close>

definition durAbs :: "duration \<Rightarrow> duration" where
  "durAbs d = (if d \<ge> 0 then d else if d = - (2 ^ 63) then 2 ^ 63 - 1 else - d)"

definition heartbeatForLifetime ::
    "connView \<Rightarrow> (nat \<Rightarrow> txID) \<Rightarrow> mono \<Rightarrow> mono \<Rightarrow> walltime \<Rightarrow> endpoint \<Rightarrow> endpoint step" where
  "heartbeatForLifetime cv newTxID now now2 wnow de =
     (case deProbeUDPLifetime de of
        None \<Rightarrow> (de, [])
      | Some p0 \<Rightarrow>
          if plTimer p0 = None then (de, [])
          else
            let p = p0\<lparr>plTimer := None\<rparr>;
                de1 = de\<lparr>deProbeUDPLifetime := Some p\<rparr>;
                reset = de\<lparr>deProbeUDPLifetime := Some (resetCycleEndpointLocked p)\<rparr>
            in if \<not> apIsValid (ap (plBestAddr p)) \<or> aqAddr (deBestAddr de1) \<noteq> plBestAddr p then (reset, [])
               else case maybeProbeUDPLifetimeLocked cv wnow de1 of
                 ProbePanic \<Rightarrow> (de1, [IndexPanic])
               | ProbeNo \<Rightarrow> (reset, [])
               | ProbeAfter afterInactivityFor \<Rightarrow>
                   let inactiveFor = msub now (max (deLastRecvUDPAny de1) (deLastSendAny de1));
                       delta = dsub afterInactivityFor inactiveFor
                   in if durAbs delta > udpLifetimeProbeSchedulingTolerance
                      then if delta < 0 then (de1, []) else scheduleHeartbeatForLifetimeLocked delta de1
                      else
                        let p' = (if plCurrentCliff p = 0 then p\<lparr>plCycleStartedAt := wnow, plCycleActive := True\<rparr> else p)
                        in startDiscoPingLocked cv newTxID (aqAddr (deBestAddr de1)) now2 pingHeartbeatForUDPLifetime 0 None
                             (de1\<lparr>deProbeUDPLifetime := Some p'\<rparr>))"

definition heartbeat ::
    "connView \<Rightarrow> (nat \<Rightarrow> txID) \<Rightarrow> nat \<Rightarrow> mono \<Rightarrow> mono \<Rightarrow> walltime \<Rightarrow> endpoint \<Rightarrow> endpoint step" where
  "heartbeat cv newTxID pick now now2 wnow de0 =
     (let de = de0\<lparr>deProbeUDPLifetime := map_option (\<lambda>p. p\<lparr>plTimer := None\<rparr>) (deProbeUDPLifetime de0),
                   deHeartBeatTimer := None\<rparr>
      in if deHeartbeatDisabled de then (de, [])
         else if mzero (deLastSendExt de) then (de, [])
         else if msub now (deLastSendExt de) > sessionActiveTimeout
         then (case maybeProbeUDPLifetimeLocked cv wnow de of
                 ProbeNo \<Rightarrow> (de, [])
               | ProbePanic \<Rightarrow> (de, [IndexPanic])
               | ProbeAfter afterInactivityFor \<Rightarrow>
                   let inactiveFor = msub now (max (deLastSendAny de) (deLastRecvUDPAny de));
                       after = dsub afterInactivityFor inactiveFor
                   in if after < 0 then (de, []) else scheduleHeartbeatForLifetimeLocked after de)
         else
           case addrForSendLocked pick now de of ((udpAddr, _, _), de1) \<Rightarrow>
           andThen (if apIsValid (ap udpAddr) then startDiscoPingLocked cv newTxID udpAddr now pingHeartbeat 0 None de1 else (de1, []))
             (\<lambda>de2. andThen (if wantFullPingLocked cv now de2 then sendDiscoPingsLocked cv newTxID now wnow True de2 else (de2, []))
               (\<lambda>de3. andThen (if wantUDPRelayPathDiscoveryLocked cv now de3 then discoverUDPRelayPathsLocked now now2 de3 else (de3, []))
                 (\<lambda>de4. (de4\<lparr>deHeartBeatTimer := Some heartbeatInterval\<rparr>, [])))))"

definition setHeartbeatDisabled :: "bool \<Rightarrow> endpoint \<Rightarrow> endpoint" where
  "setHeartbeatDisabled v de = de\<lparr>deHeartbeatDisabled := v\<rparr>"

section \<open>Pings for a caller\<close>

definition errExpired :: string where "errExpired = ''peer's node key has expired''"
definition errNoUDPOrDERP :: string where "errNoUDPOrDERP = ''no UDP or DERP addr''"
definition errPingTooBig :: string where "errPingTooBig = ''ping size too big''"

text \<open>\<open>MaxDiscoPingSize\<close>; \<open>tstun.MaxPacketSize\<close> comes from wireguard-go and is
  \<open>cvMaxPacketSize\<close>.\<close>

definition MaxDiscoPingSize :: "connView \<Rightarrow> int" where
  "MaxDiscoPingSize cv = cvMaxPacketSize cv - 20 - 8"

fun pingAll :: "connView \<Rightarrow> (nat \<Rightarrow> txID) \<Rightarrow> mono \<Rightarrow> int \<Rightarrow> nat option \<Rightarrow> addrPort list \<Rightarrow> endpoint \<Rightarrow> endpoint step" where
  "pingAll cv newTxID now sz resCB [] de = (de, [])"
| "pingAll cv newTxID now sz resCB (ep # eps) de =
     andThen (startDiscoPingLocked cv newTxID \<lparr>ap = ep, vni = 0\<rparr> now pingCLI sz resCB de)
       (pingAll cv newTxID now sz resCB eps)"

text \<open>\<open>cb\<close> names the callback object made for this call.\<close>

definition discoPing ::
    "connView \<Rightarrow> (nat \<Rightarrow> txID) \<Rightarrow> nat \<Rightarrow> mono \<Rightarrow> mono \<Rightarrow> nat \<Rightarrow> int \<Rightarrow> endpoint \<Rightarrow> endpoint step" where
  "discoPing cv newTxID pick now now2 cb sz de =
     (if deExpired de then (de, [FailPing cb errExpired])
      else if sz > MaxDiscoPingSize cv then (de, [FailPing cb errPingTooBig])
      else case addrForPingSizeLocked pick now sz de of ((udpAddr, derpAddr), de1) \<Rightarrow>
        andThen (if apIsValid derpAddr
                 then startDiscoPingLocked cv newTxID \<lparr>ap = derpAddr, vni = 0\<rparr> now pingCLI sz (Some cb) de1 else (de1, []))
          (\<lambda>de2.
             let trusted = (apIsValid (ap udpAddr) \<and> mbefore now (deTrustBestAddrUntil de2)) in
             andThen (if trusted then startDiscoPingLocked cv newTxID udpAddr now pingCLI sz (Some cb) de2 else (de2, []))
               (\<lambda>de3. if trusted \<and> \<not> vniIsSet (vni udpAddr) then (de3, [])
                 else andThen (pingAll cv newTxID now sz (Some cb) (map fst (deEndpointState de3)) de3)
                   (\<lambda>de4. if wantUDPRelayPathDiscoveryLocked cv now de4
                          then discoverUDPRelayPathsLocked now now2 de4 else (de4, [])))))"

section \<open>The network map\<close>

definition zeroDiscoKey :: discoKey where
  "zeroDiscoKey = replicate 32 0"

text \<open>What \<open>updateFromNode\<close> reads of a \<open>tailcfg.NodeView\<close>.\<close>

record nodeView =
  nvExpired :: bool
  nvDiscoKey :: discoKey
  nvHomeDERP :: int
  nvEndpoints :: "addrPort list"
  nvCap :: int

definition capVerIsRelayCapable :: "int \<Rightarrow> bool" where
  "capVerIsRelayCapable version \<longleftrightarrow> version \<ge> 121"

definition updateDiscoKey :: "discoKey \<Rightarrow> endpoint \<Rightarrow> endpoint" where
  "updateDiscoKey k de = de\<lparr>deDisco := if k = zeroDiscoKey then None else Some k\<rparr>"

definition setEndpointStep ::
    "connView \<Rightarrow> (addrPort, endpointState) gomap \<Rightarrow> nat \<times> addrPort \<Rightarrow> (addrPort, endpointState) gomap" where
  "setEndpointStep cv m entry = (case entry of (i, ipp) \<Rightarrow>
     if \<not> apIsValid ipp then m
     else if cvOmit cv ipp then m
     else case gm_get m ipp of
       Some st \<Rightarrow> gm_set ipp (st\<lparr>esIndex := int i\<rparr>) m
     | None \<Rightarrow> gm_set ipp (zeroEndpointState\<lparr>esIndex := int i\<rparr>) m)"

definition deleteIfStale :: "walltime \<Rightarrow> endpoint \<Rightarrow> addrPort \<times> endpointState \<Rightarrow> endpoint" where
  "deleteIfStale wnow de entry = (if shouldDeleteLocked wnow (snd entry) then deleteEndpointLocked (fst entry) de else de)"

text \<open>The loop ends at the first index above \<open>math.MaxInt16\<close>.\<close>

definition setEndpointsLocked :: "connView \<Rightarrow> walltime \<Rightarrow> addrPort list \<Rightarrow> endpoint \<Rightarrow> endpoint" where
  "setEndpointsLocked cv wnow eps de =
     (let m0 = map (\<lambda>(k, st). (k, st\<lparr>esIndex := indexSentinelDeleted\<rparr>)) (deEndpointState de);
          m1 = foldl (setEndpointStep cv) m0 (takeWhile (\<lambda>(i, ipp). \<not> int i > 32767) (enumerate 0 eps));
          de1 = de\<lparr>deEndpointState := m1\<rparr>
      in foldl (deleteIfStale wnow) de1 m1)"

definition updateFromNode :: "connView \<Rightarrow> walltime \<Rightarrow> nodeView \<Rightarrow> bool \<Rightarrow> bool \<Rightarrow> endpoint \<Rightarrow> endpoint" where
  "updateFromNode cv wnow n heartbeatDisabled probeUDPLifetimeEnabled de =
     (let de1 = de\<lparr>deHeartbeatDisabled := heartbeatDisabled,
                   deProbeUDPLifetime := setProbeUDPLifetimeConfigLocked (deIsWireguardOnly de)
                     (if probeUDPLifetimeEnabled then Some defaultProbeUDPLifetimeConfig else None) (deProbeUDPLifetime de),
                   deExpired := nvExpired n\<rparr>;
          discoKey = (case deDisco de1 of Some k \<Rightarrow> k | None \<Rightarrow> zeroDiscoKey);
          de2 = (if discoKey \<noteq> nvDiscoKey n then updateDiscoKey (nvDiscoKey n) de1 else de1);
          de3 = de2\<lparr>deDerpAddr := if nvHomeDERP n = 0 then zeroAddrPort
                       else \<lparr>apAddr = derpMagicIPAddr, apPort = word_of_int (nvHomeDERP n)\<rparr>\<rparr>;
          de4 = setEndpointsLocked cv wnow (nvEndpoints n) de3
      in de4\<lparr>deRelayCapable := capVerIsRelayCapable (nvCap n)\<rparr>)"

definition setProbeUDPLifetimeOn :: "bool \<Rightarrow> endpoint \<Rightarrow> endpoint" where
  "setProbeUDPLifetimeOn v de = de\<lparr>deProbeUDPLifetime := setProbeUDPLifetimeConfigLocked (deIsWireguardOnly de)
     (if v then Some defaultProbeUDPLifetimeConfig else None) (deProbeUDPLifetime de)\<rparr>"

definition setDERPHome :: "connView \<Rightarrow> u16 \<Rightarrow> endpoint \<Rightarrow> endpoint step" where
  "setDERPHome cv regionID de =
     (de\<lparr>deDerpAddr := \<lparr>apAddr = derpMagicIPAddr, apPort = regionID\<rparr>\<rparr>,
      if cvHasPeerRelayServers cv then [HandleDERPHomeChange regionID] else [])"

section \<open>Messages from the peer\<close>

text \<open>Reports whether the ping is a duplicate.\<close>

definition addCandidateEndpoint :: "connView \<Rightarrow> walltime \<Rightarrow> addrPort \<Rightarrow> txID \<Rightarrow> endpoint \<Rightarrow> bool \<times> endpoint" where
  "addCandidateEndpoint cv wnow ep forRxPingTxID de =
     (if cvOmit cv ep then (False, de)
      else case gm_get (deEndpointState de) ep of
        Some st \<Rightarrow>
          let duplicatePing = (forRxPingTxID = esLastGotPingTxID st);
              st1 = (if duplicatePing then st else st\<lparr>esLastGotPingTxID := forRxPingTxID\<rparr>);
              st2 = (if wzero (esLastGotPing st1) then st1 else st1\<lparr>esLastGotPing := wnow\<rparr>)
          in (duplicatePing, de\<lparr>deEndpointState := gm_set ep st2 (deEndpointState de)\<rparr>)
      | None \<Rightarrow>
          let de1 = de\<lparr>deEndpointState := gm_set ep
                (zeroEndpointState\<lparr>esLastGotPing := wnow, esLastGotPingTxID := forRxPingTxID\<rparr>) (deEndpointState de)\<rparr>
          in (False, if gm_len (deEndpointState de1) > 100
                     then foldl (deleteIfStale wnow) de1 (deEndpointState de1) else de1))"

definition callMeMaybeStep :: "connView \<Rightarrow> walltime \<Rightarrow> endpoint \<Rightarrow> addrPort \<Rightarrow> endpoint" where
  "callMeMaybeStep cv wnow de ep =
     (if is6 (apAddr ep) \<and> addrIsLinkLocalUnicast (apAddr ep) then de
      else if cvOmit cv ep then de
      else
        let st = (case gm_get (deEndpointState de) ep of Some st \<Rightarrow> st | None \<Rightarrow> zeroEndpointState)
        in de\<lparr>deIsCallMeMaybeEP := gm_set ep True (deIsCallMeMaybeEP de),
              deEndpointState := gm_set ep (st\<lparr>esCallMeMaybeTime := wnow\<rparr>) (deEndpointState de)\<rparr>)"

definition dropUnwanted :: "endpoint \<Rightarrow> addrPort \<times> bool \<Rightarrow> endpoint" where
  "dropUnwanted de entry =
     (if snd entry then de
      else deleteEndpointLocked (fst entry) (de\<lparr>deIsCallMeMaybeEP := gm_del (fst entry) (deIsCallMeMaybeEP de)\<rparr>))"

definition noteCallMeMaybe :: "connView \<Rightarrow> walltime \<Rightarrow> addrPort list \<Rightarrow> endpoint \<Rightarrow> endpoint" where
  "noteCallMeMaybe cv wnow myNumber de =
     (let de1 = de\<lparr>deIsCallMeMaybeEP := map (\<lambda>(k, _). (k, False)) (deIsCallMeMaybeEP de)\<rparr>;
          de2 = foldl (callMeMaybeStep cv wnow) de1 myNumber;
          de3 = foldl dropUnwanted de2 (deIsCallMeMaybeEP de2)
      in de3\<lparr>deEndpointState := map (\<lambda>(k, st). (k, st\<lparr>esLastPing := 0\<rparr>)) (deEndpointState de3)\<rparr>)"

definition handleCallMeMaybe ::
    "connView \<Rightarrow> (nat \<Rightarrow> txID) \<Rightarrow> mono \<Rightarrow> mono \<Rightarrow> walltime \<Rightarrow> addrPort list \<Rightarrow> endpoint \<Rightarrow> endpoint step" where
  "handleCallMeMaybe cv newTxID monoNow now2 wnow myNumber de =
     (if cvJS cv then (de, [])
      else andThen (sendDiscoPingsLocked cv newTxID monoNow wnow False (noteCallMeMaybe cv wnow myNumber de))
        (\<lambda>de1. if wantUDPRelayPathDiscoveryLocked cv monoNow de1
               then discoverUDPRelayPathsLocked monoNow now2 de1 else (de1, [])))"

text \<open>\<open>sp.resCB.reply()\<close> and the call of the callback.\<close>

definition replyCallback :: "duration \<Rightarrow> sentPing \<Rightarrow> endpoint \<Rightarrow> endpoint step" where
  "replyCallback latency sp de =
     (case spResCB sp of
        None \<Rightarrow> (de, [])
      | Some cb \<Rightarrow> if cb \<in> set (deTaken de) then (de, [])
          else (de\<lparr>deTaken := cb # deTaken de\<rparr>, [ReplyPing cb latency (spTo sp)]))"

text \<open>The end of \<open>handlePongConnLocked\<close>: the pong becomes the best address if it is better or the
  present one is not trusted.\<close>

definition promotePong :: "dvrEnv \<Rightarrow> mono \<Rightarrow> duration \<Rightarrow> sentPing \<Rightarrow> endpoint \<Rightarrow> endpoint" where
  "promotePong d now latency sp de =
     (let thisPong = \<lparr>aqAddr = spTo sp, aqRelayServerDisco = zeroDiscoKey, aqLatency = latency,
                      aqWireMTU = pingSizeToPktLen (spSize sp) (spTo sp)\<rparr>;
          bestUntrusted = mafter now (deTrustBestAddrUntil de);
          de1 = (if betterAddr d thisPong (deBestAddr de) \<or> bestUntrusted
                 then if \<not> bestUntrusted
                         \<and> \<not> wouldAllowDirectVsRelaySwapLocked d (deLastDirectVsRelaySwap de) (deBestAddr de) thisPong now
                      then de
                      else (setBestAddrLocked thisPong de)\<lparr>deLastDirectVsRelaySwap :=
                             noteDirectVsRelaySwapLocked d (deBestAddr de) thisPong now (deLastDirectVsRelaySwap de)\<rparr>
                 else de)
      in if aqAddr (deBestAddr de1) = aqAddr thisPong
         then de1\<lparr>deBestAddr := (deBestAddr de1)\<lparr>aqLatency := latency\<rparr>, deBestAddrAt := now,
                  deTrustBestAddrUntil := madd now trustUDPAddrDuration\<rparr>
         else de1)"

definition handlePongConnLocked ::
    "connView \<Rightarrow> mono \<Rightarrow> walltime \<Rightarrow> pongMsg \<Rightarrow> epAddr \<Rightarrow> endpoint \<Rightarrow> (bool \<times> endpoint) step" where
  "handlePongConnLocked cv now wnow m src de =
     (let isDerp = (apAddr (ap src) = derpMagicIPAddr) in
      case gm_get (deSentPing de) (pgTxID m) of
        None \<Rightarrow> ((False, de), [])
      | Some sp \<Rightarrow>
          andThen (removeSentDiscoPingLocked cv wnow (pgTxID m) sp discoPongReceived de) (\<lambda>de1.
            let latency = msub now (spAt sp) in
            if \<not> isDerp \<and> isDirect (spTo sp) \<and> cvOmit cv (ap (spTo sp))
            then ((True, deleteEndpointLocked (ap (spTo sp)) de1), [])
            else
              let direct = (\<not> isDerp \<and> \<not> vniIsSet (vni src)) in
              case (if direct then gm_get (deEndpointState de1) (ap (spTo sp)) else Some zeroEndpointState) of
                None \<Rightarrow> ((True, de1), [])
              | Some st \<Rightarrow>
                  let de2 = (if direct
                             then de1\<lparr>deEndpointState := gm_set (ap (spTo sp))
                                       (addPongReplyLocked \<lparr>prLatency = latency, prPongAt = now, prFrom = ap src, prPongSrc = pgSrc m\<rparr> st)
                                       (deEndpointState de1)\<rparr>
                             else de1);
                      acts = (if direct then [SetNodeKeyForEpAddr src] else [])
                  in andThen (de2, acts) (\<lambda>de3. andThen (replyCallback latency sp de3) (\<lambda>de4.
                       ((True, if isDerp then de4 else promotePong (cvDvr cv) now latency sp de4), [])))))"

section \<open>Activity\<close>

text \<open>Reports whether the connection's hook is called; \<open>hook\<close> is whether there is one.\<close>

definition noteRecvActivity :: "bool \<Rightarrow> epAddr \<Rightarrow> mono \<Rightarrow> endpoint \<Rightarrow> bool \<times> endpoint" where
  "noteRecvActivity hook src now de =
     (let de1 = (if deIsWireguardOnly de
                 then de\<lparr>deBestAddr := (deBestAddr de)\<lparr>aqAddr := (aqAddr (deBestAddr de))\<lparr>ap := ap src\<rparr>\<rparr>,
                         deBestAddrAt := now, deTrustBestAddrUntil := madd now (5 * second)\<rparr>
                 else if deHeartbeatDisabled de \<and> aqAddr (deBestAddr de) = src
                 then de\<lparr>deTrustBestAddrUntil := madd now trustUDPAddrDuration\<rparr> else de);
          elapsed = msub now (deLastRecvWG de1)
      in if elapsed > 10 * second then (hook, de1\<lparr>deLastRecvWG := now\<rparr>) else (False, de1))"

definition noteSourcePathDualSendAvailability :: "mono \<Rightarrow> string \<Rightarrow> string \<Rightarrow> int \<Rightarrow> endpoint \<Rightarrow> endpoint" where
  "noteSourcePathDualSendAvailability now dualMode singleReason packets de =
     (if packets \<le> 0 then de
      else if singleReason \<noteq> []
      then if mzero (deSingleSince de) then de\<lparr>deSingleSince := now, deSinglePkts := packets\<rparr>
           else de\<lparr>deSinglePkts := i64 (deSinglePkts de + packets)\<rparr>
      else if dualMode \<noteq> [] \<and> \<not> mzero (deSingleSince de) then de\<lparr>deSingleSince := 0, deSinglePkts := 0\<rparr>
      else de)"

section \<open>Reset\<close>

definition removeAllPings :: "connView \<Rightarrow> walltime \<Rightarrow> endpoint \<Rightarrow> endpoint step" where
  "removeAllPings cv wnow de =
     foldl (\<lambda>s entry. andThen s (removeSentDiscoPingLocked cv wnow (fst entry) (snd entry) discoPingResultUnknown))
       (de, []) (deSentPing de)"

definition resetLocked :: "connView \<Rightarrow> walltime \<Rightarrow> endpoint \<Rightarrow> endpoint step" where
  "resetLocked cv wnow de =
     (let de1 = clearBestAddrLocked (de\<lparr>deLastSendExt := 0, deLastFullPing := 0\<rparr>);
          de2 = de1\<lparr>deRemoteSlots := [(zeroEpAddr, 0), (zeroEpAddr, 0)], dePeerAware := [], deActive := zeroActive\<rparr>;
          de3 = (if mzero (deSingleSince de2) then de2 else de2\<lparr>deSingleSince := 0, deSinglePkts := 0\<rparr>);
          de4 = de3\<lparr>deEndpointState := map (\<lambda>(k, st). (k, st\<lparr>esLastPing := 0\<rparr>)) (deEndpointState de3)\<rparr>
      in andThen (if deIsWireguardOnly de4 then (de4, []) else removeAllPings cv wnow de4)
           (\<lambda>de5. (de5\<lparr>deProbeUDPLifetime := map_option resetCycleEndpointLocked (deProbeUDPLifetime de5)\<rparr>, [StopRelayWork])))"

definition stopAndReset :: "connView \<Rightarrow> walltime \<Rightarrow> endpoint \<Rightarrow> endpoint step" where
  "stopAndReset cv wnow de =
     andThen (resetLocked cv wnow (de\<lparr>deNumStopAndReset := i64 (deNumStopAndReset de + 1)\<rparr>))
       (\<lambda>de1. (de1\<lparr>deHeartBeatTimer := None\<rparr>, []))"

section \<open>A new endpoint\<close>

text \<open>The struct \<open>upsertPeerLocked\<close> makes for a peer it has not seen before.\<close>

definition newEndpoint :: "int \<Rightarrow> nodeKey \<Rightarrow> bool \<Rightarrow> bool \<Rightarrow> endpoint" where
  "newEndpoint nodeID publicKey heartbeatDisabled isWireguardOnly =
     \<lparr>deLastRecvWG = 0, deLastRecvUDPAny = 0, deNumStopAndReset = 0, deNodeID = nodeID, dePublicKey = publicKey,
      deDisco = None, deHeartBeatTimer = None, deLastSendExt = 0, deLastSendAny = 0, deLastFullPing = 0,
      deLastUDPRelayPathDiscovery = 0, deLastDirectVsRelaySwap = 0, deDerpAddr = zeroAddrPort,
      deBestAddr = zeroAddrQuality, deBestAddrAt = 0, deTrustBestAddrUntil = 0,
      deRemoteSlots = [(zeroEpAddr, 0), (zeroEpAddr, 0)], dePeerAware = [], deSingleSince = 0, deSinglePkts = 0,
      deActive = zeroActive, deSentPing = [], deEndpointState = [], deIsCallMeMaybeEP = [],
      deHeartbeatDisabled = heartbeatDisabled, deProbeUDPLifetime = None, deExpired = False,
      deIsWireguardOnly = isWireguardOnly, deRelayCapable = False, deTaken = [], deDraws = 0,
      deNodeAddr = AddrInvalid, deLastDiscoKeyAdvertisement = 0\<rparr>"

end
