(* ===== verification/Endpoint_Inv.thy ===== *)
theory Endpoint_Inv
  imports Endpoint
begin

text \<open>
  The invariant of an endpoint and its preservation by every method. The maps keep distinct keys,
  every ring buffer of pongs keeps its index in range, the lifetime prober keeps a valid
  configuration and its cliff index in range, and there are two remote slots. It makes every slice
  index of the methods safe: no step ends in \<open>IndexPanic\<close>.
\<close>

named_theorems ep_inv

definition statesInv :: "(addrPort, endpointState) gomap \<Rightarrow> bool" where
  "statesInv m \<longleftrightarrow> gm_wf m \<and> (\<forall>k st. (k, st) \<in> set m \<longrightarrow> ringInv st)"

definition endpointInv :: "endpoint \<Rightarrow> bool" where
  "endpointInv de \<longleftrightarrow> statesInv (deEndpointState de) \<and> gm_wf (deSentPing de) \<and> gm_wf (deIsCallMeMaybeEP de)
     \<and> lifetimeInv (deProbeUDPLifetime de) \<and> length (deRemoteSlots de) = 2"

definition okStep :: "endpoint step \<Rightarrow> bool" where
  "okStep s \<longleftrightarrow> endpointInv (fst s) \<and> IndexPanic \<notin> set (snd s)"

lemma okStep_Pair [simp]: "okStep (de, acts) \<longleftrightarrow> endpointInv de \<and> IndexPanic \<notin> set acts"
  by (simp add: okStep_def)

lemma okStep_andThen [ep_inv]:
  "okStep s \<Longrightarrow> (\<And>de. endpointInv de \<Longrightarrow> okStep (f de)) \<Longrightarrow> okStep (andThen s f)"
  by (simp add: okStep_def fst_andThen snd_andThen)

text \<open>Fields the invariant does not read.\<close>

lemma endpointInv_frame [simp]:
  "endpointInv (de\<lparr>deLastRecvWG := t\<rparr>) = endpointInv de"
  "endpointInv (de\<lparr>deLastRecvUDPAny := t\<rparr>) = endpointInv de"
  "endpointInv (de\<lparr>deNumStopAndReset := t\<rparr>) = endpointInv de"
  "endpointInv (de\<lparr>deDisco := dk\<rparr>) = endpointInv de"
  "endpointInv (de\<lparr>deHeartBeatTimer := d\<rparr>) = endpointInv de"
  "endpointInv (de\<lparr>deLastSendExt := t\<rparr>) = endpointInv de"
  "endpointInv (de\<lparr>deLastSendAny := t\<rparr>) = endpointInv de"
  "endpointInv (de\<lparr>deLastFullPing := t\<rparr>) = endpointInv de"
  "endpointInv (de\<lparr>deLastUDPRelayPathDiscovery := t\<rparr>) = endpointInv de"
  "endpointInv (de\<lparr>deLastDirectVsRelaySwap := t\<rparr>) = endpointInv de"
  "endpointInv (de\<lparr>deDerpAddr := a\<rparr>) = endpointInv de"
  "endpointInv (de\<lparr>deBestAddr := q\<rparr>) = endpointInv de"
  "endpointInv (de\<lparr>deBestAddrAt := t\<rparr>) = endpointInv de"
  "endpointInv (de\<lparr>deTrustBestAddrUntil := t\<rparr>) = endpointInv de"
  "endpointInv (de\<lparr>dePeerAware := pa\<rparr>) = endpointInv de"
  "endpointInv (de\<lparr>deSingleSince := t\<rparr>) = endpointInv de"
  "endpointInv (de\<lparr>deSinglePkts := n\<rparr>) = endpointInv de"
  "endpointInv (de\<lparr>deActive := ac\<rparr>) = endpointInv de"
  "endpointInv (de\<lparr>deHeartbeatDisabled := b\<rparr>) = endpointInv de"
  "endpointInv (de\<lparr>deExpired := b\<rparr>) = endpointInv de"
  "endpointInv (de\<lparr>deRelayCapable := b\<rparr>) = endpointInv de"
  "endpointInv (de\<lparr>deTaken := ts\<rparr>) = endpointInv de"
  "endpointInv (de\<lparr>deDraws := k\<rparr>) = endpointInv de"
  "endpointInv (de\<lparr>deNodeAddr := na\<rparr>) = endpointInv de" "endpointInv (de\<lparr>deLastDiscoKeyAdvertisement := t\<rparr>) = endpointInv de"
  by (simp_all add: endpointInv_def)

text \<open>Fields it does read.\<close>

lemma endpointInv_states [simp]:
  "endpointInv de \<Longrightarrow> endpointInv (de\<lparr>deEndpointState := m\<rparr>) \<longleftrightarrow> statesInv m"
  by (auto simp: endpointInv_def)

lemma endpointInv_lifetime [simp]:
  "endpointInv de \<Longrightarrow> endpointInv (de\<lparr>deProbeUDPLifetime := p\<rparr>) \<longleftrightarrow> lifetimeInv p"
  by (auto simp: endpointInv_def)

lemma endpointInv_sentPing [simp]:
  "endpointInv de \<Longrightarrow> endpointInv (de\<lparr>deSentPing := m\<rparr>) \<longleftrightarrow> gm_wf m"
  by (auto simp: endpointInv_def)

lemma endpointInv_callMeMaybe [simp]:
  "endpointInv de \<Longrightarrow> endpointInv (de\<lparr>deIsCallMeMaybeEP := cm\<rparr>) \<longleftrightarrow> gm_wf cm"
  by (auto simp: endpointInv_def)

lemma endpointInv_slots [simp]:
  "endpointInv de \<Longrightarrow> endpointInv (de\<lparr>deRemoteSlots := rs\<rparr>) \<longleftrightarrow> length rs = 2"
  by (auto simp: endpointInv_def)

lemma endpointInvD:
  assumes "endpointInv de"
  shows "statesInv (deEndpointState de)" "gm_wf (deSentPing de)" "gm_wf (deIsCallMeMaybeEP de)"
    "lifetimeInv (deProbeUDPLifetime de)" "length (deRemoteSlots de) = 2"
  using assms by (simp_all add: endpointInv_def)

section \<open>The map of endpoint states\<close>

lemma statesInv_set [ep_inv]: "statesInv m \<Longrightarrow> ringInv st \<Longrightarrow> statesInv (gm_set k st m)"
  by (auto simp: statesInv_def gm_wf_set dest: gm_set_entry)

lemma statesInv_del [ep_inv]: "statesInv m \<Longrightarrow> statesInv (gm_del k m)"
  by (auto simp: statesInv_def gm_wf_del dest: gm_del_entry)

lemma statesInv_get: "statesInv m \<Longrightarrow> gm_get m k = Some st \<Longrightarrow> ringInv st"
  by (auto simp: statesInv_def dest: gm_get_in)

lemma endpointInv_update [ep_inv]:
  assumes "endpointInv de" "gm_get (deEndpointState de) k = Some st" "ringInv st \<Longrightarrow> ringInv st'"
  shows "endpointInv (de\<lparr>deEndpointState := gm_set k st' (deEndpointState de)\<rparr>)"
  using assms by (simp add: statesInv_set endpointInvD statesInv_get [OF endpointInvD(1)])

lemma statesInv_map:
  assumes "statesInv m" "\<And>st. ringInv st \<Longrightarrow> ringInv (f st)"
  shows "statesInv (map (\<lambda>(k, st). (k, f st)) m)"
proof -
  have "map fst (map (\<lambda>(k, st). (k, f st)) m) = map fst m" by (induction m) auto
  then show ?thesis using assms by (auto simp: statesInv_def gm_wf_def simp del: map_map)
qed

lemma ringInv_zero [simp]: "ringInv zeroEndpointState"
  by (simp add: ringInv_def zeroEndpointState_def)

lemma ringInv_clear [simp]: "ringInv (clearEndpointState st)"
  by (simp add: ringInv_def clearEndpointState_def zeroEndpointState_def)

lemma ringInv_upd [simp]:
  "ringInv (st\<lparr>esLastPing := t\<rparr>) = ringInv st"
  "ringInv (st\<lparr>esLastGotPing := w\<rparr>) = ringInv st"
  "ringInv (st\<lparr>esLastGotPingTxID := x\<rparr>) = ringInv st"
  "ringInv (st\<lparr>esCallMeMaybeTime := w\<rparr>) = ringInv st"
  "ringInv (st\<lparr>esIndex := i\<rparr>) = ringInv st"
  by (simp_all add: ringInv_def)

lemma lifetimeInv_map_reset [simp]: "lifetimeInv po \<Longrightarrow> lifetimeInv (map_option resetCycleEndpointLocked po)"
  by (cases po) (simp_all add: lifetimeInv_reset)

lemma lifetimeInv_upd [simp]:
  "lifetimeInv (Some (p\<lparr>plTimer := x\<rparr>)) = lifetimeInv (Some p)"
  "lifetimeInv (Some (p\<lparr>plBestAddr := a\<rparr>)) = lifetimeInv (Some p)"
  "lifetimeInv (Some (p\<lparr>plCycleStartedAt := t\<rparr>)) = lifetimeInv (Some p)"
  "lifetimeInv (Some (p\<lparr>plCycleActive := b\<rparr>)) = lifetimeInv (Some p)"
  "lifetimeInv (Some (p\<lparr>plLastTxID := y\<rparr>)) = lifetimeInv (Some p)"
  by (simp_all add: lifetimeInv_def)

lemma lifetimeInv_map_upd [simp]:
  "lifetimeInv po \<Longrightarrow> lifetimeInv (map_option (\<lambda>p. p\<lparr>plLastTxID := y\<rparr>) po)"
  "lifetimeInv po \<Longrightarrow> lifetimeInv (map_option (\<lambda>p. p\<lparr>plTimer := x\<rparr>) po)"
  by (cases po; simp)+

section \<open>Preservation\<close>

lemma inv_setBestAddr [ep_inv]: "endpointInv de \<Longrightarrow> endpointInv (setBestAddrLocked v de)"
  by (simp add: setBestAddrLocked_def endpointInvD)

lemma inv_clearBestAddr [ep_inv]: "endpointInv de \<Longrightarrow> endpointInv (clearBestAddrLocked de)"
  by (simp add: clearBestAddrLocked_def inv_setBestAddr)

lemma inv_relayReady [ep_inv]: "endpointInv de \<Longrightarrow> endpointInv (udpRelayEndpointReady d q now de)"
  by (simp add: udpRelayEndpointReady_def Let_def inv_setBestAddr)

lemma inv_delete [ep_inv]: "endpointInv de \<Longrightarrow> endpointInv (deleteEndpointLocked ep de)"
  by (simp add: deleteEndpointLocked_def Let_def inv_setBestAddr endpointInvD statesInv_del)

lemma inv_noteBad [ep_inv]: "endpointInv de \<Longrightarrow> endpointInv (noteBadEndpoint a de)"
  by (simp add: noteBadEndpoint_def Let_def inv_clearBestAddr statesInv_set endpointInvD split: option.split)

lemma inv_connectivity [ep_inv]: "endpointInv de \<Longrightarrow> endpointInv (noteConnectivityChange de)"
  by (simp add: noteConnectivityChange_def Let_def inv_clearBestAddr statesInv_map endpointInvD)

lemma inv_addrForWireGuardSend [ep_inv]: "endpointInv de \<Longrightarrow> endpointInv (snd (addrForWireGuardSendLocked pick now de))"
  by (simp add: addrForWireGuardSendLocked_def Let_def split: prod.split)

lemma inv_addrForSend [ep_inv]: "endpointInv de \<Longrightarrow> endpointInv (snd (addrForSendLocked pick now de))"
  using inv_addrForWireGuardSend [of de pick now] by (auto simp: addrForSendLocked_def Let_def split: prod.split)

lemma inv_addrForPingSize [ep_inv]: "endpointInv de \<Longrightarrow> endpointInv (snd (addrForPingSizeLocked pick now sz de))"
  using inv_addrForSend [of de pick now] by (auto simp: addrForPingSizeLocked_def Let_def split: prod.split)

lemma maybeProbe_safe: "endpointInv de \<Longrightarrow> maybeProbeUDPLifetimeLocked cv wnow de \<noteq> ProbePanic"
proof (cases "deProbeUDPLifetime de")
  case (Some p)
  assume "endpointInv de"
  with Some have "lifetimeInv (Some p)" using endpointInvD(4) by fastforce
  then obtain c where "currentCliffDurationEndpointLocked p = Some c" by (rule currentCliff_inRange)
  with Some show ?thesis by (simp add: maybeProbeUDPLifetimeLocked_def Let_def split: option.split)
qed (simp add: maybeProbeUDPLifetimeLocked_def)

lemma ok_schedule [ep_inv]: "endpointInv de \<Longrightarrow> okStep (scheduleHeartbeatForLifetimeLocked after de)"
proof (cases "deProbeUDPLifetime de")
  case (Some p)
  assume inv: "endpointInv de"
  with Some have l: "lifetimeInv (Some p)" using endpointInvD(4) by fastforce
  then obtain c where "currentCliffDurationEndpointLocked p = Some c" by (rule currentCliff_inRange)
  with Some inv l show ?thesis by (simp add: scheduleHeartbeatForLifetimeLocked_def)
qed (simp add: scheduleHeartbeatForLifetimeLocked_def)

lemma ok_cliffDone [ep_inv]: "endpointInv de \<Longrightarrow> okStep (probeUDPLifetimeCliffDoneLocked cv wnow result txid de)"
proof (cases "deProbeUDPLifetime de")
  case (Some p)
  assume inv: "endpointInv de"
  with Some have l: "lifetimeInv (Some p)" using endpointInvD(4) by fastforce
  let ?de1 = "de\<lparr>deProbeUDPLifetime := Some (p\<lparr>plCurrentCliff := plCurrentCliff p + 1\<rparr>)\<rparr>"
  have next1: "endpointInv ?de1" if "plCurrentCliff p < int (length (pcCliffs (plConfig p))) - 1"
    using inv l that by (simp add: lifetimeInv_def)
  have r: "plCurrentCliff p < int (length (pcCliffs (plConfig p)))" using l by (simp add: lifetimeInv_def)
  show ?thesis
    using Some inv l r next1 maybeProbe_safe [of ?de1 cv wnow] ok_schedule [of ?de1]
    by (auto simp: probeUDPLifetimeCliffDoneLocked_def Let_def lifetimeInv_reset not_le split: maybeProbe.split)
qed (simp add: probeUDPLifetimeCliffDoneLocked_def)

lemma ok_removePing [ep_inv]: "endpointInv de \<Longrightarrow> okStep (removeSentDiscoPingLocked cv wnow txid sp result de)"
  unfolding removeSentDiscoPingLocked_def
  by (rule okStep_andThen) (simp_all add: ok_cliffDone endpointInvD gm_wf_del)

lemma ok_pingTimeout [ep_inv]: "endpointInv de \<Longrightarrow> okStep (discoPingTimeout cv now wnow txid de)"
  by (simp add: discoPingTimeout_def Let_def ok_removePing inv_clearBestAddr split: option.split)

lemma ok_forgetPing [ep_inv]: "endpointInv de \<Longrightarrow> okStep (forgetDiscoPing cv wnow txid de)"
  by (simp add: forgetDiscoPing_def ok_removePing split: option.split)

lemma inv_noteTx [ep_inv]: "endpointInv de \<Longrightarrow> endpointInv (noteTxActivityExtTriggerLocked now de)"
  by (simp add: noteTxActivityExtTriggerLocked_def Let_def)

lemma sourcePathPings_safe: "IndexPanic \<notin> set (sourcePathPings newTxID ep disco s verbose n sources)"
  by (induction sources arbitrary: n) simp_all

lemma ok_startOne [ep_inv]: "endpointInv de \<Longrightarrow> okStep (startOnePing cv newTxID ep disco now purpose resCB verbose de s)"
  by (simp add: startOnePing_def Let_def sourcePathPings_safe gm_wf_set endpointInvD)

lemma ok_startPings [ep_inv]:
  "endpointInv de \<Longrightarrow> okStep (startPings cv newTxID ep disco now purpose resCB verbose sizes de)"
proof (induction sizes arbitrary: de)
  case (Cons s sizes)
  show ?case unfolding startPings.simps
    by (rule okStep_andThen) (simp_all add: Cons ok_startOne)
qed simp

lemma ok_startDiscoPing [ep_inv]: "endpointInv de \<Longrightarrow> okStep (startDiscoPingLocked cv newTxID ep now purpose sz resCB de)"
proof -
  assume inv: "endpointInv de"
  have "endpointInv (de\<lparr>deEndpointState := gm_set (ap ep) (st\<lparr>esLastPing := now\<rparr>) (deEndpointState de)\<rparr>)"
    if "gm_get (deEndpointState de) (ap ep) = Some st" for st
    using inv that by (rule endpointInv_update) simp
  then show ?thesis using inv
    by (auto simp: startDiscoPingLocked_def Let_def inv_noteTx intro!: ok_startPings split: option.split)
qed

lemma ok_discoverRelay [ep_inv]: "endpointInv de \<Longrightarrow> okStep (discoverUDPRelayPathsLocked now now2 de)"
  by (simp add: discoverUDPRelayPathsLocked_def)

text \<open>The loop of \<open>sendDiscoPingsLocked\<close> carries a flag beside the endpoint.\<close>

lemma ok_sendPingsStep:
  assumes "endpointInv (fst (fst s))" "IndexPanic \<notin> set (snd s)"
  shows "endpointInv (fst (fst (sendPingsStep cv newTxID now wnow s entry)))
    \<and> IndexPanic \<notin> set (snd (sendPingsStep cv newTxID now wnow s entry))"
  using assms ok_startDiscoPing [of "fst (fst s)" cv newTxID "\<lparr>ap = fst entry, vni = 0\<rparr>" now pingDiscovery 0 None]
  by (auto simp: sendPingsStep_def fst_andThen snd_andThen okStep_def inv_delete split: prod.split)

lemma ok_sendPingsLoop:
  assumes "endpointInv (fst (fst s))" "IndexPanic \<notin> set (snd s)"
  shows "endpointInv (fst (fst (foldl (sendPingsStep cv newTxID now wnow) s es)))
    \<and> IndexPanic \<notin> set (snd (foldl (sendPingsStep cv newTxID now wnow) s es))"
  using assms
proof (induction es arbitrary: s)
  case (Cons entry es)
  from ok_sendPingsStep [OF Cons.prems] have "endpointInv (fst (fst (sendPingsStep cv newTxID now wnow s entry)))"
    "IndexPanic \<notin> set (snd (sendPingsStep cv newTxID now wnow s entry))" by blast+
  from Cons.IH [OF this] show ?case by simp
qed simp

lemma ok_sendDiscoPings [ep_inv]: "endpointInv de \<Longrightarrow> okStep (sendDiscoPingsLocked cv newTxID now wnow cmm de)"
proof -
  assume "endpointInv de"
  then have "endpointInv (fst (fst ((de\<lparr>deLastFullPing := now\<rparr>, False), [] :: epAction list)))" by simp
  from ok_sendPingsLoop [OF this, of cv newTxID now wnow] show ?thesis
    by (simp add: sendDiscoPingsLocked_def Let_def okStep_def fst_andThen snd_andThen split_beta)
qed

lemma ok_wgPings [ep_inv]: "endpointInv de \<Longrightarrow> okStep (sendWireGuardOnlyPingsLocked cv now de)"
  by (auto simp: sendWireGuardOnlyPingsLocked_def)

lemma inv_setLastPing [ep_inv]: "endpointInv de \<Longrightarrow> endpointInv (setLastPing ipp now de)"
  unfolding setLastPing_def by (cases "gm_get (deEndpointState de) ipp") (auto intro: endpointInv_update simp del: endpointInv_states)

lemma inv_wgPong [ep_inv]: "endpointInv de \<Longrightarrow> endpointInv (wireGuardOnlyPong ipp now reply de)"
  unfolding wireGuardOnlyPong_def
  by (cases reply; cases "gm_get (deEndpointState de) ipp") (auto intro: endpointInv_update addPong_history(1) simp del: endpointInv_states)

lemma ok_lifetimeTimer [ep_inv]: "endpointInv de \<Longrightarrow> okStep (heartbeatForLifetime cv newTxID now now2 wnow de)"
proof (cases "deProbeUDPLifetime de")
  case (Some p)
  assume inv: "endpointInv de"
  with Some have l: "lifetimeInv (Some p)" using endpointInvD(4) by fastforce
  let ?de1 = "de\<lparr>deProbeUDPLifetime := Some (p\<lparr>plTimer := None\<rparr>)\<rparr>"
  have i1: "endpointInv ?de1" using inv l by simp
  have i2: "endpointInv (de\<lparr>deProbeUDPLifetime := Some (resetCycleEndpointLocked (p\<lparr>plTimer := None\<rparr>))\<rparr>)"
    using inv l by (simp add: lifetimeInv_reset)
  have i3: "endpointInv (?de1\<lparr>deProbeUDPLifetime := Some (if b then p\<lparr>plTimer := None, plCycleStartedAt := wnow, plCycleActive := True\<rparr>
      else p\<lparr>plTimer := None\<rparr>)\<rparr>)" for b
    using inv l by simp
  show ?thesis
    using inv Some i1 i2 i3 maybeProbe_safe [OF i1, of cv wnow]
    by (auto simp: heartbeatForLifetime_def Let_def intro!: ok_schedule ok_startDiscoPing split: maybeProbe.split)
qed (simp add: heartbeatForLifetime_def)

lemma ok_heartbeat [ep_inv]: "endpointInv de \<Longrightarrow> okStep (heartbeat cv newTxID pick now now2 wnow de)"
proof -
  assume inv: "endpointInv de"
  let ?de = "de\<lparr>deProbeUDPLifetime := map_option (\<lambda>p. p\<lparr>plTimer := None\<rparr>) (deProbeUDPLifetime de), deHeartBeatTimer := None\<rparr>"
  have i: "endpointInv ?de" using inv by (simp add: endpointInvD)
  have rest: "okStep (andThen (if apIsValid (ap udpAddr) then startDiscoPingLocked cv newTxID udpAddr now pingHeartbeat 0 None de1 else (de1, []))
       (\<lambda>de2. andThen (if wantFullPingLocked cv now de2 then sendDiscoPingsLocked cv newTxID now wnow True de2 else (de2, []))
         (\<lambda>de3. andThen (if wantUDPRelayPathDiscoveryLocked cv now de3 then discoverUDPRelayPathsLocked now now2 de3 else (de3, []))
           (\<lambda>de4. (de4\<lparr>deHeartBeatTimer := Some heartbeatInterval\<rparr>, [])))))"
    if "endpointInv de1" for udpAddr de1
    using that by (intro okStep_andThen) (simp_all add: ok_startDiscoPing ok_sendDiscoPings ok_discoverRelay)
  obtain u dp w de1 where a: "addrForSendLocked pick now ?de = ((u, dp, w), de1)" by (metis prod.exhaust)
  then have "endpointInv de1" using inv_addrForSend [OF i, of pick now] by simp
  note rest = rest [OF this, of u]
  show ?thesis
    using i maybeProbe_safe [OF i, of cv wnow] ok_schedule [OF i]
    by (simp add: heartbeat_def Let_def a rest split: maybeProbe.split del: andThen_Pair)
qed

lemma inv_setHeartbeatDisabled [ep_inv]: "endpointInv de \<Longrightarrow> endpointInv (setHeartbeatDisabled v de)"
  by (simp add: setHeartbeatDisabled_def)

lemma ok_pingAll [ep_inv]: "endpointInv de \<Longrightarrow> okStep (pingAll cv newTxID now sz resCB eps de)"
proof (induction eps arbitrary: de)
  case (Cons ep eps)
  show ?case unfolding pingAll.simps by (rule okStep_andThen) (simp_all add: Cons ok_startDiscoPing)
qed simp

lemma ok_discoPing [ep_inv]: "endpointInv de \<Longrightarrow> okStep (discoPing cv newTxID pick now now2 cb sz de)"
proof -
  assume inv: "endpointInv de"
  obtain u dp de1 where a: "addrForPingSizeLocked pick now sz de = ((u, dp), de1)" by (metis prod.exhaust)
  then have i1: "endpointInv de1" using inv_addrForPingSize [OF inv, of pick now sz] by simp
  show ?thesis
    unfolding discoPing_def a Let_def using inv i1
    by (auto simp: ok_startDiscoPing ok_pingAll ok_discoverRelay simp del: andThen_Pair intro!: okStep_andThen)
qed

lemma inv_updateDiscoKey [ep_inv]: "endpointInv de \<Longrightarrow> endpointInv (updateDiscoKey k de)"
  by (simp add: updateDiscoKey_def)

lemma statesInv_setEndpointStep: "statesInv m \<Longrightarrow> statesInv (setEndpointStep cv m entry)"
  by (auto simp: setEndpointStep_def intro!: statesInv_set dest: statesInv_get split: prod.split option.split)

lemma statesInv_setEndpointFold: "statesInv m \<Longrightarrow> statesInv (foldl (setEndpointStep cv) m es)"
  by (induction es arbitrary: m) (simp_all add: statesInv_setEndpointStep)

lemma inv_deleteStale: "endpointInv de \<Longrightarrow> endpointInv (foldl (deleteIfStale wnow) de es)"
  by (induction es arbitrary: de) (simp_all add: deleteIfStale_def inv_delete)

lemma inv_setEndpoints [ep_inv]: "endpointInv de \<Longrightarrow> endpointInv (setEndpointsLocked cv wnow eps de)"
  unfolding setEndpointsLocked_def Let_def
  by (rule inv_deleteStale) (simp add: statesInv_setEndpointFold statesInv_map endpointInvD)

lemma inv_updateFromNode [ep_inv]: "endpointInv de \<Longrightarrow> endpointInv (updateFromNode cv wnow n hb pl de)"
  by (simp add: updateFromNode_def Let_def inv_setEndpoints inv_updateDiscoKey lifetimeInv_setConfig endpointInvD)

lemma inv_setLifetimeOn [ep_inv]: "endpointInv de \<Longrightarrow> endpointInv (setProbeUDPLifetimeOn v de)"
  by (simp add: setProbeUDPLifetimeOn_def lifetimeInv_setConfig endpointInvD)

lemma ok_setDERPHome [ep_inv]: "endpointInv de \<Longrightarrow> okStep (setDERPHome cv r de)"
  by (simp add: setDERPHome_def)

lemma inv_addCandidate [ep_inv]: "endpointInv de \<Longrightarrow> endpointInv (snd (addCandidateEndpoint cv wnow ep txid de))"
proof (cases "gm_get (deEndpointState de) ep")
  case None
  assume inv: "endpointInv de"
  let ?de1 = "de\<lparr>deEndpointState := gm_set ep
                (zeroEndpointState\<lparr>esLastGotPing := wnow, esLastGotPingTxID := txid\<rparr>) (deEndpointState de)\<rparr>"
  have "endpointInv ?de1" using inv by (simp add: statesInv_set endpointInvD)
  then show ?thesis using inv None inv_deleteStale [of ?de1 wnow "deEndpointState ?de1"]
    by (simp add: addCandidateEndpoint_def Let_def)
next
  case (Some st)
  assume inv: "endpointInv de"
  show ?thesis using inv endpointInv_update [OF inv Some]
    by (simp add: addCandidateEndpoint_def Let_def Some del: endpointInv_states)
qed

lemma inv_callMeMaybeStep: "endpointInv de \<Longrightarrow> endpointInv (callMeMaybeStep cv wnow de ep)"
proof -
  assume inv: "endpointInv de"
  let ?st = "case gm_get (deEndpointState de) ep of Some st \<Rightarrow> st | None \<Rightarrow> zeroEndpointState"
  have "ringInv ?st" using statesInv_get [OF endpointInvD(1) [OF inv]] by (simp split: option.split)
  then show ?thesis using inv by (simp add: callMeMaybeStep_def Let_def statesInv_set endpointInvD gm_wf_set)
qed

lemma inv_callMeMaybeFold: "endpointInv de \<Longrightarrow> endpointInv (foldl (callMeMaybeStep cv wnow) de eps)"
  by (induction eps arbitrary: de) (simp_all add: inv_callMeMaybeStep)

lemma inv_dropUnwanted: "endpointInv de \<Longrightarrow> endpointInv (foldl dropUnwanted de es)"
  by (induction es arbitrary: de) (simp_all add: dropUnwanted_def inv_delete gm_wf_del endpointInvD)

lemma gm_wf_map_values: "gm_wf m \<Longrightarrow> gm_wf (map (\<lambda>(k, x). (k, f x)) m)"
proof -
  have "map fst (map (\<lambda>(k, x). (k, f x)) m) = map fst m" by (induction m) auto
  then show "gm_wf m \<Longrightarrow> gm_wf (map (\<lambda>(k, x). (k, f x)) m)" by (simp add: gm_wf_def del: map_map)
qed

lemma inv_noteCallMeMaybe [ep_inv]: "endpointInv de \<Longrightarrow> endpointInv (noteCallMeMaybe cv wnow eps de)"
proof -
  assume inv: "endpointInv de"
  let ?de1 = "de\<lparr>deIsCallMeMaybeEP := map (\<lambda>(k, _). (k, False)) (deIsCallMeMaybeEP de)\<rparr>"
  let ?de2 = "foldl (callMeMaybeStep cv wnow) ?de1 eps"
  let ?de3 = "foldl dropUnwanted ?de2 (deIsCallMeMaybeEP ?de2)"
  have "endpointInv ?de1" using inv gm_wf_map_values [OF endpointInvD(3) [OF inv], of "\<lambda>_. False"] by simp
  then have "endpointInv ?de3" by (intro inv_dropUnwanted inv_callMeMaybeFold)
  then show ?thesis by (simp add: noteCallMeMaybe_def Let_def statesInv_map endpointInvD)
qed

lemma ok_handleCallMeMaybe [ep_inv]:
  "endpointInv de \<Longrightarrow> okStep (handleCallMeMaybe cv newTxID monoNow now2 wnow eps de)"
  unfolding handleCallMeMaybe_def
  by (auto simp: ok_sendDiscoPings ok_discoverRelay inv_noteCallMeMaybe simp del: andThen_Pair intro!: okStep_andThen)

lemma ok_reply: "endpointInv de \<Longrightarrow> okStep (replyCallback latency sp de)"
  by (simp add: replyCallback_def split: option.split)

lemma inv_promote [ep_inv]: "endpointInv de \<Longrightarrow> endpointInv (promotePong d now latency sp de)"
  by (simp add: promotePong_def Let_def inv_setBestAddr)

lemma ok_handlePong [ep_inv]:
  assumes inv: "endpointInv de"
  shows "endpointInv (snd (fst (handlePongConnLocked cv now wnow m src de)))
    \<and> IndexPanic \<notin> set (snd (handlePongConnLocked cv now wnow m src de))"
proof (cases "gm_get (deSentPing de) (pgTxID m)")
  case (Some sp)
  let ?rm = "removeSentDiscoPingLocked cv wnow (pgTxID m) sp discoPongReceived de"
  let ?r = "\<lparr>prLatency = msub now (spAt sp), prPongAt = now, prFrom = ap src, prPongSrc = pgSrc m\<rparr>"
  obtain de1 acts1 where rm: "?rm = (de1, acts1)" by fastforce
  with ok_removePing [OF inv, of cv wnow "pgTxID m" sp discoPongReceived]
  have i1: "endpointInv de1" and a1: "IndexPanic \<notin> set acts1" by simp_all
  have i2: "endpointInv (de1\<lparr>deEndpointState := gm_set (ap (spTo sp)) (addPongReplyLocked ?r st) (deEndpointState de1)\<rparr>)"
    if "gm_get (deEndpointState de1) (ap (spTo sp)) = Some st" for st
    using endpointInv_update [OF i1 that] addPong_history(1) by blast
  have rest: "endpointInv (fst (replyCallback l sp de2)) \<and> IndexPanic \<notin> set (snd (replyCallback l sp de2))"
    if "endpointInv de2" for de2 l
    using ok_reply [OF that] by (simp add: okStep_def)
  show ?thesis using i1 i2 a1 rest
    by (auto simp: handlePongConnLocked_def Some rm Let_def fst_andThen snd_andThen inv_delete inv_promote simp del: endpointInv_states
        split: option.split)
qed (use inv in \<open>simp add: handlePongConnLocked_def\<close>)

lemma inv_noteRecv [ep_inv]: "endpointInv de \<Longrightarrow> endpointInv (snd (noteRecvActivity hook src now de))"
  by (simp add: noteRecvActivity_def Let_def)

lemma inv_availability [ep_inv]: "endpointInv de \<Longrightarrow> endpointInv (noteSourcePathDualSendAvailability now dm sr n de)"
  by (simp add: noteSourcePathDualSendAvailability_def)

lemma ok_removeFold:
  "okStep s \<Longrightarrow>
   okStep (foldl (\<lambda>s entry. andThen s (removeSentDiscoPingLocked cv wnow (fst entry) (snd entry) discoPingResultUnknown)) s es)"
  by (induction es arbitrary: s) (simp_all add: okStep_andThen ok_removePing)

lemma ok_reset [ep_inv]: "endpointInv de \<Longrightarrow> okStep (resetLocked cv wnow de)"
proof -
  assume inv: "endpointInv de"
  have i: "endpointInv (clearBestAddrLocked (de\<lparr>deLastSendExt := 0, deLastFullPing := 0\<rparr>))"
    using inv by (simp add: inv_clearBestAddr)
  show ?thesis unfolding resetLocked_def Let_def removeAllPings_def
    using i by (auto simp: endpointInvD statesInv_map simp del: andThen_Pair intro!: okStep_andThen ok_removeFold)
qed

lemma ok_stopAndReset [ep_inv]: "endpointInv de \<Longrightarrow> okStep (stopAndReset cv wnow de)"
  unfolding stopAndReset_def by (rule okStep_andThen) (simp_all add: ok_reset)

lemma inv_newEndpoint [ep_inv]: "endpointInv (newEndpoint nid k hb wg)"
  by (simp add: endpointInv_def newEndpoint_def statesInv_def)

end
