(* ===== verification/Endpoint_Candidates.thy ===== *)
theory Endpoint_Candidates
  imports Endpoint_Inv
begin

text \<open>
  The endpoint half of redundant sending: the direct remote addresses an endpoint can send to
  (\<open>src/wgengine/magicsock/endpoint.go\<close>, from \<open>compareDualEndpointCandidate\<close> to
  \<open>dualSendObservedEndpointAddrsForSendLocked\<close>) and the two remote source addresses it has
  observed (\<open>classifySourcePathRemoteSlot\<close> and its neighbours in
  \<open>src/wgengine/magicsock/magicsock.go\<close>).
\<close>

section \<open>Candidates\<close>

record dualEndpointCandidate =
  dcAddr :: epAddr
  dcLatency :: duration
  dcHasLatency :: bool
  dcLastPing :: mono
  dcIsBest :: bool

definition compareDualEndpointCandidate :: "dualEndpointCandidate \<Rightarrow> dualEndpointCandidate \<Rightarrow> int" where
  "compareDualEndpointCandidate a b =
     (if dcHasLatency a \<noteq> dcHasLatency b then if dcHasLatency a then - 1 else 1
      else if dcHasLatency a \<and> dcLatency a \<noteq> dcLatency b then if dcLatency a < dcLatency b then - 1 else 1
      else if dcIsBest a \<noteq> dcIsBest b then if dcIsBest a then - 1 else 1
      else if is6 (apAddr (ap (dcAddr a))) \<noteq> is6 (apAddr (ap (dcAddr b))) then if is6 (apAddr (ap (dcAddr a))) then - 1 else 1
      else if apString (ap (dcAddr a)) < apString (ap (dcAddr b)) then - 1
      else if apString (ap (dcAddr a)) > apString (ap (dcAddr b)) then 1
      else 0)"

definition candidateKey :: "dualEndpointCandidate \<Rightarrow> bool \<times> int \<times> bool \<times> bool \<times> string" where
  "candidateKey c = (\<not> dcHasLatency c, if dcHasLatency c then dcLatency c else 0, \<not> dcIsBest c,
     \<not> is6 (apAddr (ap (dcAddr c))), apString (ap (dcAddr c)))"

lemma compare_candidateKey: "compareDualEndpointCandidate a b = cmpOf candidateKey a b"
  by (simp add: compareDualEndpointCandidate_def cmpOf_def candidateKey_def less_prod_def')

lemma candidateKey_latency:
  assumes "candidateKey a \<le> candidateKey b" "dcHasLatency b"
  shows "dcHasLatency a" "dcLatency a \<le> dcLatency b"
  using assms by (auto simp: candidateKey_def less_eq_prod_def split: if_splits)

interpretation dests: comparison compareDualEndpointCandidate "\<lambda>_. True"
  by (rule comparison_by_key) (rule compare_candidateKey)

text \<open>The closure \<open>add\<close>; the state is \<open>(candidates, oldestPing, seen)\<close>.\<close>

type_synonym collected = "dualEndpointCandidate list \<times> mono \<times> addrPort list"

definition addDirect ::
    "mono \<Rightarrow> walltime \<Rightarrow> endpoint \<Rightarrow> epAddr \<Rightarrow> endpointState option \<Rightarrow> collected \<Rightarrow> collected" where
  "addDirect now wnow de addr state acc = (case acc of (candidates, oldestPing, seen) \<Rightarrow>
     if \<not> isDirect addr \<or> ap addr \<in> set seen then acc
     else
       let seen' = ap addr # seen;
           candidate = \<lparr>dcAddr = addr, dcLatency = 0, dcHasLatency = False, dcLastPing = 0,
             dcIsBest = (aqAddr (deBestAddr de) = addr \<and> \<not> mafter now (deTrustBestAddrUntil de))\<rparr>
       in case state of
            None \<Rightarrow> (candidates @ [candidate], oldestPing, seen')
          | Some st \<Rightarrow>
              if shouldDeleteLocked wnow st then (candidates, oldestPing, seen')
              else
                let oldestPing' = (if mzero oldestPing \<or> mbefore (esLastPing st) oldestPing then esLastPing st else oldestPing);
                    candidate' = candidate\<lparr>
                      dcLatency := (case latencyLocked st of Some l \<Rightarrow> l | None \<Rightarrow> 0),
                      dcHasLatency := (case latencyLocked st of Some l \<Rightarrow> l > 0 | None \<Rightarrow> False),
                      dcLastPing := esLastPing st\<rparr>
                in (candidates @ [candidate'], oldestPing', seen'))"

definition addKnown :: "mono \<Rightarrow> walltime \<Rightarrow> endpoint \<Rightarrow> collected \<Rightarrow> addrPort \<times> endpointState \<Rightarrow> collected" where
  "addKnown now wnow de acc entry = addDirect now wnow de \<lparr>ap = fst entry, vni = 0\<rparr> (Some (snd entry)) acc"

definition freshSeen :: "mono \<Rightarrow> mono \<Rightarrow> bool" where
  "freshSeen now seen \<longleftrightarrow> \<not> (mzero seen \<or> msub now seen > sessionActiveTimeout)"

definition addSlot :: "mono \<Rightarrow> walltime \<Rightarrow> endpoint \<Rightarrow> collected \<Rightarrow> epAddr \<times> mono \<Rightarrow> collected" where
  "addSlot now wnow de acc slot = (case slot of (addr, seenAt) \<Rightarrow>
     if \<not> isDirect addr \<or> ap addr \<in> set (snd (snd acc)) then acc
     else if \<not> freshSeen now seenAt then acc
     else addDirect now wnow de addr (gm_get (deEndpointState de) (ap addr)) acc)"

definition sourcePathDirectEndpointCandidatesLocked ::
    "mono \<Rightarrow> walltime \<Rightarrow> endpoint \<Rightarrow> dualEndpointCandidate list \<times> mono" where
  "sourcePathDirectEndpointCandidatesLocked now wnow de =
     (case foldl (addSlot now wnow de) (foldl (addKnown now wnow de) ([], 0, []) (deEndpointState de)) (deRemoteSlots de) of
        (candidates, oldestPing, _) \<Rightarrow> (sortFunc compareDualEndpointCandidate candidates, oldestPing))"

section \<open>Choosing destinations\<close>

definition dualEndpointAddrsForSendLocked :: "mono \<Rightarrow> walltime \<Rightarrow> endpoint \<Rightarrow> (epAddr list \<times> bool) \<times> endpoint" where
  "dualEndpointAddrsForSendLocked now wnow de =
     (case sourcePathDirectEndpointCandidatesLocked now wnow de of (candidates0, oldestPing) \<Rightarrow>
      if candidates0 = [] then (([], False), de)
      else
        let needPing = (length candidates0 > 1 \<and> (mzero oldestPing \<or> msub now oldestPing > wireguardPingInterval));
            candidates = sortFunc compareDualEndpointCandidate candidates0;
            addrs = map dcAddr (take (min 2 (length candidates)) candidates);
            best = candidates ! 0;
            de1 = de\<lparr>deBestAddr := (deBestAddr de)\<lparr>aqAddr := dcAddr best\<rparr>\<rparr>;
            de2 = (if dcHasLatency best then de1\<lparr>deBestAddr := (deBestAddr de1)\<lparr>aqLatency := dcLatency best\<rparr>\<rparr> else de1);
            de3 = (if mafter now (deTrustBestAddrUntil de2) then de2\<lparr>deTrustBestAddrUntil := madd now second\<rparr> else de2)
        in ((addrs, needPing), de3))"

record sourcePathDstCandidate =
  dsDst :: epAddr
  dsPrimaryRTT :: duration
  dsHasPrimaryRTT :: bool
  dsAllowPrimarySource :: bool

fun sourcePathRemoteSlotFreshLocked :: "epAddr \<Rightarrow> mono \<Rightarrow> (epAddr \<times> mono) list \<Rightarrow> bool" where
  "sourcePathRemoteSlotFreshLocked addr now [] = False"
| "sourcePathRemoteSlotFreshLocked addr now ((slot, seen) # slots) =
     (if slot \<noteq> addr then sourcePathRemoteSlotFreshLocked addr now slots
      else \<not> mzero seen \<and> msub now seen \<le> sessionActiveTimeout)"

definition sourcePathDualSendDstCandidatesLocked ::
    "mono \<Rightarrow> walltime \<Rightarrow> epAddr \<Rightarrow> endpoint \<Rightarrow> sourcePathDstCandidate list" where
  "sourcePathDualSendDstCandidatesLocked now wnow primary de =
     (let candidates0 = fst (sourcePathDirectEndpointCandidatesLocked now wnow de);
          candidates =
            (if isDirect primary \<and> (\<forall>c\<in>set candidates0. dcAddr c \<noteq> primary)
             then let rtt = primaryRTTForLocked primary de in
               sortFunc compareDualEndpointCandidate (candidates0 @
                 [\<lparr>dcAddr = primary, dcLatency = rtt, dcHasLatency = rtt > 0, dcLastPing = 0,
                   dcIsBest = (aqAddr (deBestAddr de) = primary \<and> \<not> mafter now (deTrustBestAddrUntil de))\<rparr>])
             else candidates0)
      in map (\<lambda>c. let rtt = primaryRTTForLocked (dcAddr c) de in
             \<lparr>dsDst = dcAddr c, dsPrimaryRTT = rtt, dsHasPrimaryRTT = rtt > 0,
              dsAllowPrimarySource = (dcAddr c = primary \<or> dcIsBest c \<or> rtt > 0
                \<or> sourcePathRemoteSlotFreshLocked (dcAddr c) now (deRemoteSlots de))\<rparr>) candidates)"

definition sourcePathProbeDstsLocked :: "env \<Rightarrow> mono \<Rightarrow> walltime \<Rightarrow> endpoint \<Rightarrow> epAddr list" where
  "sourcePathProbeDstsLocked e now wnow de =
     (if \<not> sourcePathDualSendEnabled e \<and> \<not> sourcePathDualEndpointStrategyEnabled e \<and> isDirect (aqAddr (deBestAddr de))
      then [aqAddr (deBestAddr de)]
      else map dcAddr (fst (sourcePathDirectEndpointCandidatesLocked now wnow de)))"

fun observedAlternate :: "mono \<Rightarrow> walltime \<Rightarrow> epAddr \<Rightarrow> endpoint \<Rightarrow> (epAddr \<times> mono) list \<Rightarrow> epAddr list" where
  "observedAlternate now wnow primary de [] = []"
| "observedAlternate now wnow primary de ((slot, seen) # slots) =
     (if \<not> isDirect slot \<or> slot = primary then observedAlternate now wnow primary de slots
      else if \<not> freshSeen now seen then observedAlternate now wnow primary de slots
      else case gm_get (deEndpointState de) (ap slot) of
        Some st \<Rightarrow> if shouldDeleteLocked wnow st then observedAlternate now wnow primary de slots else [primary, slot]
      | None \<Rightarrow> [primary, slot])"

definition dualSendObservedEndpointAddrsForSendLocked :: "mono \<Rightarrow> walltime \<Rightarrow> epAddr \<Rightarrow> endpoint \<Rightarrow> epAddr list" where
  "dualSendObservedEndpointAddrsForSendLocked now wnow primary de =
     (if \<not> isDirect primary then [] else observedAlternate now wnow primary de (deRemoteSlots de))"

section \<open>Observed remote addresses\<close>

fun clearFirstSlot :: "epAddr \<Rightarrow> (epAddr \<times> mono) list \<Rightarrow> (epAddr \<times> mono) list" where
  "clearFirstSlot addr [] = []"
| "clearFirstSlot addr ((slot, seen) # slots) =
     (if slot \<noteq> addr then (slot, seen) # clearFirstSlot addr slots else (zeroEpAddr, 0) # slots)"

definition noteSourcePathObservedEndpointFailure :: "epAddr \<Rightarrow> endpoint \<Rightarrow> endpoint" where
  "noteSourcePathObservedEndpointFailure addr de =
     (if \<not> isDirect addr then de else de\<lparr>deRemoteSlots := clearFirstSlot addr (deRemoteSlots de)\<rparr>)"

datatype sourcePathRemoteEndpointKind = sourcePathRemoteUnknown | sourcePathRemoteBest | sourcePathRemoteNonBest

definition classifySourcePathRemoteEndpoint :: "epAddr \<Rightarrow> endpoint \<Rightarrow> sourcePathRemoteEndpointKind" where
  "classifySourcePathRemoteEndpoint src de =
     (if \<not> isDirect src then sourcePathRemoteUnknown
      else let best = aqAddr (deBestAddr de) in
        if \<not> isDirect best then sourcePathRemoteUnknown
        else if best = src then sourcePathRemoteBest else sourcePathRemoteNonBest)"

datatype sourcePathRemoteSlotKind =
  sourcePathRemotePathUnknown | sourcePathRemotePath0 | sourcePathRemotePath1 | sourcePathRemotePathOther

definition slotKind :: "nat \<Rightarrow> sourcePathRemoteSlotKind" where
  "slotKind i = (if i = 0 then sourcePathRemotePath0 else sourcePathRemotePath1)"

text \<open>The three loops look for the slot of this source, a free slot, and a slot that is stale.\<close>

definition classifySourcePathRemoteSlot ::
    "mono \<Rightarrow> walltime \<Rightarrow> epAddr \<Rightarrow> endpoint \<Rightarrow> sourcePathRemoteSlotKind \<times> endpoint" where
  "classifySourcePathRemoteSlot now wnow src de =
     (if \<not> isDirect src then (sourcePathRemotePathUnknown, de)
      else
        let take_slot = (\<lambda>i. (slotKind i, de\<lparr>deRemoteSlots := (deRemoteSlots de)[i := (src, now)]\<rparr>));
            stale = (\<lambda>(slot, seen). mzero seen \<or> msub now seen > sessionActiveTimeout
              \<or> (case gm_get (deEndpointState de) (ap slot) of Some st \<Rightarrow> shouldDeleteLocked wnow st | None \<Rightarrow> False))
        in case firstIndex (\<lambda>(slot, _). slot = src) (deRemoteSlots de) of
             Some i \<Rightarrow> take_slot i
           | None \<Rightarrow>
               (case firstIndex (\<lambda>(slot, _). \<not> apIsValid (ap slot)) (deRemoteSlots de) of
                  Some i \<Rightarrow> take_slot i
                | None \<Rightarrow>
                    (case firstIndex stale (deRemoteSlots de) of
                       Some i \<Rightarrow> take_slot i
                     | None \<Rightarrow> (sourcePathRemotePathOther, de))))"

definition sourcePathPeerAwareCacheLimit :: nat where
  "sourcePathPeerAwareCacheLimit = 32"

text \<open>The cache of endpoint wrappers; a full cache drops one arbitrary entry, the one \<open>pick\<close> names.\<close>

definition sourcePathPeerAwareEndpoint ::
    "nat \<Rightarrow> epAddr \<Rightarrow> sourceRxMeta \<Rightarrow> endpoint \<Rightarrow> (epAddr \<times> sourceRxMeta) \<times> endpoint" where
  "sourcePathPeerAwareEndpoint pick src rx de =
     (let key = (src, rx); i = pick mod length (dePeerAware de) in
      if key \<in> set (dePeerAware de) then (key, de)
      else
        let cache = (if length (dePeerAware de) \<ge> sourcePathPeerAwareCacheLimit
                     then take i (dePeerAware de) @ drop (Suc i) (dePeerAware de) else dePeerAware de)
        in (key, de\<lparr>dePeerAware := key # cache\<rparr>))"

section \<open>Which addresses are candidates\<close>

abbreviation cands :: "collected \<Rightarrow> addrPort list" where
  "cands acc \<equiv> map (\<lambda>c. ap (dcAddr c)) (fst acc)"

definition directAP :: "addrPort \<Rightarrow> bool" where
  "directAP k \<longleftrightarrow> apIsValid k \<and> apAddr k \<noteq> derpMagicIPAddr"

lemma isDirect_plain: "isDirect \<lparr>ap = k, vni = 0\<rparr> \<longleftrightarrow> directAP k"
  by (simp add: isDirect_def directAP_def vniIsSet_def)

lemma isDirect_directAP: "isDirect a \<Longrightarrow> directAP (ap a)"
  by (simp add: isDirect_def directAP_def)

lemma addDirect_cands:
  "cands (addDirect now wnow de addr state acc) =
     (if \<not> isDirect addr \<or> ap addr \<in> set (snd (snd acc)) then cands acc
      else case state of
        Some st \<Rightarrow> if shouldDeleteLocked wnow st then cands acc else cands acc @ [ap addr]
      | None \<Rightarrow> cands acc @ [ap addr])"
  by (cases acc) (simp add: addDirect_def Let_def split: option.split)

lemma addDirect_seen:
  "set (snd (snd (addDirect now wnow de addr state acc))) =
     (if isDirect addr then insert (ap addr) (set (snd (snd acc))) else set (snd (snd acc)))"
  by (cases acc) (auto simp: addDirect_def Let_def split: option.split)

text \<open>The first loop: the known addresses, none of them seen before.\<close>

lemma known_loop:
  assumes "distinct (map fst es)" "set (snd (snd acc)) \<inter> fst ` set es = {}"
  shows "cands (foldl (addKnown now wnow de) acc es) =
      cands acc @ map fst (filter (\<lambda>(k, st). directAP k \<and> \<not> shouldDeleteLocked wnow st) es)
    \<and> set (snd (snd (foldl (addKnown now wnow de) acc es))) = set (snd (snd acc)) \<union> {k \<in> fst ` set es. directAP k}"
  using assms
proof (induction es arbitrary: acc)
  case (Cons entry es)
  let ?acc = "addKnown now wnow de acc entry"
  have seen: "set (snd (snd ?acc)) = (if directAP (fst entry) then insert (fst entry) (set (snd (snd acc))) else set (snd (snd acc)))"
    by (simp add: addKnown_def addDirect_seen isDirect_plain)
  then have "set (snd (snd ?acc)) \<inter> fst ` set es = {}" using Cons.prems by auto
  from Cons.IH [OF _ this] Cons.prems(1) seen Cons.prems(2) show ?case
    by (auto simp: addKnown_def addDirect_cands isDirect_plain split: prod.split)
qed simp

text \<open>The second loop: observed addresses not seen before and fresh.\<close>

lemma slot_loop:
  assumes "distinct (cands acc)" "set (cands acc) \<subseteq> set (snd (snd acc))"
    and "\<And>k. directAP k \<Longrightarrow> k \<notin> set (snd (snd acc)) \<Longrightarrow> gm_get (deEndpointState de) k = None"
  shows "distinct (cands (foldl (addSlot now wnow de) acc slots))
    \<and> (\<forall>k. k \<in> set (cands (foldl (addSlot now wnow de) acc slots)) \<longleftrightarrow>
         k \<in> set (cands acc) \<or>
         (k \<notin> set (snd (snd acc)) \<and> (\<exists>addr seen. (addr, seen) \<in> set slots \<and> isDirect addr \<and> freshSeen now seen \<and> ap addr = k)))"
  using assms
proof (induction slots arbitrary: acc)
  case (Cons slot slots)
  obtain addr seenAt where slot: "slot = (addr, seenAt)" by fastforce
  let ?acc = "addSlot now wnow de acc slot"
  let ?used = "isDirect addr \<and> ap addr \<notin> set (snd (snd acc)) \<and> freshSeen now seenAt"
  have new: "gm_get (deEndpointState de) (ap addr) = None" if ?used
    using that Cons.prems(3) isDirect_directAP by blast
  have cs: "cands ?acc = (if ?used then cands acc @ [ap addr] else cands acc)"
    and sn: "set (snd (snd ?acc)) = (if ?used then insert (ap addr) (set (snd (snd acc))) else set (snd (snd acc)))"
    using new by (auto simp: addSlot_def slot addDirect_cands addDirect_seen)
  have "distinct (cands ?acc)" "set (cands ?acc) \<subseteq> set (snd (snd ?acc))"
    using Cons.prems(1,2) by (auto simp: cs sn)
  moreover have "gm_get (deEndpointState de) k = None" if "directAP k" "k \<notin> set (snd (snd ?acc))" for k
    using that Cons.prems(3) by (auto simp: sn split: if_splits)
  ultimately have IH: "distinct (cands (foldl (addSlot now wnow de) ?acc slots))
    \<and> (\<forall>k. k \<in> set (cands (foldl (addSlot now wnow de) ?acc slots)) \<longleftrightarrow>
         k \<in> set (cands ?acc) \<or>
         (k \<notin> set (snd (snd ?acc)) \<and> (\<exists>addr seen. (addr, seen) \<in> set slots \<and> isDirect addr \<and> freshSeen now seen \<and> ap addr = k)))"
    by (intro Cons.IH) auto
  have "(k \<in> set (cands ?acc) \<or>
         (k \<notin> set (snd (snd ?acc)) \<and> (\<exists>addr seen. (addr, seen) \<in> set slots \<and> isDirect addr \<and> freshSeen now seen \<and> ap addr = k)))
    \<longleftrightarrow> (k \<in> set (cands acc) \<or>
         (k \<notin> set (snd (snd acc)) \<and> (\<exists>addr seen. (addr, seen) \<in> set (slot # slots) \<and> isDirect addr \<and> freshSeen now seen \<and> ap addr = k)))"
    (is "?A' k \<or> (?n' k \<and> ?Q slots k) \<longleftrightarrow> ?A k \<or> (?n k \<and> ?Q (slot # slots) k)") for k
  proof -
    have A: "?A' k \<longleftrightarrow> ?A k \<or> (?used \<and> k = ap addr)" unfolding cs by auto
    have n: "?n' k \<longleftrightarrow> ?n k \<and> \<not> (?used \<and> k = ap addr)" unfolding sn by auto
    have Q: "?Q (slot # slots) k \<longleftrightarrow> (isDirect addr \<and> freshSeen now seenAt \<and> ap addr = k) \<or> ?Q slots k"
      by (auto simp: slot)
    show ?thesis unfolding A n Q by blast
  qed
  with IH show ?case by simp
qed simp

text \<open>An address is usable: it is known and not due for deletion, or unknown but recently seen.\<close>

definition usableAP :: "mono \<Rightarrow> walltime \<Rightarrow> endpoint \<Rightarrow> addrPort \<Rightarrow> bool" where
  "usableAP now wnow de k \<longleftrightarrow> directAP k \<and>
     (case gm_get (deEndpointState de) k of
        Some st \<Rightarrow> \<not> shouldDeleteLocked wnow st
      | None \<Rightarrow> \<exists>addr seen. (addr, seen) \<in> set (deRemoteSlots de) \<and> isDirect addr \<and> freshSeen now seen \<and> ap addr = k)"

lemma candidates_exact:
  fixes now :: mono and wnow :: walltime and de :: endpoint
  assumes "gm_wf (deEndpointState de)"
  defines "cs \<equiv> fst (sourcePathDirectEndpointCandidatesLocked now wnow de)"
  shows "distinct (map (\<lambda>c. ap (dcAddr c)) cs)"
    and "k \<in> (\<lambda>c. ap (dcAddr c)) ` set cs \<longleftrightarrow> usableAP now wnow de k"
    and "sorted_wrt (\<lambda>a b. compareDualEndpointCandidate a b \<le> 0) cs"
proof -
  let ?es = "deEndpointState de"
  let ?acc1 = "foldl (addKnown now wnow de) ([], 0, []) ?es"
  let ?acc2 = "foldl (addSlot now wnow de) ?acc1 (deRemoteSlots de)"
  have d: "distinct (map fst ?es)" using assms(1) by (simp add: gm_wf_def)
  have c1: "cands ?acc1 = map fst (filter (\<lambda>(k, st). directAP k \<and> \<not> shouldDeleteLocked wnow st) ?es)"
    and s1: "set (snd (snd ?acc1)) = {k \<in> fst ` set ?es. directAP k}"
    using known_loop [OF d, of "([], 0, [])" now wnow de] by auto
  have dist1: "distinct (cands ?acc1)" unfolding c1 using d by (rule distinct_map_filter)
  have mem1: "k \<in> set (cands ?acc1) \<longleftrightarrow> directAP k \<and> (\<exists>st. gm_get ?es k = Some st \<and> \<not> shouldDeleteLocked wnow st)" for k
    unfolding c1 using gm_get_iff [OF assms(1)] by (auto simp: image_iff)
  have sub: "set (cands ?acc1) \<subseteq> set (snd (snd ?acc1))"
    unfolding c1 s1 by (auto simp: image_iff)
  have none: "gm_get ?es k = None" if "directAP k" "k \<notin> set (snd (snd ?acc1))" for k
    using that by (auto simp: s1 gm_get_None)
  have nseen: "k \<notin> set (snd (snd ?acc1)) \<longleftrightarrow> (directAP k \<longrightarrow> gm_get ?es k = None)" for k
    using none by (auto simp: s1 gm_get_None)
  note loop = slot_loop [OF dist1 sub none, where now = now and wnow = wnow and slots = "deRemoteSlots de"]
  have ms: "mset cs = mset (fst ?acc2)"
    by (simp add: cs_def sourcePathDirectEndpointCandidatesLocked_def split: prod.split)
  then have "mset (map (\<lambda>c. ap (dcAddr c)) cs) = mset (cands ?acc2)" by simp
  with loop show "distinct (map (\<lambda>c. ap (dcAddr c)) cs)" by (metis mset_eq_imp_distinct_iff)
  have img: "(\<lambda>c. ap (dcAddr c)) ` set cs = set (cands ?acc2)" using mset_eq_setD [OF ms] by simp
  have "k \<in> set (cands ?acc2) \<longleftrightarrow> k \<in> set (cands ?acc1) \<or>
      (k \<notin> set (snd (snd ?acc1)) \<and> (\<exists>addr seen. (addr, seen) \<in> set (deRemoteSlots de) \<and> isDirect addr \<and> freshSeen now seen \<and> ap addr = k))"
    using loop by blast
  also have "\<dots> \<longleftrightarrow> usableAP now wnow de k"
    unfolding mem1 nseen usableAP_def by (cases "gm_get ?es k") (auto dest: isDirect_directAP)
  finally show "k \<in> (\<lambda>c. ap (dcAddr c)) ` set cs \<longleftrightarrow> usableAP now wnow de k" unfolding img .
  show "sorted_wrt (\<lambda>a b. compareDualEndpointCandidate a b \<le> 0) cs"
    by (auto simp: cs_def sourcePathDirectEndpointCandidatesLocked_def split: prod.split intro: dests.sorted_sortFunc)
qed

text \<open>The positive round-trip time last measured for an address.\<close>

definition rttOf :: "endpoint \<Rightarrow> addrPort \<Rightarrow> duration option" where
  "rttOf de k = (case gm_get (deEndpointState de) k of
     Some st \<Rightarrow> (case latencyLocked st of Some l \<Rightarrow> if l > 0 then Some l else None | None \<Rightarrow> None)
   | None \<Rightarrow> None)"

definition candidateOk :: "endpoint \<Rightarrow> dualEndpointCandidate \<Rightarrow> bool" where
  "candidateOk de c \<longleftrightarrow> isDirect (dcAddr c)
     \<and> rttOf de (ap (dcAddr c)) = (if dcHasLatency c then Some (dcLatency c) else None)"

lemma addDirect_new:
  "fst (addDirect now wnow de addr state acc) = fst acc
   \<or> (\<exists>c. fst (addDirect now wnow de addr state acc) = fst acc @ [c] \<and> isDirect addr \<and> dcAddr c = addr
        \<and> (case (case state of Some st \<Rightarrow> latencyLocked st | None \<Rightarrow> None) of
             Some l \<Rightarrow> dcHasLatency c = (l > 0) \<and> dcLatency c = l | None \<Rightarrow> \<not> dcHasLatency c))"
  by (cases acc; cases state) (auto simp: addDirect_def Let_def split: option.split)

lemma addDirect_ok:
  assumes "\<forall>c\<in>set (fst acc). candidateOk de c" "state = gm_get (deEndpointState de) (ap addr)"
  shows "\<forall>c\<in>set (fst (addDirect now wnow de addr state acc)). candidateOk de c"
  using addDirect_new [of now wnow de addr state acc]
proof (elim disjE exE conjE)
  fix c
  assume new: "fst (addDirect now wnow de addr state acc) = fst acc @ [c]" "isDirect addr" "dcAddr c = addr"
    and lat: "case (case state of Some st \<Rightarrow> latencyLocked st | None \<Rightarrow> None) of
             Some l \<Rightarrow> dcHasLatency c = (l > 0) \<and> dcLatency c = l | None \<Rightarrow> \<not> dcHasLatency c"
  have "candidateOk de c" using new(2,3) lat by (auto simp: candidateOk_def rttOf_def assms(2) split: option.splits)
  with new(1) assms(1) show ?thesis by simp
qed (use assms(1) in simp)

lemma candidates_ok:
  assumes wf: "gm_wf (deEndpointState de)" and "c \<in> set (fst (sourcePathDirectEndpointCandidatesLocked now wnow de))"
  shows "candidateOk de c"
proof -
  have known: "\<forall>c\<in>set (fst (foldl (addKnown now wnow de) acc es)). candidateOk de c"
    if "\<forall>c\<in>set (fst acc). candidateOk de c" "set es \<subseteq> set (deEndpointState de)" for acc es
    using that
  proof (induction es arbitrary: acc)
    case (Cons entry es)
    have "gm_get (deEndpointState de) (fst entry) = Some (snd entry)"
      using Cons.prems(2) gm_get_iff [OF wf, of "fst entry" "snd entry"] by simp
    then have "\<forall>c\<in>set (fst (addKnown now wnow de acc entry)). candidateOk de c"
      unfolding addKnown_def using Cons.prems(1) by (intro addDirect_ok) simp_all
    with Cons show ?case by simp
  qed simp
  have slots: "\<forall>c\<in>set (fst (foldl (addSlot now wnow de) acc slots)). candidateOk de c"
    if "\<forall>c\<in>set (fst acc). candidateOk de c" for acc slots
    using that
  proof (induction slots arbitrary: acc)
    case (Cons slot slots)
    have "\<forall>c\<in>set (fst (addSlot now wnow de acc slot)). candidateOk de c"
      using Cons.prems addDirect_ok [OF Cons.prems] by (simp add: addSlot_def split: prod.split)
    with Cons show ?case by simp
  qed simp
  have "c \<in> set (fst (foldl (addSlot now wnow de) (foldl (addKnown now wnow de) ([], 0, []) (deEndpointState de)) (deRemoteSlots de)))"
    using assms(2) by (simp add: sourcePathDirectEndpointCandidatesLocked_def split: prod.splits)
  moreover have "\<forall>c\<in>set (fst (foldl (addKnown now wnow de) ([], 0, []) (deEndpointState de))). candidateOk de c"
    by (rule known) simp_all
  ultimately show ?thesis using slots by blast
qed

lemma sortFunc_sorted:
  "sorted_wrt (\<lambda>a b. compareDualEndpointCandidate a b \<le> 0) cs \<Longrightarrow> sortFunc compareDualEndpointCandidate cs = cs"
proof (induction cs)
  case (Cons c cs)
  then show ?case by (cases cs) (simp_all add: sortFunc_Cons)
qed simp

lemma dualEndpointAddrs_eq:
  assumes wf: "gm_wf (deEndpointState de)" and call: "dualEndpointAddrsForSendLocked now wnow de = ((addrs, needPing), de')"
  defines "cs \<equiv> fst (sourcePathDirectEndpointCandidatesLocked now wnow de)"
  shows "addrs = map dcAddr (take 2 cs)" and "cs \<noteq> [] \<longrightarrow> aqAddr (deBestAddr de') = dcAddr (hd cs)"
proof -
  obtain t where c: "sourcePathDirectEndpointCandidatesLocked now wnow de = (cs, t)"
    unfolding cs_def by (metis prod.collapse)
  have "sorted_wrt (\<lambda>a b. compareDualEndpointCandidate a b \<le> 0) cs"
    using candidates_exact(3) [OF wf, where now = now and wnow = wnow] by (simp add: cs_def)
  then have srt: "sortFunc compareDualEndpointCandidate cs = cs" by (rule sortFunc_sorted)
  have "take (min 2 (length cs)) cs = take 2 cs" by (simp add: min_def)
  with call show "addrs = map dcAddr (take 2 cs)" "cs \<noteq> [] \<longrightarrow> aqAddr (deBestAddr de') = dcAddr (hd cs)"
    by (auto simp: dualEndpointAddrsForSendLocked_def c srt Let_def hd_conv_nth split: if_splits)
qed


text \<open>An endpoint with a slow IPv4 and a fast IPv6 address in the network map and one observed
  address.\<close>

definition exReply :: "duration \<Rightarrow> pongReply" where
  "exReply l = \<lparr>prLatency = l, prPongAt = 10, prFrom = zeroAddrPort, prPongSrc = zeroAddrPort\<rparr>"

definition exAP :: "u32 \<Rightarrow> addrPort" where
  "exAP w = \<lparr>apAddr = AddrV4 w, apPort = 41641\<rparr>"

definition exPeer :: endpoint where
  "exPeer = (newEndpoint 7 (replicate 32 9) False False)\<lparr>
     deEndpointState := [(exAP 0x01020304, addPongReplyLocked (exReply 90) zeroEndpointState),
                         (exAP 0x01020305, addPongReplyLocked (exReply 20) zeroEndpointState)],
     deRemoteSlots := [(\<lparr>ap = exAP 0x01020306, vni = 0\<rparr>, 50), (zeroEpAddr, 0)]\<rparr>"

lemma exPeer_inv: "endpointInv exPeer"
proof -
  have "ringInv (addPongReplyLocked (exReply l) zeroEndpointState)" for l
    by (rule addPong_history(1)) simp
  then show ?thesis using inv_newEndpoint [of 7 "replicate 32 9" False False]
    by (auto simp: exPeer_def statesInv_def gm_wf_def exAP_def)
qed


end
