(* ===== verification/Endpoint_Run.thy ===== *)
theory Endpoint_Run
  imports Endpoint_Candidates
begin

text \<open>
  The life of an endpoint as a sequence of method calls: timers that fire, packets that arrive,
  updates of the network map, sends. \<open>epStep\<close> has one rule per method that changes an endpoint
  of \<open>src/wgengine/magicsock/endpoint.go\<close>; the arguments that the environment chooses (clock
  readings, random draws, messages) are free.
\<close>

section \<open>Steps\<close>

inductive epStep :: "endpoint \<Rightarrow> epAction list \<Rightarrow> endpoint \<Rightarrow> bool" where
  RelayReady: "epStep de [] (udpRelayEndpointReady d q now de)"
| NoteBad: "epStep de [] (noteBadEndpoint a de)"
| Connectivity: "epStep de [] (noteConnectivityChange de)"
| AddrForSend: "epStep de [] (snd (addrForSendLocked pick now de))"
| DualEndpoints: "epStep de [] (snd (dualEndpointAddrsForSendLocked now wnow de))"
| PingTimeout: "discoPingTimeout cv now wnow txid de = (de', acts) \<Longrightarrow> epStep de acts de'"
| ForgetPing: "forgetDiscoPing cv wnow txid de = (de', acts) \<Longrightarrow> epStep de acts de'"
| NoteTx: "epStep de [] (noteTxActivityExtTriggerLocked now de)"
| FullPing: "sendDiscoPingsLocked cv newTxID now wnow cmm de = (de', acts) \<Longrightarrow> epStep de acts de'"
| WireGuardPings: "sendWireGuardOnlyPingsLocked cv now de = (de', acts) \<Longrightarrow> epStep de acts de'"
| WireGuardPinged: "epStep de [] (setLastPing ipp now de)"
| WireGuardPong: "epStep de [] (wireGuardOnlyPong ipp now reply de)"
| DiscoverRelay: "discoverUDPRelayPathsLocked now now2 de = (de', acts) \<Longrightarrow> epStep de acts de'"
| LifetimeTimer: "heartbeatForLifetime cv newTxID now now2 wnow de = (de', acts) \<Longrightarrow> epStep de acts de'"
| Heartbeat: "heartbeat cv newTxID pick now now2 wnow de = (de', acts) \<Longrightarrow> epStep de acts de'"
| HeartbeatDisabled: "epStep de [] (setHeartbeatDisabled v de)"
| LifetimeOn: "epStep de [] (setProbeUDPLifetimeOn v de)"
| Ping: "discoPing cv newTxID pick now now2 cb sz de = (de', acts) \<Longrightarrow> epStep de acts de'"
| UpdateFromNode: "epStep de [] (updateFromNode cv wnow n hb pl de)"
| DERPHome: "setDERPHome cv r de = (de', acts) \<Longrightarrow> epStep de acts de'"
| Candidate: "epStep de [] (snd (addCandidateEndpoint cv wnow ep txid de))"
| CallMeMaybe: "handleCallMeMaybe cv newTxID monoNow now2 wnow eps de = (de', acts) \<Longrightarrow> epStep de acts de'"
| Pong: "handlePongConnLocked cv now wnow m src de = ((known, de'), acts) \<Longrightarrow> epStep de acts de'"
| RecvUDP: "epStep de [] (de\<lparr>deLastRecvUDPAny := now\<rparr>)"
| NoteRecv: "epStep de [] (snd (noteRecvActivity hook src now de))"
| Availability: "epStep de [] (noteSourcePathDualSendAvailability now dm sr n de)"
| ObservedFailure: "epStep de [] (noteSourcePathObservedEndpointFailure a de)"
| RemoteSlot: "epStep de [] (snd (classifySourcePathRemoteSlot now wnow src de))"
| PeerAware: "epStep de [] (snd (sourcePathPeerAwareEndpoint pick src rx de))"
| ActivePolicy: "epStep de [] (de\<lparr>deActive := snd (snd (sourcePathApplyActivePathPolicyLocked now ranked (deActive de)))\<rparr>)"
| StopAndReset: "stopAndReset cv wnow de = (de', acts) \<Longrightarrow> epStep de acts de'"

inductive epRun :: "epAction list \<Rightarrow> endpoint \<Rightarrow> bool" where
  Start: "epRun [] (newEndpoint nid k hb wg)"
| Step: "epRun acts de \<Longrightarrow> epStep de acts' de' \<Longrightarrow> epRun (acts @ acts') de'"

section \<open>Safety\<close>

lemma inv_dualEndpoints: "endpointInv de \<Longrightarrow> endpointInv (snd (dualEndpointAddrsForSendLocked now wnow de))"
  by (simp add: dualEndpointAddrsForSendLocked_def Let_def split: prod.split)

lemma length_clearFirstSlot [simp]: "length (clearFirstSlot a slots) = length slots"
  by (induction a slots rule: clearFirstSlot.induct) simp_all

lemma inv_observedFailure: "endpointInv de \<Longrightarrow> endpointInv (noteSourcePathObservedEndpointFailure a de)"
  by (simp add: noteSourcePathObservedEndpointFailure_def endpointInvD)

lemma inv_remoteSlot: "endpointInv de \<Longrightarrow> endpointInv (snd (classifySourcePathRemoteSlot now wnow src de))"
  by (auto simp: classifySourcePathRemoteSlot_def Let_def endpointInvD split: option.split)

lemma inv_peerAware: "endpointInv de \<Longrightarrow> endpointInv (snd (sourcePathPeerAwareEndpoint pick src rx de))"
  by (simp add: sourcePathPeerAwareEndpoint_def Let_def)

lemmas ep_inv_more = inv_dualEndpoints inv_observedFailure inv_remoteSlot inv_peerAware

lemma okStep_eq: "s = (de, acts) \<Longrightarrow> okStep s \<Longrightarrow> endpointInv de \<and> IndexPanic \<notin> set acts"
  by simp

lemma epStep_safe: "epStep de acts de' \<Longrightarrow> endpointInv de \<Longrightarrow> endpointInv de' \<and> IndexPanic \<notin> set acts"
proof (induction rule: epStep.induct)
  case (Pong cv now wnow m src de known de' acts)
  then show ?case using ok_handlePong [of de cv now wnow m src] by simp
next
  case (ActivePolicy de now ranked)
  then show ?case by simp
next
  case (RecvUDP de now)
  then show ?case by simp
qed ((erule okStep_eq, rule ep_inv, assumption) | (rule conjI, rule ep_inv ep_inv_more, assumption, simp))+

text \<open>
  C1. An endpoint never indexes out of range. Along every sequence of calls on a new endpoint, with
  any clock readings, messages and random draws, the maps keep distinct keys, the ring buffers and
  the index of the current lifetime cliff stay in range, and no call ends in an index panic.
\<close>

theorem endpoint_run_safe:
  assumes "epRun acts de"
  shows "endpointInv de \<and> IndexPanic \<notin> set acts"
  using assms
proof (induction rule: epRun.induct)
  case (Step acts de acts' de')
  then show ?case using epStep_safe [of de acts' de'] by simp
qed (simp add: inv_newEndpoint)

section \<open>Pongs and the best address\<close>

lemma removePing_frame:
  "deBestAddr (fst (removeSentDiscoPingLocked cv wnow txid sp result de)) = deBestAddr de"
  "deTrustBestAddrUntil (fst (removeSentDiscoPingLocked cv wnow txid sp result de)) = deTrustBestAddrUntil de"
  "deLastDirectVsRelaySwap (fst (removeSentDiscoPingLocked cv wnow txid sp result de)) = deLastDirectVsRelaySwap de"
  "deEndpointState (fst (removeSentDiscoPingLocked cv wnow txid sp result de)) = deEndpointState de"
  by (simp_all add: removeSentDiscoPingLocked_def fst_andThen probeUDPLifetimeCliffDoneLocked_def
      scheduleHeartbeatForLifetimeLocked_def Let_def split: option.split maybeProbe.split)

lemma replyCallback_frame:
  "deBestAddr (fst (replyCallback l sp de)) = deBestAddr de"
  "deTrustBestAddrUntil (fst (replyCallback l sp de)) = deTrustBestAddrUntil de"
  "deLastDirectVsRelaySwap (fst (replyCallback l sp de)) = deLastDirectVsRelaySwap de"
  by (simp_all add: replyCallback_def split: option.split)

text \<open>The quality a pong to the ping \<open>sp\<close> stands for.\<close>

definition pongQuality :: "mono \<Rightarrow> sentPing \<Rightarrow> addrQuality" where
  "pongQuality now sp = \<lparr>aqAddr = spTo sp, aqRelayServerDisco = zeroDiscoKey, aqLatency = msub now (spAt sp),
     aqWireMTU = pingSizeToPktLen (spSize sp) (spTo sp)\<rparr>"

text \<open>A pong that is used: it answers a ping in flight, came in over UDP, and the address pinged is
  not omitted and still known (or the pong came through a relay).\<close>

definition pongUsed :: "connView \<Rightarrow> pongMsg \<Rightarrow> epAddr \<Rightarrow> sentPing \<Rightarrow> endpoint \<Rightarrow> bool" where
  "pongUsed cv m src sp de \<longleftrightarrow> gm_get (deSentPing de) (pgTxID m) = Some sp
     \<and> apAddr (ap src) \<noteq> derpMagicIPAddr \<and> \<not> (isDirect (spTo sp) \<and> cvOmit cv (ap (spTo sp)))
     \<and> (vniIsSet (vni src) \<or> gm_get (deEndpointState de) (ap (spTo sp)) \<noteq> None)"

lemma handlePong_used:
  assumes "pongUsed cv m src sp de" "handlePongConnLocked cv now wnow m src de = ((known, de'), acts)"
  shows "\<exists>de2. deBestAddr de2 = deBestAddr de \<and> deTrustBestAddrUntil de2 = deTrustBestAddrUntil de
    \<and> deLastDirectVsRelaySwap de2 = deLastDirectVsRelaySwap de
    \<and> de' = promotePong (cvDvr cv) now (msub now (spAt sp)) sp de2"
proof -
  let ?rm = "removeSentDiscoPingLocked cv wnow (pgTxID m) sp discoPongReceived de"
  let ?r = "\<lparr>prLatency = msub now (spAt sp), prPongAt = now, prFrom = ap src, prPongSrc = pgSrc m\<rparr>"
  show ?thesis
  proof (cases "vniIsSet (vni src)")
    case True
    let ?de2 = "fst (replyCallback (msub now (spAt sp)) sp (fst ?rm))"
    have "de' = promotePong (cvDvr cv) now (msub now (spAt sp)) sp ?de2"
      using assms True by (auto simp: pongUsed_def handlePongConnLocked_def Let_def andThen_def split: prod.splits if_splits)
    then show ?thesis by (intro exI [of _ ?de2]) (simp add: replyCallback_frame removePing_frame)
  next
    case False
    with assms(1) obtain st where st: "gm_get (deEndpointState (fst ?rm)) (ap (spTo sp)) = Some st"
      by (auto simp: pongUsed_def removePing_frame)
    let ?de1 = "(fst ?rm)\<lparr>deEndpointState := gm_set (ap (spTo sp)) (addPongReplyLocked ?r st) (deEndpointState (fst ?rm))\<rparr>"
    let ?de2 = "fst (replyCallback (msub now (spAt sp)) sp ?de1)"
    have "de' = promotePong (cvDvr cv) now (msub now (spAt sp)) sp ?de2"
      using assms False st by (auto simp: pongUsed_def handlePongConnLocked_def Let_def andThen_def split: prod.splits if_splits)
    then show ?thesis by (intro exI [of _ ?de2]) (simp add: replyCallback_frame removePing_frame)
  qed
qed

lemma setBestAddr_frame [simp]:
  "deBestAddr (setBestAddrLocked v de) = v"
  "deTrustBestAddrUntil (setBestAddrLocked v de) = deTrustBestAddrUntil de"
  "deLastDirectVsRelaySwap (setBestAddrLocked v de) = deLastDirectVsRelaySwap de"
  by (simp_all add: setBestAddrLocked_def Let_def)

text \<open>
  C10. What a pong does to the best address. A pong that is used takes over as the best address
  exactly when the present best address is no longer trusted, or is the one that was pinged, or is
  beaten by the pong's path with the direct-versus-relay hold time over; then it is trusted for
  another 6.5 seconds and its latency is the one just measured. Otherwise the best address, and how
  long it is trusted, stay as they were. When the pong's quality is installed it replaces the whole
  record, including the identity of the relay server.
\<close>

theorem pong_takes_over_iff:
  assumes "pongUsed cv m src sp de" "handlePongConnLocked cv now wnow m src de = ((known, de'), acts)"
  shows "(let q = pongQuality now sp; best = deBestAddr de; untrusted = mafter now (deTrustBestAddrUntil de);
          installed = (untrusted \<or> (betterAddr (cvDvr cv) q best
            \<and> wouldAllowDirectVsRelaySwapLocked (cvDvr cv) (deLastDirectVsRelaySwap de) best q now))
      in if installed then deBestAddr de' = q \<and> deTrustBestAddrUntil de' = madd now trustUDPAddrDuration
         else if aqAddr best = spTo sp
         then deBestAddr de' = best\<lparr>aqLatency := msub now (spAt sp)\<rparr> \<and> deTrustBestAddrUntil de' = madd now trustUDPAddrDuration
         else deBestAddr de' = best \<and> deTrustBestAddrUntil de' = deTrustBestAddrUntil de)"
proof -
  obtain de2 where de2: "deBestAddr de2 = deBestAddr de" "deTrustBestAddrUntil de2 = deTrustBestAddrUntil de"
    "deLastDirectVsRelaySwap de2 = deLastDirectVsRelaySwap de" and de': "de' = promotePong (cvDvr cv) now (msub now (spAt sp)) sp de2"
    using handlePong_used [OF assms] by blast
  show ?thesis unfolding de' promotePong_def pongQuality_def Let_def de2
    by (simp add: de2)
qed

section \<open>The network map and the known addresses\<close>

lemma setEndpointStep_get:
  "gm_get (setEndpointStep cv m (i, ipp)) k =
     (if k = ipp \<and> apIsValid ipp \<and> \<not> cvOmit cv ipp
      then Some ((case gm_get m k of Some st \<Rightarrow> st | None \<Rightarrow> zeroEndpointState)\<lparr>esIndex := int i\<rparr>) else gm_get m k)"
  by (simp add: setEndpointStep_def gm_get_set split: option.split)

definition listed :: "connView \<Rightarrow> addrPort list \<Rightarrow> addrPort \<Rightarrow> bool" where
  "listed cv eps k \<longleftrightarrow> k \<in> set (take 32768 eps) \<and> apIsValid k \<and> \<not> cvOmit cv k"

lemma takeWhile_enumerate:
  "takeWhile (\<lambda>(i, x). \<not> int i > 32767) (enumerate n xs) = take (32768 - n) (enumerate n xs)"
proof (induction xs arbitrary: n)
  case (Cons x xs)
  show ?case
  proof (cases "n > 32767")
    case False
    then have "32768 - n = Suc (32768 - Suc n)" by simp
    then show ?thesis using False Cons [of "Suc n"] by simp
  qed simp
qed simp

lemma map_snd_takeWhile: "map snd (takeWhile (\<lambda>(i, x). \<not> int i > 32767) (enumerate 0 xs)) = take 32768 xs"
  unfolding takeWhile_enumerate by (simp add: take_map [symmetric])

text \<open>The states after the loop over the list: what was there, up to the index.\<close>

lemma setEndpointFold_get:
  "\<exists>i. gm_get (foldl (setEndpointStep cv) m es) k =
     (if k \<in> snd ` set es \<and> apIsValid k \<and> \<not> cvOmit cv k
      then Some ((case gm_get m k of Some st \<Rightarrow> st | None \<Rightarrow> zeroEndpointState)\<lparr>esIndex := int i\<rparr>) else gm_get m k)"
proof (induction es rule: rev_induct)
  case (snoc e es)
  obtain i ipp where e: "e = (i, ipp)" by fastforce
  from snoc obtain j where "gm_get (foldl (setEndpointStep cv) m es) k =
     (if k \<in> snd ` set es \<and> apIsValid k \<and> \<not> cvOmit cv k
      then Some ((case gm_get m k of Some st \<Rightarrow> st | None \<Rightarrow> zeroEndpointState)\<lparr>esIndex := int j\<rparr>) else gm_get m k)" ..
  then show ?case
    by (intro exI [of _ "if k = ipp then i else j"], cases "k = ipp"; cases "k \<in> snd ` set es"; cases "gm_get m k")
      (simp_all add: e setEndpointStep_get)
qed simp

lemma states_setBestAddr [simp]: "deEndpointState (setBestAddrLocked v de) = deEndpointState de"
  by (simp add: setBestAddrLocked_def Let_def)

lemma states_delete [simp]: "deEndpointState (deleteEndpointLocked ep de) = gm_del ep (deEndpointState de)"
  by (simp add: deleteEndpointLocked_def Let_def)

lemma deleteStale_get:
  "gm_get (deEndpointState (foldl (deleteIfStale wnow) de es)) k =
     (if \<exists>st. (k, st) \<in> set es \<and> shouldDeleteLocked wnow st then None else gm_get (deEndpointState de) k)"
proof (induction es arbitrary: de)
  case (Cons e es)
  obtain k' st' where e: "e = (k', st')" by fastforce
  show ?case
  proof (cases "\<exists>st. (k, st) \<in> set es \<and> shouldDeleteLocked wnow st")
    case True
    then have "\<exists>st. (k, st) \<in> set (e # es) \<and> shouldDeleteLocked wnow st" by auto
    then show ?thesis using True by (simp only: foldl.simps Cons if_True)
  next
    case False
    then have "(\<exists>st. (k, st) \<in> set (e # es) \<and> shouldDeleteLocked wnow st) \<longleftrightarrow> k = k' \<and> shouldDeleteLocked wnow st'"
      by (auto simp: e)
    then show ?thesis using False by (simp only: foldl.simps Cons if_False) (simp add: e deleteIfStale_def gm_get_del)
  qed
qed simp

lemma gm_get_map_values: "gm_get (map (\<lambda>(k, x). (k, f x)) m) k = map_option f (gm_get m k)"
  by (induction m) auto

text \<open>
  C13. The addresses known after an update of the network map. An address unknown before is known
  afterwards exactly if it is listed (valid, not omitted, among the first 32768). One that was
  advertised in a call-me-maybe message stays. One from an earlier network map stays exactly if it is
  still listed. One learned from an incoming ping stays exactly if the last ping is at most 45
  seconds old, even when it is listed. What stays keeps its history of pongs.
\<close>

theorem network_map_addresses_exact:
  assumes "endpointInv de"
  shows "map_option esRecentPongs (gm_get (deEndpointState (setEndpointsLocked cv wnow eps de)) k) =
    (case gm_get (deEndpointState de) k of
       None \<Rightarrow> if listed cv eps k then Some [] else None
     | Some st \<Rightarrow>
         if (if \<not> wzero (esCallMeMaybeTime st) then True
             else if wzero (esLastGotPing st) then listed cv eps k
             else wsince wnow (esLastGotPing st) \<le> sessionActiveTimeout)
         then Some (esRecentPongs st) else None)"
proof -
  let ?m0 = "map (\<lambda>(k, st). (k, st\<lparr>esIndex := indexSentinelDeleted\<rparr>)) (deEndpointState de)"
  let ?es = "takeWhile (\<lambda>(i, ipp). \<not> int i > 32767) (enumerate 0 eps)"
  let ?m1 = "foldl (setEndpointStep cv) ?m0 ?es"
  have m0: "statesInv ?m0" using assms by (simp add: statesInv_map endpointInvD)
  then have wf: "gm_wf ?m1" using statesInv_setEndpointFold [OF m0, of cv ?es] by (simp add: statesInv_def)
  have "snd ` set ?es = set (take 32768 eps)"
    by (metis list.set_map map_snd_takeWhile)
  then obtain i where get1: "gm_get ?m1 k = (if listed cv eps k
      then Some ((case gm_get ?m0 k of Some st \<Rightarrow> st | None \<Rightarrow> zeroEndpointState)\<lparr>esIndex := int i\<rparr>) else gm_get ?m0 k)"
    using setEndpointFold_get [of cv ?m0 ?es k] by (auto simp: listed_def)
  have get0: "gm_get ?m0 k = map_option (\<lambda>st. st\<lparr>esIndex := indexSentinelDeleted\<rparr>) (gm_get (deEndpointState de) k)"
    by (rule gm_get_map_values)
  have step: "gm_get (deEndpointState (setEndpointsLocked cv wnow eps de)) k =
      (case gm_get ?m1 k of Some st \<Rightarrow> if shouldDeleteLocked wnow st then None else Some st | None \<Rightarrow> None)"
    using wf by (cases "gm_get ?m1 k")
      (simp_all add: setEndpointsLocked_def Let_def deleteStale_get gm_get_iff [symmetric])
  show ?thesis
    unfolding step get1 get0
    by (cases "gm_get (deEndpointState de) k"; cases "listed cv eps k")
      (simp_all add: shouldDeleteLocked_def zeroEndpointState_def indexSentinelDeleted_def wzero_def)
qed

section \<open>Relay path discovery\<close>

text \<open>A sequence of occasions \<open>(cv, now, de)\<close> at which the code asks whether to look for relay
  paths and starts when told so; of the endpoint only the time of the last start is carried over,
  everything else may have changed in between. The result is the times of the starts.\<close>

fun discoveryRun :: "mono \<Rightarrow> (connView \<times> mono \<times> endpoint) list \<Rightarrow> mono list" where
  "discoveryRun prev [] = []"
| "discoveryRun prev ((cv, now, de) # calls) =
     (let de' = de\<lparr>deLastUDPRelayPathDiscovery := prev\<rparr> in
      if wantUDPRelayPathDiscoveryLocked cv now de'
      then now # discoveryRun (deLastUDPRelayPathDiscovery (fst (discoverUDPRelayPathsLocked now now de'))) calls
      else discoveryRun prev calls)"

lemma wantDiscovery_spaced:
  assumes "wantUDPRelayPathDiscoveryLocked cv now de" "clock now" "clock (deLastUDPRelayPathDiscovery de)"
  shows "deLastUDPRelayPathDiscovery de = 0 \<or> now - deLastUDPRelayPathDiscovery de \<ge> discoverUDPRelayPathsInterval"
  using assms by (auto simp: wantUDPRelayPathDiscoveryLocked_def Let_def msub_clock mzero_def split: if_splits)

lemma discoveryRun_bound:
  assumes "\<forall>c\<in>set calls. clock (fst (snd c))" "clock prev" "0 < prev"
  shows "\<forall>t\<in>set (discoveryRun prev calls). t \<ge> prev + discoverUDPRelayPathsInterval"
  using assms
proof (induction prev calls rule: discoveryRun.induct)
  case (2 prev cv now de calls)
  have pos: "discoverUDPRelayPathsInterval > 0" by (simp add: ep_consts)
  show ?case
  proof (cases "wantUDPRelayPathDiscoveryLocked cv now (de\<lparr>deLastUDPRelayPathDiscovery := prev\<rparr>)")
    case True
    then have first: "now \<ge> prev + discoverUDPRelayPathsInterval"
      using wantDiscovery_spaced [OF True] 2(3-5) by simp
    then have "\<forall>t\<in>set (discoveryRun now calls). t \<ge> now + discoverUDPRelayPathsInterval"
      using 2(1) [OF refl True] 2(3-5) pos by (simp add: discoverUDPRelayPathsLocked_def)
    then show ?thesis using True first pos by (force simp: discoverUDPRelayPathsLocked_def)
  next
    case False
    then show ?thesis using 2(2) [OF refl False] 2(3-5) by simp
  qed
qed simp

text \<open>
  C16. Relay path discovery is rate limited. However often the code considers looking for relay
  paths, and however the endpoint changes in between (best address, trust, capability), two starts
  are at least 30 seconds apart, also when the comparison of direct and relay paths is switched on
  with a shorter interval.
\<close>

theorem relay_discovery_spaced:
  assumes "\<forall>c\<in>set calls. clock (fst (snd c)) \<and> 0 < fst (snd c)"
  shows "sorted_wrt (\<lambda>t u. t + discoverUDPRelayPathsInterval \<le> u) (discoveryRun 0 calls)"
proof -
  have "sorted_wrt (\<lambda>t u. t + discoverUDPRelayPathsInterval \<le> u) (discoveryRun prev calls)" for prev
    using assms
  proof (induction prev calls rule: discoveryRun.induct)
    case (2 prev cv now de calls)
    then show ?case
      using discoveryRun_bound [of calls now] by (auto simp: Let_def discoverUDPRelayPathsLocked_def)
  qed simp
  then show ?thesis .
qed

section \<open>A run\<close>

text \<open>A peer with two addresses in the network map is pinged at both and answers from the second.\<close>

definition exConn :: connView where
  "exConn = \<lparr>cvDvr = \<lparr>envknobDirectVsRelayCompare = False, envknobDirectVsRelayCompareInterv = 0,
       envknobDirectVsRelayHold = 0, envknobDirectVsRelayThresholdPct = 0\<rparr>,
     cvJS = False, cvNeverDirectUDP = False, cvHasPeerRelayServers = True, cvDiscoPublic = replicate 32 3,
     cvPeerMTUEnabled = False, cvNoV4 = False, cvNoV6 = False, cvMaxPacketSize = 1280,
     cvProbeSources = (\<lambda>v6. []), cvOmit = (\<lambda>a. False)\<rparr>"

definition exNode :: nodeView where
  "exNode = \<lparr>nvExpired = False, nvDiscoKey = replicate 32 8, nvHomeDERP = 1,
     nvEndpoints = [exAP 0x01020304, exAP 0x01020305], nvCap = 130\<rparr>"

definition exTxID :: "nat \<Rightarrow> txID" where
  "exTxID n = replicate 12 (word_of_nat n)"

definition exMapped :: endpoint where
  "exMapped = updateFromNode exConn 5 exNode False False (newEndpoint 7 (replicate 32 9) False False)"

definition exPinged :: "endpoint step" where
  "exPinged = sendDiscoPingsLocked exConn exTxID 1000 5 False exMapped"

definition exPongMsg :: pongMsg where
  "exPongMsg = \<lparr>pgTxID = exTxID 1, pgSrc = zeroAddrPort\<rparr>"

definition exSrc :: epAddr where
  "exSrc = \<lparr>ap = exAP 0x01020305, vni = 0\<rparr>"

definition exPonged :: "(bool \<times> endpoint) step" where
  "exPonged = handlePongConnLocked exConn 21000 5 exPongMsg exSrc (fst exPinged)"

lemma exPinged_run: "epRun (snd exPinged) (fst exPinged)"
proof -
  have "epRun ([] @ []) exMapped"
    unfolding exMapped_def by (rule epRun.Step [OF epRun.Start]) (rule epStep.UpdateFromNode)
  moreover have "epStep exMapped (snd exPinged) (fst exPinged)"
    unfolding exPinged_def by (rule epStep.FullPing) (rule prod.collapse [symmetric])
  ultimately show ?thesis using epRun.Step [of "[] @ []" exMapped] by simp
qed

theorem endpoint_run_safe_witness:
  "epRun (snd exPinged) (fst exPinged) \<and> length (snd exPinged) = 2 \<and> endpointInv (fst exPinged)"
proof -
  have "length (snd exPinged) = 2" by code_simp
  then show ?thesis using exPinged_run endpoint_run_safe [OF exPinged_run] by simp
qed

theorem network_map_addresses_exact_witness:
  "endpointInv exPeer
   \<and> gm_get (deEndpointState (setEndpointsLocked exConn 5 [exAP 0x01020305] exPeer)) (exAP 0x01020304) = None
   \<and> map_option esRecentPongs (gm_get (deEndpointState (setEndpointsLocked exConn 5 [exAP 0x01020305] exPeer)) (exAP 0x01020305))
       = Some [exReply 20]"
proof -
  have "gm_get (deEndpointState exPeer) (exAP 0x01020304) = Some (addPongReplyLocked (exReply 90) zeroEndpointState)"
    "gm_get (deEndpointState exPeer) (exAP 0x01020305) = Some (addPongReplyLocked (exReply 20) zeroEndpointState)"
    by code_simp+
  moreover have "\<not> listed exConn [exAP 0x01020305] (exAP 0x01020304)" "listed exConn [exAP 0x01020305] (exAP 0x01020305)"
    by (simp_all add: listed_def exAP_def exConn_def apIsValid_def addrIsValid_def)
  moreover have "esRecentPongs (addPongReplyLocked (exReply l) zeroEndpointState) = [exReply l]"
      "wzero (esCallMeMaybeTime (addPongReplyLocked (exReply l) zeroEndpointState))"
      "wzero (esLastGotPing (addPongReplyLocked (exReply l) zeroEndpointState))" for l
    by (simp_all add: addPongReplyLocked_def zeroEndpointState_def pongHistoryCount_def wzero_def)
  ultimately show ?thesis
    using exPeer_inv network_map_addresses_exact [OF exPeer_inv, of exConn 5 "[exAP 0x01020305]" "exAP 0x01020304"]
      network_map_addresses_exact [OF exPeer_inv, of exConn 5 "[exAP 0x01020305]" "exAP 0x01020305"] by simp
qed

text \<open>Asked every second for a minute and a half, the code starts three times.\<close>

theorem relay_discovery_spaced_witness:
  "discoveryRun 0 (map (\<lambda>i. (exConn, i * second, exMapped)) [1..90]) = [second, 31 * second, 61 * second]
   \<and> sorted_wrt (\<lambda>t u. t + discoverUDPRelayPathsInterval \<le> u)
       (discoveryRun 0 (map (\<lambda>i. (exConn, i * second, exMapped)) [1..90]))"
proof
  show "discoveryRun 0 (map (\<lambda>i. (exConn, i * second, exMapped)) [1..90]) = [second, 31 * second, 61 * second]"
    by code_simp
  show "sorted_wrt (\<lambda>t u. t + discoverUDPRelayPathsInterval \<le> u)
       (discoveryRun 0 (map (\<lambda>i. (exConn, i * second, exMapped)) [1..90]))"
    by (rule relay_discovery_spaced) (auto simp: clock_def second_def)
qed

theorem pong_takes_over_iff_witness:
  "aqAddr (deBestAddr (snd (fst exPonged))) = exSrc \<and> aqLatency (deBestAddr (snd (fst exPonged))) = 20000"
proof -
  have used: "pongUsed exConn exPongMsg exSrc (the (gm_get (deSentPing (fst exPinged)) (exTxID 1))) (fst exPinged)"
    by code_simp
  obtain known de' acts where call: "exPonged = ((known, de'), acts)" by (metis prod.exhaust)
  have "mafter 21000 (deTrustBestAddrUntil (fst exPinged))" by code_simp
  moreover have "aqAddr (pongQuality 21000 (the (gm_get (deSentPing (fst exPinged)) (exTxID 1)))) = exSrc"
      "aqLatency (pongQuality 21000 (the (gm_get (deSentPing (fst exPinged)) (exTxID 1)))) = 20000" by code_simp+
  ultimately show ?thesis
    using pong_takes_over_iff [OF used call [unfolded exPonged_def]] by (simp add: call Let_def)
qed

end
