(* ===== verification/Endpoint_Ident.thy ===== *)
theory Endpoint_Ident
  imports Endpoint_Run
begin

text \<open>
  What a method call leaves alone: node key, node id, disco key and the WireGuard-only flag of an
  endpoint, by which \<open>Peer_Map\<close> indexes it, change only with \<open>updateDiscoKey\<close> and \<open>updateFromNode\<close>.
\<close>

definition ident :: "endpoint \<Rightarrow> nodeKey \<times> int \<times> bool \<times> discoKey option" where
  "ident de = (dePublicKey de, deNodeID de, deIsWireguardOnly de, deDisco de)"

lemma ident_frame [simp]:
  "ident (de\<lparr>deLastRecvWG := t\<rparr>) = ident de" "ident (de\<lparr>deLastRecvUDPAny := t\<rparr>) = ident de"
  "ident (de\<lparr>deNumStopAndReset := k\<rparr>) = ident de" "ident (de\<lparr>deHeartBeatTimer := d\<rparr>) = ident de"
  "ident (de\<lparr>deLastSendExt := t\<rparr>) = ident de" "ident (de\<lparr>deLastSendAny := t\<rparr>) = ident de"
  "ident (de\<lparr>deLastFullPing := t\<rparr>) = ident de" "ident (de\<lparr>deLastUDPRelayPathDiscovery := t\<rparr>) = ident de"
  "ident (de\<lparr>deLastDirectVsRelaySwap := t\<rparr>) = ident de" "ident (de\<lparr>deDerpAddr := a\<rparr>) = ident de"
  "ident (de\<lparr>deBestAddr := q\<rparr>) = ident de" "ident (de\<lparr>deBestAddrAt := t\<rparr>) = ident de"
  "ident (de\<lparr>deTrustBestAddrUntil := t\<rparr>) = ident de" "ident (de\<lparr>deRemoteSlots := rs\<rparr>) = ident de"
  "ident (de\<lparr>dePeerAware := pa\<rparr>) = ident de" "ident (de\<lparr>deSingleSince := t\<rparr>) = ident de"
  "ident (de\<lparr>deSinglePkts := n\<rparr>) = ident de" "ident (de\<lparr>deActive := ac\<rparr>) = ident de"
  "ident (de\<lparr>deSentPing := sp\<rparr>) = ident de" "ident (de\<lparr>deEndpointState := m\<rparr>) = ident de"
  "ident (de\<lparr>deIsCallMeMaybeEP := cm\<rparr>) = ident de" "ident (de\<lparr>deHeartbeatDisabled := b\<rparr>) = ident de"
  "ident (de\<lparr>deProbeUDPLifetime := po\<rparr>) = ident de" "ident (de\<lparr>deExpired := b\<rparr>) = ident de"
  "ident (de\<lparr>deRelayCapable := b\<rparr>) = ident de" "ident (de\<lparr>deTaken := ts\<rparr>) = ident de" "ident (de\<lparr>deDraws := j\<rparr>) = ident de"
  "ident (de\<lparr>deNodeAddr := na\<rparr>) = ident de" "ident (de\<lparr>deLastDiscoKeyAdvertisement := t\<rparr>) = ident de"
  by (simp_all add: ident_def)

lemma ident_best [simp]: "ident (setBestAddrLocked v de) = ident de" "ident (clearBestAddrLocked de) = ident de"
  by (simp_all add: setBestAddrLocked_def clearBestAddrLocked_def Let_def)

lemma ident_simple [simp]:
  "ident (udpRelayEndpointReady d q now de) = ident de" "ident (deleteEndpointLocked ep de) = ident de"
  "ident (noteBadEndpoint a de) = ident de" "ident (noteConnectivityChange de) = ident de"
  "ident (noteTxActivityExtTriggerLocked now de) = ident de" "ident (setLastPing ipp now de) = ident de"
  "ident (wireGuardOnlyPong ipp now reply de) = ident de" "ident (setHeartbeatDisabled v de) = ident de"
  "ident (setProbeUDPLifetimeOn v de) = ident de" "ident (noteSourcePathDualSendAvailability now dm sr n de) = ident de"
  "ident (noteSourcePathObservedEndpointFailure a de) = ident de" "ident (promotePong dv now l sp de) = ident de"
  by (simp_all add: udpRelayEndpointReady_def deleteEndpointLocked_def noteBadEndpoint_def noteConnectivityChange_def
      noteTxActivityExtTriggerLocked_def setLastPing_def wireGuardOnlyPong_def setHeartbeatDisabled_def
      setProbeUDPLifetimeOn_def noteSourcePathDualSendAvailability_def noteSourcePathObservedEndpointFailure_def
      promotePong_def Let_def split: option.split)

lemma ident_addrFor [simp]:
  "ident (snd (addrForWireGuardSendLocked pick now de)) = ident de"
  "ident (snd (addrForSendLocked pick now de)) = ident de"
  "ident (snd (addrForPingSizeLocked pick now sz de)) = ident de"
  "ident (snd (dualEndpointAddrsForSendLocked now wnow de)) = ident de"
  "ident (snd (classifySourcePathRemoteSlot now wnow src de)) = ident de"
  "ident (snd (sourcePathPeerAwareEndpoint pk src rx de)) = ident de"
  "ident (snd (noteRecvActivity hook src now de)) = ident de"
proof -
  show wg: "ident (snd (addrForWireGuardSendLocked pick now de)) = ident de" for de
    by (simp add: addrForWireGuardSendLocked_def Let_def split: prod.split)
  show sd: "ident (snd (addrForSendLocked pick now de)) = ident de" for de
    using wg [of de] by (auto simp: addrForSendLocked_def Let_def split: prod.split)
  show "ident (snd (addrForPingSizeLocked pick now sz de)) = ident de"
    using sd [of de] by (auto simp: addrForPingSizeLocked_def Let_def split: prod.split)
  show "ident (snd (dualEndpointAddrsForSendLocked now wnow de)) = ident de"
    by (simp add: dualEndpointAddrsForSendLocked_def Let_def split: prod.split)
  show "ident (snd (classifySourcePathRemoteSlot now wnow src de)) = ident de"
    by (simp add: classifySourcePathRemoteSlot_def Let_def split: option.split)
  show "ident (snd (sourcePathPeerAwareEndpoint pk src rx de)) = ident de"
    by (simp add: sourcePathPeerAwareEndpoint_def Let_def)
  show "ident (snd (noteRecvActivity hook src now de)) = ident de"
    by (simp add: noteRecvActivity_def Let_def)
qed

lemma ident_deleteStale [simp]: "ident (foldl (deleteIfStale wnow) de es) = ident de"
  by (induction es arbitrary: de) (simp_all add: deleteIfStale_def)

lemma ident_endpoints [simp]:
  "ident (setEndpointsLocked cv wnow eps de) = ident de"
  "ident (snd (addCandidateEndpoint cv wnow ep txid de)) = ident de"
  by (simp_all add: setEndpointsLocked_def addCandidateEndpoint_def Let_def split: option.split)

lemma ident_callMeMaybe [simp]: "ident (noteCallMeMaybe cv wnow eps de) = ident de"
proof -
  have a: "ident (foldl (callMeMaybeStep cv wnow) de eps) = ident de" for de
    by (induction eps arbitrary: de) (simp_all add: callMeMaybeStep_def Let_def)
  have b: "ident (foldl dropUnwanted de es) = ident de" for de es
    by (induction es arbitrary: de) (simp_all add: dropUnwanted_def)
  show ?thesis by (simp add: noteCallMeMaybe_def Let_def a b)
qed

section \<open>Steps\<close>

lemma ident_removePing [simp]: "ident (fst (removeSentDiscoPingLocked cv wnow txid sp result de)) = ident de"
  by (simp add: removeSentDiscoPingLocked_def fst_andThen probeUDPLifetimeCliffDoneLocked_def
      scheduleHeartbeatForLifetimeLocked_def Let_def split: option.split maybeProbe.split)

lemma ident_pings [simp]:
  "ident (fst (discoPingTimeout cv now wnow txid de)) = ident de" "ident (fst (forgetDiscoPing cv wnow txid de)) = ident de"
  "ident (fst (scheduleHeartbeatForLifetimeLocked after de)) = ident de"
  "ident (fst (discoverUDPRelayPathsLocked now now2 de)) = ident de"
  "ident (fst (sendWireGuardOnlyPingsLocked cv now de)) = ident de" "ident (fst (setDERPHome cv r de)) = ident de"
  "ident (fst (replyCallback latency sp de)) = ident de"
  by (simp_all add: discoPingTimeout_def forgetDiscoPing_def scheduleHeartbeatForLifetimeLocked_def discoverUDPRelayPathsLocked_def
      sendWireGuardOnlyPingsLocked_def setDERPHome_def replyCallback_def Let_def split: option.split)

lemma ident_start [simp]:
  "ident (fst (startPings cv newTxID ep disco now purpose resCB verbose sizes de)) = ident de"
  by (induction sizes arbitrary: de) (simp_all add: fst_andThen startOnePing_def Let_def)

lemma ident_startDiscoPing [simp]: "ident (fst (startDiscoPingLocked cv newTxID ep now purpose sz resCB de)) = ident de"
  by (simp add: startDiscoPingLocked_def Let_def split: option.split)

lemma ident_pingAll [simp]: "ident (fst (pingAll cv newTxID now sz resCB eps de)) = ident de"
  by (induction eps arbitrary: de) (simp_all add: fst_andThen)

lemma ident_sendDiscoPings [simp]: "ident (fst (sendDiscoPingsLocked cv newTxID now wnow cmm de)) = ident de"
proof -
  have step: "ident (fst (fst (sendPingsStep cv newTxID now wnow s entry))) = ident (fst (fst s))" for s entry
    by (simp add: sendPingsStep_def fst_andThen split: prod.split)
  have "ident (fst (fst (foldl (sendPingsStep cv newTxID now wnow) s es))) = ident (fst (fst s))" for s es
    by (induction es arbitrary: s) (simp_all add: step)
  then show ?thesis by (simp add: sendDiscoPingsLocked_def Let_def fst_andThen split_beta)
qed

lemma ident_timers [simp]:
  "ident (fst (heartbeatForLifetime cv newTxID now now2 wnow de)) = ident de"
  "ident (fst (heartbeat cv newTxID pick now now2 wnow de)) = ident de"
proof -
  show "ident (fst (heartbeatForLifetime cv newTxID now now2 wnow de)) = ident de"
    by (simp add: heartbeatForLifetime_def Let_def split: option.split maybeProbe.split)
  let ?de = "de\<lparr>deProbeUDPLifetime := map_option (\<lambda>p. p\<lparr>plTimer := None\<rparr>) (deProbeUDPLifetime de), deHeartBeatTimer := None\<rparr>"
  obtain u dp w de1 where a: "addrForSendLocked pick now ?de = ((u, dp, w), de1)" by (metis prod.exhaust)
  then have de1: "ident de1 = ident de" using ident_addrFor(2) [of pick now ?de] by simp
  show "ident (fst (heartbeat cv newTxID pick now now2 wnow de)) = ident de"
    by (simp add: heartbeat_def Let_def a fst_andThen de1 split: maybeProbe.split)
qed

lemma ident_discoPing [simp]: "ident (fst (discoPing cv newTxID pick now now2 cb sz de)) = ident de"
proof -
  obtain u dp de1 where a: "addrForPingSizeLocked pick now sz de = ((u, dp), de1)" by (metis prod.exhaust)
  then have de1: "ident de1 = ident de" using ident_addrFor(3) [of pick now sz de] by simp
  show ?thesis unfolding discoPing_def a Let_def by (simp add: fst_andThen de1)
qed

lemma ident_handleCallMeMaybe [simp]: "ident (fst (handleCallMeMaybe cv newTxID monoNow now2 wnow eps de)) = ident de"
  by (simp add: handleCallMeMaybe_def fst_andThen)

lemma ident_handlePong [simp]: "ident (snd (fst (handlePongConnLocked cv now wnow m src de))) = ident de"
  by (simp add: handlePongConnLocked_def Let_def fst_andThen split: option.split)

lemma ident_removeAll [simp]: "ident (fst (removeAllPings cv wnow de)) = ident de"
proof -
  have "ident (fst (foldl (\<lambda>s entry. andThen s (removeSentDiscoPingLocked cv wnow (fst entry) (snd entry) discoPingResultUnknown)) s es))
      = ident (fst s)" for s es
    by (induction es arbitrary: s) (simp_all add: fst_andThen)
  then show ?thesis by (simp add: removeAllPings_def)
qed

lemma ident_stop [simp]: "ident (fst (stopAndReset cv wnow de)) = ident de"
  by (simp add: stopAndReset_def resetLocked_def fst_andThen Let_def)

lemma ident_updateDiscoKey [simp]:
  "ident (updateDiscoKey k de) = (dePublicKey de, deNodeID de, deIsWireguardOnly de, if k = zeroDiscoKey then None else Some k)"
  by (simp add: ident_def updateDiscoKey_def)

text \<open>An endpoint never holds the zero disco key, so an update from a node leaves it with that node's key.\<close>

lemma ident_updateFromNode:
  assumes "deDisco de \<noteq> Some zeroDiscoKey"
  shows "ident (updateFromNode cv wnow n hb pl de) =
     (dePublicKey de, deNodeID de, deIsWireguardOnly de, if nvDiscoKey n = zeroDiscoKey then None else Some (nvDiscoKey n))"
proof (cases "(case deDisco de of Some k \<Rightarrow> k | None \<Rightarrow> zeroDiscoKey) = nvDiscoKey n")
  case True
  then have "deDisco de = (if nvDiscoKey n = zeroDiscoKey then None else Some (nvDiscoKey n))"
    using assms by (cases "deDisco de") auto
  then show ?thesis using True by (simp add: updateFromNode_def Let_def) (simp add: ident_def)
next
  case False
  then show ?thesis by (simp add: updateFromNode_def Let_def)
qed

text \<open>A step is one of the methods that keep the identity, or an update from the network map.\<close>

lemma epStep_ident:
  assumes "epStep de acts de'"
  shows "ident de' = ident de \<or> (\<exists>cv wnow n hb pl. de' = updateFromNode cv wnow n hb pl de)"
  using assms
proof (cases rule: epStep.cases)
  case (UpdateFromNode cv wnow n hb pl)
  then show ?thesis by blast
next
  case (Pong cv now wnow m src known)
  then show ?thesis using ident_handlePong [of cv now wnow m src de] by simp
qed (simp_all, (metis ident_pings ident_sendDiscoPings ident_timers ident_discoPing ident_handleCallMeMaybe ident_stop fst_conv)+)

end
