(* ===== verification/Peer_Map.thy ===== *)
theory Peer_Map
  imports Endpoint_Run
begin

text \<open>
  The index of peers, \<open>src/wgengine/magicsock/peermap.go\<close>. Endpoints and \<open>peerInfo\<close> objects are
  shared by pointer between the indices, so both live in a store and the indices hold references: a
  \<open>*endpoint\<close> is a position in the list of endpoints ever created, a \<open>*peerInfo\<close> a position in
  \<open>mpInfos\<close>. A \<open>set.Set\<close> is a list read as a set.
\<close>

section \<open>The data\<close>

type_synonym epRef = nat
type_synonym infoRef = nat

record peerInfo =
  piEp :: epRef
  piEpAddrs :: "epAddr list"

record peerMap =
  mpByNodeKey :: "(nodeKey, infoRef) gomap"
  mpByEpAddr :: "(epAddr, infoRef) gomap"
  mpByNodeID :: "(int, infoRef) gomap"
  mpRelayEpAddr :: "(nodeKey, epAddr) gomap"
  mpNodesOfDisco :: "(discoKey, nodeKey list) gomap"
  mpInfos :: "peerInfo list"

definition newPeerInfo :: "epRef \<Rightarrow> peerInfo" where
  "newPeerInfo r = \<lparr>piEp = r, piEpAddrs = []\<rparr>"

definition newPeerMap :: peerMap where
  "newPeerMap = \<lparr>mpByNodeKey = [], mpByEpAddr = [], mpByNodeID = [], mpRelayEpAddr = [], mpNodesOfDisco = [], mpInfos = []\<rparr>"

text \<open>What a panic says; \<open>devPanicf\<close> panics only in tests and with the knob \<open>CrashOnUnexpected\<close>.\<close>

datatype panic = NilDiscoDereference | ZeroNodeIDUpsert | NilNodeView | NilMapWrite | SliceOutOfRange | DevPanic string | ExplicitPanic string

definition devPanicf :: "bool \<Rightarrow> string \<Rightarrow> 'a \<Rightarrow> panic + 'a" where
  "devPanicf crashOnUnexpected msg k = (if crashOnUnexpected then Inl (DevPanic msg) else Inr k)"

section \<open>Lookups\<close>

definition nodeCount :: "bool \<Rightarrow> peerMap \<Rightarrow> panic + nat" where
  "nodeCount crashOnUnexpected m =
     (if length (mpByNodeKey m) \<noteq> length (mpByNodeID m)
      then devPanicf crashOnUnexpected ''internal error: peerMap.byNodeKey and byNodeID out of sync'' (length (mpByNodeKey m))
      else Inr (length (mpByNodeKey m)))"

definition knownPeerDiscoKey :: "discoKey \<Rightarrow> peerMap \<Rightarrow> bool" where
  "knownPeerDiscoKey dk m \<longleftrightarrow> gm_get (mpNodesOfDisco m) dk \<noteq> None"

definition infoEp :: "peerMap \<Rightarrow> infoRef \<Rightarrow> epRef" where
  "infoEp m i = piEp (mpInfos m ! i)"

definition zeroNodeKey :: nodeKey where
  "zeroNodeKey = replicate 32 0"

definition endpointForNodeKey :: "nodeKey \<Rightarrow> peerMap \<Rightarrow> epRef option" where
  "endpointForNodeKey nk m = (if nk = zeroNodeKey then None else map_option (infoEp m) (gm_get (mpByNodeKey m) nk))"

definition endpointForNodeID :: "int \<Rightarrow> peerMap \<Rightarrow> epRef option" where
  "endpointForNodeID nid m = map_option (infoEp m) (gm_get (mpByNodeID m) nid)"

definition endpointForEpAddr :: "epAddr \<Rightarrow> peerMap \<Rightarrow> epRef option" where
  "endpointForEpAddr a m = map_option (infoEp m) (gm_get (mpByEpAddr m) a)"

text \<open>The endpoints that the two iterators visit, in the order of the map.\<close>

definition forEachEndpoint :: "peerMap \<Rightarrow> epRef list" where
  "forEachEndpoint m = map (infoEp m \<circ> snd) (mpByNodeKey m)"

definition nodesOf :: "peerMap \<Rightarrow> discoKey \<Rightarrow> nodeKey list" where
  "nodesOf m dk = (case gm_get (mpNodesOfDisco m) dk of Some s \<Rightarrow> s | None \<Rightarrow> [])"

definition forEachEndpointWithDiscoKey :: "discoKey \<Rightarrow> peerMap \<Rightarrow> epRef list" where
  "forEachEndpointWithDiscoKey dk m =
     List.map_filter (\<lambda>nk. map_option (infoEp m) (gm_get (mpByNodeKey m) nk)) (nodesOf m dk)"

section \<open>Updates\<close>

text \<open>Removing and adding an address in the inverted index of a \<open>peerInfo\<close> together with \<open>byEpAddr\<close>.\<close>

definition dropAddr :: "infoRef \<Rightarrow> epAddr \<Rightarrow> peerMap \<Rightarrow> peerMap" where
  "dropAddr i a m =
     m\<lparr>mpInfos := (mpInfos m)[i := (mpInfos m ! i)\<lparr>piEpAddrs := removeAll a (piEpAddrs (mpInfos m ! i))\<rparr>],
       mpByEpAddr := gm_del a (mpByEpAddr m)\<rparr>"

definition putAddr :: "infoRef \<Rightarrow> epAddr \<Rightarrow> peerMap \<Rightarrow> peerMap" where
  "putAddr i a m =
     m\<lparr>mpInfos := (mpInfos m)[i := (mpInfos m ! i)\<lparr>piEpAddrs := List.insert a (piEpAddrs (mpInfos m ! i))\<rparr>],
       mpByEpAddr := gm_set a i (mpByEpAddr m)\<rparr>"

text \<open>The first half of \<open>setNodeKeyForEpAddr\<close>: whoever has the address loses it.\<close>

definition forgetAddr :: "endpoint list \<Rightarrow> epAddr \<Rightarrow> peerMap \<Rightarrow> peerMap" where
  "forgetAddr eps a m = (case gm_get (mpByEpAddr m) a of
       None \<Rightarrow> m
     | Some i \<Rightarrow>
         let m' = dropAddr i a m
         in if vniIsSet (vni a)
            then m'\<lparr>mpRelayEpAddr := gm_del (dePublicKey (eps ! infoEp m i)) (mpRelayEpAddr m')\<rparr> else m')"

definition setNodeKeyForEpAddr :: "endpoint list \<Rightarrow> epAddr \<Rightarrow> nodeKey \<Rightarrow> peerMap \<Rightarrow> peerMap" where
  "setNodeKeyForEpAddr eps a nk m =
     (let m1 = forgetAddr eps a m
      in case gm_get (mpByNodeKey m1) nk of
           None \<Rightarrow> m1
         | Some i \<Rightarrow>
             let m2 = (if vniIsSet (vni a)
                       then let m' = (case gm_get (mpRelayEpAddr m1) nk of None \<Rightarrow> m1 | Some relay \<Rightarrow> dropAddr i relay m1)
                            in m'\<lparr>mpRelayEpAddr := gm_set nk a (mpRelayEpAddr m')\<rparr>
                       else m1)
             in putAddr i a m2)"

text \<open>\<open>delete(m.nodesOfDisco[dk], nk)\<close>, which does nothing when there is no such set.\<close>

definition dropDiscoNode :: "discoKey \<Rightarrow> nodeKey \<Rightarrow> peerMap \<Rightarrow> peerMap" where
  "dropDiscoNode dk nk m =
     (case gm_get (mpNodesOfDisco m) dk of
        None \<Rightarrow> m
      | Some s \<Rightarrow> m\<lparr>mpNodesOfDisco := gm_set dk (removeAll nk s) (mpNodesOfDisco m)\<rparr>)"

definition addDiscoNode :: "discoKey \<Rightarrow> nodeKey \<Rightarrow> peerMap \<Rightarrow> peerMap" where
  "addDiscoNode dk nk m = m\<lparr>mpNodesOfDisco := gm_set dk (List.insert nk (nodesOf m dk)) (mpNodesOfDisco m)\<rparr>"

text \<open>The end of \<open>upsertEndpoint\<close>, from the update of the sets by disco key on.\<close>

definition upsertDisco :: "endpoint list \<Rightarrow> epRef \<Rightarrow> discoKey \<Rightarrow> peerMap \<Rightarrow> panic + peerMap" where
  "upsertDisco eps r oldDiscoKey m2 =
     (let ep = eps ! r; k = dePublicKey ep;
          m3 = (if deDisco ep = None \<or> deDisco ep \<noteq> Some oldDiscoKey then dropDiscoNode oldDiscoKey k m2 else m2)
      in if deIsWireguardOnly ep
         then Inr (foldl (\<lambda>m ipp. setNodeKeyForEpAddr eps \<lparr>ap = ipp, vni = 0\<rparr> k m) m3 (map fst (deEndpointState ep)))
         else case deDisco ep of
           None \<Rightarrow> Inl NilDiscoDereference
         | Some dk \<Rightarrow> Inr (addDiscoNode dk k m3))"

definition upsertEndpoint :: "endpoint list \<Rightarrow> epRef \<Rightarrow> discoKey \<Rightarrow> peerMap \<Rightarrow> panic + peerMap" where
  "upsertEndpoint eps r oldDiscoKey m =
     (let ep = eps ! r; k = dePublicKey ep
      in if deNodeID ep = 0 then Inl ZeroNodeIDUpsert
      else
        let (i, m1) = (case gm_get (mpByNodeKey m) k of
               Some i \<Rightarrow> (i, m)
             | None \<Rightarrow> (length (mpInfos m),
                        m\<lparr>mpInfos := mpInfos m @ [newPeerInfo r], mpByNodeKey := gm_set k (length (mpInfos m)) (mpByNodeKey m)\<rparr>))
        in upsertDisco eps r oldDiscoKey (m1\<lparr>mpByNodeID := gm_set (deNodeID ep) i (mpByNodeID m1)\<rparr>))"

text \<open>The part of \<open>deleteEndpoint\<close> after the call of \<open>stopAndReset\<close>; \<open>r\<close> is not nil.\<close>

definition deleteFromIndices :: "endpoint list \<Rightarrow> epRef \<Rightarrow> peerMap \<Rightarrow> peerMap" where
  "deleteFromIndices eps r m =
     (let ep = eps ! r; k = dePublicKey ep;
          pi = gm_get (mpByNodeKey m) k;
          m1 = (case deDisco ep of Some dk \<Rightarrow> dropDiscoNode dk k m | None \<Rightarrow> m);
          m2 = m1\<lparr>mpByNodeKey := gm_del k (mpByNodeKey m1)\<rparr>;
          m3 = (case gm_get (mpByNodeID m2) (deNodeID ep) of
                  Some was \<Rightarrow> if infoEp m2 was = r then m2\<lparr>mpByNodeID := gm_del (deNodeID ep) (mpByNodeID m2)\<rparr> else m2
                | None \<Rightarrow> m2)
      in case pi of
           None \<Rightarrow> m3
         | Some i \<Rightarrow> m3\<lparr>mpByEpAddr := gm_del_if (\<lambda>a _. a \<in> set (piEpAddrs (mpInfos m3 ! i))) (mpByEpAddr m3),
                        mpRelayEpAddr := gm_del k (mpRelayEpAddr m3)\<rparr>)"

definition deleteEndpoint :: "connView \<Rightarrow> walltime \<Rightarrow> epRef \<Rightarrow> endpoint list \<times> peerMap \<Rightarrow> (endpoint list \<times> peerMap) step" where
  "deleteEndpoint cv wnow r s =
     (let (eps, m) = s; (de, acts) = stopAndReset cv wnow (eps ! r); eps' = eps[r := de]
      in ((eps', deleteFromIndices eps' r m), acts))"

section \<open>The invariant\<close>

definition addrsOf :: "peerMap \<Rightarrow> infoRef \<Rightarrow> epAddr set" where
  "addrsOf m i = set (piEpAddrs (mpInfos m ! i))"

text \<open>The maps by node key and by node id hold the same objects, under the key and id of their
  endpoints.\<close>

definition keysInv :: "endpoint list \<Rightarrow> peerMap \<Rightarrow> bool" where
  "keysInv eps m \<longleftrightarrow>
     (\<forall>k i. gm_get (mpByNodeKey m) k = Some i \<longrightarrow>
        i < length (mpInfos m) \<and> infoEp m i < length eps \<and> dePublicKey (eps ! infoEp m i) = k
        \<and> gm_get (mpByNodeID m) (deNodeID (eps ! infoEp m i)) = Some i) \<and>
     (\<forall>n i. gm_get (mpByNodeID m) n = Some i \<longrightarrow>
        deNodeID (eps ! infoEp m i) = n \<and> gm_get (mpByNodeKey m) (dePublicKey (eps ! infoEp m i)) = Some i)"

text \<open>\<open>byEpAddr\<close> is the inverse of the sets of addresses of the objects in the map.\<close>

definition addrsInv :: "peerMap \<Rightarrow> bool" where
  "addrsInv m \<longleftrightarrow> (\<forall>a i. gm_get (mpByEpAddr m) a = Some i \<longleftrightarrow> (\<exists>k. gm_get (mpByNodeKey m) k = Some i) \<and> a \<in> addrsOf m i)"

text \<open>A node has at most one relay address, and it is the recorded one.\<close>

definition relayInv :: "peerMap \<Rightarrow> bool" where
  "relayInv m \<longleftrightarrow> (\<forall>k a. gm_get (mpRelayEpAddr m) k = Some a \<longleftrightarrow>
     vniIsSet (vni a) \<and> (\<exists>i. gm_get (mpByNodeKey m) k = Some i \<and> a \<in> addrsOf m i))"

text \<open>The node keys recorded for a disco key are those of the endpoints that have it.\<close>

definition discoInv :: "endpoint list \<Rightarrow> peerMap \<Rightarrow> bool" where
  "discoInv eps m \<longleftrightarrow> (\<forall>d k. k \<in> set (nodesOf m d) \<longleftrightarrow>
     (\<exists>i. gm_get (mpByNodeKey m) k = Some i \<and> \<not> deIsWireguardOnly (eps ! infoEp m i) \<and> deDisco (eps ! infoEp m i) = Some d))"

definition mapsWf :: "peerMap \<Rightarrow> bool" where
  "mapsWf m \<longleftrightarrow> gm_wf (mpByNodeKey m) \<and> gm_wf (mpByEpAddr m) \<and> gm_wf (mpByNodeID m) \<and> gm_wf (mpRelayEpAddr m) \<and> gm_wf (mpNodesOfDisco m)"

definition peerInv :: "endpoint list \<Rightarrow> peerMap \<Rightarrow> bool" where
  "peerInv eps m \<longleftrightarrow> mapsWf m \<and> keysInv eps m \<and> addrsInv m \<and> relayInv m \<and> discoInv eps m"

lemmas peerInv_defs = peerInv_def mapsWf_def keysInv_def addrsInv_def relayInv_def discoInv_def

lemma peerInv_new: "peerInv eps newPeerMap"
  by (simp add: peerInv_defs newPeerMap_def nodesOf_def)

lemma keysInvD:
  assumes "keysInv eps m" "gm_get (mpByNodeKey m) k = Some i"
  shows "i < length (mpInfos m)" "infoEp m i < length eps" "dePublicKey (eps ! infoEp m i) = k"
    "gm_get (mpByNodeID m) (deNodeID (eps ! infoEp m i)) = Some i"
  using assms by (auto simp: keysInv_def)

lemma keysInv_inj: "keysInv eps m \<Longrightarrow> gm_get (mpByNodeKey m) k = Some i \<Longrightarrow> gm_get (mpByNodeKey m) k' = Some i \<Longrightarrow> k = k'"
  by (metis keysInvD(3))

lemma keysInv_byID:
  "keysInv eps m \<Longrightarrow> gm_get (mpByNodeID m) n = Some i \<longleftrightarrow> (\<exists>k. gm_get (mpByNodeKey m) k = Some i \<and> deNodeID (eps ! infoEp m i) = n)"
  unfolding keysInv_def by metis

text \<open>Lookups through the different indices agree.\<close>

lemma keysInv_same_ep:
  assumes "keysInv eps m" "gm_get (mpByNodeKey m) k = Some i" "gm_get (mpByNodeKey m) k' = Some j" "infoEp m i = infoEp m j"
  shows "i = j"
  using keysInvD(3) [OF assms(1,2)] keysInvD(3) [OF assms(1,3)] assms by simp

lemma addrsInvI: "addrsInv m \<Longrightarrow> gm_get (mpByNodeKey m) k = Some i \<Longrightarrow> a \<in> addrsOf m i \<Longrightarrow> gm_get (mpByEpAddr m) a = Some i"
  by (auto simp: addrsInv_def)

lemma relayInvI:
  "relayInv m \<Longrightarrow> gm_get (mpByNodeKey m) k = Some i \<Longrightarrow> a \<in> addrsOf m i \<Longrightarrow> vniIsSet (vni a) \<Longrightarrow> gm_get (mpRelayEpAddr m) k = Some a"
  by (auto simp: relayInv_def)

lemma relayInvD:
  "relayInv m \<Longrightarrow> gm_get (mpRelayEpAddr m) k = Some a \<Longrightarrow> vniIsSet (vni a) \<and> (\<exists>i. gm_get (mpByNodeKey m) k = Some i \<and> a \<in> addrsOf m i)"
  by (auto simp: relayInv_def)

lemma relayInv_inj:
  assumes "keysInv eps m" "addrsInv m" "relayInv m"
    "gm_get (mpRelayEpAddr m) k = Some a" "gm_get (mpRelayEpAddr m) k' = Some a"
  shows "k = k'"
proof -
  obtain i j where ij: "gm_get (mpByNodeKey m) k = Some i" "a \<in> addrsOf m i" "gm_get (mpByNodeKey m) k' = Some j" "a \<in> addrsOf m j"
    using relayInvD [OF assms(3,4)] relayInvD [OF assms(3,5)] by blast
  then have "i = j" using addrsInvI [OF assms(2) ij(1,2)] addrsInvI [OF assms(2) ij(3,4)] by simp
  then show ?thesis using keysInv_inj [OF assms(1) ij(1)] ij(3) by simp
qed

subsection \<open>Moving addresses\<close>

lemma drop_sel [simp]:
  "mpByNodeKey (dropAddr i a m) = mpByNodeKey m" "mpByNodeID (dropAddr i a m) = mpByNodeID m"
  "mpRelayEpAddr (dropAddr i a m) = mpRelayEpAddr m" "mpNodesOfDisco (dropAddr i a m) = mpNodesOfDisco m"
  "length (mpInfos (dropAddr i a m)) = length (mpInfos m)" "mpByEpAddr (dropAddr i a m) = gm_del a (mpByEpAddr m)"
  "nodesOf (dropAddr i a m) = nodesOf m"
  by (simp_all add: dropAddr_def nodesOf_def fun_eq_iff)

lemma put_sel [simp]:
  "mpByNodeKey (putAddr i a m) = mpByNodeKey m" "mpByNodeID (putAddr i a m) = mpByNodeID m"
  "mpRelayEpAddr (putAddr i a m) = mpRelayEpAddr m" "mpNodesOfDisco (putAddr i a m) = mpNodesOfDisco m"
  "length (mpInfos (putAddr i a m)) = length (mpInfos m)" "mpByEpAddr (putAddr i a m) = gm_set a i (mpByEpAddr m)"
  "nodesOf (putAddr i a m) = nodesOf m"
  by (simp_all add: putAddr_def nodesOf_def fun_eq_iff)

lemma nth_update_field: "f x = f (xs ! i) \<Longrightarrow> f (xs[i := x] ! j) = f (xs ! j)"
  by (cases "i < length xs") (auto simp: nth_list_update list_update_beyond linorder_not_less)

lemma infoEp_addr [simp]: "infoEp (dropAddr i a m) = infoEp m" "infoEp (putAddr i a m) = infoEp m"
  by (auto simp: fun_eq_iff infoEp_def dropAddr_def putAddr_def nth_update_field)

lemma infoEp_relay [simp]: "infoEp (m\<lparr>mpRelayEpAddr := x\<rparr>) = infoEp m" "addrsOf (m\<lparr>mpRelayEpAddr := x\<rparr>) = addrsOf m"
    "nodesOf (m\<lparr>mpRelayEpAddr := x\<rparr>) = nodesOf m"
  by (auto simp: fun_eq_iff infoEp_def addrsOf_def nodesOf_def)

lemma addrsOf_drop: "i < length (mpInfos m) \<Longrightarrow> addrsOf (dropAddr i a m) j = (if j = i then addrsOf m i - {a} else addrsOf m j)"
  by (auto simp: addrsOf_def dropAddr_def nth_list_update)

lemma addrsOf_put: "i < length (mpInfos m) \<Longrightarrow> addrsOf (putAddr i a m) j = (if j = i then insert a (addrsOf m i) else addrsOf m j)"
  by (auto simp: addrsOf_def putAddr_def nth_list_update)

lemma keysInv_cong:
  "mpByNodeKey m' = mpByNodeKey m \<Longrightarrow> mpByNodeID m' = mpByNodeID m \<Longrightarrow> infoEp m' = infoEp m
    \<Longrightarrow> length (mpInfos m') = length (mpInfos m) \<Longrightarrow> keysInv eps m' = keysInv eps m"
  by (simp add: keysInv_def)

lemma discoInv_cong:
  "mpByNodeKey m' = mpByNodeKey m \<Longrightarrow> nodesOf m' = nodesOf m \<Longrightarrow> infoEp m' = infoEp m \<Longrightarrow> discoInv eps m' = discoInv eps m"
  by (simp add: discoInv_def)

lemma forget_sel [simp]:
  "mpByNodeKey (forgetAddr eps a m) = mpByNodeKey m" "mpByNodeID (forgetAddr eps a m) = mpByNodeID m"
  "mpNodesOfDisco (forgetAddr eps a m) = mpNodesOfDisco m" "nodesOf (forgetAddr eps a m) = nodesOf m"
  "length (mpInfos (forgetAddr eps a m)) = length (mpInfos m)" "infoEp (forgetAddr eps a m) = infoEp m"
  by (simp_all add: forgetAddr_def Let_def split: option.split)

lemma forget_get: "gm_get (mpByEpAddr (forgetAddr eps a m)) b = (if b = a then None else gm_get (mpByEpAddr m) b)"
  by (auto simp: forgetAddr_def Let_def gm_get_del split: option.split)

lemma forget_addrs:
  assumes "keysInv eps m" "addrsInv m" "gm_get (mpByNodeKey m) k = Some j"
  shows "addrsOf (forgetAddr eps a m) j = addrsOf m j - {a}"
proof (cases "gm_get (mpByEpAddr m) a")
  case None
  then have "a \<notin> addrsOf m j" using addrsInvI [OF assms(2,3)] by auto
  then show ?thesis using None by (simp add: forgetAddr_def)
next
  case (Some i)
  then obtain k' where k': "gm_get (mpByNodeKey m) k' = Some i" "a \<in> addrsOf m i" using assms(2) by (auto simp: addrsInv_def)
  then have "i < length (mpInfos m)" using keysInvD [OF assms(1)] by blast
  moreover have "j \<noteq> i \<Longrightarrow> a \<notin> addrsOf m j" using addrsInvI [OF assms(2,3)] Some by auto
  ultimately show ?thesis using Some by (auto simp: forgetAddr_def Let_def addrsOf_drop)
qed

lemma forget_relay:
  assumes "keysInv eps m" "addrsInv m" "relayInv m"
  shows "gm_get (mpRelayEpAddr (forgetAddr eps a m)) k = (if gm_get (mpRelayEpAddr m) k = Some a then None else gm_get (mpRelayEpAddr m) k)"
proof (cases "gm_get (mpByEpAddr m) a")
  case None
  then have "gm_get (mpRelayEpAddr m) k \<noteq> Some a" using relayInvD [OF assms(3)] addrsInvI [OF assms(2)] by fastforce
  then show ?thesis using None by (simp add: forgetAddr_def)
next
  case (Some i)
  then obtain k' where k': "gm_get (mpByNodeKey m) k' = Some i" "a \<in> addrsOf m i" using assms(2) by (auto simp: addrsInv_def)
  have pk: "dePublicKey (eps ! infoEp m i) = k'" using keysInvD [OF assms(1) k'(1)] by simp
  have "gm_get (mpRelayEpAddr m) k = Some a \<longleftrightarrow> vniIsSet (vni a) \<and> k = k'"
    using assms(2,3) k' Some unfolding addrsInv_def relayInv_def by (metis option.inject keysInv_inj [OF assms(1)])
  then show ?thesis using Some by (auto simp: forgetAddr_def Let_def gm_get_del pk)
qed

lemma peerInv_forget:
  assumes "peerInv eps m"
  shows "peerInv eps (forgetAddr eps a m)"
proof -
  have inv: "mapsWf m" "keysInv eps m" "addrsInv m" "relayInv m" "discoInv eps m" using assms by (simp_all add: peerInv_def)
  have "mapsWf (forgetAddr eps a m)" using inv(1)
    by (auto simp: mapsWf_def forgetAddr_def Let_def gm_wf_del split: option.split)
  moreover have "addrsInv (forgetAddr eps a m)"
    unfolding addrsInv_def using inv(3) forget_addrs [OF inv(2,3)] by (auto simp: forget_get addrsInv_def)
  moreover have "relayInv (forgetAddr eps a m)"
    unfolding relayInv_def
  proof (intro allI)
    fix k b
    have "(\<exists>i. gm_get (mpByNodeKey m) k = Some i \<and> b \<in> addrsOf (forgetAddr eps a m) i) \<longleftrightarrow>
        b \<noteq> a \<and> (\<exists>i. gm_get (mpByNodeKey m) k = Some i \<and> b \<in> addrsOf m i)"
      using forget_addrs [OF inv(2,3)] by auto
    then show "(gm_get (mpRelayEpAddr (forgetAddr eps a m)) k = Some b) =
        (vniIsSet (vni b) \<and> (\<exists>i. gm_get (mpByNodeKey (forgetAddr eps a m)) k = Some i \<and> b \<in> addrsOf (forgetAddr eps a m) i))"
      using relayInvD [OF inv(4), of k b] relayInvI [OF inv(4), of k _ b] relayInvI [OF inv(4), of k _ a]
      unfolding forget_relay [OF inv(2-4)] forget_sel by (metis option.discI option.inject)
  qed
  moreover have "keysInv eps (forgetAddr eps a m)" "discoInv eps (forgetAddr eps a m)"
    using inv(2,5) by (simp_all add: keysInv_cong [of "forgetAddr eps a m" m] discoInv_cong [of "forgetAddr eps a m" m])
  ultimately show ?thesis by (simp add: peerInv_def)
qed

text \<open>The second half: the address goes to the node of \<open>i\<close>.\<close>

lemma peerInv_assign:
  assumes inv: "peerInv eps m" and i: "gm_get (mpByNodeKey m) nk = Some i" and free: "gm_get (mpByEpAddr m) a = None"
    and R: "gm_wf R" "\<And>k. gm_get R k = (if vniIsSet (vni a) \<and> k = nk then Some a else gm_get (mpRelayEpAddr m) k)"
    and norelay: "vniIsSet (vni a) \<Longrightarrow> gm_get (mpRelayEpAddr m) nk = None"
  shows "peerInv eps (putAddr i a (m\<lparr>mpRelayEpAddr := R\<rparr>))"
proof -
  let ?m' = "putAddr i a (m\<lparr>mpRelayEpAddr := R\<rparr>)"
  have inv': "mapsWf m" "keysInv eps m" "addrsInv m" "relayInv m" "discoInv eps m" using inv by (simp_all add: peerInv_def)
  have len: "i < length (mpInfos m)" using keysInvD [OF inv'(2) i] by simp
  then have addrs: "addrsOf ?m' j = (if j = i then insert a (addrsOf m i) else addrsOf m j)" for j by (simp add: addrsOf_put)
  have none: "gm_get (mpByNodeKey m) k = Some j \<Longrightarrow> a \<notin> addrsOf m j" for k j using addrsInvI [OF inv'(3)] free by fastforce
  have "mapsWf ?m'" using inv'(1) R(1) by (simp add: mapsWf_def gm_wf_set)
  moreover have "addrsInv ?m'"
    unfolding addrsInv_def using inv'(3) i none by (auto simp: addrs gm_get_set addrsInv_def)
  moreover have "relayInv ?m'"
    unfolding relayInv_def
  proof (intro allI)
    fix k b
    have "gm_get (mpByNodeKey m) k = Some i \<longleftrightarrow> k = nk" using keysInv_inj [OF inv'(2)] i by blast
    then have "(\<exists>j. gm_get (mpByNodeKey m) k = Some j \<and> b \<in> addrsOf ?m' j) \<longleftrightarrow>
        (k = nk \<and> b = a) \<or> (\<exists>j. gm_get (mpByNodeKey m) k = Some j \<and> b \<in> addrsOf m j)"
      using i by (auto simp: addrs)
    then show "(gm_get (mpRelayEpAddr ?m') k = Some b) =
        (vniIsSet (vni b) \<and> (\<exists>j. gm_get (mpByNodeKey ?m') k = Some j \<and> b \<in> addrsOf ?m' j))"
      using relayInvD [OF inv'(4), of k b] relayInvI [OF inv'(4), of k _ b] norelay R(2) [of k] by auto
  qed
  moreover have "keysInv eps ?m'" "discoInv eps ?m'"
    using inv'(2,5) by (simp_all add: keysInv_cong [of ?m' m] discoInv_cong [of ?m' m])
  ultimately show ?thesis by (simp add: peerInv_def)
qed

lemma setNodeKey_eq:
  assumes inv: "peerInv eps m" and i: "gm_get (mpByNodeKey m) nk = Some i"
  shows "setNodeKeyForEpAddr eps a nk m =
    (let m1 = forgetAddr eps a m
     in if vniIsSet (vni a)
        then putAddr i a ((case gm_get (mpRelayEpAddr m1) nk of None \<Rightarrow> m1 | Some relay \<Rightarrow> forgetAddr eps relay m1)
               \<lparr>mpRelayEpAddr := gm_set nk a (mpRelayEpAddr m1)\<rparr>)
        else putAddr i a m1)"
proof -
  let ?m1 = "forgetAddr eps a m"
  have inv1: "peerInv eps ?m1" by (rule peerInv_forget [OF inv])
  have "dropAddr i relay ?m1\<lparr>mpRelayEpAddr := gm_set nk a (mpRelayEpAddr ?m1)\<rparr> =
      forgetAddr eps relay ?m1\<lparr>mpRelayEpAddr := gm_set nk a (mpRelayEpAddr ?m1)\<rparr>"
    if "gm_get (mpRelayEpAddr ?m1) nk = Some relay" for relay
  proof -
    have "vniIsSet (vni relay)" "relay \<in> addrsOf ?m1 i" using relayInvD [of ?m1 nk relay] inv1 that i by (auto simp: peerInv_def)
    then have "gm_get (mpByEpAddr ?m1) relay = Some i" using addrsInvI [of ?m1 nk i relay] inv1 i by (auto simp: peerInv_def)
    then show ?thesis by (simp add: forgetAddr_def Let_def)
  qed
  then show ?thesis
    using i by (simp add: setNodeKeyForEpAddr_def Let_def split: option.split)
qed

lemma setNodeKey_unknown: "gm_get (mpByNodeKey m) nk = None \<Longrightarrow> setNodeKeyForEpAddr eps a nk m = forgetAddr eps a m"
  by (simp add: setNodeKeyForEpAddr_def Let_def)

lemma peerInv_setNodeKey:
  assumes inv: "peerInv eps m"
  shows "peerInv eps (setNodeKeyForEpAddr eps a nk m)"
proof (cases "gm_get (mpByNodeKey m) nk")
  case None
  then show ?thesis using peerInv_forget [OF inv] by (simp add: setNodeKey_unknown)
next
  case (Some i)
  let ?m1 = "forgetAddr eps a m"
  have inv1: "peerInv eps ?m1" by (rule peerInv_forget [OF inv])
  have inv1': "keysInv eps ?m1" "addrsInv ?m1" "relayInv ?m1" using inv1 unfolding peerInv_def by blast+
  have wf: "gm_wf (mpRelayEpAddr ?m1)" using inv1 by (simp add: peerInv_def mapsWf_def)
  have free: "gm_get (mpByEpAddr ?m1) a = None" by (simp add: forget_get)
  show ?thesis
  proof (cases "vniIsSet (vni a)")
    case False
    then show ?thesis using peerInv_assign [OF inv1 _ free wf, of nk i] Some
      by (simp add: setNodeKey_eq [OF inv Some] Let_def)
  next
    case vni: True
    show ?thesis
    proof (cases "gm_get (mpRelayEpAddr ?m1) nk")
      case None
      then show ?thesis using peerInv_assign [OF inv1 _ free gm_wf_set [OF wf, of nk a], of nk i] Some vni
        by (simp add: setNodeKey_eq [OF inv Some] gm_get_set Let_def)
    next
      case relay: (Some relay)
      let ?m2 = "forgetAddr eps relay ?m1"
      have inv2: "peerInv eps ?m2" by (rule peerInv_forget [OF inv1])
      have get: "gm_get (mpRelayEpAddr ?m2) k = (if k = nk then None else gm_get (mpRelayEpAddr ?m1) k)" for k
      proof -
        have "k = nk" if k: "gm_get (mpRelayEpAddr ?m1) k = Some relay"
          by (rule relayInv_inj [OF inv1' k relay])
        then show ?thesis unfolding forget_relay [OF inv1'] using relay by metis
      qed
      show ?thesis using peerInv_assign [OF inv2 _ _ gm_wf_set [OF wf, of nk a], of nk i a] Some vni relay
        by (simp add: setNodeKey_eq [OF inv Some] gm_get_set forget_get get Let_def)
    qed
  qed
qed

text \<open>What a lookup by address gives afterwards.\<close>

lemma setNodeKey_get:
  assumes inv: "peerInv eps m" and i: "gm_get (mpByNodeKey m) nk = Some i"
  shows "gm_get (mpByEpAddr (setNodeKeyForEpAddr eps a nk m)) b =
    (if b = a then Some i
     else if vniIsSet (vni a) \<and> gm_get (mpRelayEpAddr m) nk = Some b then None
     else gm_get (mpByEpAddr m) b)"
proof -
  have "gm_get (mpRelayEpAddr (forgetAddr eps a m)) nk = (if gm_get (mpRelayEpAddr m) nk = Some a then None else gm_get (mpRelayEpAddr m) nk)"
    using inv by (intro forget_relay) (simp_all add: peerInv_def)
  then show ?thesis
    by (auto simp: setNodeKey_eq [OF inv i] Let_def gm_get_set forget_get split: option.split)
qed

lemma setNodeKey_sel [simp]:
  "mpByNodeKey (setNodeKeyForEpAddr eps a nk m) = mpByNodeKey m" "mpByNodeID (setNodeKeyForEpAddr eps a nk m) = mpByNodeID m"
  "infoEp (setNodeKeyForEpAddr eps a nk m) = infoEp m" "mpNodesOfDisco (setNodeKeyForEpAddr eps a nk m) = mpNodesOfDisco m"
  by (simp_all add: setNodeKeyForEpAddr_def Let_def split: option.split)

lemma peerInv_setNodeKeys:
  "peerInv eps m \<Longrightarrow> peerInv eps (foldl (\<lambda>m x. setNodeKeyForEpAddr eps (f x) k m) m xs)"
  by (induction xs arbitrary: m) (simp_all add: peerInv_setNodeKey)

text \<open>
  Recording a verified address. After \<open>setNodeKeyForEpAddr(addr, nk)\<close> for a node in the map, a
  lookup of \<open>addr\<close> gives the endpoint that a lookup of \<open>nk\<close> gives. When \<open>addr\<close> is a relay address
  the previous relay address of that node is gone. Every other address still leads where it led.
\<close>

theorem verified_address_leads_to_node:
  assumes "peerInv eps m" "endpointForNodeKey nk m = Some r"
  shows "endpointForEpAddr b (setNodeKeyForEpAddr eps a nk m) =
    (if b = a then Some r
     else if vniIsSet (vni a) \<and> gm_get (mpRelayEpAddr m) nk = Some b then None
     else endpointForEpAddr b m)"
proof -
  obtain i where i: "gm_get (mpByNodeKey m) nk = Some i" "infoEp m i = r"
    using assms(2) by (auto simp: endpointForNodeKey_def split: if_splits)
  then show ?thesis by (simp add: endpointForEpAddr_def setNodeKey_get [OF assms(1) i(1)])
qed

subsection \<open>Disco keys\<close>

lemma nodesOf_drop: "nodesOf (dropDiscoNode d k m) d' = (if d' = d then removeAll k (nodesOf m d) else nodesOf m d')"
  by (simp add: dropDiscoNode_def nodesOf_def gm_get_set split: option.split)

lemma nodesOf_add: "nodesOf (addDiscoNode d k m) d' = (if d' = d then List.insert k (nodesOf m d) else nodesOf m d')"
  by (simp add: addDiscoNode_def nodesOf_def gm_get_set)

lemma disco_sel [simp]:
  "mpByNodeKey (dropDiscoNode d k m) = mpByNodeKey m" "mpByNodeKey (addDiscoNode d k m) = mpByNodeKey m"
  "mpByNodeID (dropDiscoNode d k m) = mpByNodeID m" "mpByNodeID (addDiscoNode d k m) = mpByNodeID m"
  "mpByEpAddr (dropDiscoNode d k m) = mpByEpAddr m" "mpByEpAddr (addDiscoNode d k m) = mpByEpAddr m"
  "mpRelayEpAddr (dropDiscoNode d k m) = mpRelayEpAddr m" "mpRelayEpAddr (addDiscoNode d k m) = mpRelayEpAddr m"
  "mpInfos (dropDiscoNode d k m) = mpInfos m" "mpInfos (addDiscoNode d k m) = mpInfos m"
  "infoEp (dropDiscoNode d k m) = infoEp m" "infoEp (addDiscoNode d k m) = infoEp m"
  "addrsOf (dropDiscoNode d k m) = addrsOf m" "addrsOf (addDiscoNode d k m) = addrsOf m"
  by (simp_all add: dropDiscoNode_def addDiscoNode_def infoEp_def addrsOf_def fun_eq_iff split: option.split)

lemma disco_inv [simp]:
  "keysInv eps (dropDiscoNode d k m) = keysInv eps m" "keysInv eps (addDiscoNode d k m) = keysInv eps m"
  "addrsInv (dropDiscoNode d k m) = addrsInv m" "addrsInv (addDiscoNode d k m) = addrsInv m"
  "relayInv (dropDiscoNode d k m) = relayInv m" "relayInv (addDiscoNode d k m) = relayInv m"
  by (simp_all add: keysInv_def addrsInv_def relayInv_def)

lemma disco_wf: "mapsWf m \<Longrightarrow> mapsWf (dropDiscoNode d k m)" "mapsWf m \<Longrightarrow> mapsWf (addDiscoNode d k m)"
  by (auto simp: mapsWf_def dropDiscoNode_def addDiscoNode_def gm_wf_set split: option.split)

subsection \<open>Inserting and updating\<close>

definition discoOf :: "endpoint list \<Rightarrow> peerMap \<Rightarrow> nodeKey \<Rightarrow> discoKey \<Rightarrow> bool" where
  "discoOf eps m k d \<longleftrightarrow> (\<exists>i. gm_get (mpByNodeKey m) k = Some i \<and> \<not> deIsWireguardOnly (eps ! infoEp m i) \<and> deDisco (eps ! infoEp m i) = Some d)"

lemma discoInv_discoOf: "discoInv eps m \<longleftrightarrow> (\<forall>d k. k \<in> set (nodesOf m d) \<longleftrightarrow> discoOf eps m k d)"
  by (simp add: discoInv_def discoOf_def)

lemma discoOf_cong [simp]:
  "discoOf eps (dropDiscoNode d' k' m) = discoOf eps m" "discoOf eps (addDiscoNode d' k' m) = discoOf eps m"
  by (simp_all add: discoOf_def fun_eq_iff)

lemma upsertDisco_inv:
  assumes "mapsWf m" "keysInv eps m" "addrsInv m" "relayInv m"
    and i: "gm_get (mpByNodeKey m) (dePublicKey (eps ! r)) = Some i" "infoEp m i = r"
    and others: "\<And>d k. k \<noteq> dePublicKey (eps ! r) \<Longrightarrow> k \<in> set (nodesOf m d) \<longleftrightarrow> discoOf eps m k d"
    and own: "\<And>d. dePublicKey (eps ! r) \<in> set (nodesOf m d) \<Longrightarrow> d = old \<and> \<not> deIsWireguardOnly (eps ! r)"
    and res: "upsertDisco eps r old m = Inr m'"
  shows "peerInv eps m'"
proof -
  let ?ep = "eps ! r" let ?k = "dePublicKey ?ep"
  let ?m3 = "if deDisco ?ep = None \<or> deDisco ?ep \<noteq> Some old then dropDiscoNode old ?k m else m"
  have own3: "?k \<in> set (nodesOf ?m3 d) \<Longrightarrow> \<not> deIsWireguardOnly ?ep \<and> deDisco ?ep = Some d" for d
    using own [of d] by (auto simp: nodesOf_drop split: if_splits)
  have others3: "k \<noteq> ?k \<Longrightarrow> k \<in> set (nodesOf ?m3 d) \<longleftrightarrow> discoOf eps ?m3 k d" for d k
    using others [of k d] by (auto simp: nodesOf_drop)
  have is3: "mapsWf ?m3" "keysInv eps ?m3" "addrsInv ?m3" "relayInv ?m3" using assms(1-4) by (auto simp: disco_wf)
  have self: "discoOf eps m ?k d \<longleftrightarrow> \<not> deIsWireguardOnly ?ep \<and> deDisco ?ep = Some d" for d
    using i by (simp add: discoOf_def)
  show ?thesis
  proof (cases "deIsWireguardOnly ?ep")
    case True
    have "k \<in> set (nodesOf ?m3 d) \<longleftrightarrow> discoOf eps ?m3 k d" for d k
    proof (cases "k = ?k")
      case k: True
      then show ?thesis using own3 [of d] self [of d] True by auto
    qed (rule others3)
    then have "peerInv eps ?m3" using is3 by (simp add: peerInv_def discoInv_discoOf)
    then show ?thesis using res True by (auto simp: upsertDisco_def Let_def peerInv_setNodeKeys)
  next
    case False
    then obtain dk where dk: "deDisco ?ep = Some dk" and m': "m' = addDiscoNode dk ?k ?m3"
      using res by (auto simp: upsertDisco_def Let_def split: option.splits)
    have "k \<in> set (nodesOf m' d) \<longleftrightarrow> discoOf eps m' k d" for d k
    proof (cases "k = ?k")
      case k: True
      have "discoOf eps m' ?k d \<longleftrightarrow> d = dk" using self [of d] False dk by (auto simp: m')
      moreover have "?k \<in> set (nodesOf m' d) \<longleftrightarrow> d = dk \<or> ?k \<in> set (nodesOf ?m3 d)" by (simp add: m' nodesOf_add del: if_split)
      ultimately show ?thesis using own3 [of d] dk k by auto
    next
      case k: False
      have "k \<in> set (nodesOf m' d) \<longleftrightarrow> k \<in> set (nodesOf ?m3 d)" using k by (simp add: m' nodesOf_add del: if_split)
      then show ?thesis using others3 [OF k, of d] by (simp add: m' del: if_split)
    qed
    then show ?thesis using is3 disco_wf(2) [OF is3(1)] by (simp add: peerInv_def discoInv_discoOf m' del: if_split)
  qed
qed

text \<open>What no method of an endpoint changes, the disco key apart.\<close>

definition samePeer :: "endpoint \<Rightarrow> endpoint \<Rightarrow> bool" where
  "samePeer de de' \<longleftrightarrow> dePublicKey de' = dePublicKey de \<and> deNodeID de' = deNodeID de \<and> deIsWireguardOnly de' = deIsWireguardOnly de"

lemma keysInv_heap:
  assumes "keysInv eps m" "length eps \<le> length eps'" "\<And>r. r < length eps \<Longrightarrow> samePeer (eps ! r) (eps' ! r)"
  shows "keysInv eps' m"
proof -
  have same: "r < length eps \<Longrightarrow> dePublicKey (eps' ! r) = dePublicKey (eps ! r) \<and> deNodeID (eps' ! r) = deNodeID (eps ! r)" for r
    using assms(3) by (simp add: samePeer_def)
  have byID: "gm_get (mpByNodeID m) n = Some i \<Longrightarrow> infoEp m i < length eps" for n i
    using keysInv_byID [OF assms(1)] keysInvD(2) [OF assms(1)] by blast
  show ?thesis
    using keysInvD [OF assms(1)] keysInv_byID [OF assms(1)] assms(2) byID
    by (fastforce simp: keysInv_def same)
qed

lemma byID_sel [simp]:
  "infoEp (m\<lparr>mpByNodeID := x\<rparr>) = infoEp m" "addrsOf (m\<lparr>mpByNodeID := x\<rparr>) = addrsOf m" "nodesOf (m\<lparr>mpByNodeID := x\<rparr>) = nodesOf m"
  by (auto simp: fun_eq_iff infoEp_def addrsOf_def nodesOf_def)

lemma upsert_existing:
  assumes inv: "peerInv eps m" and i: "gm_get (mpByNodeKey m) (dePublicKey (eps ! r)) = Some i" "infoEp m i = r"
    and same: "samePeer (eps ! r) de" and old: "\<And>d. deDisco (eps ! r) = Some d \<Longrightarrow> old = d"
    and res: "upsertEndpoint (eps[r := de]) r old m = Inr m'"
  shows "peerInv (eps[r := de]) m'"
proof -
  let ?eps = "eps[r := de]" let ?m2 = "m\<lparr>mpByNodeID := gm_set (deNodeID de) i (mpByNodeID m)\<rparr>"
  have inv': "mapsWf m" "keysInv eps m" "addrsInv m" "relayInv m" "discoInv eps m" using inv by (simp_all add: peerInv_def)
  have r: "r < length eps" "gm_get (mpByNodeID m) (deNodeID de) = Some i"
    using keysInvD [OF inv'(2) i(1)] i(2) same by (auto simp: samePeer_def)
  have ep: "dePublicKey (?eps ! r) = dePublicKey (eps ! r)" "deNodeID (?eps ! r) = deNodeID de"
      "deIsWireguardOnly (?eps ! r) = deIsWireguardOnly (eps ! r)"
    using r same by (auto simp: samePeer_def)
  have res': "upsertDisco ?eps r old ?m2 = Inr m'" using res i r ep
    by (simp add: upsertEndpoint_def Let_def split: if_splits)
  have keys: "keysInv ?eps m" by (rule keysInv_heap [OF inv'(2)]) (use same r(1) in \<open>auto simp: nth_list_update samePeer_def\<close>)
  have get: "gm_get (mpByNodeID ?m2) = gm_get (mpByNodeID m)" using r(2) by (auto simp: fun_eq_iff gm_get_set)
  have kept: "gm_get (mpByNodeKey m) k = Some j \<Longrightarrow> k \<noteq> dePublicKey (eps ! r) \<Longrightarrow> infoEp m j \<noteq> r" for k j
    using keysInvD(3) [OF inv'(2)] by metis
  have D: "k \<in> set (nodesOf m d) \<longleftrightarrow> discoOf eps m k d" for k d using inv'(5) by (simp add: discoInv_discoOf)
  have "discoOf ?eps m k d = discoOf eps m k d" if "k \<noteq> dePublicKey (eps ! r)" for k d
    unfolding discoOf_def using kept [OF _ that] by (metis nth_list_update_neq)
  moreover have "discoOf ?eps ?m2 = discoOf ?eps m" by (simp add: discoOf_def fun_eq_iff)
  ultimately show ?thesis
  proof (intro upsertDisco_inv [where m = ?m2 and i = i and old = old])
    show "mapsWf ?m2" using inv'(1) by (simp add: mapsWf_def gm_wf_set)
    show "keysInv ?eps ?m2" using keys by (simp add: keysInv_def get [simplified])
    show "addrsInv ?m2" "relayInv ?m2" using inv'(3,4) by (simp_all add: addrsInv_def relayInv_def)
    show "d = old \<and> \<not> deIsWireguardOnly (?eps ! r)" if "dePublicKey (?eps ! r) \<in> set (nodesOf ?m2 d)" for d
      using that old D i ep by (auto simp: discoOf_def)
  qed (use i ep D res' in auto)
qed

lemma upsert_new:
  assumes inv: "peerInv eps m" and new: "gm_get (mpByNodeKey m) (dePublicKey de) = None" "gm_get (mpByNodeID m) (deNodeID de) = None"
    and res: "upsertEndpoint (eps @ [de]) (length eps) old m = Inr m'"
  shows "peerInv (eps @ [de]) m'"
proof -
  note byID_sel [simp del]
  let ?eps = "eps @ [de]" let ?i = "length (mpInfos m)" let ?k = "dePublicKey de"
  let ?m2 = "m\<lparr>mpInfos := mpInfos m @ [newPeerInfo (length eps)], mpByNodeKey := gm_set ?k ?i (mpByNodeKey m),
              mpByNodeID := gm_set (deNodeID de) ?i (mpByNodeID m)\<rparr>"
  have inv': "mapsWf m" "keysInv eps m" "addrsInv m" "relayInv m" "discoInv eps m" using inv by (simp_all add: peerInv_def)
  have live: "gm_get (mpByNodeKey m) k = Some j \<Longrightarrow> j < ?i \<and> infoEp m j < length eps" for k j
    using keysInvD [OF inv'(2)] by blast
  have info: "infoEp ?m2 j = (if j = ?i then length eps else infoEp m j)" "addrsOf ?m2 j = (if j = ?i then {} else addrsOf m j)"
    if "j \<le> ?i" for j using that by (auto simp: infoEp_def addrsOf_def nth_append newPeerInfo_def)
  have nodes: "nodesOf ?m2 = nodesOf m" by (simp add: nodesOf_def fun_eq_iff)
  have keys: "keysInv ?eps ?m2"
  proof -
    have "keysInv ?eps m" by (rule keysInv_heap [OF inv'(2)]) (auto simp: nth_append samePeer_def)
    note old = keysInvD [OF this] keysInv_byID [OF this]
    show ?thesis unfolding keysInv_def
    proof (intro conjI allI impI)
      fix k i
      assume k: "gm_get (mpByNodeKey ?m2) k = Some i"
      then have "k = ?k \<and> i = ?i \<or> (k \<noteq> ?k \<and> gm_get (mpByNodeKey m) k = Some i)" by (auto simp: gm_get_set split: if_splits)
      then show "i < length (mpInfos ?m2)" "infoEp ?m2 i < length ?eps" "dePublicKey (?eps ! infoEp ?m2 i) = k"
          "gm_get (mpByNodeID ?m2) (deNodeID (?eps ! infoEp ?m2 i)) = Some i"
        using live [of k i] old(3,4) [of k i] new by (auto simp: info gm_get_set)
    next
      fix n i
      assume n: "gm_get (mpByNodeID ?m2) n = Some i"
      consider "n = deNodeID de" "i = ?i" | "gm_get (mpByNodeID m) n = Some i"
        using n by (cases "n = deNodeID de") (simp_all add: gm_get_set)
      then have "deNodeID (?eps ! infoEp ?m2 i) = n \<and> gm_get (mpByNodeKey ?m2) (dePublicKey (?eps ! infoEp ?m2 i)) = Some i"
      proof cases
        case 2
        then obtain k where k: "gm_get (mpByNodeKey m) k = Some i" "deNodeID (?eps ! infoEp m i) = n" using old(5) by blast
        then show ?thesis using live [OF k(1)] old(3) [OF k(1)] new(1) by (auto simp: info gm_get_set)
      qed (simp add: info gm_get_set)
      then show "deNodeID (?eps ! infoEp ?m2 i) = n" "gm_get (mpByNodeKey ?m2) (dePublicKey (?eps ! infoEp ?m2 i)) = Some i" by blast+
    qed
  qed
  have liveA: "gm_get (mpByNodeKey m) k = Some j \<Longrightarrow> addrsOf ?m2 j = addrsOf m j" for k j
    using live [of k j] by (auto simp: info)
  have addrs: "(\<exists>k. gm_get (mpByNodeKey ?m2) k = Some j) \<and> a \<in> addrsOf ?m2 j \<longleftrightarrow>
      (\<exists>k. gm_get (mpByNodeKey m) k = Some j) \<and> a \<in> addrsOf m j" for a j
  proof (cases "j = ?i")
    case True
    then show ?thesis using live by (auto simp: info)
  next
    case False
    then have "gm_get (mpByNodeKey ?m2) k = Some j \<longleftrightarrow> gm_get (mpByNodeKey m) k = Some j" for k using new(1) by (simp add: gm_get_set)
    then show ?thesis using liveA by blast
  qed
  have relay: "(\<exists>i. gm_get (mpByNodeKey ?m2) k = Some i \<and> a \<in> addrsOf ?m2 i) \<longleftrightarrow>
      (\<exists>i. gm_get (mpByNodeKey m) k = Some i \<and> a \<in> addrsOf m i)" for a k
    using liveA [of k] new(1) by (cases "k = ?k") (auto simp: gm_get_set info)
  have D: "k \<in> set (nodesOf m d) \<longleftrightarrow> discoOf eps m k d" for k d using inv'(5) by (simp add: discoInv_discoOf)
  have discoOf: "discoOf ?eps ?m2 k d = discoOf eps m k d" if "k \<noteq> ?k" for k d
  proof -
    have "gm_get (mpByNodeKey m) k = Some j \<Longrightarrow> ?eps ! infoEp ?m2 j = eps ! infoEp m j" for j
      using live [of k j] by (auto simp: info nth_append)
    then show ?thesis using that by (auto simp: discoOf_def gm_get_set)
  qed
  show ?thesis
  proof (rule upsertDisco_inv [where m = ?m2 and i = ?i and old = old])
    show "mapsWf ?m2" using inv'(1) by (simp add: mapsWf_def gm_wf_set)
    show "keysInv ?eps ?m2" by (rule keys)
    show "addrsInv ?m2" using inv'(3) addrs by (simp add: addrsInv_def del: ex_simps)
    show "relayInv ?m2" using inv'(4) relay by (simp add: relayInv_def del: ex_simps)
    show "gm_get (mpByNodeKey ?m2) (dePublicKey (?eps ! length eps)) = Some ?i" by (simp add: gm_get_set)
    show "infoEp ?m2 ?i = length eps" by (simp add: info)
    show "k \<in> set (nodesOf ?m2 d) \<longleftrightarrow> discoOf ?eps ?m2 k d" if "k \<noteq> dePublicKey (?eps ! length eps)" for k d
      using discoOf [of k d] that D [of k d] by (simp add: nodes)
    show "d = old \<and> \<not> deIsWireguardOnly (?eps ! length eps)" if "dePublicKey (?eps ! length eps) \<in> set (nodesOf ?m2 d)" for d
      using that D [of ?k d] new(1) by (simp add: nodes discoOf_def)
    show "upsertDisco ?eps (length eps) old ?m2 = Inr m'" using res new(1)
      by (simp add: upsertEndpoint_def Let_def split: if_splits)
  qed
qed

subsection \<open>Deleting\<close>

text \<open>The deletion of an endpoint that is in the map, without the cases that do not happen.\<close>

lemma delete_eq:
  assumes "keysInv eps m" "gm_get (mpByNodeKey m) (dePublicKey (eps ! r)) = Some i" "infoEp m i = r"
  shows "deleteFromIndices eps r m =
    (let ep = eps ! r; k = dePublicKey ep; m1 = (case deDisco ep of Some dk \<Rightarrow> dropDiscoNode dk k m | None \<Rightarrow> m)
     in m1\<lparr>mpByNodeKey := gm_del k (mpByNodeKey m), mpByNodeID := gm_del (deNodeID ep) (mpByNodeID m),
           mpByEpAddr := gm_del_if (\<lambda>a _. a \<in> addrsOf m i) (mpByEpAddr m), mpRelayEpAddr := gm_del k (mpRelayEpAddr m)\<rparr>)"
proof -
  have "gm_get (mpByNodeID m) (deNodeID (eps ! r)) = Some i" using keysInvD [OF assms(1,2)] assms(3) by simp
  moreover have "infoEp (m1\<lparr>mpByNodeKey := x\<rparr>) = infoEp m1" for m1 x by (simp add: infoEp_def fun_eq_iff)
  ultimately show ?thesis using assms(2,3)
    by (cases "deDisco (eps ! r)") (simp_all add: deleteFromIndices_def Let_def addrsOf_def)
qed

lemma delete_sel:
  assumes "keysInv eps m" "gm_get (mpByNodeKey m) (dePublicKey (eps ! r)) = Some i" "infoEp m i = r"
  shows "mpByNodeKey (deleteFromIndices eps r m) = gm_del (dePublicKey (eps ! r)) (mpByNodeKey m)"
    "mpByNodeID (deleteFromIndices eps r m) = gm_del (deNodeID (eps ! r)) (mpByNodeID m)"
    "mpByEpAddr (deleteFromIndices eps r m) = gm_del_if (\<lambda>a _. a \<in> addrsOf m i) (mpByEpAddr m)"
    "mpRelayEpAddr (deleteFromIndices eps r m) = gm_del (dePublicKey (eps ! r)) (mpRelayEpAddr m)"
    "mpInfos (deleteFromIndices eps r m) = mpInfos m"
    "nodesOf (deleteFromIndices eps r m) d = (if deDisco (eps ! r) = Some d then removeAll (dePublicKey (eps ! r)) (nodesOf m d) else nodesOf m d)"
    "knownPeerDiscoKey d (deleteFromIndices eps r m) = knownPeerDiscoKey d m"
    "mapsWf m \<Longrightarrow> mapsWf (deleteFromIndices eps r m)"
  unfolding delete_eq [OF assms]
  by (auto simp: Let_def nodesOf_def dropDiscoNode_def knownPeerDiscoKey_def gm_get_set mapsWf_def gm_wf_set gm_wf_del gm_wf_del_if
      split: option.split)

lemma delete_byEpAddr:
  assumes inv: "peerInv eps m" and i: "gm_get (mpByNodeKey m) (dePublicKey (eps ! r)) = Some i" "infoEp m i = r"
  shows "gm_get (mpByEpAddr (deleteFromIndices eps r m)) a =
    (if gm_get (mpByEpAddr m) a = Some i then None else gm_get (mpByEpAddr m) a)"
proof -
  have "keysInv eps m" "gm_wf (mpByEpAddr m)" "addrsInv m" using inv by (simp_all add: peerInv_def mapsWf_def)
  note del = delete_sel(3) [OF this(1) i]
  have "gm_get (mpByEpAddr m) a = Some i \<longleftrightarrow> a \<in> addrsOf m i" using \<open>addrsInv m\<close> i(1) by (auto simp: addrsInv_def)
  then show ?thesis unfolding del using \<open>gm_wf (mpByEpAddr m)\<close> by (auto simp: gm_get_del_if split: option.split)
qed

lemma peerInv_delete:
  assumes inv: "peerInv eps m" and i: "gm_get (mpByNodeKey m) (dePublicKey (eps ! r)) = Some i" "infoEp m i = r"
  shows "peerInv eps (deleteFromIndices eps r m)"
proof -
  let ?m = "deleteFromIndices eps r m" let ?k = "dePublicKey (eps ! r)"
  have inv': "mapsWf m" "keysInv eps m" "addrsInv m" "relayInv m" "discoInv eps m" using inv by (simp_all add: peerInv_def)
  note sel = delete_sel [OF inv'(2) i]
  have info [simp]: "infoEp ?m = infoEp m" "addrsOf ?m = addrsOf m" by (simp_all add: infoEp_def addrsOf_def sel fun_eq_iff)
  have keyi: "gm_get (mpByNodeKey m) k = Some i \<longleftrightarrow> k = ?k" for k using keysInv_inj [OF inv'(2) i(1), of k] i(1) by blast
  have key: "gm_get (mpByNodeKey ?m) k = Some j \<longleftrightarrow> gm_get (mpByNodeKey m) k = Some j \<and> j \<noteq> i" for k j
    using i(1) keyi [of k] by (cases "k = ?k") (auto simp: sel gm_get_del)
  have id: "gm_get (mpByNodeID ?m) n = Some j \<longleftrightarrow> gm_get (mpByNodeID m) n = Some j \<and> j \<noteq> i" for n j
    using keysInvD [OF inv'(2) i(1)] i(2) keysInv_byID [OF inv'(2), of n i] by (cases "n = deNodeID (eps ! r)") (auto simp: sel gm_get_del)
  have "keysInv eps ?m"
    using inv'(2) by (simp only: keysInv_def key id sel(5) info) blast
  moreover have "addrsInv ?m"
  proof -
    have "gm_get (mpByEpAddr ?m) a = Some j \<longleftrightarrow> gm_get (mpByEpAddr m) a = Some j \<and> j \<noteq> i" for a j
      by (auto simp: delete_byEpAddr [OF inv i])
    then show ?thesis using inv'(3) unfolding addrsInv_def by (simp only: key info) blast
  qed
  moreover have "relayInv ?m"
    unfolding relayInv_def
  proof (intro allI)
    fix k a
    have "gm_get (mpRelayEpAddr ?m) k = Some a \<longleftrightarrow> k \<noteq> ?k \<and> gm_get (mpRelayEpAddr m) k = Some a" by (simp add: sel gm_get_del)
    then show "(gm_get (mpRelayEpAddr ?m) k = Some a) = (vniIsSet (vni a) \<and> (\<exists>j. gm_get (mpByNodeKey ?m) k = Some j \<and> a \<in> addrsOf ?m j))"
      using relayInvD [OF inv'(4), of k a] relayInvI [OF inv'(4), of k _ a] keyi [of k] by (cases "k = ?k") (auto simp: key)
  qed
  moreover have "discoInv eps ?m"
    unfolding discoInv_discoOf
  proof (intro allI)
    fix d k
    have D: "k \<in> set (nodesOf m d) \<longleftrightarrow> discoOf eps m k d" using inv'(5) by (simp add: discoInv_discoOf)
    have "k \<in> set (nodesOf ?m d) \<longleftrightarrow> k \<in> set (nodesOf m d) \<and> \<not> (k = ?k \<and> deDisco (eps ! r) = Some d)" by (auto simp: sel)
    then show "k \<in> set (nodesOf ?m d) \<longleftrightarrow> discoOf eps ?m k d"
      unfolding D using i keyi [of k] by (cases "k = ?k") (auto simp: discoOf_def key)
  qed
  ultimately show ?thesis using sel(8) inv'(1) by (simp add: peerInv_def)
qed

text \<open>A map of one node, as \<open>upsertEndpoint\<close> builds it.\<close>

definition exOneNode :: endpoint where
  "exOneNode = (newEndpoint 7 (replicate 32 9) False False)\<lparr>deDisco := Some (replicate 32 5)\<rparr>"

definition exOneMap :: peerMap where
  "exOneMap = (case upsertEndpoint [exOneNode] 0 zeroDiscoKey newPeerMap of Inr m \<Rightarrow> m | Inl _ \<Rightarrow> newPeerMap)"

theorem verified_address_leads_to_node_witness:
  "endpointForEpAddr zeroEpAddr (setNodeKeyForEpAddr [exOneNode] zeroEpAddr (replicate 32 9) exOneMap) = Some 0"
proof -
  have "upsertEndpoint [exOneNode] 0 zeroDiscoKey newPeerMap = Inr exOneMap" by code_simp
  with upsert_new [of "[]" newPeerMap exOneNode zeroDiscoKey exOneMap] peerInv_new [of "[]"] have "peerInv [exOneNode] exOneMap"
    by (simp add: newPeerMap_def)
  moreover have "endpointForNodeKey (replicate 32 9) exOneMap = Some 0" by code_simp
  ultimately show ?thesis by (subst verified_address_leads_to_node) auto
qed
end
