(* ===== verification/Disco.thy ===== *)
theory Disco
  imports Peer_Map
begin

unbundle bit_operations_syntax

text \<open>
  The discovery messages and their wire format, \<open>src/disco/disco.go\<close>, the Geneve header of
  \<open>src/net/packet/geneve.go\<close> and the classification of received packets in
  \<open>src/wgengine/magicsock/magicsock.go\<close>. A \<open>[]byte\<close> is a list of bytes; fixed-size arrays and keys
  are lists whose length is part of the well-formedness of a message.
\<close>

section \<open>Byte order\<close>

fun beBytes :: "nat \<Rightarrow> int \<Rightarrow> u8 list" where
  "beBytes 0 x = []"
| "beBytes (Suc n) x = beBytes n (x div 256) @ [word_of_int x]"

definition beInt :: "u8 list \<Rightarrow> int" where
  "beInt bs = foldl (\<lambda>a b. a * 256 + uint b) 0 bs"

lemma length_beBytes [simp]: "length (beBytes n x) = n"
  by (induction n arbitrary: x) simp_all

lemma beInt_beBytes: "beInt (beBytes n x) = x mod 256 ^ n"
proof (induction n arbitrary: x)
  case (Suc n)
  have "uint (word_of_int x :: u8) = x mod 256" by (simp add: uint_word_of_int)
  then have "beInt (beBytes (Suc n) x) = x div 256 mod 256 ^ n * 256 + x mod 256"
    using Suc [of "x div 256"] by (simp add: beInt_def)
  also have "\<dots> = x mod 256 ^ Suc n" by (simp add: zmod_zmult2_eq)
  finally show ?case .
qed (simp add: beInt_def)

definition putUint16 :: "u16 \<Rightarrow> u8 list" where "putUint16 w = beBytes 2 (uint w)"
definition putUint32 :: "u32 \<Rightarrow> u8 list" where "putUint32 w = beBytes 4 (uint w)"
definition putUint64 :: "u64 \<Rightarrow> u8 list" where "putUint64 w = beBytes 8 (uint w)"
definition getUint16 :: "u8 list \<Rightarrow> u16" where "getUint16 b = word_of_int (beInt (take 2 b))"
definition getUint32 :: "u8 list \<Rightarrow> u32" where "getUint32 b = word_of_int (beInt (take 4 b))"
definition getUint64 :: "u8 list \<Rightarrow> u64" where "getUint64 b = word_of_int (beInt (take 8 b))"

lemma length_put [simp]: "length (putUint16 x) = 2" "length (putUint32 y) = 4" "length (putUint64 z) = 8"
  by (simp_all add: putUint16_def putUint32_def putUint64_def)

lemma get_put [simp]:
  "getUint16 (putUint16 x @ b) = x" "getUint32 (putUint32 y @ b) = y" "getUint64 (putUint64 z @ b) = z"
  using uint_lt2p [of x] uint_lt2p [of y] uint_lt2p [of z]
  by (simp_all add: putUint16_def putUint32_def putUint64_def getUint16_def getUint32_def getUint64_def beInt_beBytes)

lemmas get_put_end [simp] = get_put [where b = "[]", simplified]

section \<open>Addresses on the wire\<close>

text \<open>\<open>netip.Addr.As16\<close>, \<open>netip.AddrFrom16\<close> and the 18 bytes of an \<open>AddrPort\<close>.\<close>

definition addrWord :: "addr \<Rightarrow> u128" where
  "addrWord a = (case a of AddrInvalid \<Rightarrow> 0 | AddrV4 w \<Rightarrow> 0xffff00000000 OR ucast w | AddrV6 w z \<Rightarrow> w)"

definition as16 :: "addr \<Rightarrow> u8 list" where
  "as16 a = beBytes 16 (uint (addrWord a))"

definition addrFrom16 :: "u8 list \<Rightarrow> addr" where
  "addrFrom16 b = AddrV6 (word_of_int (beInt (take 16 b))) []"

definition epLength :: nat where
  "epLength = 18"

definition putAddrPort :: "addrPort \<Rightarrow> u8 list" where
  "putAddrPort ipp = as16 (apAddr ipp) @ putUint16 (apPort ipp)"

definition getAddrPort :: "u8 list \<Rightarrow> addrPort" where
  "getAddrPort p = \<lparr>apAddr = unmap (addrFrom16 p), apPort = getUint16 (drop 16 p)\<rparr>"

text \<open>The addresses that survive: valid, without zone, and not an IPv4 address in IPv6 clothing.\<close>

definition wireAddr :: "addrPort \<Rightarrow> bool" where
  "wireAddr ipp = (case apAddr ipp of AddrInvalid \<Rightarrow> False | AddrV4 w \<Rightarrow> True | AddrV6 w z \<Rightarrow> z = [] \<and> \<not> is4In6 (AddrV6 w z))"

lemma length_putAddrPort [simp]: "length (putAddrPort ipp) = 18"
  by (simp add: putAddrPort_def as16_def)

lemma drop_bit_ucast [simp]: "drop_bit 32 (ucast (w :: u32) :: u128) = 0"
  by (rule bit_word_eqI) (auto simp: bit_simps dest: bit_imp_le_length)

lemma v4_mapped: "ucast (0xffff00000000 OR ucast (w :: u32) :: u128) = w"
proof -
  have "ucast (0xffff00000000 :: u128) = (0 :: u32)" by (simp add: word_uint_eq_iff)
  moreover have "ucast (ucast w :: u128) = w" by (rule bit_word_eqI) (auto simp: bit_simps)
  ultimately show ?thesis by (simp only: unsigned_or_eq or.left_neutral)
qed

lemma getAddrPort_put: "getAddrPort (putAddrPort ipp @ rest) = \<lparr>apAddr = unmap (AddrV6 (addrWord (apAddr ipp)) []), apPort = apPort ipp\<rparr>"
proof -
  have "uint w mod 256 ^ 16 = uint w" for w :: u128 using uint_lt2p [of w] by simp
  then have "addrFrom16 (putAddrPort ipp @ rest) = AddrV6 (addrWord (apAddr ipp)) []"
    by (simp add: addrFrom16_def putAddrPort_def as16_def beInt_beBytes)
  moreover have "drop 16 (putAddrPort ipp @ rest) = putUint16 (apPort ipp) @ rest" by (simp add: putAddrPort_def as16_def)
  ultimately show ?thesis by (simp add: getAddrPort_def)
qed

lemma wireAddr_iff: "getAddrPort (putAddrPort ipp @ rest) = ipp \<longleftrightarrow> wireAddr ipp"
proof -
  have "unmap (AddrV6 (addrWord (apAddr ipp)) []) = apAddr ipp \<longleftrightarrow> wireAddr ipp"
    by (cases "apAddr ipp") (auto simp: unmap_def addrWord_def wireAddr_def v4_mapped)
  then show ?thesis unfolding getAddrPort_put by (cases ipp) simp
qed

section \<open>Messages\<close>

definition Magic :: "u8 list" where
  "Magic = [0x54, 0x53, 0xf0, 0x9f, 0x92, 0xac]"

definition keyLen :: nat where "keyLen = 32"
definition NonceLen :: nat where "NonceLen = 24"
definition TypePing :: u8 where "TypePing = 0x01"
definition TypePong :: u8 where "TypePong = 0x02"
definition TypeCallMeMaybe :: u8 where "TypeCallMeMaybe = 0x03"
definition TypeBindUDPRelayEndpoint :: u8 where "TypeBindUDPRelayEndpoint = 0x04"
definition TypeBindUDPRelayEndpointChallenge :: u8 where "TypeBindUDPRelayEndpointChallenge = 0x05"
definition TypeBindUDPRelayEndpointAnswer :: u8 where "TypeBindUDPRelayEndpointAnswer = 0x06"
definition TypeCallMeMaybeVia :: u8 where "TypeCallMeMaybeVia = 0x07"
definition TypeAllocateUDPRelayEndpointRequest :: u8 where "TypeAllocateUDPRelayEndpointRequest = 0x08"
definition TypeAllocateUDPRelayEndpointResponse :: u8 where "TypeAllocateUDPRelayEndpointResponse = 0x09"
definition TypeSourcePathProbe :: u8 where "TypeSourcePathProbe = 0x0a"
definition v0 :: u8 where "v0 = 0"

lemmas disco_types = TypePing_def TypePong_def TypeCallMeMaybe_def TypeBindUDPRelayEndpoint_def
  TypeBindUDPRelayEndpointChallenge_def TypeBindUDPRelayEndpointAnswer_def TypeCallMeMaybeVia_def
  TypeAllocateUDPRelayEndpointRequest_def TypeAllocateUDPRelayEndpointResponse_def TypeSourcePathProbe_def v0_def

text \<open>\<open>Ping\<close> and \<open>SourcePathProbe\<close> have the same fields.\<close>

record pingMsg =
  pnTxID :: txID
  pnNodeKey :: nodeKey
  pnPadding :: nat

record BindUDPRelayEndpointCommon =
  bcVNI :: u32
  bcGeneration :: u32
  bcRemoteKey :: discoKey
  bcChallenge :: "u8 list"

record UDPRelayEndpoint =
  reServerDisco :: discoKey
  reClientDisco :: "discoKey \<times> discoKey"
  reLamportID :: u64
  reVNI :: u32
  reBindLifetime :: duration
  reSteadyStateLifetime :: duration
  reAddrPorts :: "addrPort list"

record AllocateUDPRelayEndpointRequest =
  arClientDisco :: "discoKey \<times> discoKey"
  arGeneration :: u32

datatype message =
    Ping pingMsg
  | Pong pongMsg
  | CallMeMaybe "addrPort list"
  | BindUDPRelayEndpoint BindUDPRelayEndpointCommon
  | BindUDPRelayEndpointChallenge BindUDPRelayEndpointCommon
  | BindUDPRelayEndpointAnswer BindUDPRelayEndpointCommon
  | CallMeMaybeVia UDPRelayEndpoint
  | AllocateRequest AllocateUDPRelayEndpointRequest
  | AllocateResponse u32 UDPRelayEndpoint
  | SourcePathProbe pingMsg

datatype discoError = ErrShort | UnknownMessageType u8

section \<open>Marshalling\<close>

text \<open>\<open>appendMsgHeader\<close> with the data its caller fills in.\<close>

definition appendMsgHeader :: "u8 list \<Rightarrow> u8 \<Rightarrow> u8 \<Rightarrow> u8 list \<Rightarrow> u8 list" where
  "appendMsgHeader b t ver dat = b @ [t, ver] @ dat"

definition pingData :: "pingMsg \<Rightarrow> u8 list" where
  "pingData m = pnTxID m @ (if pnNodeKey m \<noteq> zeroNodeKey then pnNodeKey m else []) @ replicate (pnPadding m) 0"

definition encodeCommon :: "BindUDPRelayEndpointCommon \<Rightarrow> u8 list" where
  "encodeCommon m = putUint32 (bcVNI m) @ putUint32 (bcGeneration m) @ bcRemoteKey m @ bcChallenge m"

definition encodeRelayEndpoint :: "UDPRelayEndpoint \<Rightarrow> u8 list" where
  "encodeRelayEndpoint m =
     reServerDisco m @ fst (reClientDisco m) @ snd (reClientDisco m) @ putUint64 (reLamportID m) @ putUint32 (reVNI m) @
     putUint64 (word_of_int (reBindLifetime m)) @ putUint64 (word_of_int (reSteadyStateLifetime m)) @
     concat (map putAddrPort (reAddrPorts m))"

text \<open>The methods \<open>AppendMarshal\<close> of the messages, and the interface method.\<close>

definition marshalPing :: "pingMsg \<Rightarrow> u8 list \<Rightarrow> u8 list" where
  [simp]: "marshalPing m b = appendMsgHeader b TypePing v0 (pingData m)"

definition marshalSourcePathProbe :: "pingMsg \<Rightarrow> u8 list \<Rightarrow> u8 list" where
  [simp]: "marshalSourcePathProbe m b = appendMsgHeader b TypeSourcePathProbe v0 (pingData m)"

definition marshalPong :: "pongMsg \<Rightarrow> u8 list \<Rightarrow> u8 list" where
  [simp]: "marshalPong m b = appendMsgHeader b TypePong v0 (pgTxID m @ putAddrPort (pgSrc m))"

definition marshalCallMeMaybe :: "addrPort list \<Rightarrow> u8 list \<Rightarrow> u8 list" where
  [simp]: "marshalCallMeMaybe ipps b = appendMsgHeader b TypeCallMeMaybe v0 (concat (map putAddrPort ipps))"

definition marshalBind :: "BindUDPRelayEndpointCommon \<Rightarrow> u8 list \<Rightarrow> u8 list" where
  [simp]: "marshalBind m b = appendMsgHeader b TypeBindUDPRelayEndpoint v0 (encodeCommon m)"

definition marshalBindChallenge :: "BindUDPRelayEndpointCommon \<Rightarrow> u8 list \<Rightarrow> u8 list" where
  [simp]: "marshalBindChallenge m b = appendMsgHeader b TypeBindUDPRelayEndpointChallenge v0 (encodeCommon m)"

definition marshalBindAnswer :: "BindUDPRelayEndpointCommon \<Rightarrow> u8 list \<Rightarrow> u8 list" where
  [simp]: "marshalBindAnswer m b = appendMsgHeader b TypeBindUDPRelayEndpointAnswer v0 (encodeCommon m)"

definition marshalCallMeMaybeVia :: "UDPRelayEndpoint \<Rightarrow> u8 list \<Rightarrow> u8 list" where
  [simp]: "marshalCallMeMaybeVia m b = appendMsgHeader b TypeCallMeMaybeVia v0 (encodeRelayEndpoint m)"

definition marshalAllocateRequest :: "AllocateUDPRelayEndpointRequest \<Rightarrow> u8 list \<Rightarrow> u8 list" where
  [simp]: "marshalAllocateRequest m b = appendMsgHeader b TypeAllocateUDPRelayEndpointRequest v0
     (fst (arClientDisco m) @ snd (arClientDisco m) @ putUint32 (arGeneration m))"

definition marshalAllocateResponse :: "u32 \<Rightarrow> UDPRelayEndpoint \<Rightarrow> u8 list \<Rightarrow> u8 list" where
  [simp]: "marshalAllocateResponse g m b = appendMsgHeader b TypeAllocateUDPRelayEndpointResponse v0
     (putUint32 g @ encodeRelayEndpoint m)"

fun appendMarshal :: "message \<Rightarrow> u8 list \<Rightarrow> u8 list" where
  "appendMarshal (Ping m) b = marshalPing m b"
| "appendMarshal (SourcePathProbe m) b = marshalSourcePathProbe m b"
| "appendMarshal (Pong m) b = marshalPong m b"
| "appendMarshal (CallMeMaybe ipps) b = marshalCallMeMaybe ipps b"
| "appendMarshal (BindUDPRelayEndpoint m) b = marshalBind m b"
| "appendMarshal (BindUDPRelayEndpointChallenge m) b = marshalBindChallenge m b"
| "appendMarshal (BindUDPRelayEndpointAnswer m) b = marshalBindAnswer m b"
| "appendMarshal (CallMeMaybeVia m) b = marshalCallMeMaybeVia m b"
| "appendMarshal (AllocateRequest m) b = marshalAllocateRequest m b"
| "appendMarshal (AllocateResponse g m) b = marshalAllocateResponse g m b"

section \<open>Parsing\<close>

definition parsePing :: "u8 \<Rightarrow> u8 list \<Rightarrow> discoError + pingMsg" where
  "parsePing ver p =
     (if length p < 12 then Inl ErrShort
      else let rest = drop 12 p
           in Inr (if length rest \<ge> 32
                   then \<lparr>pnTxID = take 12 p, pnNodeKey = take 32 rest, pnPadding = length p - 12 - 32\<rparr>
                   else \<lparr>pnTxID = take 12 p, pnNodeKey = zeroNodeKey, pnPadding = length p - 12\<rparr>))"

definition parseSourcePathProbe :: "u8 \<Rightarrow> u8 list \<Rightarrow> discoError + pingMsg" where
  [simp]: "parseSourcePathProbe ver p = parsePing ver p"

function getAddrPorts :: "u8 list \<Rightarrow> addrPort list" where
  "getAddrPorts p = (if p = [] then [] else getAddrPort p # getAddrPorts (drop epLength p))"
  by pat_completeness auto
termination by (relation "measure length") (auto simp: epLength_def)

declare getAddrPorts.simps [simp del]

definition parseCallMeMaybe :: "u8 \<Rightarrow> u8 list \<Rightarrow> discoError + addrPort list" where
  "parseCallMeMaybe ver p = (if length p mod epLength \<noteq> 0 \<or> ver \<noteq> 0 \<or> length p = 0 then Inr [] else Inr (getAddrPorts p))"

definition pongLen :: nat where "pongLen = 12 + 16 + 2"

definition parsePong :: "u8 \<Rightarrow> u8 list \<Rightarrow> discoError + pongMsg" where
  "parsePong ver p = (if length p < pongLen then Inl ErrShort
     else Inr \<lparr>pgTxID = take 12 p, pgSrc = getAddrPort (drop 12 p)\<rparr>)"

definition bindUDPRelayEndpointCommonLen :: nat where "bindUDPRelayEndpointCommonLen = 72"

definition decodeCommon :: "u8 list \<Rightarrow> discoError + BindUDPRelayEndpointCommon" where
  "decodeCommon b = (if length b < bindUDPRelayEndpointCommonLen then Inl ErrShort
     else Inr \<lparr>bcVNI = getUint32 b, bcGeneration = getUint32 (drop 4 b), bcRemoteKey = take 32 (drop 8 b),
               bcChallenge = take 32 (drop 40 b)\<rparr>)"

definition parseBindUDPRelayEndpoint :: "u8 \<Rightarrow> u8 list \<Rightarrow> discoError + BindUDPRelayEndpointCommon" where
  [simp]: "parseBindUDPRelayEndpoint ver p = decodeCommon p"

definition parseBindUDPRelayEndpointChallenge :: "u8 \<Rightarrow> u8 list \<Rightarrow> discoError + BindUDPRelayEndpointCommon" where
  [simp]: "parseBindUDPRelayEndpointChallenge ver p = decodeCommon p"

definition parseBindUDPRelayEndpointAnswer :: "u8 \<Rightarrow> u8 list \<Rightarrow> discoError + BindUDPRelayEndpointCommon" where
  [simp]: "parseBindUDPRelayEndpointAnswer ver p = decodeCommon p"

definition allocateUDPRelayEndpointRequestLen :: nat where "allocateUDPRelayEndpointRequestLen = 32 * 2 + 4"

definition parseAllocateUDPRelayEndpointRequest :: "u8 \<Rightarrow> u8 list \<Rightarrow> discoError + AllocateUDPRelayEndpointRequest" where
  "parseAllocateUDPRelayEndpointRequest ver p =
     (if ver \<noteq> 0 then Inr \<lparr>arClientDisco = (zeroDiscoKey, zeroDiscoKey), arGeneration = 0\<rparr>
      else if length p < allocateUDPRelayEndpointRequestLen then Inl ErrShort
      else Inr \<lparr>arClientDisco = (take 32 p, take 32 (drop 32 p)), arGeneration = getUint32 (drop 64 p)\<rparr>)"

definition udpRelayEndpointLenMinusAddrPorts :: nat where
  "udpRelayEndpointLenMinusAddrPorts = 32 + 32 * 2 + 8 + 4 + 8 + 8"

definition zeroRelayEndpoint :: UDPRelayEndpoint where
  "zeroRelayEndpoint = \<lparr>reServerDisco = zeroDiscoKey, reClientDisco = (zeroDiscoKey, zeroDiscoKey), reLamportID = 0, reVNI = 0,
     reBindLifetime = 0, reSteadyStateLifetime = 0, reAddrPorts = []\<rparr>"

definition decodeRelayEndpoint :: "u8 list \<Rightarrow> discoError + UDPRelayEndpoint" where
  "decodeRelayEndpoint b =
     (if length b < udpRelayEndpointLenMinusAddrPorts + epLength \<or> (length b - udpRelayEndpointLenMinusAddrPorts) mod epLength \<noteq> 0
      then Inl ErrShort
      else Inr \<lparr>reServerDisco = take 32 b, reClientDisco = (take 32 (drop 32 b), take 32 (drop 64 b)),
                reLamportID = getUint64 (drop 96 b), reVNI = getUint32 (drop 104 b),
                reBindLifetime = i64 (uint (getUint64 (drop 108 b))), reSteadyStateLifetime = i64 (uint (getUint64 (drop 116 b))),
                reAddrPorts = getAddrPorts (drop 124 b)\<rparr>)"

definition parseAllocateUDPRelayEndpointResponse :: "u8 \<Rightarrow> u8 list \<Rightarrow> discoError + message" where
  "parseAllocateUDPRelayEndpointResponse ver p =
     (if ver \<noteq> 0 then Inr (AllocateResponse 0 zeroRelayEndpoint)
      else if length p < 4 then Inl ErrShort
      else map_sum id (AllocateResponse (getUint32 p)) (decodeRelayEndpoint (drop 4 p)))"

definition parseCallMeMaybeVia :: "u8 \<Rightarrow> u8 list \<Rightarrow> discoError + UDPRelayEndpoint" where
  "parseCallMeMaybeVia ver p = (if ver \<noteq> 0 then Inr zeroRelayEndpoint else decodeRelayEndpoint p)"

definition Parse :: "u8 list \<Rightarrow> discoError + message" where
  "Parse p0 =
     (if length p0 < 2 then Inl ErrShort
      else let t = p0 ! 0; ver = p0 ! 1; p = drop 2 p0
        in if t = TypePing then map_sum id Ping (parsePing ver p)
           else if t = TypePong then map_sum id Pong (parsePong ver p)
           else if t = TypeCallMeMaybe then map_sum id CallMeMaybe (parseCallMeMaybe ver p)
           else if t = TypeBindUDPRelayEndpoint then map_sum id BindUDPRelayEndpoint (parseBindUDPRelayEndpoint ver p)
           else if t = TypeBindUDPRelayEndpointChallenge then map_sum id BindUDPRelayEndpointChallenge (parseBindUDPRelayEndpointChallenge ver p)
           else if t = TypeBindUDPRelayEndpointAnswer then map_sum id BindUDPRelayEndpointAnswer (parseBindUDPRelayEndpointAnswer ver p)
           else if t = TypeCallMeMaybeVia then map_sum id CallMeMaybeVia (parseCallMeMaybeVia ver p)
           else if t = TypeAllocateUDPRelayEndpointRequest then map_sum id AllocateRequest (parseAllocateUDPRelayEndpointRequest ver p)
           else if t = TypeAllocateUDPRelayEndpointResponse then parseAllocateUDPRelayEndpointResponse ver p
           else if t = TypeSourcePathProbe then map_sum id SourcePathProbe (parseSourcePathProbe ver p)
           else Inl (UnknownMessageType t))"

section \<open>Round trip\<close>

lemma getAddrPorts_concat:
  "getAddrPorts (concat (map putAddrPort ipps)) = ipps \<longleftrightarrow> (\<forall>ipp\<in>set ipps. wireAddr ipp)"
proof (induction ipps)
  case (Cons ipp ipps)
  let ?r = "concat (map putAddrPort ipps)"
  have "putAddrPort ipp @ ?r \<noteq> []" by (metis length_putAddrPort append_is_Nil_conv list.size(3) zero_neq_numeral)
  then have "getAddrPorts (putAddrPort ipp @ ?r) = getAddrPort (putAddrPort ipp @ ?r) # getAddrPorts ?r"
    by (subst getAddrPorts.simps) (simp add: epLength_def)
  then show ?case using Cons wireAddr_iff [of ipp ?r] by simp
qed (simp add: getAddrPorts.simps)

lemma length_concat_putAddrPort [simp]: "length (concat (map putAddrPort ipps)) = 18 * length ipps"
  by (induction ipps) simp_all

text \<open>What the types of the Go structs say: the lengths of arrays and keys, and the range of a duration.\<close>

definition relayEndpointTyped :: "UDPRelayEndpoint \<Rightarrow> bool" where
  "relayEndpointTyped m \<longleftrightarrow> length (reServerDisco m) = 32 \<and> length (fst (reClientDisco m)) = 32 \<and> length (snd (reClientDisco m)) = 32
     \<and> is_i64 (reBindLifetime m) \<and> is_i64 (reSteadyStateLifetime m)"

fun typed :: "message \<Rightarrow> bool" where
  "typed (Ping m) = (length (pnTxID m) = 12 \<and> length (pnNodeKey m) = 32)"
| "typed (SourcePathProbe m) = (length (pnTxID m) = 12 \<and> length (pnNodeKey m) = 32)"
| "typed (Pong m) = (length (pgTxID m) = 12)"
| "typed (CallMeMaybe ipps) = True"
| "typed (BindUDPRelayEndpoint m) = (length (bcRemoteKey m) = 32 \<and> length (bcChallenge m) = 32)"
| "typed (BindUDPRelayEndpointChallenge m) = (length (bcRemoteKey m) = 32 \<and> length (bcChallenge m) = 32)"
| "typed (BindUDPRelayEndpointAnswer m) = (length (bcRemoteKey m) = 32 \<and> length (bcChallenge m) = 32)"
| "typed (CallMeMaybeVia m) = relayEndpointTyped m"
| "typed (AllocateRequest m) = (length (fst (arClientDisco m)) = 32 \<and> length (snd (arClientDisco m)) = 32)"
| "typed (AllocateResponse g m) = relayEndpointTyped m"

text \<open>The messages that come back unchanged.\<close>

fun survives :: "message \<Rightarrow> bool" where
  "survives (Ping m) = (pnNodeKey m = zeroNodeKey \<longrightarrow> pnPadding m < 32)"
| "survives (SourcePathProbe m) = (pnNodeKey m = zeroNodeKey \<longrightarrow> pnPadding m < 32)"
| "survives (Pong m) = wireAddr (pgSrc m)"
| "survives (CallMeMaybe ipps) = (\<forall>ipp\<in>set ipps. wireAddr ipp)"
| "survives (CallMeMaybeVia m) = (reAddrPorts m \<noteq> [] \<and> (\<forall>ipp\<in>set (reAddrPorts m). wireAddr ipp))"
| "survives (AllocateResponse g m) = (reAddrPorts m \<noteq> [] \<and> (\<forall>ipp\<in>set (reAddrPorts m). wireAddr ipp))"
| "survives _ = True"

lemma Parse_marshal:
  "Parse (appendMsgHeader [] t ver dat) =
     (if t = TypePing then map_sum id Ping (parsePing ver dat)
      else if t = TypePong then map_sum id Pong (parsePong ver dat)
      else if t = TypeCallMeMaybe then map_sum id CallMeMaybe (parseCallMeMaybe ver dat)
      else if t = TypeBindUDPRelayEndpoint then map_sum id BindUDPRelayEndpoint (decodeCommon dat)
      else if t = TypeBindUDPRelayEndpointChallenge then map_sum id BindUDPRelayEndpointChallenge (decodeCommon dat)
      else if t = TypeBindUDPRelayEndpointAnswer then map_sum id BindUDPRelayEndpointAnswer (decodeCommon dat)
      else if t = TypeCallMeMaybeVia then map_sum id CallMeMaybeVia (parseCallMeMaybeVia ver dat)
      else if t = TypeAllocateUDPRelayEndpointRequest then map_sum id AllocateRequest (parseAllocateUDPRelayEndpointRequest ver dat)
      else if t = TypeAllocateUDPRelayEndpointResponse then parseAllocateUDPRelayEndpointResponse ver dat
      else if t = TypeSourcePathProbe then map_sum id SourcePathProbe (parsePing ver dat)
      else Inl (UnknownMessageType t))"
  by (simp add: Parse_def appendMsgHeader_def)

lemma parsePing_data:
  assumes "length (pnTxID m) = 12" "length (pnNodeKey m) = 32"
  shows "parsePing ver (pingData m) = Inr m \<longleftrightarrow> (pnNodeKey m = zeroNodeKey \<longrightarrow> pnPadding m < 32)"
  using assms by (cases m) (auto simp: parsePing_def pingData_def Let_def zeroNodeKey_def)

lemma decodeCommon_encode:
  "length (bcRemoteKey m) = 32 \<Longrightarrow> length (bcChallenge m) = 32 \<Longrightarrow> decodeCommon (encodeCommon m) = Inr m"
  by (simp add: decodeCommon_def encodeCommon_def bindUDPRelayEndpointCommonLen_def)

lemma i64_word: "i64 (uint (word_of_int d :: u64)) = i64 d"
  by (simp add: i64_def uint_word_of_int mod_add_left_eq)

lemma decodeRelayEndpoint_encode:
  assumes "relayEndpointTyped m"
  shows "decodeRelayEndpoint (encodeRelayEndpoint m) = Inr m \<longleftrightarrow>
    reAddrPorts m \<noteq> [] \<and> (\<forall>ipp\<in>set (reAddrPorts m). wireAddr ipp)"
proof -
  let ?e = "concat (map putAddrPort (reAddrPorts m))"
  have len: "length (encodeRelayEndpoint m) = 124 + 18 * length (reAddrPorts m)"
    using assms by (simp add: encodeRelayEndpoint_def relayEndpointTyped_def)
  have parts: "take 32 (encodeRelayEndpoint m) = reServerDisco m" "take 32 (drop 32 (encodeRelayEndpoint m)) = fst (reClientDisco m)"
      "take 32 (drop 64 (encodeRelayEndpoint m)) = snd (reClientDisco m)"
      "getUint64 (drop 96 (encodeRelayEndpoint m)) = reLamportID m" "getUint32 (drop 104 (encodeRelayEndpoint m)) = reVNI m"
      "getUint64 (drop 108 (encodeRelayEndpoint m)) = word_of_int (reBindLifetime m)"
      "getUint64 (drop 116 (encodeRelayEndpoint m)) = word_of_int (reSteadyStateLifetime m)"
      "drop 124 (encodeRelayEndpoint m) = ?e"
    using assms by (simp_all add: encodeRelayEndpoint_def relayEndpointTyped_def)
  have "i64 (reBindLifetime m) = reBindLifetime m" "i64 (reSteadyStateLifetime m) = reSteadyStateLifetime m"
    using assms by (simp_all add: relayEndpointTyped_def i64_id)
  then have "decodeRelayEndpoint (encodeRelayEndpoint m) = (if reAddrPorts m = [] then Inl ErrShort else Inr (m\<lparr>reAddrPorts := getAddrPorts ?e\<rparr>))"
    by (simp add: decodeRelayEndpoint_def len parts udpRelayEndpointLenMinusAddrPorts_def epLength_def i64_word)
  then show ?thesis
    using getAddrPorts_concat [of "reAddrPorts m"] by (cases m) simp
qed

text \<open>
  C30. Discovery messages survive the wire. A message, parsed from its own marshalling, comes back
  unchanged exactly when its addresses are valid, carry no zone and are not IPv4 addresses mapped into
  IPv6, a relay endpoint has at least one address, and a ping or probe without node key is padded by
  less than the length of a key.
\<close>

theorem disco_roundtrip:
  assumes "typed m"
  shows "Parse (appendMarshal m []) = Inr m \<longleftrightarrow> survives m"
proof (cases m)
  case (CallMeMaybe ipps)
  then show ?thesis using getAddrPorts_concat [of ipps]
    by (cases ipps) (auto simp: Parse_marshal disco_types parseCallMeMaybe_def epLength_def)
next
  case (Pong p)
  then show ?thesis using assms wireAddr_iff [of "pgSrc p" "[]"]
    by (cases p) (simp add: Parse_marshal disco_types parsePong_def pongLen_def)
next
  case (AllocateRequest r)
  then show ?thesis using assms
    by (cases r) (simp add: Parse_marshal disco_types parseAllocateUDPRelayEndpointRequest_def allocateUDPRelayEndpointRequestLen_def)
next
  case (Ping p)
  then show ?thesis using assms parsePing_data [of p 0]
    by (cases "parsePing v0 (pingData p)") (simp_all add: Parse_marshal disco_types)
next
  case (SourcePathProbe p)
  then show ?thesis using assms parsePing_data [of p 0]
    by (cases "parsePing v0 (pingData p)") (simp_all add: Parse_marshal disco_types)
next
  case (CallMeMaybeVia r)
  then show ?thesis using assms decodeRelayEndpoint_encode [of r]
    by (cases "decodeRelayEndpoint (encodeRelayEndpoint r)") (simp_all add: Parse_marshal disco_types parseCallMeMaybeVia_def)
next
  case (AllocateResponse g r)
  then show ?thesis using assms decodeRelayEndpoint_encode [of r]
    by (cases "decodeRelayEndpoint (encodeRelayEndpoint r)")
      (simp_all add: Parse_marshal disco_types parseAllocateUDPRelayEndpointResponse_def)
qed (use assms in \<open>simp_all add: Parse_marshal disco_types decodeCommon_encode\<close>)

lemmas parse_defs = parsePing_def parsePong_def parseCallMeMaybe_def decodeCommon_def parseCallMeMaybeVia_def
  decodeRelayEndpoint_def parseAllocateUDPRelayEndpointRequest_def parseAllocateUDPRelayEndpointResponse_def
  pongLen_def bindUDPRelayEndpointCommonLen_def allocateUDPRelayEndpointRequestLen_def
  udpRelayEndpointLenMinusAddrPorts_def epLength_def

text \<open>The number of bytes a message of each type needs, with the rule for the addresses of relay endpoints.\<close>

definition tooShort :: "u8 \<Rightarrow> u8 \<Rightarrow> nat \<Rightarrow> bool" where
  "tooShort t ver n \<longleftrightarrow>
     (t \<in> {TypePing, TypeSourcePathProbe} \<and> n < 12)
   \<or> (t = TypePong \<and> n < 30)
   \<or> (t \<in> {TypeBindUDPRelayEndpoint, TypeBindUDPRelayEndpointChallenge, TypeBindUDPRelayEndpointAnswer} \<and> n < 72)
   \<or> (t = TypeCallMeMaybeVia \<and> ver = 0 \<and> (n < 142 \<or> (n - 124) mod 18 \<noteq> 0))
   \<or> (t = TypeAllocateUDPRelayEndpointRequest \<and> ver = 0 \<and> n < 68)
   \<or> (t = TypeAllocateUDPRelayEndpointResponse \<and> ver = 0 \<and> (n < 146 \<or> (n - 128) mod 18 \<noteq> 0))"

text \<open>
  C31. When a discovery message does not parse. \<open>Parse\<close> reports a short message exactly when the two
  header bytes are missing or the rest is shorter than the type needs (for relay endpoints also when
  it does not hold a whole number of addresses), and an unknown type exactly for the types outside
  1 to 10. It never fails otherwise: a call-me-maybe message of any length parses, and the messages
  with a version check parse with any length in another version.
\<close>

theorem disco_parse_errors_exact:
  "Parse p = Inl e \<longleftrightarrow>
     (if length p < 2 then e = ErrShort
      else if p ! 0 \<in> {1..10} then e = ErrShort \<and> tooShort (p ! 0) (p ! 1) (length p - 2)
      else e = UnknownMessageType (p ! 0))"
proof (cases "length p < 2")
  case False
  then obtain t ver q where p: "p = appendMsgHeader [] t ver q"
    by (cases p; cases "tl p") (auto simp: appendMsgHeader_def)
  have known: "t \<in> {1..10} \<longleftrightarrow> t = TypePing \<or> t = TypePong \<or> t = TypeCallMeMaybe \<or> t = TypeBindUDPRelayEndpoint
      \<or> t = TypeBindUDPRelayEndpointChallenge \<or> t = TypeBindUDPRelayEndpointAnswer \<or> t = TypeCallMeMaybeVia
      \<or> t = TypeAllocateUDPRelayEndpointRequest \<or> t = TypeAllocateUDPRelayEndpointResponse \<or> t = TypeSourcePathProbe"
    by (simp add: disco_types word_le_nat_alt unat_arith_simps) arith
  have sel: "p ! 0 = t" "p ! 1 = ver" "length p - 2 = length q" by (simp_all add: p appendMsgHeader_def)
  have "Parse p = Inl e \<longleftrightarrow> (if t \<in> {1..10} then e = ErrShort \<and> tooShort t ver (length q) else e = UnknownMessageType t)"
  proof (cases "t \<in> {1..10}")
    case True
    then have "Parse p = Inl e \<longleftrightarrow> e = ErrShort \<and> tooShort t ver (length q)"
      unfolding known p Parse_marshal by (elim disjE) (simp_all add: disco_types tooShort_def parse_defs, auto)
    then show ?thesis using True by simp
  next
    case False
    then show ?thesis using False [unfolded known] unfolding p Parse_marshal by auto
  qed
  then show ?thesis using False by (simp only: sel if_False)
qed (auto simp: Parse_def)

section \<open>The Geneve header\<close>

definition GeneveFixedHeaderLength :: nat where "GeneveFixedHeaderLength = 8"
definition GeneveProtocolDisco :: u16 where "GeneveProtocolDisco = 0x7A11"
definition GeneveProtocolWireGuard :: u16 where "GeneveProtocolWireGuard = 0x7A12"

record GeneveHeader =
  ghVersion :: u8
  ghProtocol :: u16
  ghVNI :: vni
  ghControl :: bool

definition zeroGeneveHeader :: GeneveHeader where
  "zeroGeneveHeader = \<lparr>ghVersion = 0, ghProtocol = 0, ghVNI = 0, ghControl = False\<rparr>"

datatype geneveError = ErrShortBuffer | ErrGeneveVNIUnset | ErrGeneveVersion

definition geneveEncode :: "GeneveHeader \<Rightarrow> u8 list \<Rightarrow> geneveError + u8 list" where
  "geneveEncode h b =
     (if length b < GeneveFixedHeaderLength then Inl ErrShortBuffer
      else if \<not> vniIsSet (ghVNI h) then Inl ErrGeneveVNIUnset
      else if ghVersion h > 3 then Inl ErrGeneveVersion
      else Inr ([push_bit 6 (ghVersion h), if ghControl h then 0x80 else 0] @ putUint16 (ghProtocol h) @
                putUint32 (push_bit 8 (vniGet (ghVNI h))) @ drop 8 b))"

text \<open>\<open>Decode\<close> writes into its receiver, whose control bit it never clears.\<close>

definition geneveDecode :: "GeneveHeader \<Rightarrow> u8 list \<Rightarrow> geneveError + GeneveHeader" where
  "geneveDecode h b =
     (if length b < GeneveFixedHeaderLength then Inl ErrShortBuffer
      else Inr (h\<lparr>ghVersion := drop_bit 6 (b ! 0), ghControl := (if (b ! 1) AND 0x80 \<noteq> 0 then True else ghControl h),
                  ghProtocol := getUint16 (drop 2 b), ghVNI := vniSet (drop_bit 8 (getUint32 (drop 4 b)))\<rparr>))"

section \<open>Telling packets apart\<close>

definition stunMagicCookie :: "u8 list" where
  "stunMagicCookie = [0x21, 0x12, 0xa4, 0x42]"

definition stunIs :: "u8 list \<Rightarrow> bool" where
  "stunIs b \<longleftrightarrow> length b \<ge> 20 \<and> (b ! 0) AND 0xC0 = 0 \<and> take 4 (drop 4 b) = stunMagicCookie"

definition discoHeaderLen :: nat where
  "discoHeaderLen = 6 + 32"

definition LooksLikeDiscoWrapper :: "u8 list \<Rightarrow> bool" where
  "LooksLikeDiscoWrapper p = (if length p < 6 + keyLen + NonceLen then False else take 6 p = Magic)"

definition Source :: "u8 list \<Rightarrow> u8 list option" where
  "Source p = (if \<not> LooksLikeDiscoWrapper p then None else Some (take keyLen (drop 6 p)))"

definition looksLikeDisco :: "u8 list \<Rightarrow> bool" where
  "looksLikeDisco msg \<longleftrightarrow> length msg \<ge> discoHeaderLen \<and> take 6 msg = Magic"

datatype packetLooksLikeType = packetLooksLikeWireGuard | packetLooksLikeSTUNBinding | packetLooksLikeDisco

definition packetLooksLike :: "u8 list \<Rightarrow> packetLooksLikeType \<times> bool" where
  "packetLooksLike msg =
     (let naked = (if looksLikeDisco msg then (packetLooksLikeDisco, False) else (packetLooksLikeWireGuard, False))
      in if stunIs msg \<and> msg ! 1 = 0x01 then (packetLooksLikeSTUNBinding, False)
      else if length msg \<ge> GeneveFixedHeaderLength \<and> (msg ! 0) AND 0xC0 = 0 \<and> (msg ! 1) AND 0x3F = 0 \<and> msg ! 7 = 0
      then
        let proto = getUint16 (drop 2 msg)
        in if proto = GeneveProtocolDisco
           then (if looksLikeDisco (drop GeneveFixedHeaderLength msg) then (packetLooksLikeDisco, True) else (packetLooksLikeWireGuard, False))
           else if proto = GeneveProtocolWireGuard then (packetLooksLikeWireGuard, True)
           else naked
      else naked)"

text \<open>The packets that are sent: naked, or behind a Geneve header as \<open>Encode\<close> writes it.\<close>

datatype sentFrame = NakedWireGuard "u8 list" | NakedDisco "u8 list" | STUNBinding "u8 list"
  | EncapDisco GeneveHeader "u8 list" | EncapWireGuard GeneveHeader "u8 list"

definition encap :: "GeneveHeader \<Rightarrow> u8 list \<Rightarrow> u8 list" where
  "encap h pl = (case geneveEncode h (replicate 8 0 @ pl) of Inr b \<Rightarrow> b | Inl e \<Rightarrow> [])"

fun frameBytes :: "sentFrame \<Rightarrow> u8 list" where
  "frameBytes (NakedWireGuard b) = b"
| "frameBytes (NakedDisco b) = b"
| "frameBytes (STUNBinding b) = b"
| "frameBytes (EncapDisco h b) = encap (h\<lparr>ghVersion := 0, ghProtocol := GeneveProtocolDisco\<rparr>) b"
| "frameBytes (EncapWireGuard h b) = encap (h\<lparr>ghVersion := 0, ghProtocol := GeneveProtocolWireGuard\<rparr>) b"

text \<open>A WireGuard message starts with its type, 1 to 4, and three zero bytes.\<close>

fun frameOk :: "sentFrame \<Rightarrow> bool" where
  "frameOk (NakedWireGuard b) = (length b \<ge> 4 \<and> b ! 0 \<in> {1..4} \<and> b ! 1 = 0 \<and> b ! 2 = 0 \<and> b ! 3 = 0)"
| "frameOk (NakedDisco b) = looksLikeDisco b"
| "frameOk (STUNBinding b) = (stunIs b \<and> b ! 1 = 0x01)"
| "frameOk (EncapDisco h b) = (vniIsSet (ghVNI h) \<and> looksLikeDisco b)"
| "frameOk (EncapWireGuard h b) = vniIsSet (ghVNI h)"

fun frameKind :: "sentFrame \<Rightarrow> packetLooksLikeType \<times> bool" where
  "frameKind (NakedWireGuard b) = (packetLooksLikeWireGuard, False)"
| "frameKind (NakedDisco b) = (packetLooksLikeDisco, False)"
| "frameKind (STUNBinding b) = (packetLooksLikeSTUNBinding, False)"
| "frameKind (EncapDisco h b) = (packetLooksLikeDisco, True)"
| "frameKind (EncapWireGuard h b) = (packetLooksLikeWireGuard, True)"

lemma encap_eq:
  assumes "vniIsSet (ghVNI h)" "ghVersion h = 0"
  shows "encap h pl = [0, if ghControl h then 0x80 else 0] @ putUint16 (ghProtocol h) @ putUint32 (push_bit 8 (vniGet (ghVNI h))) @ pl"
  using assms by (simp add: encap_def geneveEncode_def GeneveFixedHeaderLength_def)

lemma reserved_zero: "putUint32 (push_bit 8 w) ! 3 = 0"
proof -
  have "putUint32 x ! 3 = ucast x" for x :: u32
  proof -
    have "beBytes (Suc 3) (uint x) ! length (beBytes 3 (uint x div 256)) = word_of_int (uint x)"
      unfolding beBytes.simps by (rule nth_append_length)
    then show ?thesis unfolding putUint32_def ucast_eq by simp
  qed
  moreover have "ucast (push_bit 8 w :: u32) = (0 :: u8)" by (rule bit_word_eqI) (auto simp: bit_simps)
  ultimately show ?thesis by simp
qed

lemma encap_fields:
  assumes "vniIsSet (ghVNI h)" "ghVersion h = 0"
  shows "encap h pl ! 0 = 0" "(encap h pl ! 1) AND 0x3F = 0" "encap h pl ! 7 = 0" "length (encap h pl) = 8 + length pl"
    "drop 2 (encap h pl) = putUint16 (ghProtocol h) @ putUint32 (push_bit 8 (vniGet (ghVNI h))) @ pl" "drop 8 (encap h pl) = pl"
proof -
  let ?c = "if ghControl h then 0x80 else 0 :: u8" let ?a = "[0, ?c] @ putUint16 (ghProtocol h)"
  let ?v = "putUint32 (push_bit 8 (vniGet (ghVNI h)))"
  have e: "encap h pl = ?a @ ?v @ pl" by (simp add: encap_eq [OF assms])
  show "encap h pl ! 0 = 0" "(encap h pl ! 1) AND 0x3F = 0" by (simp_all add: e)
  have "(?a @ ?v @ pl) ! (4 + 3) = (?v @ pl) ! 3" by (subst nth_append) simp
  also have "\<dots> = 0" using reserved_zero [of "vniGet (ghVNI h)"] by (simp add: nth_append)
  finally show "encap h pl ! 7 = 0" by (simp only: e) simp
  show "length (encap h pl) = 8 + length pl" "drop 8 (encap h pl) = pl"
    "drop 2 (encap h pl) = putUint16 (ghProtocol h) @ ?v @ pl" by (simp_all add: e)
qed

lemma encap_not_stun:
  assumes "vniIsSet (ghVNI h)" "ghVersion h = 0"
  shows "\<not> stunIs (encap h pl)"
proof
  assume "stunIs (encap h pl)"
  then have "take 4 (drop 4 (encap h pl)) ! 3 = stunMagicCookie ! 3" by (simp add: stunIs_def)
  then have "encap h pl ! 7 = 0x42" using encap_fields(4) [OF assms, of pl] by (simp add: stunMagicCookie_def)
  then show False using encap_fields(3) [OF assms, of pl] by simp
qed

lemma frame_kind:
  assumes "frameOk f"
  shows "packetLooksLike (frameBytes f) = frameKind f"
proof (cases f)
  case (NakedWireGuard b)
  then have b: "length b \<ge> 4" "b ! 0 \<in> {1..4}" "b ! 1 = 0" "b ! 2 = 0" "b ! 3 = 0" using assms by simp_all
  then have "take 2 (drop 2 b) = [0, 0]" by (auto simp: list_eq_iff_nth_eq numeral_eq_Suc less_Suc_eq)
  then have "getUint16 (drop 2 b) = 0" by (simp add: getUint16_def beInt_def)
  moreover have "\<not> looksLikeDisco b"
  proof
    assume "looksLikeDisco b"
    then have "take 6 b ! 0 = Magic ! 0" by (simp add: looksLikeDisco_def)
    then have "b ! 0 = 0x54" by (simp add: Magic_def)
    then show False using b(2) by (simp add: word_le_nat_alt)
  qed
  ultimately show ?thesis using b NakedWireGuard
    by (simp add: packetLooksLike_def Let_def GeneveProtocolDisco_def GeneveProtocolWireGuard_def)
next
  case (NakedDisco b)
  then have d: "looksLikeDisco b" using assms by simp
  then have "take 6 b ! 0 = Magic ! 0" "take 6 b ! 1 = Magic ! 1" by (simp_all add: looksLikeDisco_def)
  then have "b ! 0 = 0x54" "b ! 1 = 0x53" by (simp_all add: Magic_def)
  then show ?thesis using d NakedDisco by (simp add: packetLooksLike_def stunIs_def)
next
  case (STUNBinding b)
  then show ?thesis using assms by (simp add: packetLooksLike_def)
next
  case (EncapDisco h b)
  let ?h = "h\<lparr>ghVersion := 0, ghProtocol := GeneveProtocolDisco\<rparr>"
  have h: "vniIsSet (ghVNI ?h)" "ghVersion ?h = 0" using assms EncapDisco by simp_all
  show ?thesis using assms EncapDisco encap_fields [OF h, of b] encap_not_stun [OF h, of b]
    by (simp add: packetLooksLike_def Let_def GeneveFixedHeaderLength_def)
next
  case (EncapWireGuard h b)
  let ?h = "h\<lparr>ghVersion := 0, ghProtocol := GeneveProtocolWireGuard\<rparr>"
  have h: "vniIsSet (ghVNI ?h)" "ghVersion ?h = 0" using assms EncapWireGuard by simp_all
  show ?thesis using assms EncapWireGuard encap_fields [OF h, of b] encap_not_stun [OF h, of b]
    by (simp add: packetLooksLike_def Let_def GeneveFixedHeaderLength_def GeneveProtocolDisco_def GeneveProtocolWireGuard_def)
qed

text \<open>
  Received packets are told apart. Every packet of the five kinds that peers, relays and STUN
  servers send - naked WireGuard, naked disco, STUN binding, and disco or WireGuard behind a Geneve
  header with a set network identifier - is classified as its kind, and as encapsulated exactly when
  it is.
\<close>

theorem packets_told_apart:
  assumes "frameOk f"
  shows "packetLooksLike (frameBytes f) = frameKind f"
  using assms by (rule frame_kind)

text \<open>Decoding into a fresh header gives back what was encoded, for identifiers made by \<open>Set\<close>.\<close>

lemma vni_masks: "vniGet v = v AND mask 24" "vniSet n = n OR NOT (mask 24)"
proof -
  have "(0xFF000000 :: u32) = NOT (mask 24)" by (simp add: mask_eq_exp_minus_1 word_uint_eq_iff)
  then show "vniSet n = n OR NOT (mask 24)" by (simp only: vniSet_def)
qed (simp add: vniGet_def mask_eq_exp_minus_1)

lemma vni_shift: "drop_bit 8 (push_bit 8 (vniGet v)) = vniGet v"
  unfolding vni_masks by (rule bit_word_eqI) (auto simp: bit_simps)

lemma vniSet_Get_Set: "vniSet (vniGet (vniSet n)) = vniSet n"
  unfolding vni_masks by (rule bit_word_eqI) (auto simp: bit_simps)

lemma geneve_roundtrip:
  assumes "ghVersion h \<le> 3" "ghVNI h = vniSet n" "length b \<ge> 8" "geneveEncode h b = Inr b'"
  shows "geneveDecode zeroGeneveHeader b' = Inr h \<and> drop 8 b' = drop 8 b"
proof -
  have b': "b' = [push_bit 6 (ghVersion h), if ghControl h then 0x80 else 0] @ putUint16 (ghProtocol h) @
                putUint32 (push_bit 8 (vniGet (ghVNI h))) @ drop 8 b"
    using assms by (auto simp: geneveEncode_def GeneveFixedHeaderLength_def split: if_splits)
  have v: "drop_bit 6 (push_bit 6 (ghVersion h)) = ghVersion h"
  proof -
    have "take_bit 2 (ghVersion h) = ghVersion h" using assms(1) by (simp add: word_le_nat_alt unat_arith_simps take_bit_eq_mod)
    then show ?thesis by (intro bit_word_eqI) (auto simp: bit_simps, metis bit_take_bit_iff)
  qed
  have "vniSet (drop_bit 8 (push_bit 8 (vniGet (ghVNI h)))) = ghVNI h" unfolding vni_shift assms(2) by (rule vniSet_Get_Set)
  moreover have "length b' \<ge> 8" "b' ! 0 = push_bit 6 (ghVersion h)" "b' ! 1 = (if ghControl h then 0x80 else 0)"
      "getUint16 (drop 2 b') = ghProtocol h" "getUint32 (drop 4 b') = push_bit 8 (vniGet (ghVNI h))" "drop 8 b' = drop 8 b"
    using assms(3) by (simp_all add: b')
  ultimately show ?thesis using v by (simp add: geneveDecode_def GeneveFixedHeaderLength_def zeroGeneveHeader_def)
qed

section \<open>Examples\<close>

theorem disco_roundtrip_witness:
  "Parse (appendMarshal (CallMeMaybe [\<lparr>apAddr = AddrV4 0x01020304, apPort = 41641\<rparr>]) [])
     = Inr (CallMeMaybe [\<lparr>apAddr = AddrV4 0x01020304, apPort = 41641\<rparr>])
   \<and> Parse (appendMarshal (Ping \<lparr>pnTxID = replicate 12 7, pnNodeKey = zeroNodeKey, pnPadding = 40\<rparr>) [])
     \<noteq> Inr (Ping \<lparr>pnTxID = replicate 12 7, pnNodeKey = zeroNodeKey, pnPadding = 40\<rparr>)"
  using disco_roundtrip [of "CallMeMaybe [\<lparr>apAddr = AddrV4 0x01020304, apPort = 41641\<rparr>]"]
    disco_roundtrip [of "Ping \<lparr>pnTxID = replicate 12 7, pnNodeKey = zeroNodeKey, pnPadding = 40\<rparr>"]
  by (simp add: wireAddr_def zeroNodeKey_def)

theorem packets_told_apart_witness:
  "packetLooksLike (frameBytes (EncapDisco \<lparr>ghVersion = 0, ghProtocol = 0, ghVNI = vniSet 7, ghControl = True\<rparr> (Magic @ replicate 60 9)))
     = (packetLooksLikeDisco, True)"
proof -
  let ?f = "EncapDisco \<lparr>ghVersion = 0, ghProtocol = 0, ghVNI = vniSet 7, ghControl = True\<rparr> (Magic @ replicate 60 9)"
  have "frameOk ?f" by (simp add: vniIsSet_Set looksLikeDisco_def discoHeaderLen_def Magic_def)
  then show ?thesis using packets_told_apart [of ?f] by simp
qed

end
