(* ===== verification/Conn_Peers.thy ===== *)
theory Conn_Peers
  imports Endpoint_Ident Peer_Map Srcsel_Sockets Disco
begin

text \<open>
  The peers of a connection: the parts of \<open>Conn\<close> in \<open>src/wgengine/magicsock/magicsock.go\<close> that
  follow the network map. \<open>record conn\<close> holds the fields of the struct this and the following
  theories read and write; the endpoints live in the list \<open>coEps\<close>, to which the peer map refers.
  Calls into the relay manager and the actions of endpoints are collected as \<open>connAction\<close>s.
\<close>

section \<open>The data\<close>

text \<open>A node of the network map: what endpoints read of it (\<open>nodeView\<close>), its identity, and \<open>nvRest\<close>,
  all the fields that only \<open>NodeView.Equal\<close> looks at. An address prefix has its number of bits.\<close>

record peerView = nodeView +
  nvID :: int
  nvKey :: nodeKey
  nvIsWireGuardOnly :: bool
  nvName :: string
  nvAddresses :: "(addr \<times> int) list"
  nvRest :: string

definition asNode :: "peerView \<Rightarrow> nodeView" where
  "asNode n = \<lparr>nvExpired = nvExpired n, nvDiscoKey = nvDiscoKey n, nvHomeDERP = nvHomeDERP n, nvEndpoints = nvEndpoints n, nvCap = nvCap n\<rparr>"

record debugFlags =
  dfHeartbeatDisabled :: bool
  dfProbeUDPLifetimeOn :: bool

record candidatePeerRelay =
  crNodeKey :: nodeKey
  crDiscoKey :: discoKey
  crDerpHomeRegionID :: u16

text \<open>\<open>discoInfo\<close> without the key derived from the map key.\<close>

record discoInfo =
  diLastPingFrom :: epAddr
  diLastPingTime :: walltime

datatype connAction =
    EpAct epRef epAction
  | RelayServersSet "candidatePeerRelay list"
  | RelayServerUpsert candidatePeerRelay
  | RelayServerRemove nodeKey
  | RelayRxDisco message nodeKey discoKey epAddr
  | RelayCallMeMaybeVia epRef addrQuality bool UDPRelayEndpoint
  | SendDiscoMessage epAddr nodeKey discoKey message
  | HandleCallMeMaybe epRef "addrPort list"
  | PublishAllocReq discoKey nodeKey AllocateUDPRelayEndpointRequest
  | PublishNewDiscoKey addr int
  | CloseAllDerp string
  | StartDerpHomeConnect
  | ReSTUN string

text \<open>The packet filter is what \<open>CapsWithValues(src, dst).HasCapability(cap)\<close> answers.\<close>

record conn =
  coEps :: "endpoint list"
  coPeerMap :: peerMap
  coPeersByID :: "(int, peerView) gomap"
  coSelf :: "peerView option"
  coDiscoInfo :: "(discoKey, discoInfo) gomap"
  coClosed :: bool
  coPrivateKey :: "u8 list"
  coEverHadKey :: bool
  coMyDerp :: int
  coSilentDiscoOn :: bool
  coProbeUDPLifetimeOn :: bool
  coLastFlags :: debugFlags
  coRelayClientEnabled :: bool
  coFilt :: "(addr \<Rightarrow> addr \<Rightarrow> string \<Rightarrow> bool) option"
  coSourceProbes :: sourcePathProbeManager
  coSourcePath :: sourcePathState

text \<open>What the code reads of the platform: whether \<open>devPanicf\<close> crashes, the knob for silent disco, and
  what the endpoints see.\<close>

record connEnv =
  ceCrash :: bool
  ceSilentDisco :: bool
  ceView :: connView

type_synonym 'a cstep = "panic + ('a \<times> connAction list)"

section \<open>Endpoints in the store\<close>

definition onEndpoint :: "epRef \<Rightarrow> (endpoint \<Rightarrow> endpoint step) \<Rightarrow> conn \<Rightarrow> conn \<times> connAction list" where
  "onEndpoint r f c = (let (de, acts) = f (coEps c ! r) in (c\<lparr>coEps := (coEps c)[r := de]\<rparr>, map (EpAct r) acts))"

text \<open>A loop over endpoints.\<close>

definition onEndpoints :: "epRef list \<Rightarrow> (endpoint \<Rightarrow> endpoint step) \<Rightarrow> conn \<Rightarrow> conn \<times> connAction list" where
  "onEndpoints rs f c = foldl (\<lambda>(c, acts) r. let (c', acts') = onEndpoint r f c in (c', acts @ acts')) (c, []) rs"

definition deletePeer :: "connEnv \<Rightarrow> walltime \<Rightarrow> epRef \<Rightarrow> conn \<Rightarrow> conn \<times> connAction list" where
  "deletePeer e wnow r c =
     (let ((eps, m), acts) = deleteEndpoint (ceView e) wnow r (coEps c, coPeerMap c)
      in (c\<lparr>coEps := eps, coPeerMap := m\<rparr>, map (EpAct r) acts))"

definition zeroPrivateKey :: "u8 list" where
  "zeroPrivateKey = replicate 32 0"

section \<open>The network map\<close>

definition debugFlagsLocked :: "connEnv \<Rightarrow> conn \<Rightarrow> debugFlags" where
  "debugFlagsLocked e c = \<lparr>dfHeartbeatDisabled = (ceSilentDisco e \<or> coSilentDiscoOn c), dfProbeUDPLifetimeOn = coProbeUDPLifetimeOn c\<rparr>"

definition isMullvadName :: "string \<Rightarrow> bool" where
  "isMullvadName s \<longleftrightarrow> drop (length s - length ''.mullvad.ts.net.'') s = ''.mullvad.ts.net.''"

definition firstNodeAddr :: "peerView \<Rightarrow> addr" where
  "firstNodeAddr n = (case nvAddresses n of [] \<Rightarrow> AddrInvalid | (a, _) # _ \<Rightarrow> a)"

text \<open>The endpoint \<open>upsertPeerLocked\<close> creates, before the update from the node.\<close>

definition newPeerEndpoint :: "debugFlags \<Rightarrow> peerView \<Rightarrow> endpoint" where
  "newPeerEndpoint flags n =
     updateDiscoKey (nvDiscoKey n)
       ((newEndpoint (nvID n) (nvKey n) (dfHeartbeatDisabled flags) (nvIsWireGuardOnly n))\<lparr>deNodeAddr := firstNodeAddr n\<rparr>)"

text \<open>The first part of \<open>upsertPeerLocked\<close>: find the endpoint, or remove one whose key has changed.\<close>

definition lookupPeer :: "connEnv \<Rightarrow> walltime \<Rightarrow> peerView \<Rightarrow> conn \<Rightarrow> epRef option \<times> conn \<times> connAction list" where
  "lookupPeer e wnow n c = (case endpointForNodeID (nvID n) (coPeerMap c) of
       None \<Rightarrow> (None, c, [])
     | Some r \<Rightarrow> if dePublicKey (coEps c ! r) \<noteq> nvKey n
                 then (let (c', acts) = deletePeer e wnow r c in (None, c', acts))
                 else (Some r, c, []))"

definition upsertPeerLocked :: "connEnv \<Rightarrow> walltime \<Rightarrow> peerView \<Rightarrow> debugFlags \<Rightarrow> conn \<Rightarrow> conn cstep" where
  "upsertPeerLocked e wnow n flags c =
     (if nvID n = 0 then devPanicf (ceCrash e) ''node with zero ID'' (c, [])
      else if nvKey n = zeroNodeKey then devPanicf (ceCrash e) ''node with zero key'' (c, [])
      else
        let (ep, c1, acts) = lookupPeer e wnow n c
        in case ep of
             Some r \<Rightarrow>
               if nvDiscoKey n = zeroDiscoKey \<and> \<not> nvIsWireGuardOnly n then Inr (deletePeer e wnow r c1)
               else
                 let oldDiscoKey = (case deDisco (coEps c1 ! r) of Some k \<Rightarrow> k | None \<Rightarrow> zeroDiscoKey);
                     de = updateFromNode (ceView e) wnow (asNode n) (dfHeartbeatDisabled flags) (dfProbeUDPLifetimeOn flags) (coEps c1 ! r);
                     eps = (coEps c1)[r := de]
                 in map_sum id (\<lambda>m. (c1\<lparr>coEps := eps, coPeerMap := m\<rparr>, acts)) (upsertEndpoint eps r oldDiscoKey (coPeerMap c1))
           | None \<Rightarrow>
               case endpointForNodeKey (nvKey n) (coPeerMap c1) of
                 Some r \<Rightarrow>
                   if deNodeID (coEps c1 ! r) \<noteq> nvID n
                   then (if isMullvadName (nvName n) then devPanicf (ceCrash e) ''public key moved between Mullvad nodeIDs'' (c1, acts)
                         else devPanicf (ceCrash e) ''public key moved between nodeIDs'' (c1, acts))
                   else devPanicf (ceCrash e) ''public key found in peerMap but not by nodeID'' (c1, acts)
               | None \<Rightarrow>
                   if nvDiscoKey n = zeroDiscoKey \<and> \<not> nvIsWireGuardOnly n then Inr (c1, acts)
                   else
                     let de1 = newPeerEndpoint flags n;
                         de = updateFromNode (ceView e) wnow (asNode n) (dfHeartbeatDisabled flags) (dfProbeUDPLifetimeOn flags) de1;
                         eps = coEps c1 @ [de]
                     in map_sum id (\<lambda>m. (c1\<lparr>coEps := eps, coPeerMap := m\<rparr>, acts))
                          (upsertEndpoint eps (length (coEps c1)) zeroDiscoKey (coPeerMap c1)))"

text \<open>Sequencing of steps that may panic.\<close>

fun cbind :: "conn cstep \<Rightarrow> (conn \<Rightarrow> conn cstep) \<Rightarrow> conn cstep" where
  "cbind (Inl p) f = Inl p"
| "cbind (Inr (c, acts)) f = map_sum id (\<lambda>(c', acts'). (c', acts @ acts')) (f c)"

fun upsertAll :: "connEnv \<Rightarrow> walltime \<Rightarrow> debugFlags \<Rightarrow> peerView list \<Rightarrow> conn \<Rightarrow> conn cstep" where
  "upsertAll e wnow flags [] c = Inr (c, [])"
| "upsertAll e wnow flags (n # ns) c = cbind (upsertPeerLocked e wnow n flags c) (upsertAll e wnow flags ns)"

text \<open>The clean-up passes of \<open>updateNodes\<close>: over the peer map, and over the shared keys.\<close>

definition dropStalePeers :: "connEnv \<Rightarrow> walltime \<Rightarrow> nodeKey list \<Rightarrow> conn \<Rightarrow> conn \<times> connAction list" where
  "dropStalePeers e wnow keep c =
     foldl (\<lambda>(c, acts) r. if dePublicKey (coEps c ! r) \<in> set keep then (c, acts)
                          else let (c', acts') = deletePeer e wnow r c in (c', acts @ acts'))
       (c, []) (forEachEndpoint (coPeerMap c))"

definition dropUnusedDisco :: "conn \<Rightarrow> conn" where
  "dropUnusedDisco c = c\<lparr>coDiscoInfo := gm_del_if (\<lambda>dk _. \<not> knownPeerDiscoKey dk (coPeerMap c)) (coDiscoInfo c)\<rparr>"

definition updateNodes :: "connEnv \<Rightarrow> walltime \<Rightarrow> peerView option \<Rightarrow> peerView list \<Rightarrow> conn \<Rightarrow> panic + (bool \<times> conn \<times> connAction list)" where
  "updateNodes e wnow self peers c =
     (if coClosed c then Inr (False, c, [])
      else
        let c0 = c\<lparr>coSelf := self\<rparr>; flags = debugFlagsLocked e c0
        in if coLastFlags c0 = flags \<and> length peers = length (coPeersByID c0)
              \<and> (\<forall>n\<in>set peers. gm_get (coPeersByID c0) (nvID n) = Some n)
           then Inr (False, c0, [])
           else
             let c1 = c0\<lparr>coLastFlags := flags\<rparr>;
                 newPeers = foldl (\<lambda>m n. gm_set (nvID n) n m) [] peers
             in case upsertAll e wnow flags peers c1 of
                  Inl p \<Rightarrow> Inl p
                | Inr (c2, acts) \<Rightarrow>
                    let c3 = c2\<lparr>coPeersByID := newPeers\<rparr>
                    in case nodeCount (ceCrash e) (coPeerMap c3) of
                         Inl p \<Rightarrow> Inl p
                       | Inr cnt \<Rightarrow>
                           let (c4, acts') = (if cnt \<noteq> length newPeers
                                              then dropStalePeers e wnow (map (nvKey \<circ> snd) newPeers) c3 else (c3, []))
                           in Inr (True, dropUnusedDisco c4, acts @ acts'))"

section \<open>Relay servers\<close>

definition PeerCapabilityRelay :: string where
  "PeerCapabilityRelay = ''tailscale.com/cap/relay''"

definition PeerCapabilityRelayTarget :: string where
  "PeerCapabilityRelayTarget = ''tailscale.com/cap/relay-target''"

definition bitLen :: "addr \<Rightarrow> int" where
  "bitLen a = (case a of AddrInvalid \<Rightarrow> 0 | AddrV4 _ \<Rightarrow> 32 | AddrV6 _ _ \<Rightarrow> 128)"

text \<open>The first pair of single addresses of the same family decides.\<close>

fun capPairs :: "(addr \<times> int) list \<Rightarrow> (addr \<times> int) list \<Rightarrow> (addr \<times> addr) list" where
  "capPairs srcs dsts =
     concat (map (\<lambda>(s, sb). if sb \<noteq> bitLen s then []
                            else map (\<lambda>(d, db). (s, d)) (filter (\<lambda>(d, db). db = bitLen d \<and> bitLen d = bitLen s) dsts)) srcs)"

definition nodeHasCap :: "(addr \<Rightarrow> addr \<Rightarrow> string \<Rightarrow> bool) option \<Rightarrow> peerView option \<Rightarrow> peerView option \<Rightarrow> string \<Rightarrow> bool" where
  "nodeHasCap filt src dst cap =
     (case (filt, src, dst) of
        (Some f, Some s, Some d) \<Rightarrow>
          (case capPairs (nvAddresses s) (nvAddresses d) of
             [] \<Rightarrow> False
           | (sa, da) # _ \<Rightarrow> f sa da cap)
      | _ \<Rightarrow> False)"

definition candidateRelay :: "peerView \<Rightarrow> candidatePeerRelay" where
  "candidateRelay p = \<lparr>crNodeKey = nvKey p, crDiscoKey = nvDiscoKey p, crDerpHomeRegionID = word_of_int (nvHomeDERP p)\<rparr>"

definition relayCandidateLocked :: "peerView \<Rightarrow> conn \<Rightarrow> candidatePeerRelay option" where
  "relayCandidateLocked p c =
     (if \<not> capVerIsRelayCapable (nvCap p) then None
      else if \<not> nodeHasCap (coFilt c) (Some p) (coSelf c) PeerCapabilityRelayTarget then None
      else Some (candidateRelay p))"

definition peerSnapshotLocked :: "conn \<Rightarrow> peerView list" where
  "peerSnapshotLocked c = map snd (coPeersByID c)"

text \<open>An invalid \<open>self\<close> is dereferenced for its id.\<close>

definition updateRelayServersSet ::
    "(addr \<Rightarrow> addr \<Rightarrow> string \<Rightarrow> bool) option \<Rightarrow> peerView option \<Rightarrow> peerView list \<Rightarrow> panic + connAction" where
  "updateRelayServersSet filt self peers =
     (case self of
        None \<Rightarrow> Inl NilNodeView
      | Some s \<Rightarrow> Inr (RelayServersSet (remdups (map candidateRelay
          (filter (\<lambda>p. (nvID p = nvID s \<or> capVerIsRelayCapable (nvCap p)) \<and> nodeHasCap filt (Some p) self PeerCapabilityRelayTarget)
            (peers @ [s]))))))"

section \<open>Entry points\<close>

definition UpsertPeer :: "connEnv \<Rightarrow> walltime \<Rightarrow> peerView \<Rightarrow> conn \<Rightarrow> conn cstep" where
  "UpsertPeer e wnow n c =
     (if coClosed c then Inr (c, [])
      else if nvID n = 0 then devPanicf (ceCrash e) ''UpsertPeer: node with zero ID'' (c, [])
      else cbind (upsertPeerLocked e wnow n (debugFlagsLocked e c) (c\<lparr>coPeersByID := gm_set (nvID n) n (coPeersByID c)\<rparr>))
             (\<lambda>c1. Inr (c1, if \<not> coRelayClientEnabled c1 then []
                            else case relayCandidateLocked n c1 of
                                   Some cp \<Rightarrow> [RelayServerUpsert cp]
                                 | None \<Rightarrow> [RelayServerRemove (nvKey n)])))"

definition RemovePeer :: "connEnv \<Rightarrow> walltime \<Rightarrow> int \<Rightarrow> conn \<Rightarrow> conn \<times> connAction list" where
  "RemovePeer e wnow nid c =
     (if coClosed c then (c, [])
      else case gm_get (coPeersByID c) nid of
        None \<Rightarrow> (c, [])
      | Some prev \<Rightarrow>
          let c1 = c\<lparr>coPeersByID := gm_del nid (coPeersByID c)\<rparr>;
              (c2, acts) = (case endpointForNodeID nid (coPeerMap c1) of Some r \<Rightarrow> deletePeer e wnow r c1 | None \<Rightarrow> (c1, []));
              c3 = (if nvDiscoKey prev \<noteq> zeroDiscoKey \<and> \<not> knownPeerDiscoKey (nvDiscoKey prev) (coPeerMap c2)
                    then c2\<lparr>coDiscoInfo := gm_del (nvDiscoKey prev) (coDiscoInfo c2)\<rparr> else c2)
          in (c3, acts @ (if coRelayClientEnabled c3 then [RelayServerRemove (nvKey prev)] else [])))"

text \<open>\<open>disableRelay\<close> is whether the node attributes of \<open>self\<close> forbid being a relay client.\<close>

definition SetNetworkMap :: "connEnv \<Rightarrow> walltime \<Rightarrow> bool \<Rightarrow> peerView option \<Rightarrow> peerView list \<Rightarrow> conn \<Rightarrow> conn cstep" where
  "SetNetworkMap e wnow disableRelay self peers c =
     (case updateNodes e wnow self peers c of
        Inl p \<Rightarrow> Inl p
      | Inr (peersChanged, c1, acts) \<Rightarrow>
          let relayClientEnabled = (self \<noteq> None \<and> \<not> disableRelay);
              relayClientChanged = (coRelayClientEnabled c1 \<noteq> relayClientEnabled);
              c2 = c1\<lparr>coRelayClientEnabled := relayClientEnabled\<rparr>
          in if coClosed c2 \<or> \<not> (peersChanged \<or> relayClientChanged) then Inr (c2, acts)
             else if \<not> relayClientEnabled then Inr (c2, acts @ [RelayServersSet []])
             else map_sum id (\<lambda>a. (c2, acts @ [a])) (updateRelayServersSet (coFilt c2) (coSelf c2) (peerSnapshotLocked c2)))"

definition SetFilter :: "(addr \<Rightarrow> addr \<Rightarrow> string \<Rightarrow> bool) option \<Rightarrow> conn \<Rightarrow> conn cstep" where
  "SetFilter f c =
     (let c1 = c\<lparr>coFilt := f\<rparr>
      in if \<not> coRelayClientEnabled c1 then Inr (c1, [])
         else map_sum id (\<lambda>a. (c1, [a])) (updateRelayServersSet f (coSelf c1) (peerSnapshotLocked c1)))"

definition SetSilentDisco :: "bool \<Rightarrow> conn \<Rightarrow> conn \<times> connAction list" where
  "SetSilentDisco v c =
     (let c1 = c\<lparr>coSilentDiscoOn := v\<rparr>
      in if coSilentDiscoOn c = v then (c1, [])
         else onEndpoints (forEachEndpoint (coPeerMap c1)) (\<lambda>de. (setHeartbeatDisabled v de, [])) c1)"

definition SetProbeUDPLifetime :: "bool \<Rightarrow> conn \<Rightarrow> conn \<times> connAction list" where
  "SetProbeUDPLifetime v c =
     (let c1 = c\<lparr>coProbeUDPLifetimeOn := v\<rparr>
      in if coProbeUDPLifetimeOn c = v then (c1, [])
         else onEndpoints (forEachEndpoint (coPeerMap c1)) (\<lambda>de. (setProbeUDPLifetimeOn v de, [])) c1)"

definition resetEndpointStates :: "conn \<Rightarrow> conn \<times> connAction list" where
  "resetEndpointStates c = onEndpoints (forEachEndpoint (coPeerMap c)) (\<lambda>de. (noteConnectivityChange de, [])) c"

datatype nodeMutation = NodeMutationDERPHome int int | NodeMutationEndpoints int "addrPort list" | NodeMutationOther int

fun applyMutation :: "connEnv \<Rightarrow> walltime \<Rightarrow> conn \<times> connAction list \<Rightarrow> nodeMutation \<Rightarrow> conn \<times> connAction list" where
  "applyMutation e wnow (c, acts) (NodeMutationDERPHome nid region) =
     (case endpointForNodeID nid (coPeerMap c) of
        None \<Rightarrow> (c, acts)
      | Some r \<Rightarrow> let (c', acts') = onEndpoint r (setDERPHome (ceView e) (word_of_int region)) c in (c', acts @ acts'))"
| "applyMutation e wnow (c, acts) (NodeMutationEndpoints nid eps) =
     (case endpointForNodeID nid (coPeerMap c) of
        None \<Rightarrow> (c, acts)
      | Some r \<Rightarrow> let (c', acts') = onEndpoint r (\<lambda>de. (setEndpointsLocked (ceView e) wnow eps de, [])) c in (c', acts @ acts'))"
| "applyMutation e wnow (c, acts) (NodeMutationOther nid) = (c, acts)"

definition UpdateNetmapDelta :: "connEnv \<Rightarrow> walltime \<Rightarrow> nodeMutation list \<Rightarrow> conn \<Rightarrow> conn \<times> connAction list" where
  "UpdateNetmapDelta e wnow muts c = foldl (applyMutation e wnow) (c, []) muts"

text \<open>A new \<open>discoInfo\<close> has its mutable fields zero.\<close>

definition discoInfoForKnownPeerLocked :: "discoKey \<Rightarrow> conn \<Rightarrow> discoInfo \<times> conn" where
  "discoInfoForKnownPeerLocked k c =
     (case gm_get (coDiscoInfo c) k of
        Some di \<Rightarrow> (di, c)
      | None \<Rightarrow> let di = \<lparr>diLastPingFrom = zeroEpAddr, diLastPingTime = 0\<rparr>
                in (di, c\<lparr>coDiscoInfo := gm_set k di (coDiscoInfo c)\<rparr>))"

definition HandleDiscoKeyAdvertisement :: "nodeKey \<Rightarrow> discoKey \<Rightarrow> conn \<Rightarrow> conn cstep" where
  "HandleDiscoKeyAdvertisement nodeKey discoKey c =
     (case endpointForNodeKey nodeKey (coPeerMap c) of
        None \<Rightarrow> Inr (c, [])
      | Some r \<Rightarrow>
          let oldDiscoKey = (case deDisco (coEps c ! r) of Some k \<Rightarrow> k | None \<Rightarrow> zeroDiscoKey)
          in if oldDiscoKey = discoKey then Inr (c, [])
             else
               let (di, c1) = discoInfoForKnownPeerLocked discoKey c;
                   eps = (coEps c1)[r := updateDiscoKey discoKey (coEps c1 ! r)]
               in map_sum id (\<lambda>m. (c1\<lparr>coEps := eps, coPeerMap := m\<rparr>, [])) (upsertEndpoint eps r oldDiscoKey (coPeerMap c1)))"

definition SetPrivateKey :: "connEnv \<Rightarrow> walltime \<Rightarrow> u8 list \<Rightarrow> conn \<Rightarrow> conn \<times> connAction list" where
  "SetPrivateKey e wnow newKey c =
     (let oldKey = coPrivateKey c
      in if newKey = oldKey then (c, [])
         else
           let c1 = c\<lparr>coPrivateKey := newKey\<rparr>;
               (c2, acts) = (if oldKey = zeroPrivateKey then (c1\<lparr>coEverHadKey := True\<rparr>, [ReSTUN ''set-private-key''])
                             else if newKey = zeroPrivateKey then (c1, [CloseAllDerp ''zero-private-key''])
                             else (c1, [CloseAllDerp ''new-private-key'']));
               acts' = acts @ (if coMyDerp c2 \<noteq> 0 \<and> newKey \<noteq> zeroPrivateKey then [StartDerpHomeConnect] else [])
           in if newKey = zeroPrivateKey
              then (let (c3, stops) = onEndpoints (forEachEndpoint (coPeerMap c2)) (stopAndReset (ceView e) wnow) c2 in (c3, acts' @ stops))
              else (c2, acts'))"

text \<open>The part of \<open>Close\<close> that concerns the peers and the source paths.\<close>

definition Close :: "connEnv \<Rightarrow> walltime \<Rightarrow> conn \<Rightarrow> conn \<times> connAction list" where
  "Close e wnow c =
     (if coClosed c then (c, [])
      else let (c1, stops) = onEndpoints (forEachEndpoint (coPeerMap c)) (stopAndReset (ceView e) wnow) c
           in (c1\<lparr>coClosed := True, coSourcePath := closeSourcePathSockets (coSourcePath c1), coSourceProbes := clearLocked (coSourceProbes c1)\<rparr>,
               stops @ [CloseAllDerp ''conn-close'']))"

text \<open>Only the endpoints behind a known address forget when the key was advertised.\<close>

definition RotateDiscoKey :: "conn \<Rightarrow> conn \<times> connAction list" where
  "RotateDiscoKey c =
     (let c1 = c\<lparr>coDiscoInfo := []\<rparr>;
          (c2, _) = onEndpoints (map (infoEp (coPeerMap c1) \<circ> snd) (mpByEpAddr (coPeerMap c1)))
                      (\<lambda>de. (de\<lparr>deLastDiscoKeyAdvertisement := 0\<rparr>, [])) c1
      in (c2, [ReSTUN ''disco-key-rotation'']))"

definition discoKeyAdvertisementInterval :: duration where
  "discoKeyAdvertisementInterval = second * 60"

text \<open>\<open>cached\<close> is whether cached network maps are built in and in use.\<close>

definition maybeSendTSMPDiscoAdvert :: "bool \<Rightarrow> mono \<Rightarrow> epRef \<Rightarrow> conn \<Rightarrow> conn \<times> connAction list" where
  "maybeSendTSMPDiscoAdvert cached now r c =
     (let de = coEps c ! r
      in if \<not> cached then (c, [])
         else if msub now (deLastDiscoKeyAdvertisement de) \<le> discoKeyAdvertisementInterval
              \<or> (deLastDiscoKeyAdvertisement de \<noteq> 0 \<and> isDirect (aqAddr (deBestAddr de))) then (c, [])
         else (c\<lparr>coEps := (coEps c)[r := de\<lparr>deLastDiscoKeyAdvertisement := now\<rparr>]\<rparr>, [PublishNewDiscoKey (deNodeAddr de) (deNodeID de)]))"

definition newConn :: conn where
  "newConn = \<lparr>coEps = [], coPeerMap = newPeerMap, coPeersByID = [], coSelf = None, coDiscoInfo = [], coClosed = False,
     coPrivateKey = zeroPrivateKey, coEverHadKey = False, coMyDerp = 0, coSilentDiscoOn = False, coProbeUDPLifetimeOn = False,
     coLastFlags = \<lparr>dfHeartbeatDisabled = False, dfProbeUDPLifetimeOn = False\<rparr>, coRelayClientEnabled = False, coFilt = None,
     coSourceProbes = emptyManager, coSourcePath = zeroState\<rparr>"

section \<open>The invariant\<close>

text \<open>The endpoint of a reference is in the peer map.\<close>

definition present :: "peerMap \<Rightarrow> epRef \<Rightarrow> bool" where
  "present m r \<longleftrightarrow> (\<exists>k i. gm_get (mpByNodeKey m) k = Some i \<and> infoEp m i = r)"

definition epOk :: "endpoint \<Rightarrow> bool" where
  "epOk de \<longleftrightarrow> endpointInv de \<and> deDisco de \<noteq> Some zeroDiscoKey \<and> deNodeID de \<noteq> 0 \<and> dePublicKey de \<noteq> zeroNodeKey"

definition connInv :: "conn \<Rightarrow> bool" where
  "connInv c \<longleftrightarrow> peerInv (coEps c) (coPeerMap c) \<and> (\<forall>d. distinct (nodesOf (coPeerMap c) d)) \<and> (\<forall>de\<in>set (coEps c). epOk de)"

lemma nodesOf_setNodeKey [simp]: "nodesOf (setNodeKeyForEpAddr eps a nk m) = nodesOf m"
  by (simp add: nodesOf_def fun_eq_iff)

lemma distinct_upsert:
  assumes "upsertEndpoint eps r old m = Inr m'" "\<forall>d. distinct (nodesOf m d)"
  shows "distinct (nodesOf m' d)"
proof -
  have fold: "nodesOf (foldl (\<lambda>m ipp. setNodeKeyForEpAddr eps \<lparr>ap = ipp, vni = 0\<rparr> k m) m xs) = nodesOf m" for k m xs
    by (induction xs arbitrary: m) simp_all
  have up: "distinct (nodesOf m2' d)" if "upsertDisco eps r old m2 = Inr m2'" "\<forall>d. distinct (nodesOf m2 d)" for m2 m2'
    using that by (auto simp: upsertDisco_def Let_def fold nodesOf_drop nodesOf_add distinct_removeAll split: if_splits option.splits)
  have same: "nodesOf (m\<lparr>mpInfos := i, mpByNodeKey := k\<rparr>\<lparr>mpByNodeID := n\<rparr>) = nodesOf m" "nodesOf (m\<lparr>mpByNodeID := n\<rparr>) = nodesOf m" for m i k n
    by (simp_all add: nodesOf_def fun_eq_iff)
  obtain i m1 where "upsertDisco eps r old (m1\<lparr>mpByNodeID := i\<rparr>) = Inr m'" "nodesOf m1 = nodesOf m"
    using assms(1) by (auto simp: upsertEndpoint_def Let_def nodesOf_def fun_eq_iff split: if_splits option.splits)
  then show ?thesis using up assms(2) same(2) [of i m1] by simp
qed

lemma distinct_delete: "\<forall>d. distinct (nodesOf m d) \<Longrightarrow> distinct (nodesOf (deleteFromIndices eps r m) d)"
proof -
  assume d: "\<forall>d. distinct (nodesOf m d)"
  have same: "nodesOf (m\<lparr>mpByNodeKey := k\<rparr>) = nodesOf m" "nodesOf (m\<lparr>mpByNodeID := n\<rparr>) = nodesOf m"
      "nodesOf (m\<lparr>mpByEpAddr := a\<rparr>) = nodesOf m" "nodesOf (m\<lparr>mpRelayEpAddr := b\<rparr>) = nodesOf m" for m k n a b
    by (simp_all add: nodesOf_def fun_eq_iff)
  show ?thesis
    using d by (simp add: deleteFromIndices_def Let_def same nodesOf_drop distinct_removeAll split: option.split)
qed

lemma connInv_frame [simp]:
  "connInv (c\<lparr>coPeersByID := x1\<rparr>) = connInv c" "connInv (c\<lparr>coSelf := x2\<rparr>) = connInv c"
  "connInv (c\<lparr>coDiscoInfo := x3\<rparr>) = connInv c" "connInv (c\<lparr>coClosed := x4\<rparr>) = connInv c"
  "connInv (c\<lparr>coSilentDiscoOn := x5\<rparr>) = connInv c" "connInv (c\<lparr>coProbeUDPLifetimeOn := x5\<rparr>) = connInv c"
  "connInv (c\<lparr>coLastFlags := x6\<rparr>) = connInv c" "connInv (c\<lparr>coRelayClientEnabled := x5\<rparr>) = connInv c"
  "connInv (c\<lparr>coFilt := x7\<rparr>) = connInv c" "connInv (c\<lparr>coSourceProbes := x8\<rparr>) = connInv c"
  "connInv (c\<lparr>coSourcePath := x9\<rparr>) = connInv c" "connInv (c\<lparr>coPrivateKey := x10\<rparr>) = connInv c"
  "connInv (c\<lparr>coEverHadKey := x5\<rparr>) = connInv c" "connInv (c\<lparr>coMyDerp := x11\<rparr>) = connInv c"
  by (simp_all add: connInv_def)

lemma presentE:
  assumes "connInv c" "present (coPeerMap c) r"
  obtains i where "gm_get (mpByNodeKey (coPeerMap c)) (dePublicKey (coEps c ! r)) = Some i" "infoEp (coPeerMap c) i = r"
    "r < length (coEps c)" "epOk (coEps c ! r)" "gm_get (mpByNodeID (coPeerMap c)) (deNodeID (coEps c ! r)) = Some i"
proof -
  obtain k i where k: "gm_get (mpByNodeKey (coPeerMap c)) k = Some i" "infoEp (coPeerMap c) i = r" using assms(2) by (auto simp: present_def)
  have "keysInv (coEps c) (coPeerMap c)" using assms(1) by (simp add: connInv_def peerInv_def)
  note * = keysInvD [OF this k(1)]
  have "epOk (coEps c ! r)" using assms(1) *(2) k(2) by (auto simp: connInv_def)
  then show ?thesis using that [of i] * k by simp
qed

lemma present_lookups:
  assumes "connInv c"
  shows "endpointForNodeID nid (coPeerMap c) = Some r \<longleftrightarrow> present (coPeerMap c) r \<and> deNodeID (coEps c ! r) = nid"
    "endpointForNodeKey nk (coPeerMap c) = Some r \<longleftrightarrow> present (coPeerMap c) r \<and> dePublicKey (coEps c ! r) = nk"
    "endpointForEpAddr a (coPeerMap c) = Some r \<Longrightarrow> present (coPeerMap c) r"
proof -
  let ?m = "coPeerMap c"
  have inv: "keysInv (coEps c) ?m" "addrsInv ?m" using assms by (simp_all add: connInv_def peerInv_def)
  show "endpointForNodeID nid ?m = Some r \<longleftrightarrow> present ?m r \<and> deNodeID (coEps c ! r) = nid"
    using keysInv_byID [OF inv(1)] by (auto simp: endpointForNodeID_def present_def)
  have "nk \<noteq> zeroNodeKey" if "present ?m r" "dePublicKey (coEps c ! r) = nk"
    using that(2) presentE [OF assms that(1)] by (auto simp: epOk_def)
  then show "endpointForNodeKey nk ?m = Some r \<longleftrightarrow> present ?m r \<and> dePublicKey (coEps c ! r) = nk"
    using keysInvD(3) [OF inv(1)] by (auto simp: endpointForNodeKey_def present_def)
  show "present ?m r" if "endpointForEpAddr a ?m = Some r"
    using that inv(2) by (auto simp: endpointForEpAddr_def addrsInv_def present_def)
qed

lemma ident_samePeer: "ident de' = ident de \<Longrightarrow> samePeer de de'"
  by (simp add: ident_def samePeer_def)

text \<open>The peer map does not notice a change of an endpoint that keeps its identity.\<close>

lemma peerInv_heap:
  assumes "peerInv eps m" "ident de = ident (eps ! r)"
  shows "peerInv (eps[r := de]) m"
proof -
  have id: "ident (eps[r := de] ! j) = ident (eps ! j)" for j
    using assms(2) by (cases "r < length eps") (auto simp: nth_list_update list_update_beyond linorder_not_less)
  have "keysInv (eps[r := de]) m"
    by (rule keysInv_heap [of eps]) (use assms(1) id in \<open>simp_all add: peerInv_def ident_samePeer\<close>)
  moreover have "deIsWireguardOnly (eps[r := de] ! j) = deIsWireguardOnly (eps ! j)" "deDisco (eps[r := de] ! j) = deDisco (eps ! j)" for j
    using id [of j] by (simp_all add: ident_def)
  ultimately show ?thesis using assms(1) by (simp add: peerInv_def discoInv_def)
qed

lemma epOk_ident: "epOk de \<Longrightarrow> endpointInv de' \<Longrightarrow> ident de' = ident de \<Longrightarrow> epOk de'"
  by (simp add: epOk_def ident_def)

lemma connInv_heap:
  assumes "connInv c" "ident de = ident (coEps c ! r)" "endpointInv (coEps c ! r) \<Longrightarrow> endpointInv de"
  shows "connInv (c\<lparr>coEps := (coEps c)[r := de]\<rparr>)"
proof -
  have "epOk x" if "x \<in> set ((coEps c)[r := de])" for x
  proof (cases "r < length (coEps c)")
    case True
    then have "epOk (coEps c ! r)" using assms(1) by (simp add: connInv_def)
    then have "epOk de" using epOk_ident [OF _ _ assms(2)] assms(3) by (simp add: epOk_def)
    moreover have "x = de \<or> x \<in> set (coEps c)" using that set_update_subset_insert by fastforce
    ultimately show ?thesis using assms(1) by (auto simp: connInv_def)
  next
    case False
    then show ?thesis using that assms(1) by (auto simp: connInv_def list_update_beyond)
  qed
  then show ?thesis using assms(1) peerInv_heap [OF _ assms(2)] by (simp add: connInv_def)
qed

lemma connInv_onEndpoint:
  assumes "connInv c" "\<And>de. ident (fst (f de)) = ident de" "\<And>de. endpointInv de \<Longrightarrow> endpointInv (fst (f de))"
  shows "connInv (fst (onEndpoint r f c))"
  using connInv_heap [OF assms(1), of "fst (f (coEps c ! r))" r] assms(2,3) by (simp add: onEndpoint_def split_beta)

lemma peerMap_onEndpoint [simp]: "coPeerMap (fst (onEndpoint r f c)) = coPeerMap c"
  by (simp add: onEndpoint_def split_beta)

lemma connInv_onEndpoints:
  assumes "connInv c" "\<And>de. ident (fst (f de)) = ident de" "\<And>de. endpointInv de \<Longrightarrow> endpointInv (fst (f de))"
  shows "connInv (fst (onEndpoints rs f c))"
proof -
  have "connInv (fst (foldl (\<lambda>(c, acts) r. let (c', acts') = onEndpoint r f c in (c', acts @ acts')) s rs))" if "connInv (fst s)" for s
    using that
  proof (induction rs arbitrary: s)
    case (Cons r rs)
    show ?case unfolding foldl.simps
      by (rule Cons.IH) (use connInv_onEndpoint [OF Cons.prems assms(2,3), of r] in \<open>simp add: split_beta Let_def\<close>)
  qed simp
  then show ?thesis using assms(1) by (simp add: onEndpoints_def)
qed

lemma stopAndReset_inv: "endpointInv de \<Longrightarrow> endpointInv (fst (stopAndReset cv wnow de))"
  using epStep_safe [OF epStep.StopAndReset, of cv wnow de] by (metis prod.collapse)

lemma deletePeer_sel:
  "coEps (fst (deletePeer e wnow r c)) = (coEps c)[r := fst (stopAndReset (ceView e) wnow (coEps c ! r))]"
  "coPeerMap (fst (deletePeer e wnow r c)) = deleteFromIndices (coEps (fst (deletePeer e wnow r c))) r (coPeerMap c)"
  by (simp_all add: deletePeer_def deleteEndpoint_def split_beta Let_def)

lemma connInv_deletePeer:
  assumes "connInv c" "present (coPeerMap c) r"
  shows "connInv (fst (deletePeer e wnow r c))"
proof -
  let ?de = "fst (stopAndReset (ceView e) wnow (coEps c ! r))" let ?eps = "(coEps c)[r := ?de]"
  obtain i where i: "gm_get (mpByNodeKey (coPeerMap c)) (dePublicKey (coEps c ! r)) = Some i" "infoEp (coPeerMap c) i = r" "r < length (coEps c)"
    using presentE [OF assms] by blast
  have h: "connInv (c\<lparr>coEps := ?eps\<rparr>)" by (rule connInv_heap [OF assms(1)]) (simp_all add: stopAndReset_inv)
  have "dePublicKey (?eps ! r) = dePublicKey (coEps c ! r)" using i(3) ident_stop [of "ceView e" wnow "coEps c ! r"] by (simp add: ident_def)
  then have "peerInv ?eps (deleteFromIndices ?eps r (coPeerMap c))"
    using peerInv_delete [of ?eps "coPeerMap c" r i] h i by (simp add: connInv_def)
  then show ?thesis using h distinct_delete [of "coPeerMap c" ?eps r] by (simp add: connInv_def deletePeer_sel)
qed

text \<open>What is left in the map after a deletion.\<close>

lemma deletePeer_present:
  assumes "connInv c" "present (coPeerMap c) r"
  shows "present (coPeerMap (fst (deletePeer e wnow r c))) r' \<longleftrightarrow> present (coPeerMap c) r' \<and> r' \<noteq> r"
proof -
  let ?de = "fst (stopAndReset (ceView e) wnow (coEps c ! r))" let ?eps = "(coEps c)[r := ?de]"
  obtain i where i: "gm_get (mpByNodeKey (coPeerMap c)) (dePublicKey (coEps c ! r)) = Some i" "infoEp (coPeerMap c) i = r" "r < length (coEps c)"
    using presentE [OF assms] by blast
  have keys: "keysInv (coEps c) (coPeerMap c)" using assms(1) by (simp add: connInv_def peerInv_def)
  have "ident ?de = ident (coEps c ! r)" by simp
  then have pk: "dePublicKey (?eps ! r) = dePublicKey (coEps c ! r)" using i(3) by (simp add: ident_def)
  have keys': "keysInv ?eps (coPeerMap c)"
    using connInv_heap [OF assms(1), of ?de r] by (simp add: stopAndReset_inv connInv_def peerInv_def)
  have sel: "mpByNodeKey (deleteFromIndices ?eps r (coPeerMap c)) = gm_del (dePublicKey (coEps c ! r)) (mpByNodeKey (coPeerMap c))"
      "infoEp (deleteFromIndices ?eps r (coPeerMap c)) = infoEp (coPeerMap c)"
    using delete_sel(1,5) [OF keys', of r i] i pk by (simp_all add: infoEp_def fun_eq_iff)
  have eq: "infoEp (coPeerMap c) j = r \<longleftrightarrow> k = dePublicKey (coEps c ! r)" if k: "gm_get (mpByNodeKey (coPeerMap c)) k = Some j" for k j
  proof
    assume "infoEp (coPeerMap c) j = r"
    then have "j = i" using keysInv_same_ep [OF keys k i(1)] i(2) by simp
    then show "k = dePublicKey (coEps c ! r)" using keysInv_inj [OF keys k] i(1) by blast
  next
    assume "k = dePublicKey (coEps c ! r)"
    then show "infoEp (coPeerMap c) j = r" using k i(1,2) by simp
  qed
  show ?thesis
    unfolding present_def deletePeer_sel sel gm_get_del using eq by (metis option.distinct(1))
qed

section \<open>Preservation\<close>

lemma connInv_update:
  assumes "connInv c" "present (coPeerMap c) r" "samePeer (coEps c ! r) de" "epOk de"
    "upsertEndpoint ((coEps c)[r := de]) r (case deDisco (coEps c ! r) of Some k \<Rightarrow> k | None \<Rightarrow> zeroDiscoKey) (coPeerMap c) = Inr m"
  shows "connInv (c\<lparr>coEps := (coEps c)[r := de], coPeerMap := m\<rparr>)"
proof -
  obtain i where i: "gm_get (mpByNodeKey (coPeerMap c)) (dePublicKey (coEps c ! r)) = Some i" "infoEp (coPeerMap c) i = r"
    using presentE [OF assms(1,2)] by blast
  have "peerInv ((coEps c)[r := de]) m"
    using assms(1) by (intro upsert_existing [OF _ i assms(3) _ assms(5)]) (simp_all add: connInv_def)
  moreover have "\<forall>x\<in>set ((coEps c)[r := de]). epOk x" using assms(1,4) set_update_subset_insert by (fastforce simp: connInv_def)
  ultimately show ?thesis using distinct_upsert [OF assms(5)] assms(1) by (simp add: connInv_def)
qed

lemma connInv_insert:
  assumes "connInv c" "\<nexists>r. present (coPeerMap c) r \<and> dePublicKey (coEps c ! r) = dePublicKey de"
    "\<nexists>r. present (coPeerMap c) r \<and> deNodeID (coEps c ! r) = deNodeID de" "epOk de"
    "upsertEndpoint (coEps c @ [de]) (length (coEps c)) old (coPeerMap c) = Inr m"
  shows "connInv (c\<lparr>coEps := coEps c @ [de], coPeerMap := m\<rparr>)"
proof -
  have keys: "keysInv (coEps c) (coPeerMap c)" using assms(1) by (simp add: connInv_def peerInv_def)
  have "gm_get (mpByNodeKey (coPeerMap c)) (dePublicKey de) = None"
  proof (rule ccontr)
    assume "\<not> ?thesis"
    then obtain i where "gm_get (mpByNodeKey (coPeerMap c)) (dePublicKey de) = Some i" by blast
    then show False using assms(2) keysInvD(3) [OF keys] by (auto simp: present_def)
  qed
  moreover have "gm_get (mpByNodeID (coPeerMap c)) (deNodeID de) = None"
  proof (rule ccontr)
    assume "\<not> ?thesis"
    then obtain i where "gm_get (mpByNodeID (coPeerMap c)) (deNodeID de) = Some i" by blast
    then show False using assms(3) keysInv_byID [OF keys] by (auto simp: present_def)
  qed
  ultimately have "peerInv (coEps c @ [de]) m"
    using assms(1) by (intro upsert_new [OF _ _ _ assms(5)]) (simp_all add: connInv_def)
  then show ?thesis using assms(1,4) distinct_upsert [OF assms(5)] by (auto simp: connInv_def)
qed

lemma epOk_updateFromNode:
  assumes "epOk de"
  shows "epOk (updateFromNode cv wnow n hb pl de)" "samePeer de (updateFromNode cv wnow n hb pl de)"
    "deDisco (updateFromNode cv wnow n hb pl de) = (if nvDiscoKey n = zeroDiscoKey then None else Some (nvDiscoKey n))"
  using ident_updateFromNode [of de cv wnow n hb pl] assms inv_updateFromNode [of de cv wnow n hb pl]
  by (auto simp: epOk_def ident_def samePeer_def)

lemma epOk_new:
  assumes "nvID n \<noteq> 0" "nvKey n \<noteq> zeroNodeKey"
  shows "epOk (newPeerEndpoint flags n)" "dePublicKey (newPeerEndpoint flags n) = nvKey n" "deNodeID (newPeerEndpoint flags n) = nvID n"
    "deIsWireguardOnly (newPeerEndpoint flags n) = nvIsWireGuardOnly n"
proof -
  have "endpointInv (newPeerEndpoint flags n)"
    unfolding newPeerEndpoint_def by (rule inv_updateDiscoKey) (simp add: inv_newEndpoint)
  then show "epOk (newPeerEndpoint flags n)" "dePublicKey (newPeerEndpoint flags n) = nvKey n" "deNodeID (newPeerEndpoint flags n) = nvID n"
      "deIsWireguardOnly (newPeerEndpoint flags n) = nvIsWireGuardOnly n"
    using assms by (auto simp: epOk_def newPeerEndpoint_def updateDiscoKey_def newEndpoint_def)
qed

lemma lookupPeer:
  assumes "connInv c" "lookupPeer e wnow n c = (ep, c1, acts)"
  shows "connInv c1"
    "ep = Some r \<Longrightarrow> c1 = c \<and> acts = [] \<and> present (coPeerMap c1) r \<and> deNodeID (coEps c1 ! r) = nvID n \<and> dePublicKey (coEps c1 ! r) = nvKey n"
    "ep = None \<Longrightarrow> \<nexists>r. present (coPeerMap c1) r \<and> deNodeID (coEps c1 ! r) = nvID n"
proof -
  consider (none) "endpointForNodeID (nvID n) (coPeerMap c) = None" "ep = None" "c1 = c"
    | (rot) r0 where "endpointForNodeID (nvID n) (coPeerMap c) = Some r0" "dePublicKey (coEps c ! r0) \<noteq> nvKey n" "ep = None"
        "c1 = fst (deletePeer e wnow r0 c)"
    | (ok) r0 where "endpointForNodeID (nvID n) (coPeerMap c) = Some r0" "dePublicKey (coEps c ! r0) = nvKey n" "ep = Some r0" "c1 = c" "acts = []"
    using assms(2) by (auto simp: lookupPeer_def split_beta Let_def split: option.splits if_splits)
  note cs = this
  show "connInv c1"
    using cs
  proof cases
    case rot
    then show ?thesis using connInv_deletePeer [OF assms(1)] present_lookups(1) [OF assms(1)] by blast
  qed (use assms(1) in simp_all)
  show "ep = Some r \<Longrightarrow> c1 = c \<and> acts = [] \<and> present (coPeerMap c1) r \<and> deNodeID (coEps c1 ! r) = nvID n \<and> dePublicKey (coEps c1 ! r) = nvKey n"
    using cs by cases (use present_lookups(1) [OF assms(1)] in auto)
  show "\<nexists>r. present (coPeerMap c1) r \<and> deNodeID (coEps c1 ! r) = nvID n" if "ep = None"
    using cs
  proof cases
    case none
    then show ?thesis using present_lookups(1) [OF assms(1), of "nvID n"] by auto
  next
    case rot
    have p: "present (coPeerMap c) r0" "deNodeID (coEps c ! r0) = nvID n" using present_lookups(1) [OF assms(1)] rot(1) by auto
    have "deNodeID (coEps c1 ! r) = deNodeID (coEps c ! r)" for r
      using ident_stop [of "ceView e" wnow "coEps c ! r0"]
      by (cases "r0 < length (coEps c)") (auto simp: rot(4) deletePeer_sel nth_list_update list_update_beyond ident_def)
    then show ?thesis using deletePeer_present [OF assms(1) p(1), of e wnow] present_lookups(1) [OF assms(1), of "nvID n"] rot(1)
      unfolding rot(4) by (metis option.inject)
  next
    case ok
    then show ?thesis using that by simp
  qed
qed

lemma endpointForNodeKey_None:
  "connInv c \<Longrightarrow> endpointForNodeKey k (coPeerMap c) = None \<longleftrightarrow> (\<nexists>r. present (coPeerMap c) r \<and> dePublicKey (coEps c ! r) = k)"
  using present_lookups(2) [of c k] by (metis option.distinct(1) option.exhaust)

lemma connInv_upsert:
  assumes "connInv c" "upsertPeerLocked e wnow n flags c = Inr (c', acts)"
  shows "connInv c'"
proof (cases "nvID n = 0 \<or> nvKey n = zeroNodeKey")
  case True
  then show ?thesis using assms by (auto simp: upsertPeerLocked_def devPanicf_def split: if_splits)
next
  case ids: False
  obtain ep c1 acts1 where l: "lookupPeer e wnow n c = (ep, c1, acts1)" by (metis prod.exhaust)
  note lk = lookupPeer [OF assms(1) l]
  show ?thesis
  proof (cases ep)
    case (Some r)
    then have r: "present (coPeerMap c1) r" "epOk (coEps c1 ! r)" using lk(2) presentE [OF lk(1)] by blast+
    show ?thesis
    proof (cases "nvDiscoKey n = zeroDiscoKey \<and> \<not> nvIsWireGuardOnly n")
      case True
      then have "c' = fst (deletePeer e wnow r c1)" using assms(2) ids l Some by (simp add: upsertPeerLocked_def)
      then show ?thesis using connInv_deletePeer [OF lk(1) r(1)] by simp
    next
      case False
      let ?de = "updateFromNode (ceView e) wnow (asNode n) (dfHeartbeatDisabled flags) (dfProbeUDPLifetimeOn flags) (coEps c1 ! r)"
      let ?old = "case deDisco (coEps c1 ! r) of Some k \<Rightarrow> k | None \<Rightarrow> zeroDiscoKey"
      obtain m where m: "upsertEndpoint ((coEps c1)[r := ?de]) r ?old (coPeerMap c1) = Inr m"
          and c': "c' = c1\<lparr>coEps := (coEps c1)[r := ?de], coPeerMap := m\<rparr>"
        using assms(2) ids l Some False
        by (cases "upsertEndpoint ((coEps c1)[r := ?de]) r ?old (coPeerMap c1)") (auto simp: upsertPeerLocked_def Let_def split: if_splits)
      show ?thesis unfolding c'
        by (rule connInv_update [OF lk(1) r(1) _ _ m]) (use epOk_updateFromNode [OF r(2)] in blast)+
    qed
  next
    case None
    note free = lk(3) [OF None]
    show ?thesis
    proof (cases "endpointForNodeKey (nvKey n) (coPeerMap c1) = None \<and> \<not> (nvDiscoKey n = zeroDiscoKey \<and> \<not> nvIsWireGuardOnly n)")
      case True
      let ?de1 = "newPeerEndpoint flags n"
      let ?de = "updateFromNode (ceView e) wnow (asNode n) (dfHeartbeatDisabled flags) (dfProbeUDPLifetimeOn flags) ?de1"
      have new: "epOk ?de1" "dePublicKey ?de1 = nvKey n" "deNodeID ?de1 = nvID n" using ids by (simp_all add: epOk_new)
      have up: "epOk ?de" "dePublicKey ?de = nvKey n" "deNodeID ?de = nvID n"
        using epOk_updateFromNode(1,2) [OF new(1)] new(2,3) by (simp_all add: samePeer_def)
      obtain m where m: "upsertEndpoint (coEps c1 @ [?de]) (length (coEps c1)) zeroDiscoKey (coPeerMap c1) = Inr m"
          and c': "c' = c1\<lparr>coEps := coEps c1 @ [?de], coPeerMap := m\<rparr>"
        using assms(2) ids l None True
        by (cases "upsertEndpoint (coEps c1 @ [?de]) (length (coEps c1)) zeroDiscoKey (coPeerMap c1)")
          (auto simp: upsertPeerLocked_def Let_def split: if_splits)
      show ?thesis unfolding c'
        by (rule connInv_insert [OF lk(1) _ _ up(1) m]) (use True free endpointForNodeKey_None [OF lk(1), of "nvKey n"] up in simp_all)
    next
      case False
      then have "c' = c1" using assms(2) ids l None
        by (auto simp: upsertPeerLocked_def devPanicf_def split: option.splits if_splits)
      then show ?thesis using lk(1) by simp
    qed
  qed
qed

lemma connInv_cbind:
  assumes "cbind s f = Inr (c', acts)" "\<And>c acts. s = Inr (c, acts) \<Longrightarrow> connInv c" "\<And>c c' acts. connInv c \<Longrightarrow> f c = Inr (c', acts) \<Longrightarrow> connInv c'"
  shows "connInv c'"
proof (cases s)
  case (Inr p)
  obtain c1 acts1 where p: "p = (c1, acts1)" by fastforce
  then show ?thesis using assms Inr by (cases "f c1") (auto simp: split_beta)
qed (use assms(1) in simp)

lemma connInv_upsertAll:
  "connInv c \<Longrightarrow> upsertAll e wnow flags ns c = Inr (c', acts) \<Longrightarrow> connInv c'"
proof (induction ns arbitrary: c c' acts)
  case (Cons n ns)
  show ?case by (rule connInv_cbind [OF Cons.prems(2) [unfolded upsertAll.simps]]) (use Cons connInv_upsert in blast)+
qed simp

text \<open>The clean-up pass deletes the stale endpoints, each while it is still in the map.\<close>

lemma distinct_forEachEndpoint:
  assumes "connInv c"
  shows "distinct (forEachEndpoint (coPeerMap c))" "set (forEachEndpoint (coPeerMap c)) = {r. present (coPeerMap c) r}"
proof -
  let ?m = "coPeerMap c"
  have wf: "gm_wf (mpByNodeKey ?m)" and keys: "keysInv (coEps c) ?m" using assms by (simp_all add: connInv_def peerInv_def mapsWf_def)
  have inj: "inj_on (infoEp ?m \<circ> snd) (set (mpByNodeKey ?m))"
  proof (rule inj_onI)
    fix x y
    assume "x \<in> set (mpByNodeKey ?m)" "y \<in> set (mpByNodeKey ?m)" and eq: "(infoEp ?m \<circ> snd) x = (infoEp ?m \<circ> snd) y"
    then have "gm_get (mpByNodeKey ?m) (fst x) = Some (snd x)" "gm_get (mpByNodeKey ?m) (fst y) = Some (snd y)"
      using wf by (simp_all add: gm_get_iff)
    then show "x = y" using keysInv_same_ep [OF keys, of "fst x" "snd x" "fst y" "snd y"] keysInv_inj [OF keys] eq
      by (metis comp_apply prod_eqI)
  qed
  have "distinct (mpByNodeKey ?m)" using wf by (simp add: gm_wf_def distinct_map)
  then show "distinct (forEachEndpoint ?m)" using inj by (simp add: forEachEndpoint_def distinct_map)
  show "set (forEachEndpoint ?m) = {r. present ?m r}"
    by (force simp: forEachEndpoint_def present_def gm_get_iff [OF wf])
qed

lemma dropStale_fold:
  assumes "connInv (fst s)" "distinct rs" "\<forall>r\<in>set rs. present (coPeerMap (fst s)) r"
  shows "connInv (fst (foldl (\<lambda>(c, acts) r. if dePublicKey (coEps c ! r) \<in> set keep then (c, acts)
                          else let (c', acts') = deletePeer e wnow r c in (c', acts @ acts')) s rs))"
  using assms
proof (induction rs arbitrary: s)
  case (Cons r rs)
  let ?s' = "(\<lambda>(c, acts) r. if dePublicKey (coEps c ! r) \<in> set keep then (c, acts)
                          else let (c', acts') = deletePeer e wnow r c in (c', acts @ acts')) s r"
  have s': "fst ?s' = (if dePublicKey (coEps (fst s) ! r) \<in> set keep then fst s else fst (deletePeer e wnow r (fst s)))"
    by (simp add: split_beta Let_def)
  have "connInv (fst ?s')" using s' Cons.prems connInv_deletePeer [of "fst s" r e wnow] by simp
  moreover have "\<forall>r'\<in>set rs. present (coPeerMap (fst ?s')) r'"
    using s' Cons.prems deletePeer_present [of "fst s" r e wnow] by auto
  ultimately show ?case using Cons.IH [of ?s'] Cons.prems(2) by (simp only: foldl.simps distinct.simps simp_thms)
qed simp

lemma connInv_dropStale: "connInv c \<Longrightarrow> connInv (fst (dropStalePeers e wnow keep c))"
  unfolding dropStalePeers_def by (rule dropStale_fold) (simp_all add: distinct_forEachEndpoint)

lemma nodeCount_agrees:
  assumes "connInv c"
  shows "nodeCount crash (coPeerMap c) = Inr (length (mpByNodeKey (coPeerMap c)))"
proof -
  let ?m = "coPeerMap c"
  have wf: "gm_wf (mpByNodeKey ?m)" "gm_wf (mpByNodeID ?m)" and keys: "keysInv (coEps c) ?m"
    using assms by (simp_all add: connInv_def peerInv_def mapsWf_def)
  let ?f = "\<lambda>(k, i). (deNodeID (coEps c ! infoEp ?m i), i)"
  have "bij_betw ?f (set (mpByNodeKey ?m)) (set (mpByNodeID ?m))"
  proof (rule bij_betw_imageI)
    show "inj_on ?f (set (mpByNodeKey ?m))" using keysInv_inj [OF keys] by (auto simp: inj_on_def gm_get_iff [OF wf(1), symmetric])
    show "?f ` set (mpByNodeKey ?m) = set (mpByNodeID ?m)"
    proof (intro equalityI subsetI)
      fix x
      assume "x \<in> ?f ` set (mpByNodeKey ?m)"
      then show "x \<in> set (mpByNodeID ?m)"
        using keysInvD(4) [OF keys] by (auto simp: gm_get_iff [OF wf(1), symmetric] gm_get_iff [OF wf(2), symmetric])
    next
      fix x
      assume x: "x \<in> set (mpByNodeID ?m)"
      obtain n i where ni: "x = (n, i)" by fastforce
      obtain k where "gm_get (mpByNodeKey ?m) k = Some i" "deNodeID (coEps c ! infoEp ?m i) = n"
        using x keysInv_byID [OF keys, of n i] by (auto simp: ni gm_get_iff [OF wf(2), symmetric])
      then show "x \<in> ?f ` set (mpByNodeKey ?m)" by (intro image_eqI [of _ _ "(k, i)"]) (auto simp: ni gm_get_iff [OF wf(1), symmetric])
    qed
  qed
  then have "card (set (mpByNodeKey ?m)) = card (set (mpByNodeID ?m))" by (rule bij_betw_same_card)
  moreover have "distinct (mpByNodeKey ?m)" "distinct (mpByNodeID ?m)" using wf by (simp_all add: gm_wf_def distinct_map)
  ultimately show ?thesis by (simp add: nodeCount_def distinct_card)
qed

lemma connInv_updateNodes:
  assumes "connInv c" "updateNodes e wnow self peers c = Inr (ch, c', acts)"
  shows "connInv c'"
proof -
  have drop: "connInv (dropUnusedDisco c) = connInv c" for c by (simp add: dropUnusedDisco_def)
  let ?c1 = "\<lambda>flags. c\<lparr>coSelf := self, coLastFlags := flags\<rparr>"
  have "connInv c2" if "upsertAll e wnow flags peers (?c1 flags) = Inr (c2, acts2)" for flags c2 acts2
    using connInv_upsertAll [OF _ that] assms(1) by simp
  then show ?thesis
    using assms connInv_dropStale
    by (auto simp: updateNodes_def Let_def drop split_beta split: if_splits sum.splits prod.splits)
qed

end
