(* ===== verification/Conn_Run.thy ===== *)
theory Conn_Run
  imports Conn_Peers
begin

text \<open>
  The life of the peers of a connection: every entry point of \<open>Conn_Peers\<close>, the method calls on
  endpoints in between and the recording of verified addresses, in any order. The indices of the
  peer map stay consistent, the panics of the code are characterised, and a network map leaves
  exactly its own peers.
\<close>

lemma map_sum_Inr: "map_sum id g s = Inr y \<longleftrightarrow> (\<exists>x. s = Inr x \<and> y = g x)"
  by (cases s) auto

lemma map_sum_Inl: "map_sum id g s = Inl p \<longleftrightarrow> s = Inl p"
  by (cases s) auto

section \<open>Every entry point keeps the invariant\<close>

lemma connInv_UpsertPeer: "connInv c \<Longrightarrow> UpsertPeer e wnow n c = Inr (c', acts) \<Longrightarrow> connInv c'"
proof -
  assume c: "connInv c" and u: "UpsertPeer e wnow n c = Inr (c', acts)"
  show "connInv c'"
  proof (cases "coClosed c \<or> nvID n = 0")
    case False
    let ?c = "c\<lparr>coPeersByID := gm_set (nvID n) n (coPeersByID c)\<rparr>"
    have "connInv ?c" using c by simp
    moreover have "cbind (upsertPeerLocked e wnow n (debugFlagsLocked e c) ?c)
             (\<lambda>c1. Inr (c1, if \<not> coRelayClientEnabled c1 then []
                            else case relayCandidateLocked n c1 of
                                   Some cp \<Rightarrow> [RelayServerUpsert cp]
                                 | None \<Rightarrow> [RelayServerRemove (nvKey n)])) = Inr (c', acts)"
      using u False by (simp add: UpsertPeer_def)
    ultimately show ?thesis by (elim connInv_cbind) (blast intro: connInv_upsert | simp)+
  qed (use c u in \<open>auto simp: UpsertPeer_def devPanicf_def split: if_splits\<close>)
qed

lemma connInv_RemovePeer:
  assumes "connInv c"
  shows "connInv (fst (RemovePeer e wnow nid c))"
proof -
  have "connInv (fst (deletePeer e wnow r (c\<lparr>coPeersByID := x\<rparr>)))" if "endpointForNodeID nid (coPeerMap c) = Some r" for r x
    using connInv_deletePeer [of "c\<lparr>coPeersByID := x\<rparr>" r] present_lookups(1) [OF assms] that assms by simp
  then show ?thesis using assms by (simp add: RemovePeer_def Let_def split_beta split: option.split)
qed

lemma connInv_SetNetworkMap: "connInv c \<Longrightarrow> SetNetworkMap e wnow dr self peers c = Inr (c', acts) \<Longrightarrow> connInv c'"
  using connInv_updateNodes [of c e wnow self peers]
  by (auto simp: SetNetworkMap_def Let_def map_sum_Inr split: sum.splits prod.splits if_splits)

lemma connInv_SetFilter: "connInv c \<Longrightarrow> SetFilter f c = Inr (c', acts) \<Longrightarrow> connInv c'"
  by (auto simp: SetFilter_def Let_def map_sum_Inr split: if_splits)

lemma connInv_flags:
  "connInv c \<Longrightarrow> connInv (fst (SetSilentDisco v c))" "connInv c \<Longrightarrow> connInv (fst (SetProbeUDPLifetime v c))"
  "connInv c \<Longrightarrow> connInv (fst (resetEndpointStates c))"
  by (simp_all add: SetSilentDisco_def SetProbeUDPLifetime_def resetEndpointStates_def Let_def connInv_onEndpoints ep_inv)

lemma connInv_applyMutation: "connInv (fst s) \<Longrightarrow> connInv (fst (applyMutation e wnow s mu))"
proof (induction e wnow s mu rule: applyMutation.induct)
  case (1 e wnow c acts nid region)
  have "endpointInv (fst (setDERPHome (ceView e) (word_of_int region) de))" if "endpointInv de" for de
    using epStep_safe [OF epStep.DERPHome that] by (metis prod.collapse)
  then show ?case using 1 connInv_onEndpoint [of c "setDERPHome (ceView e) (word_of_int region)"]
    by (auto simp: split_beta Let_def split: option.split)
next
  case (2 e wnow c acts nid eps)
  then show ?case using connInv_onEndpoint [of c "\<lambda>de. (setEndpointsLocked (ceView e) wnow eps de, [])"]
    by (auto simp: split_beta Let_def inv_setEndpoints split: option.split)
qed simp

lemma connInv_UpdateNetmapDelta:
  assumes "connInv c"
  shows "connInv (fst (UpdateNetmapDelta e wnow muts c))"
proof -
  have "connInv (fst s) \<Longrightarrow> connInv (fst (foldl (applyMutation e wnow) s muts))" for s
    by (induction muts arbitrary: s) (simp_all add: connInv_applyMutation)
  then show ?thesis using assms by (simp add: UpdateNetmapDelta_def)
qed

lemma discoInfoForKnown_sel [simp]:
  "coEps (snd (discoInfoForKnownPeerLocked k c)) = coEps c" "coPeerMap (snd (discoInfoForKnownPeerLocked k c)) = coPeerMap c"
  "connInv (snd (discoInfoForKnownPeerLocked k c)) = connInv c"
  by (simp_all add: discoInfoForKnownPeerLocked_def Let_def split: option.split)

lemma connInv_HandleDiscoKeyAdvertisement:
  assumes "connInv c" "HandleDiscoKeyAdvertisement nk dk c = Inr (c', acts)"
  shows "connInv c'"
proof (cases "c' = c")
  case False
  let ?c1 = "snd (discoInfoForKnownPeerLocked dk c)"
  obtain r where r: "endpointForNodeKey nk (coPeerMap c) = Some r"
    using assms(2) False by (auto simp: HandleDiscoKeyAdvertisement_def split: option.splits)
  let ?old = "case deDisco (coEps c ! r) of Some k \<Rightarrow> k | None \<Rightarrow> zeroDiscoKey"
  let ?de = "updateDiscoKey dk (coEps c ! r)"
  have pr: "present (coPeerMap c) r" using present_lookups(2) [OF assms(1)] r by blast
  then have ok: "epOk (coEps c ! r)" using presentE [OF assms(1)] by blast
  obtain m where m: "upsertEndpoint ((coEps c)[r := ?de]) r ?old (coPeerMap c) = Inr m"
      and c': "c' = ?c1\<lparr>coEps := (coEps c)[r := ?de], coPeerMap := m\<rparr>"
    using assms(2) False r
    by (cases "upsertEndpoint ((coEps c)[r := ?de]) r ?old (coPeerMap c)")
       (auto simp: HandleDiscoKeyAdvertisement_def Let_def split_beta split: if_splits)
  have "samePeer (coEps c ! r) ?de" "epOk ?de"
    using ok by (auto simp: samePeer_def updateDiscoKey_def epOk_def inv_updateDiscoKey [unfolded updateDiscoKey_def])
  then have "connInv (?c1\<lparr>coEps := (coEps ?c1)[r := ?de], coPeerMap := m\<rparr>)"
    using connInv_update [of ?c1 r ?de m] pr m assms(1) by simp
  then show ?thesis by (simp add: c')
qed (use assms(1) in simp)

lemma connInv_keys:
  "connInv c \<Longrightarrow> connInv (fst (SetPrivateKey e wnow k c))" "connInv c \<Longrightarrow> connInv (fst (Close e wnow c))"
  "connInv c \<Longrightarrow> connInv (fst (RotateDiscoKey c))" "connInv c \<Longrightarrow> connInv (fst (maybeSendTSMPDiscoAdvert b now r c))"
proof -
  assume inv: "connInv c"
  have stop: "connInv (fst (onEndpoints rs (stopAndReset (ceView e) wnow) c'))" if "connInv c'" for rs c'
    using that by (rule connInv_onEndpoints) (simp_all add: stopAndReset_inv)
  show "connInv (fst (SetPrivateKey e wnow k c))"
    using inv stop by (simp add: SetPrivateKey_def Let_def split_beta)
  show "connInv (fst (Close e wnow c))" using inv stop [of c] by (simp add: Close_def split_beta)
  show "connInv (fst (RotateDiscoKey c))"
    using inv by (simp add: RotateDiscoKey_def Let_def split_beta connInv_onEndpoints)
  show "connInv (fst (maybeSendTSMPDiscoAdvert b now r c))"
    using inv connInv_heap [OF inv, of "(coEps c ! r)\<lparr>deLastDiscoKeyAdvertisement := now\<rparr>" r] by (simp add: maybeSendTSMPDiscoAdvert_def Let_def)
qed

section \<open>What an update does to the set of peers\<close>

text \<open>The peers in the map, by node id and key.\<close>

definition mapPeers :: "conn \<Rightarrow> (int \<times> nodeKey) set" where
  "mapPeers c = {(deNodeID (coEps c ! r), dePublicKey (coEps c ! r)) | r. present (coPeerMap c) r}"

lemma mapPeers_lookup:
  assumes "connInv c"
  shows "(n, k) \<in> mapPeers c \<longleftrightarrow> (\<exists>r. endpointForNodeID n (coPeerMap c) = Some r \<and> dePublicKey (coEps c ! r) = k)"
  using present_lookups(1) [OF assms] by (auto simp: mapPeers_def)

lemma mapPeers_frame [simp]:
  "mapPeers (c\<lparr>coPeersByID := x1\<rparr>) = mapPeers c" "mapPeers (c\<lparr>coSelf := x2\<rparr>) = mapPeers c"
  "mapPeers (c\<lparr>coDiscoInfo := x3\<rparr>) = mapPeers c" "mapPeers (c\<lparr>coLastFlags := x6\<rparr>) = mapPeers c"
  by (simp_all add: mapPeers_def)

lemma mapPeers_inj:
  assumes "connInv c" "(n, k) \<in> mapPeers c" "(n', k') \<in> mapPeers c"
  shows "n = n' \<longleftrightarrow> k = k'"
proof -
  obtain r r' where r: "present (coPeerMap c) r" "deNodeID (coEps c ! r) = n" "dePublicKey (coEps c ! r) = k"
      "present (coPeerMap c) r'" "deNodeID (coEps c ! r') = n'" "dePublicKey (coEps c ! r') = k'"
    using assms(2,3) by (auto simp: mapPeers_def)
  then have "n = n' \<Longrightarrow> r = r'" "k = k' \<Longrightarrow> r = r'"
    using present_lookups(1) [OF assms(1), of n] present_lookups(2) [OF assms(1), of k] by (metis option.inject)+
  then show ?thesis using r by auto
qed

lemma card_mapPeers:
  assumes "connInv c"
  shows "card (mapPeers c) = length (mpByNodeKey (coPeerMap c))" "finite (mapPeers c)"
proof -
  let ?m = "coPeerMap c" let ?f = "\<lambda>r. (deNodeID (coEps c ! r), dePublicKey (coEps c ! r))"
  have eq: "mapPeers c = ?f ` set (forEachEndpoint ?m)" by (auto simp: mapPeers_def distinct_forEachEndpoint(2) [OF assms])
  have "inj_on ?f {r. present ?m r}"
  proof (rule inj_onI, simp)
    fix r r'
    assume "present ?m r" "present ?m r'" "deNodeID (coEps c ! r) = deNodeID (coEps c ! r') \<and> dePublicKey (coEps c ! r) = dePublicKey (coEps c ! r')"
    then have "endpointForNodeID (deNodeID (coEps c ! r)) ?m = Some r" "endpointForNodeID (deNodeID (coEps c ! r)) ?m = Some r'"
      using present_lookups(1) [OF assms] by simp_all
    then show "r = r'" by simp
  qed
  then show "card (mapPeers c) = length (mpByNodeKey ?m)"
    using card_image [of ?f "set (forEachEndpoint ?m)"] distinct_card [OF distinct_forEachEndpoint(1) [OF assms]]
    unfolding eq distinct_forEachEndpoint(2) [OF assms] by (simp add: forEachEndpoint_def)
  show "finite (mapPeers c)" by (simp add: eq)
qed

lemma deletePeer_ids:
  "deNodeID (coEps (fst (deletePeer e wnow r0 c)) ! r) = deNodeID (coEps c ! r)"
  "dePublicKey (coEps (fst (deletePeer e wnow r0 c)) ! r) = dePublicKey (coEps c ! r)"
  using ident_stop [of "ceView e" wnow "coEps c ! r0"]
  by (cases "r0 < length (coEps c)"; auto simp: deletePeer_sel nth_list_update list_update_beyond ident_def)+

lemma mapPeers_delete:
  assumes "connInv c" "present (coPeerMap c) r"
  shows "mapPeers (fst (deletePeer e wnow r c)) = mapPeers c - {(deNodeID (coEps c ! r), dePublicKey (coEps c ! r))}"
proof -
  have "r' = r" if "deNodeID (coEps c ! r') = deNodeID (coEps c ! r)" "present (coPeerMap c) r'" for r'
    using present_lookups(1) [OF assms(1), of "deNodeID (coEps c ! r)"] assms(2) that by (metis option.inject)
  then show ?thesis by (auto simp: mapPeers_def deletePeer_present [OF assms] deletePeer_ids)
qed

text \<open>\<open>upsertEndpoint\<close> adds the endpoint unless its key is in the map.\<close>

lemma upsertDisco_keys:
  assumes "upsertDisco eps r old m = Inr m'"
  shows "mpByNodeKey m' = mpByNodeKey m" "infoEp m' = infoEp m"
proof -
  have "mpByNodeKey (foldl (\<lambda>m x. setNodeKeyForEpAddr eps (f x) k m) m xs) = mpByNodeKey m \<and>
        infoEp (foldl (\<lambda>m x. setNodeKeyForEpAddr eps (f x) k m) m xs) = infoEp m" for f :: "addrPort \<Rightarrow> epAddr" and k xs m
    by (induction xs arbitrary: m) simp_all
  note fold = this [of "\<lambda>ipp. \<lparr>ap = ipp, vni = 0\<rparr>"]
  have drop: "infoEp (dropDiscoNode d k m) = infoEp m" "infoEp (addDiscoNode d k m) = infoEp m" for d k m
    by (simp_all add: infoEp_def fun_eq_iff dropDiscoNode_def addDiscoNode_def split: option.split)
  show "mpByNodeKey m' = mpByNodeKey m" "infoEp m' = infoEp m"
    using assms fold by (auto simp: upsertDisco_def Let_def drop split: if_splits option.splits)
qed

lemma upsert_keys:
  assumes "upsertEndpoint eps r old m = Inr m'"
  shows "gm_get (mpByNodeKey m) (dePublicKey (eps ! r)) = Some i \<Longrightarrow> present m' = present m"
    "gm_get (mpByNodeKey m) (dePublicKey (eps ! r)) = None \<Longrightarrow> (\<forall>k i. gm_get (mpByNodeKey m) k = Some i \<longrightarrow> i < length (mpInfos m))
       \<Longrightarrow> present m' r' \<longleftrightarrow> r' = r \<or> present m r'"
proof -
  have *: "mpByNodeKey m' = mpByNodeKey m \<and> infoEp m' = infoEp m" if "gm_get (mpByNodeKey m) (dePublicKey (eps ! r)) = Some i"
    using that assms upsertDisco_keys [of eps r old _ m'] by (auto simp: upsertEndpoint_def Let_def infoEp_def fun_eq_iff split: if_splits)
  show "present m' = present m" if "gm_get (mpByNodeKey m) (dePublicKey (eps ! r)) = Some i"
    using * [OF that] by (simp add: present_def fun_eq_iff)
  assume new: "gm_get (mpByNodeKey m) (dePublicKey (eps ! r)) = None" and live: "\<forall>k i. gm_get (mpByNodeKey m) k = Some i \<longrightarrow> i < length (mpInfos m)"
  have "mpByNodeKey m' = gm_set (dePublicKey (eps ! r)) (length (mpInfos m)) (mpByNodeKey m)"
      "infoEp m' j = (if j = length (mpInfos m) then r else infoEp m j)" if "j \<le> length (mpInfos m)" for j
    using new assms upsertDisco_keys [of eps r old _ m'] that
    by (auto simp: upsertEndpoint_def Let_def infoEp_def fun_eq_iff newPeerInfo_def nth_append split: if_splits)
  note sel = this(1) [OF le_refl] this(2)
  show "present m' r' \<longleftrightarrow> r' = r \<or> present m r'"
    unfolding present_def sel(1) gm_get_set using new live sel(2)
    by (auto split: if_splits) (metis less_irrefl less_imp_le option.distinct(1))+
qed

lemma connInv_live: "connInv c \<Longrightarrow> \<forall>k i. gm_get (mpByNodeKey (coPeerMap c)) k = Some i \<longrightarrow> i < length (mpInfos (coPeerMap c))"
  by (auto simp: connInv_def peerInv_def dest: keysInvD(1))

lemma mapPeers_update:
  assumes "connInv c" "present (coPeerMap c) r" "samePeer (coEps c ! r) de"
    "upsertEndpoint ((coEps c)[r := de]) r old (coPeerMap c) = Inr m"
  shows "mapPeers (c\<lparr>coEps := (coEps c)[r := de], coPeerMap := m\<rparr>) = mapPeers c"
proof -
  obtain i where i: "gm_get (mpByNodeKey (coPeerMap c)) (dePublicKey (coEps c ! r)) = Some i" "r < length (coEps c)"
    using presentE [OF assms(1,2)] by blast
  have id: "deNodeID ((coEps c)[r := de] ! j) = deNodeID (coEps c ! j)" "dePublicKey ((coEps c)[r := de] ! j) = dePublicKey (coEps c ! j)" for j
    using assms(3) i(2) by (auto simp: nth_list_update samePeer_def)
  have "present m = present (coPeerMap c)" by (rule upsert_keys(1) [OF assms(4)]) (use id(2) i(1) in simp)
  then show ?thesis by (simp add: mapPeers_def id)
qed

lemma mapPeers_insert:
  assumes "connInv c" "\<nexists>r. present (coPeerMap c) r \<and> dePublicKey (coEps c ! r) = dePublicKey de"
    "upsertEndpoint (coEps c @ [de]) (length (coEps c)) old (coPeerMap c) = Inr m"
  shows "mapPeers (c\<lparr>coEps := coEps c @ [de], coPeerMap := m\<rparr>) = insert (deNodeID de, dePublicKey de) (mapPeers c)"
proof -
  have keys: "keysInv (coEps c) (coPeerMap c)" using assms(1) by (simp add: connInv_def peerInv_def)
  have "gm_get (mpByNodeKey (coPeerMap c)) (dePublicKey de) = None"
    using assms(2) keysInvD(3) [OF keys] by (metis not_None_eq present_def)
  then have pr: "present m r' \<longleftrightarrow> r' = length (coEps c) \<or> present (coPeerMap c) r'" for r'
    using upsert_keys(2) [OF assms(3)] connInv_live [OF assms(1)] by simp
  have "present (coPeerMap c) r' \<Longrightarrow> r' < length (coEps c)" for r' using presentE [OF assms(1)] by blast
  then show ?thesis by (auto simp: mapPeers_def pr nth_append)
qed

text \<open>A node the code supports: it has an id, a key, and a disco key or the WireGuard-only flag. Its
  key is not in the map under the id of another node.\<close>

definition supported :: "peerView \<Rightarrow> bool" where
  "supported n \<longleftrightarrow> nvID n \<noteq> 0 \<and> nvKey n \<noteq> zeroNodeKey \<and> (nvDiscoKey n \<noteq> zeroDiscoKey \<or> nvIsWireGuardOnly n)"

definition keyMoved :: "(int \<times> nodeKey) set \<Rightarrow> peerView \<Rightarrow> bool" where
  "keyMoved P n \<longleftrightarrow> (\<exists>m. m \<noteq> nvID n \<and> (m, nvKey n) \<in> P)"

lemma lookupPeer_mapPeers:
  assumes "connInv c" "lookupPeer e wnow n c = (ep, c1, acts)"
  shows "mapPeers c1 = {x \<in> mapPeers c. fst x = nvID n \<longrightarrow> snd x = nvKey n}"
proof (cases "endpointForNodeID (nvID n) (coPeerMap c)")
  case None
  then have "c1 = c" "\<nexists>r. present (coPeerMap c) r \<and> deNodeID (coEps c ! r) = nvID n"
    using assms(2) present_lookups(1) [OF assms(1), of "nvID n"] by (auto simp: lookupPeer_def)
  then show ?thesis by (auto simp: mapPeers_def)
next
  case (Some r)
  then have r: "present (coPeerMap c) r" "deNodeID (coEps c ! r) = nvID n" using present_lookups(1) [OF assms(1)] by auto
  have own: "k = dePublicKey (coEps c ! r)" if "(nvID n, k) \<in> mapPeers c" for k
    using mapPeers_lookup [OF assms(1)] Some that by auto
  have c1: "c1 = (if dePublicKey (coEps c ! r) = nvKey n then c else fst (deletePeer e wnow r c))"
    using assms(2) Some by (auto simp: lookupPeer_def split_beta Let_def)
  show ?thesis
  proof (cases "dePublicKey (coEps c ! r) = nvKey n")
    case True
    then show ?thesis using c1 own by fastforce
  next
    case False
    then have "mapPeers c1 = mapPeers c - {(nvID n, dePublicKey (coEps c ! r))}"
      using mapPeers_delete [OF assms(1) r(1), of e wnow] r(2) c1 by simp
    then show ?thesis using own False by fastforce
  qed
qed

lemma upsert_mapPeers:
  assumes "connInv c" "supported n" "\<not> keyMoved (mapPeers c) n" "upsertPeerLocked e wnow n flags c = Inr (c', acts)"
  shows "mapPeers c' = insert (nvID n, nvKey n) {x \<in> mapPeers c. fst x \<noteq> nvID n}"
proof -
  obtain ep c1 acts1 where l: "lookupPeer e wnow n c = (ep, c1, acts1)" by (metis prod.exhaust)
  note lk = lookupPeer [OF assms(1) l] lookupPeer_mapPeers [OF assms(1) l]
  have ids: "nvID n \<noteq> 0" "nvKey n \<noteq> zeroNodeKey" "\<not> (nvDiscoKey n = zeroDiscoKey \<and> \<not> nvIsWireGuardOnly n)"
    using assms(2) by (auto simp: supported_def)
  show ?thesis
  proof (cases ep)
    case (Some r)
    then have r: "present (coPeerMap c1) r" "epOk (coEps c1 ! r)" "deNodeID (coEps c1 ! r) = nvID n" "dePublicKey (coEps c1 ! r) = nvKey n"
      using lk(2) presentE [OF lk(1)] by blast+
    let ?de = "updateFromNode (ceView e) wnow (asNode n) (dfHeartbeatDisabled flags) (dfProbeUDPLifetimeOn flags) (coEps c1 ! r)"
    let ?old = "case deDisco (coEps c1 ! r) of Some k \<Rightarrow> k | None \<Rightarrow> zeroDiscoKey"
    obtain m where m: "upsertEndpoint ((coEps c1)[r := ?de]) r ?old (coPeerMap c1) = Inr m"
        and c': "c' = c1\<lparr>coEps := (coEps c1)[r := ?de], coPeerMap := m\<rparr>"
      using assms(4) ids l Some by (auto simp: upsertPeerLocked_def Let_def map_sum_Inr split: if_splits)
    have "(nvID n, nvKey n) \<in> mapPeers c1" unfolding mapPeers_def using r by (intro CollectI exI [of _ r]) simp
    moreover have eq: "mapPeers c' = mapPeers c1" unfolding c'
      by (rule mapPeers_update [OF lk(1) r(1) _ m]) (rule epOk_updateFromNode(2) [OF r(2)])
    ultimately show ?thesis unfolding eq lk(4) by fastforce
  next
    case None
    have moved: "\<nexists>r. present (coPeerMap c1) r \<and> dePublicKey (coEps c1 ! r) = nvKey n"
    proof
      assume "\<exists>r. present (coPeerMap c1) r \<and> dePublicKey (coEps c1 ! r) = nvKey n"
      then obtain r where r: "present (coPeerMap c1) r" "dePublicKey (coEps c1 ! r) = nvKey n" by blast
      then have "(deNodeID (coEps c1 ! r), nvKey n) \<in> mapPeers c1" unfolding mapPeers_def by (intro CollectI exI [of _ r]) simp
      then have "(deNodeID (coEps c1 ! r), nvKey n) \<in> mapPeers c" unfolding lk(4) by blast
      then show False using assms(3) lk(3) [OF None] r(1) by (auto simp: keyMoved_def)
    qed
    then have k: "endpointForNodeKey (nvKey n) (coPeerMap c1) = None" using endpointForNodeKey_None [OF lk(1)] by simp
    let ?de1 = "newPeerEndpoint flags n"
    let ?de = "updateFromNode (ceView e) wnow (asNode n) (dfHeartbeatDisabled flags) (dfProbeUDPLifetimeOn flags) ?de1"
    have new: "epOk ?de1" "dePublicKey ?de1 = nvKey n" "deNodeID ?de1 = nvID n" using ids by (simp_all add: epOk_new)
    have up: "dePublicKey ?de = nvKey n" "deNodeID ?de = nvID n"
      using epOk_updateFromNode(2) [OF new(1)] new(2,3) by (simp_all add: samePeer_def)
    obtain m where m: "upsertEndpoint (coEps c1 @ [?de]) (length (coEps c1)) zeroDiscoKey (coPeerMap c1) = Inr m"
        and c': "c' = c1\<lparr>coEps := coEps c1 @ [?de], coPeerMap := m\<rparr>"
      using assms(4) ids l None k by (auto simp: upsertPeerLocked_def Let_def map_sum_Inr split: if_splits)
    have eq: "mapPeers c' = insert (nvID n, nvKey n) (mapPeers c1)"
      using mapPeers_insert [OF lk(1) _ m] moved up by (simp add: c')
    have "fst x \<noteq> nvID n" if "x \<in> mapPeers c1" for x using lk(3) [OF None] that by (auto simp: mapPeers_def)
    then show ?thesis unfolding eq lk(4) by fastforce
  qed
qed

definition idKeys :: "peerView list \<Rightarrow> (int \<times> nodeKey) set" where
  "idKeys ns = (\<lambda>n. (nvID n, nvKey n)) ` set ns"

lemma upsertAll_mapPeers:
  assumes "connInv c" "\<forall>n\<in>set ns. supported n \<and> \<not> keyMoved (mapPeers c) n" "distinct (map nvID ns)" "distinct (map nvKey ns)"
    "upsertAll e wnow flags ns c = Inr (c', acts)"
  shows "mapPeers c' = idKeys ns \<union> {x \<in> mapPeers c. fst x \<notin> nvID ` set ns}"
  using assms
proof (induction ns arbitrary: c acts)
  case (Cons n ns)
  obtain c1 acts1 where u: "upsertPeerLocked e wnow n flags c = Inr (c1, acts1)"
    using Cons.prems(5) by (cases "upsertPeerLocked e wnow n flags c") auto
  then obtain acts2 where rest: "upsertAll e wnow flags ns c1 = Inr (c', acts2)"
    using Cons.prems(5) by (auto simp: map_sum_Inr split_beta)
  have p: "mapPeers c1 = insert (nvID n, nvKey n) {x \<in> mapPeers c. fst x \<noteq> nvID n}"
    using upsert_mapPeers [OF Cons.prems(1) _ _ u] Cons.prems(2) by simp
  have "supported m \<and> \<not> keyMoved (mapPeers c1) m" if "m \<in> set ns" for m
  proof -
    have "nvKey n \<notin> nvKey ` set ns" using Cons.prems(4) by simp
    then have "nvKey m \<noteq> nvKey n" using that by (metis image_eqI)
    moreover have "supported m" "\<not> keyMoved (mapPeers c) m" using Cons.prems(2) that by auto
    ultimately show ?thesis by (auto simp: p keyMoved_def)
  qed
  then have "mapPeers c' = idKeys ns \<union> {x \<in> mapPeers c1. fst x \<notin> nvID ` set ns}"
    using Cons.IH [OF connInv_upsert [OF Cons.prems(1) u] _ _ _ rest] Cons.prems(3,4) by simp
  then show ?case using Cons.prems(3) by (auto simp: p idKeys_def)
qed (simp add: idKeys_def)

text \<open>The clean-up pass keeps exactly the wanted keys.\<close>

lemma dropStale_fold_peers:
  assumes "connInv (fst s)" "distinct rs" "\<forall>r\<in>set rs. present (coPeerMap (fst s)) r"
  shows "mapPeers (fst (foldl (\<lambda>(c, acts) r. if dePublicKey (coEps c ! r) \<in> set keep then (c, acts)
                          else let (c', acts') = deletePeer e wnow r c in (c', acts @ acts')) s rs))
    = mapPeers (fst s) - {(deNodeID (coEps (fst s) ! r), dePublicKey (coEps (fst s) ! r)) | r. r \<in> set rs \<and> dePublicKey (coEps (fst s) ! r) \<notin> set keep}"
  using assms
proof (induction rs arbitrary: s)
  case (Cons r rs)
  let ?s' = "(\<lambda>(c, acts) r. if dePublicKey (coEps c ! r) \<in> set keep then (c, acts)
                          else let (c', acts') = deletePeer e wnow r c in (c', acts @ acts')) s r"
  have s': "fst ?s' = (if dePublicKey (coEps (fst s) ! r) \<in> set keep then fst s else fst (deletePeer e wnow r (fst s)))"
    by (simp add: split_beta Let_def)
  have ids: "deNodeID (coEps (fst ?s') ! j) = deNodeID (coEps (fst s) ! j)" "dePublicKey (coEps (fst ?s') ! j) = dePublicKey (coEps (fst s) ! j)" for j
    unfolding s' by (simp_all add: deletePeer_ids)
  have "connInv (fst ?s')" using s' Cons.prems connInv_deletePeer [of "fst s" r e wnow] by simp
  moreover have "\<forall>r'\<in>set rs. present (coPeerMap (fst ?s')) r'"
    using s' Cons.prems deletePeer_present [of "fst s" r e wnow] by auto
  moreover have "mapPeers (fst ?s') = mapPeers (fst s) -
      (if dePublicKey (coEps (fst s) ! r) \<in> set keep then {} else {(deNodeID (coEps (fst s) ! r), dePublicKey (coEps (fst s) ! r))})"
    unfolding s' using mapPeers_delete [of "fst s" r e wnow] Cons.prems by simp
  ultimately show ?case
    using Cons.IH [of ?s'] Cons.prems(2) unfolding ids by (auto simp only: foldl.simps distinct.simps list.set split: if_splits)
qed simp

lemma dropStale_peers:
  assumes "connInv c"
  shows "mapPeers (fst (dropStalePeers e wnow keep c)) = {x \<in> mapPeers c. snd x \<in> set keep}"
proof -
  have "mapPeers (fst (dropStalePeers e wnow keep c)) = mapPeers c -
      {(deNodeID (coEps c ! r), dePublicKey (coEps c ! r)) | r. present (coPeerMap c) r \<and> dePublicKey (coEps c ! r) \<notin> set keep}"
    unfolding dropStalePeers_def using dropStale_fold_peers [of "(c, [])" "forEachEndpoint (coPeerMap c)"] assms
    by (simp add: distinct_forEachEndpoint)
  then show ?thesis by (auto simp: mapPeers_def)
qed

section \<open>Panics\<close>

lemma upsert_panic:
  "upsertEndpoint eps r old m = Inl p \<longleftrightarrow>
     (if deNodeID (eps ! r) = 0 then p = ZeroNodeIDUpsert
      else \<not> deIsWireguardOnly (eps ! r) \<and> deDisco (eps ! r) = None \<and> p = NilDiscoDereference)"
  by (auto simp: upsertEndpoint_def upsertDisco_def Let_def split: option.splits prod.splits)

lemma upsertPeer_panic:
  assumes "connInv c"
  shows "upsertPeerLocked e wnow n flags c = Inl p \<longleftrightarrow>
      (if nvID n = 0 then ceCrash e \<and> p = DevPanic ''node with zero ID''
       else if nvKey n = zeroNodeKey then ceCrash e \<and> p = DevPanic ''node with zero key''
       else if keyMoved (mapPeers c) n
       then ceCrash e \<and> p = DevPanic (if isMullvadName (nvName n) then ''public key moved between Mullvad nodeIDs'' else ''public key moved between nodeIDs'')
       else p = NilDiscoDereference \<and> nvDiscoKey n = zeroDiscoKey \<and> nvIsWireGuardOnly n \<and>
         (\<exists>r. endpointForNodeID (nvID n) (coPeerMap c) = Some r \<and> dePublicKey (coEps c ! r) = nvKey n \<and> \<not> deIsWireguardOnly (coEps c ! r)))"
proof (cases "nvID n = 0 \<or> nvKey n = zeroNodeKey")
  case True
  then show ?thesis by (auto simp: upsertPeerLocked_def devPanicf_def)
next
  case ids: False
  obtain ep c1 acts1 where l: "lookupPeer e wnow n c = (ep, c1, acts1)" by (metis prod.exhaust)
  note lk = lookupPeer [OF assms l] lookupPeer_mapPeers [OF assms l]
  have moved: "keyMoved (mapPeers c1) n = keyMoved (mapPeers c) n" unfolding lk(4) keyMoved_def by auto
  show ?thesis
  proof (cases ep)
    case (Some r)
    then have r: "c1 = c" "present (coPeerMap c) r" "epOk (coEps c ! r)" "deNodeID (coEps c ! r) = nvID n" "dePublicKey (coEps c ! r) = nvKey n"
      using lk(2) presentE [OF lk(1)] by blast+
    have "(nvID n, nvKey n) \<in> mapPeers c" unfolding mapPeers_def using r by (intro CollectI exI [of _ r]) simp
    then have nm: "\<not> keyMoved (mapPeers c) n" using mapPeers_inj [OF assms] by (auto simp: keyMoved_def)
    have lr: "endpointForNodeID (nvID n) (coPeerMap c) = Some r" using present_lookups(1) [OF assms] r by blast
    have rl: "r < length (coEps c)" using presentE [OF assms r(2)] by blast
    have "upsertPeerLocked e wnow n flags c = Inl p \<longleftrightarrow>
        p = NilDiscoDereference \<and> nvDiscoKey n = zeroDiscoKey \<and> nvIsWireGuardOnly n \<and> \<not> deIsWireguardOnly (coEps c ! r)"
    proof (cases "nvDiscoKey n = zeroDiscoKey \<and> \<not> nvIsWireGuardOnly n")
      case True
      then show ?thesis using ids l Some by (auto simp: upsertPeerLocked_def)
    next
      case False
      then show ?thesis
        using ids l Some r(1,3) rl epOk_updateFromNode [OF r(3), of "ceView e" wnow "asNode n" "dfHeartbeatDisabled flags" "dfProbeUDPLifetimeOn flags"]
        by (auto simp: upsertPeerLocked_def Let_def map_sum_Inl upsert_panic samePeer_def epOk_def asNode_def)
    qed
    then show ?thesis using ids nm lr r(5) by simp
  next
    case None
    have lr: "\<not> (endpointForNodeID (nvID n) (coPeerMap c) = Some r \<and> dePublicKey (coEps c ! r) = nvKey n)" for r
      using l None by (auto simp: lookupPeer_def split_beta Let_def split: if_splits)
    show ?thesis
    proof (cases "endpointForNodeKey (nvKey n) (coPeerMap c1)")
      case (Some r)
      then have r: "present (coPeerMap c1) r" "dePublicKey (coEps c1 ! r) = nvKey n" using present_lookups(2) [OF lk(1)] by auto
      then have id: "deNodeID (coEps c1 ! r) \<noteq> nvID n" using lk(3) [OF None] by blast
      have "(deNodeID (coEps c1 ! r), nvKey n) \<in> mapPeers c1" unfolding mapPeers_def using r by (intro CollectI exI [of _ r]) simp
      then have "keyMoved (mapPeers c) n" using id moved by (auto simp: keyMoved_def)
      then show ?thesis using ids l None Some id by (auto simp: upsertPeerLocked_def devPanicf_def)
    next
      case nk: None
      have nm: "\<not> keyMoved (mapPeers c) n"
        using endpointForNodeKey_None [OF lk(1)] nk unfolding moved [symmetric] by (auto simp: keyMoved_def mapPeers_def)
      let ?de1 = "newPeerEndpoint flags n"
      have new: "epOk ?de1" "deNodeID ?de1 = nvID n" "deIsWireguardOnly ?de1 = nvIsWireGuardOnly n" using ids by (simp_all add: epOk_new)
      have "upsertPeerLocked e wnow n flags c \<noteq> Inl p"
      proof (cases "nvDiscoKey n = zeroDiscoKey \<and> \<not> nvIsWireGuardOnly n")
        case True
        then show ?thesis using ids l None nk by (simp add: upsertPeerLocked_def)
      next
        case False
        then show ?thesis
          using ids l None nk new epOk_updateFromNode [OF new(1), of "ceView e" wnow "asNode n" "dfHeartbeatDisabled flags" "dfProbeUDPLifetimeOn flags"]
          by (auto simp: upsertPeerLocked_def Let_def map_sum_Inl upsert_panic samePeer_def epOk_def asNode_def)
      qed
      then show ?thesis using ids nm lr by (simp, blast)
    qed
  qed
qed

section \<open>Runs\<close>

inductive connStep :: "conn \<Rightarrow> connAction list \<Rightarrow> conn \<Rightarrow> bool" where
  NetworkMap: "SetNetworkMap e wnow dr self peers c = Inr (c', acts) \<Longrightarrow> connStep c acts c'"
| Upsert: "UpsertPeer e wnow n c = Inr (c', acts) \<Longrightarrow> connStep c acts c'"
| Remove: "RemovePeer e wnow nid c = (c', acts) \<Longrightarrow> connStep c acts c'"
| Delta: "UpdateNetmapDelta e wnow muts c = (c', acts) \<Longrightarrow> connStep c acts c'"
| Advertisement: "HandleDiscoKeyAdvertisement nk dk c = Inr (c', acts) \<Longrightarrow> connStep c acts c'"
| Filter: "SetFilter f c = Inr (c', acts) \<Longrightarrow> connStep c acts c'"
| SilentDisco: "SetSilentDisco v c = (c', acts) \<Longrightarrow> connStep c acts c'"
| ProbeLifetime: "SetProbeUDPLifetime v c = (c', acts) \<Longrightarrow> connStep c acts c'"
| ResetStates: "resetEndpointStates c = (c', acts) \<Longrightarrow> connStep c acts c'"
| EndpointCall: "epStep (coEps c ! r) acts de \<Longrightarrow> ident de = ident (coEps c ! r) \<Longrightarrow>
    connStep c (map (EpAct r) acts) (c\<lparr>coEps := (coEps c)[r := de]\<rparr>)"
| VerifiedAddress: "connStep c [] (c\<lparr>coPeerMap := setNodeKeyForEpAddr (coEps c) a nk (coPeerMap c)\<rparr>)"
| DiscoInfo: "connStep c [] (c\<lparr>coDiscoInfo := di\<rparr>)"
| SourcePaths: "connStep c acts (c\<lparr>coSourceProbes := sp, coSourcePath := ss\<rparr>)"
| PrivateKey: "SetPrivateKey e wnow k c = (c', acts) \<Longrightarrow> connStep c acts c'"
| Rotate: "RotateDiscoKey c = (c', acts) \<Longrightarrow> connStep c acts c'"
| Advertise: "maybeSendTSMPDiscoAdvert b now r c = (c', acts) \<Longrightarrow> connStep c acts c'"
| Close: "Close e wnow c = (c', acts) \<Longrightarrow> connStep c acts c'"

inductive connRun :: "conn \<Rightarrow> bool" where
  New: "connRun newConn"
| Step: "connRun c \<Longrightarrow> connStep c acts c' \<Longrightarrow> connRun c'"

lemma connStep_inv: "connStep c acts c' \<Longrightarrow> connInv c \<Longrightarrow> connInv c'"
proof (induction rule: connStep.induct)
  case (EndpointCall c r acts de)
  then show ?case using connInv_heap epStep_safe by blast
next
  case (VerifiedAddress c a nk)
  then show ?case by (simp add: connInv_def peerInv_setNodeKey)
next
  case (Remove e wnow nid c c' acts)
  then show ?case using connInv_RemovePeer [of c e wnow nid] by simp
next
  case (Delta e wnow muts c c' acts)
  then show ?case using connInv_UpdateNetmapDelta [of c e wnow muts] by simp
next
  case (SilentDisco v c c' acts)
  then show ?case using connInv_flags(1) [of c v] by simp
next
  case (ProbeLifetime v c c' acts)
  then show ?case using connInv_flags(2) [of c v] by simp
next
  case (ResetStates c c' acts)
  then show ?case using connInv_flags(3) [of c] by simp
next
  case (PrivateKey e wnow k c c' acts)
  then show ?case using connInv_keys(1) [of c e wnow k] by simp
next
  case (Close e wnow c c' acts)
  then show ?case using connInv_keys(2) [of c e wnow] by simp
next
  case (Rotate c c' acts)
  then show ?case using connInv_keys(3) [of c] by simp
next
  case (Advertise b now r c c' acts)
  then show ?case using connInv_keys(4) [of c b now r] by simp
next
  case NetworkMap
  then show ?case by (blast intro: connInv_SetNetworkMap)
next
  case Upsert
  then show ?case by (blast intro: connInv_UpsertPeer)
next
  case Advertisement
  then show ?case by (blast intro: connInv_HandleDiscoKeyAdvertisement)
next
  case Filter
  then show ?case by (blast intro: connInv_SetFilter)
qed simp_all

lemma connInv_new: "connInv newConn"
proof -
  have "nodesOf newPeerMap d = []" for d by (simp add: nodesOf_def newPeerMap_def)
  then show ?thesis by (simp add: connInv_def newConn_def peerInv_new)
qed

lemma connRun_inv: "connRun c \<Longrightarrow> connInv c"
  by (induction rule: connRun.induct) (auto simp: connInv_new dest: connStep_inv)

text \<open>
  C5. The indices of the peer map agree. After any sequence of network maps, single-peer updates,
  deltas, key advertisements, endpoint method calls and verified addresses: a lookup by node key
  leads to an endpoint with that key, which a lookup by its node id also finds, and conversely; an
  address leads only to endpoints that a lookup by key finds; the endpoints listed for a disco key
  are exactly those in the map that have it and are not WireGuard-only; and the check of
  \<open>nodeCount\<close> that the indices have the same size never fires.
\<close>

theorem peer_indices_agree:
  assumes "connRun c"
  shows "(\<forall>k r. endpointForNodeKey k (coPeerMap c) = Some r \<longleftrightarrow>
            dePublicKey (coEps c ! r) = k \<and> endpointForNodeID (deNodeID (coEps c ! r)) (coPeerMap c) = Some r)
    \<and> (\<forall>n r. endpointForNodeID n (coPeerMap c) = Some r \<longrightarrow> deNodeID (coEps c ! r) = n \<and> endpointInv (coEps c ! r))
    \<and> (\<forall>a r. endpointForEpAddr a (coPeerMap c) = Some r \<longrightarrow> endpointForNodeKey (dePublicKey (coEps c ! r)) (coPeerMap c) = Some r)
    \<and> (\<forall>d. set (forEachEndpointWithDiscoKey d (coPeerMap c)) =
            {r. endpointForNodeKey (dePublicKey (coEps c ! r)) (coPeerMap c) = Some r \<and> \<not> deIsWireguardOnly (coEps c ! r) \<and> deDisco (coEps c ! r) = Some d})
    \<and> (\<forall>crash. nodeCount crash (coPeerMap c) = Inr (length (forEachEndpoint (coPeerMap c))))"
proof (intro conjI allI)
  note inv = connRun_inv [OF assms]
  note lk = present_lookups [OF inv]
  fix k r n a d crash
  show "endpointForNodeKey k (coPeerMap c) = Some r \<longleftrightarrow>
      dePublicKey (coEps c ! r) = k \<and> endpointForNodeID (deNodeID (coEps c ! r)) (coPeerMap c) = Some r"
    using lk(1,2) by auto
  show "endpointForNodeID n (coPeerMap c) = Some r \<longrightarrow> deNodeID (coEps c ! r) = n \<and> endpointInv (coEps c ! r)"
    using lk(1) presentE [OF inv] by (metis epOk_def)
  show "endpointForEpAddr a (coPeerMap c) = Some r \<longrightarrow> endpointForNodeKey (dePublicKey (coEps c ! r)) (coPeerMap c) = Some r"
    using lk(2,3) by blast
  show "nodeCount crash (coPeerMap c) = Inr (length (forEachEndpoint (coPeerMap c)))"
    using nodeCount_agrees [OF inv] by (simp add: forEachEndpoint_def)
  have disco: "k \<in> set (nodesOf (coPeerMap c) d) \<longleftrightarrow>
      (\<exists>i. gm_get (mpByNodeKey (coPeerMap c)) k = Some i \<and> \<not> deIsWireguardOnly (coEps c ! infoEp (coPeerMap c) i)
         \<and> deDisco (coEps c ! infoEp (coPeerMap c) i) = Some d)" for k
    using inv by (simp add: connInv_def peerInv_def discoInv_def)
  show "set (forEachEndpointWithDiscoKey d (coPeerMap c)) =
      {r. endpointForNodeKey (dePublicKey (coEps c ! r)) (coPeerMap c) = Some r \<and> \<not> deIsWireguardOnly (coEps c ! r) \<and> deDisco (coEps c ! r) = Some d}"
  proof (intro equalityI subsetI)
    fix r
    assume "r \<in> set (forEachEndpointWithDiscoKey d (coPeerMap c))"
    then obtain k i where "k \<in> set (nodesOf (coPeerMap c) d)" and i: "gm_get (mpByNodeKey (coPeerMap c)) k = Some i" "infoEp (coPeerMap c) i = r"
      by (auto simp: forEachEndpointWithDiscoKey_def List.map_filter_def)
    then have "\<not> deIsWireguardOnly (coEps c ! r) \<and> deDisco (coEps c ! r) = Some d" using disco [of k] by auto
    moreover have "present (coPeerMap c) r" using i by (auto simp: present_def)
    ultimately show "r \<in> {r. endpointForNodeKey (dePublicKey (coEps c ! r)) (coPeerMap c) = Some r \<and> \<not> deIsWireguardOnly (coEps c ! r) \<and> deDisco (coEps c ! r) = Some d}"
      using lk(2) by simp
  next
    fix r
    assume r: "r \<in> {r. endpointForNodeKey (dePublicKey (coEps c ! r)) (coPeerMap c) = Some r \<and> \<not> deIsWireguardOnly (coEps c ! r) \<and> deDisco (coEps c ! r) = Some d}"
    then obtain i where i: "gm_get (mpByNodeKey (coPeerMap c)) (dePublicKey (coEps c ! r)) = Some i" "infoEp (coPeerMap c) i = r"
      using lk(2) presentE [OF inv] by blast
    then have "dePublicKey (coEps c ! r) \<in> set (nodesOf (coPeerMap c) d)" using disco r by auto
    then show "r \<in> set (forEachEndpointWithDiscoKey d (coPeerMap c))"
      using i by (auto simp: forEachEndpointWithDiscoKey_def List.map_filter_def intro!: image_eqI [of _ _ "dePublicKey (coEps c ! r)"])
  qed
qed

section \<open>Network maps\<close>

lemma gm_set_append: "k \<notin> fst ` set m \<Longrightarrow> gm_set k v m = m @ [(k, v)]"
  by (induction k v m rule: gm_set.induct) auto

lemma newPeers_eq:
  "distinct (map nvID (ps @ peers)) \<Longrightarrow>
   foldl (\<lambda>m n. gm_set (nvID n) n m) (map (\<lambda>n. (nvID n, n)) ps) peers = map (\<lambda>n. (nvID n, n)) (ps @ peers)"
proof (induction peers arbitrary: ps)
  case (Cons n peers)
  have "gm_set (nvID n) n (map (\<lambda>n. (nvID n, n)) ps) = map (\<lambda>n. (nvID n, n)) (ps @ [n])"
    using Cons.prems gm_set_append [of "nvID n" "map (\<lambda>n. (nvID n, n)) ps" n] by (simp add: image_image)
  then show ?case using Cons.IH [of "ps @ [n]"] Cons.prems by simp
qed simp

lemma mapPeers_dropUnused [simp]: "mapPeers (dropUnusedDisco c) = mapPeers c"
  by (simp add: dropUnusedDisco_def)

lemma updateNodes_peers:
  assumes inv: "connInv c" and ok: "\<forall>n\<in>set peers. supported n \<and> \<not> keyMoved (mapPeers c) n"
    and d: "distinct (map nvID peers)" "distinct (map nvKey peers)" and u: "updateNodes e wnow self peers c = Inr (True, c', acts)"
  shows "mapPeers c' = idKeys peers"
proof -
  let ?c1 = "c\<lparr>coSelf := self, coLastFlags := debugFlagsLocked e (c\<lparr>coSelf := self\<rparr>)\<rparr>"
  let ?new = "map (\<lambda>n. (nvID n, n)) peers"
  obtain c2 acts2 cnt where up: "upsertAll e wnow (debugFlagsLocked e (c\<lparr>coSelf := self\<rparr>)) peers ?c1 = Inr (c2, acts2)"
      and cnt: "nodeCount (ceCrash e) (coPeerMap c2) = Inr cnt"
      and c': "mapPeers c' = mapPeers (if cnt \<noteq> length peers then fst (dropStalePeers e wnow (map nvKey peers) (c2\<lparr>coPeersByID := ?new\<rparr>)) else c2)"
    using u newPeers_eq [of "[]" peers] d(1)
    by (auto simp: updateNodes_def Let_def split_beta comp_def split: if_splits sum.splits prod.splits)
  have inv2: "connInv c2" using connInv_upsertAll [OF _ up] inv by simp
  have p2: "mapPeers c2 = idKeys peers \<union> {x \<in> mapPeers c. fst x \<notin> nvID ` set peers}"
    using upsertAll_mapPeers [OF _ _ d up] inv ok by simp
  have card: "card (idKeys peers) = length peers"
  proof -
    have "distinct peers" "inj_on nvID (set peers)" using d(1) by (auto simp: distinct_map)
    then show ?thesis unfolding idKeys_def by (subst card_image) (auto simp: inj_on_def distinct_card)
  qed
  show ?thesis
  proof (cases "cnt = length peers")
    case True
    then have "card (mapPeers c2) = card (idKeys peers)" using card card_mapPeers(1) [OF inv2] nodeCount_agrees [OF inv2] cnt by simp
    then have "idKeys peers = mapPeers c2" using card_subset_eq [of "mapPeers c2" "idKeys peers"] card_mapPeers(2) [OF inv2] p2 by auto
    then show ?thesis using c' True by simp
  next
    case False
    then have "mapPeers c' = {x \<in> mapPeers c2. snd x \<in> nvKey ` set peers}"
      using c' dropStale_peers [of "c2\<lparr>coPeersByID := ?new\<rparr>"] inv2 by simp
    moreover have "fst x \<in> nvID ` set peers" if "x \<in> mapPeers c" "snd x \<in> nvKey ` set peers" for x
      using ok that by (cases x) (auto simp: keyMoved_def)
    ultimately show ?thesis unfolding p2 by (auto simp: idKeys_def)
  qed
qed


section \<open>Advertised keys\<close>

lemma advertisement_panic:
  assumes "connInv c"
  shows "HandleDiscoKeyAdvertisement nk dk c = Inl p \<longleftrightarrow> p = NilDiscoDereference \<and> dk = zeroDiscoKey \<and>
    (\<exists>r. endpointForNodeKey nk (coPeerMap c) = Some r \<and> \<not> deIsWireguardOnly (coEps c ! r) \<and> deDisco (coEps c ! r) \<noteq> None)"
proof (cases "endpointForNodeKey nk (coPeerMap c)")
  case (Some r)
  then have "epOk (coEps c ! r)" "r < length (coEps c)" using presentE [OF assms] present_lookups(2) [OF assms] by blast+
  then show ?thesis using Some
    by (cases "deDisco (coEps c ! r)")
       (auto simp: HandleDiscoKeyAdvertisement_def Let_def split_beta map_sum_Inl upsert_panic updateDiscoKey_def epOk_def)
qed (simp add: HandleDiscoKeyAdvertisement_def)

text \<open>
  C26. Where an update of a peer panics. In every reachable state, the update of a node panics exactly
  in these cases: with \<open>devPanicf\<close> set to crash, if the node has no id or no key or its key is in
  use under another id; and, whatever the setting, if an endpoint that is not WireGuard-only is
  updated with a node that has become WireGuard-only and has no disco key, where
  \<open>upsertEndpoint\<close> dereferences the disco state that has just been cleared. The advertisement of a
  disco key panics in the same place exactly if the all-zero key is advertised for an endpoint that
  has a disco key.
\<close>

theorem peer_update_panics_iff:
  assumes "connRun c"
  shows "(upsertPeerLocked e wnow n flags c = Inl p \<longleftrightarrow>
      (if nvID n = 0 then ceCrash e \<and> p = DevPanic ''node with zero ID''
       else if nvKey n = zeroNodeKey then ceCrash e \<and> p = DevPanic ''node with zero key''
       else if keyMoved (mapPeers c) n
       then ceCrash e \<and> p = DevPanic (if isMullvadName (nvName n) then ''public key moved between Mullvad nodeIDs'' else ''public key moved between nodeIDs'')
       else p = NilDiscoDereference \<and> nvDiscoKey n = zeroDiscoKey \<and> nvIsWireGuardOnly n \<and>
         (\<exists>r. endpointForNodeID (nvID n) (coPeerMap c) = Some r \<and> dePublicKey (coEps c ! r) = nvKey n \<and> \<not> deIsWireguardOnly (coEps c ! r))))
   \<and> (HandleDiscoKeyAdvertisement nk dk c = Inl p \<longleftrightarrow> p = NilDiscoDereference \<and> dk = zeroDiscoKey \<and>
      (\<exists>r. endpointForNodeKey nk (coPeerMap c) = Some r \<and> \<not> deIsWireguardOnly (coEps c ! r) \<and> deDisco (coEps c ! r) \<noteq> None))"
  using upsertPeer_panic [OF connRun_inv [OF assms], of e wnow n flags p] advertisement_panic [OF connRun_inv [OF assms], of nk dk p] by (rule conjI)
section \<open>Witnesses\<close>

text \<open>A peer is added to a new connection, and a map of two peers follows.\<close>

definition exView :: "int \<Rightarrow> u8 \<Rightarrow> bool \<Rightarrow> peerView" where
  "exView i k wg = \<lparr>nvExpired = False, nvDiscoKey = (if wg then zeroDiscoKey else replicate 32 (k + 100)), nvHomeDERP = 1,
     nvEndpoints = [exAP 0x01020304], nvCap = 130, nvID = i, nvKey = replicate 32 k, nvIsWireGuardOnly = wg, nvName = ''peer'',
     nvAddresses = [], nvRest = ''''\<rparr>"

definition exEnv :: connEnv where
  "exEnv = \<lparr>ceCrash = False, ceSilentDisco = False, ceView = exConn\<rparr>"

definition exOnePeer :: conn where
  "exOnePeer = (case UpsertPeer exEnv 5 (exView 7 9 False) newConn of Inr (c, _) \<Rightarrow> c | Inl _ \<Rightarrow> newConn)"

lemma exOnePeer_run: "connRun exOnePeer"
proof -
  have "\<not> isl (UpsertPeer exEnv 5 (exView 7 9 False) newConn)" by code_simp
  then obtain c acts where u: "UpsertPeer exEnv 5 (exView 7 9 False) newConn = Inr (c, acts)"
    by (cases "UpsertPeer exEnv 5 (exView 7 9 False) newConn") auto
  then show ?thesis using connRun.Step [OF connRun.New connStep.Upsert [OF u]] by (simp add: exOnePeer_def)
qed

theorem peer_indices_agree_witness:
  "endpointForNodeKey (replicate 32 9) (coPeerMap exOnePeer) = Some 0 \<and> endpointForNodeID 7 (coPeerMap exOnePeer) = Some 0
   \<and> set (forEachEndpointWithDiscoKey (replicate 32 109) (coPeerMap exOnePeer)) = {0}"
proof -
  have c: "endpointForNodeKey (replicate 32 9) (coPeerMap exOnePeer) = Some 0" "deNodeID (coEps exOnePeer ! 0) = 7"
     "set (forEachEndpointWithDiscoKey (replicate 32 109) (coPeerMap exOnePeer)) = {0}" by code_simp+
  then show ?thesis using peer_indices_agree [OF exOnePeer_run] by metis
qed


text \<open>The same peer comes back as a WireGuard-only node.\<close>

theorem peer_update_panics_iff_witness:
  "upsertPeerLocked exEnv 6 (exView 7 9 True) (debugFlagsLocked exEnv exOnePeer) exOnePeer = Inl NilDiscoDereference
   \<and> HandleDiscoKeyAdvertisement (replicate 32 9) zeroDiscoKey exOnePeer = Inl NilDiscoDereference"
proof -
  have *: "endpointForNodeID 7 (coPeerMap exOnePeer) = Some 0" "endpointForNodeKey (replicate 32 9) (coPeerMap exOnePeer) = Some 0"
     "dePublicKey (coEps exOnePeer ! 0) = replicate 32 9" "\<not> deIsWireguardOnly (coEps exOnePeer ! 0)" "deDisco (coEps exOnePeer ! 0) \<noteq> None"
     by code_simp+
  have "(7, replicate 32 9) \<in> mapPeers exOnePeer" using mapPeers_lookup [OF connRun_inv [OF exOnePeer_run]] * by blast
  then have "\<not> keyMoved (mapPeers exOnePeer) (exView 7 9 True)"
    using mapPeers_inj [OF connRun_inv [OF exOnePeer_run]] by (auto simp: keyMoved_def exView_def)
  moreover have "nvID (exView 7 9 True) = 7" "nvKey (exView 7 9 True) = replicate 32 9" "nvKey (exView 7 9 True) \<noteq> zeroNodeKey"
     "nvDiscoKey (exView 7 9 True) = zeroDiscoKey" "nvIsWireGuardOnly (exView 7 9 True)" by code_simp+
  ultimately show ?thesis
    using peer_update_panics_iff [OF exOnePeer_run, of exEnv 6 "exView 7 9 True" "debugFlagsLocked exEnv exOnePeer" NilDiscoDereference "replicate 32 9" zeroDiscoKey] * by auto
qed
end
