(* ===== verification/Conn_Disco.thy ===== *)
theory Conn_Disco
  imports Conn_Run
begin

text \<open>
  What a connection does with a disco message: \<open>handleDiscoMessageWithSource\<close> of
  \<open>src/wgengine/magicsock/magicsock.go\<close> and the handlers it calls. Opening the sealed box is a
  parameter (\<open>dxOpen\<close>), as is the relay manager's answer whether a handshake with a server is in
  progress; goroutines the code starts are actions.
\<close>

section \<open>Handlers\<close>

record discoRx =
  dxConn :: connEnv
  dxKnobs :: env
  dxOpen :: "discoKey \<Rightarrow> u8 list \<Rightarrow> u8 list option"
  dxRelayHandshake :: "discoKey \<Rightarrow> bool"
  dxNow :: mono
  dxWall :: walltime

definition isDerpSrc :: "epAddr \<Rightarrow> bool" where
  "isDerpSrc src \<longleftrightarrow> apAddr (ap src) = derpMagicIPAddr"

text \<open>The endpoint of \<open>nk\<close> has disco key \<open>dk\<close>.\<close>

definition nodeHasDisco :: "nodeKey \<Rightarrow> discoKey \<Rightarrow> conn \<Rightarrow> bool" where
  "nodeHasDisco nk dk c = (case endpointForNodeKey nk (coPeerMap c) of None \<Rightarrow> False | Some r \<Rightarrow> deDisco (coEps c ! r) = Some dk)"

definition unambiguousNodeKeyOfPingLocked :: "pingMsg \<Rightarrow> discoKey \<Rightarrow> nodeKey \<Rightarrow> conn \<Rightarrow> nodeKey option" where
  "unambiguousNodeKeyOfPingLocked dm dk derpNodeSrc c =
     (if derpNodeSrc \<noteq> zeroNodeKey \<and> nodeHasDisco derpNodeSrc dk c then Some derpNodeSrc
      else if pnNodeKey dm \<noteq> zeroNodeKey \<and> nodeHasDisco (pnNodeKey dm) dk c then Some (pnNodeKey dm)
      else case nodesOf (coPeerMap c) dk of [nk] \<Rightarrow> Some nk | _ \<Rightarrow> None)"

text \<open>The loop over the nodes of the disco key of a ping: it stops at a duplicate, and otherwise gives
  the number of nodes and the key to answer to.\<close>

fun candidateLoop :: "discoRx \<Rightarrow> addrPort \<Rightarrow> txID \<Rightarrow> epRef list \<Rightarrow> nat \<Rightarrow> nodeKey \<Rightarrow> conn \<Rightarrow> (nat \<times> nodeKey) option \<times> conn" where
  "candidateLoop x src tx [] numNodes dstKey c = (Some (numNodes, dstKey), c)"
| "candidateLoop x src tx (r # rs) numNodes dstKey c =
     (let (dup, de) = addCandidateEndpoint (ceView (dxConn x)) (dxWall x) src tx (coEps c ! r);
          c1 = c\<lparr>coEps := (coEps c)[r := de]\<rparr>
      in if dup then (None, c1)
         else candidateLoop x src tx rs (numNodes + 1)
                (if numNodes + 1 = 1 \<and> dstKey = zeroNodeKey then dePublicKey de else dstKey) c1)"

definition handlePingLocked :: "discoRx \<Rightarrow> pingMsg \<Rightarrow> epAddr \<Rightarrow> discoKey \<Rightarrow> nodeKey \<Rightarrow> conn \<Rightarrow> conn \<times> connAction list" where
  "handlePingLocked x dm src dk derpNodeSrc c =
     (let c0 = c\<lparr>coDiscoInfo := gm_set dk \<lparr>diLastPingFrom = src, diLastPingTime = dxWall x\<rparr> (coDiscoInfo c)\<rparr>;
          isDerp = isDerpSrc src
      in if vniIsSet (vni src) then (c0, if isDerp then [] else [RelayRxDisco (Ping dm) zeroNodeKey dk src])
         else if cvNeverDirectUDP (ceView (dxConn x)) \<and> \<not> isDerp then (c0, [])
         else
           let c1 = (case unambiguousNodeKeyOfPingLocked dm dk derpNodeSrc c0 of
                       Some nk \<Rightarrow> if isDerp then c0 else c0\<lparr>coPeerMap := setNodeKeyForEpAddr (coEps c0) src nk (coPeerMap c0)\<rparr>
                     | None \<Rightarrow> c0);
               (nodes, c2) = (if isDerp
                 then (Some (if endpointForNodeKey derpNodeSrc (coPeerMap c1) \<noteq> None then 1 else 0, derpNodeSrc), c1)
                 else let (res, c') = candidateLoop x (ap src) (pnTxID dm) (forEachEndpointWithDiscoKey dk (coPeerMap c1)) 0 derpNodeSrc c1
                      in (map_option (\<lambda>(n, k). (n, if n > 1 then zeroNodeKey else k)) res, c'))
           in case nodes of
                None \<Rightarrow> (c2, [])
              | Some (numNodes, dstKey) \<Rightarrow>
                  (c2, if numNodes = 0 then [] else [SendDiscoMessage src dstKey dk (Pong \<lparr>pgTxID = pnTxID dm, pgSrc = ap src\<rparr>)]))"

definition handleSourcePathProbeLocked :: "discoRx \<Rightarrow> pingMsg \<Rightarrow> epAddr \<Rightarrow> discoKey \<Rightarrow> conn \<Rightarrow> conn \<times> connAction list" where
  "handleSourcePathProbeLocked x dm src dk c =
     (if vniIsSet (vni src) \<or> isDerpSrc src then (c, [])
      else if cvNeverDirectUDP (ceView (dxConn x)) then (c, [])
      else
        let rs = forEachEndpointWithDiscoKey dk (coPeerMap c);
            (numNodes, dstKey) = (if pnNodeKey dm \<noteq> zeroNodeKey \<and> nodeHasDisco (pnNodeKey dm) dk c then (1, pnNodeKey dm)
              else (length rs, case rs of [] \<Rightarrow> zeroNodeKey | r # _ \<Rightarrow> dePublicKey (coEps c ! r)))
        in (c, if numNodes = 0 then []
               else [SendDiscoMessage src (if numNodes > 1 then zeroNodeKey else dstKey) dk (Pong \<lparr>pgTxID = pnTxID dm, pgSrc = ap src\<rparr>)]))"

text \<open>The verified address a method of endpoint \<open>r\<close> records in the peer map.\<close>

fun recordAddr :: "epRef \<Rightarrow> conn \<Rightarrow> epAction \<Rightarrow> conn" where
  "recordAddr r c (SetNodeKeyForEpAddr a) = c\<lparr>coPeerMap := setNodeKeyForEpAddr (coEps c) a (dePublicKey (coEps c ! r)) (coPeerMap c)\<rparr>"
| "recordAddr r c _ = c"

fun pongLoop :: "discoRx \<Rightarrow> pongMsg \<Rightarrow> epAddr \<Rightarrow> epRef list \<Rightarrow> conn \<Rightarrow> bool \<times> conn \<times> connAction list" where
  "pongLoop x m src [] c = (False, c, [])"
| "pongLoop x m src (r # rs) c =
     (let ((known, de), acts) = handlePongConnLocked (ceView (dxConn x)) (dxNow x) (dxWall x) m src (coEps c ! r);
          c1 = foldl (recordAddr r) (c\<lparr>coEps := (coEps c)[r := de]\<rparr>) acts
      in if known then (True, c1, map (EpAct r) acts)
         else let (k, c2, acts') = pongLoop x m src rs c1 in (k, c2, map (EpAct r) acts @ acts'))"

definition handlePongMsg :: "discoRx \<Rightarrow> pongMsg \<Rightarrow> epAddr \<Rightarrow> discoKey \<Rightarrow> sourceRxMeta \<Rightarrow> conn \<Rightarrow> conn \<times> connAction list" where
  "handlePongMsg x m src sender meta c =
     (let (mine, pm) = handlePongLocked (dxKnobs x) m sender src meta (dxNow x) (coSourceProbes c);
          c0 = c\<lparr>coSourceProbes := pm\<rparr>
      in if mine then (c0, [])
         else let (known, c1, acts) = pongLoop x m src (forEachEndpointWithDiscoKey sender (coPeerMap c0)) c0
              in (c1, acts @ (if \<not> known \<and> vniIsSet (vni src) then [RelayRxDisco (Pong m) zeroNodeKey sender src] else [])))"

text \<open>\<open>CallMeMaybe\<close> and \<open>CallMeMaybeVia\<close>: \<open>via\<close> is the relay endpoint offered.\<close>

definition handleCallMeMaybes ::
    "discoRx \<Rightarrow> addrPort list \<Rightarrow> UDPRelayEndpoint option \<Rightarrow> epAddr \<Rightarrow> discoKey \<Rightarrow> nodeKey \<Rightarrow> conn \<Rightarrow> connAction list" where
  "handleCallMeMaybes x cmm via src dk derpNodeSrc c =
     (if \<not> isDerpSrc src \<or> derpNodeSrc = zeroNodeKey then []
      else case endpointForNodeKey derpNodeSrc (coPeerMap c) of
        None \<Rightarrow> []
      | Some r \<Rightarrow>
          let ep = coEps c ! r
          in if via \<noteq> None \<and> \<not> coRelayClientEnabled c then []
             else if via \<noteq> None \<and> \<not> deRelayCapable ep then []
             else if deDisco ep \<noteq> Some dk then []
             else case via of
                    Some v \<Rightarrow> [RelayCallMeMaybeVia r (deBestAddr ep) (mbefore (dxNow x) (deTrustBestAddrUntil ep)) v]
                  | None \<Rightarrow> [HandleCallMeMaybe r cmm])"

text \<open>The relay allocation messages: \<open>Inl\<close> a request, \<open>Inr\<close> a response.\<close>

definition handleAllocate ::
    "AllocateUDPRelayEndpointRequest + message \<Rightarrow> epAddr \<Rightarrow> discoKey \<Rightarrow> nodeKey \<Rightarrow> conn \<Rightarrow> connAction list" where
  "handleAllocate rr src sender derpNodeSrc c =
     (if \<not> isDerpSrc src then []
      else case endpointForNodeKey derpNodeSrc (coPeerMap c) of
        None \<Rightarrow> []
      | Some r \<Rightarrow>
          if deDisco (coEps c ! r) \<noteq> Some sender then []
          else case rr of
            Inr resp \<Rightarrow> [RelayRxDisco resp derpNodeSrc sender src]
          | Inl req \<Rightarrow>
              if sender \<noteq> fst (arClientDisco req) \<and> sender \<noteq> snd (arClientDisco req) then []
              else if coFilt c = None then []
              else case gm_get (coPeersByID c) (deNodeID (coEps c ! r)) of
                None \<Rightarrow> []
              | Some peer \<Rightarrow> if \<not> nodeHasCap (coFilt c) (Some peer) (coSelf c) PeerCapabilityRelay then []
                             else [PublishAllocReq sender derpNodeSrc req])"

text \<open>The switch on the type of an opened message.\<close>

fun dispatchDisco :: "discoRx \<Rightarrow> message \<Rightarrow> epAddr \<Rightarrow> discoKey \<Rightarrow> nodeKey \<Rightarrow> sourceRxMeta \<Rightarrow> conn \<Rightarrow> conn \<times> connAction list" where
  "dispatchDisco x (Ping dm) src sender derpNodeSrc meta c = handlePingLocked x dm src sender derpNodeSrc c"
| "dispatchDisco x (SourcePathProbe dm) src sender derpNodeSrc meta c = handleSourcePathProbeLocked x dm src sender c"
| "dispatchDisco x (Pong m) src sender derpNodeSrc meta c = handlePongMsg x m src sender meta c"
| "dispatchDisco x (CallMeMaybe ipps) src sender derpNodeSrc meta c = (c, handleCallMeMaybes x ipps None src sender derpNodeSrc c)"
| "dispatchDisco x (CallMeMaybeVia v) src sender derpNodeSrc meta c = (c, handleCallMeMaybes x [] (Some v) src sender derpNodeSrc c)"
| "dispatchDisco x (AllocateRequest req) src sender derpNodeSrc meta c = (c, handleAllocate (Inl req) src sender derpNodeSrc c)"
| "dispatchDisco x (AllocateResponse g e) src sender derpNodeSrc meta c =
     (c, handleAllocate (Inr (AllocateResponse g e)) src sender derpNodeSrc c)"
| "dispatchDisco x _ src sender derpNodeSrc meta c = (c, [])"

text \<open>The receive time of the endpoint behind the source address.\<close>

definition noteRecvUDP :: "mono \<Rightarrow> epAddr \<Rightarrow> conn \<Rightarrow> conn" where
  "noteRecvUDP now src c = (case endpointForEpAddr src (coPeerMap c) of
       Some r \<Rightarrow> c\<lparr>coEps := (coEps c)[r := (coEps c ! r)\<lparr>deLastRecvUDPAny := now\<rparr>]\<rparr>
     | None \<Rightarrow> c)"

text \<open>After the box is open.\<close>

definition handleOpened ::
    "discoRx \<Rightarrow> u8 list \<Rightarrow> epAddr \<Rightarrow> bool \<Rightarrow> discoKey \<Rightarrow> nodeKey \<Rightarrow> sourceRxMeta \<Rightarrow> conn \<Rightarrow> conn \<times> connAction list" where
  "handleOpened x payload src relayHandshake sender derpNodeSrc meta c =
     (case Parse payload of
        Inl _ \<Rightarrow> (c, [])
      | Inr dm \<Rightarrow>
          if relayHandshake
          then (c, case dm of BindUDPRelayEndpointChallenge _ \<Rightarrow> [RelayRxDisco dm zeroNodeKey sender src] | _ \<Rightarrow> [])
          else dispatchDisco x dm src sender derpNodeSrc meta c)"

definition discoSender :: "u8 list \<Rightarrow> discoKey" where
  "discoSender msg = take 32 (drop 6 msg)"

definition handleDiscoMessageWithSource ::
    "discoRx \<Rightarrow> u8 list \<Rightarrow> epAddr \<Rightarrow> bool \<Rightarrow> nodeKey \<Rightarrow> sourceRxMeta \<Rightarrow> conn \<Rightarrow> conn cstep" where
  "handleDiscoMessageWithSource x msg src relayHandshake derpNodeSrc meta c =
     (if length msg < discoHeaderLen then Inl SliceOutOfRange
      else
        let sender = discoSender msg
        in if coClosed c then Inr (c, [])
           else if coPrivateKey c = zeroPrivateKey then Inr (c, [])
           else if relayHandshake \<and> \<not> dxRelayHandshake x sender then Inr (c, [])
           else if \<not> relayHandshake \<and> \<not> knownPeerDiscoKey sender (coPeerMap c) then Inr (c, [])
           else
             let c0 = (if relayHandshake then c else snd (discoInfoForKnownPeerLocked sender c));
                 c1 = (if \<not> isDerpSrc src \<and> \<not> relayHandshake then noteRecvUDP (dxNow x) src c0 else c0)
             in case dxOpen x sender (drop discoHeaderLen msg) of
                  None \<Rightarrow> Inr (c1, [])
                | Some payload \<Rightarrow> Inr (handleOpened x payload src relayHandshake sender derpNodeSrc meta c1))"

definition handleDiscoMessage :: "discoRx \<Rightarrow> u8 list \<Rightarrow> epAddr \<Rightarrow> bool \<Rightarrow> nodeKey \<Rightarrow> conn \<Rightarrow> conn cstep" where
  "handleDiscoMessage x msg src relayHandshake derpNodeSrc c =
     handleDiscoMessageWithSource x msg src relayHandshake derpNodeSrc primarySourceRxMeta c"

section \<open>Handlers are runs of steps\<close>

definition connSteps :: "conn \<Rightarrow> conn \<Rightarrow> bool" where
  "connSteps = rtranclp (\<lambda>c c'. \<exists>acts. connStep c acts c')"

lemma connSteps_refl [simp]: "connSteps c c"
  by (simp add: connSteps_def)

lemma connSteps_trans [trans]: "connSteps c c1 \<Longrightarrow> connSteps c1 c2 \<Longrightarrow> connSteps c c2"
  by (simp add: connSteps_def)

lemma connSteps_step: "connStep c acts c' \<Longrightarrow> connSteps c c'"
  unfolding connSteps_def by (rule r_into_rtranclp) (rule exI)

lemma connSteps_run:
  assumes "connSteps c c'" "connRun c"
  shows "connRun c'"
  using assms(1) unfolding connSteps_def
proof (induction rule: rtranclp_induct)
  case (step c1 c2)
  then show ?case using connRun.Step by blast
qed (rule assms(2))

lemma connSteps_inv:
  assumes "connSteps c c'" "connInv c"
  shows "connInv c'"
  using assms(1) unfolding connSteps_def
proof (induction rule: rtranclp_induct)
  case (step c1 c2)
  then show ?case using connStep_inv by blast
qed (rule assms(2))

text \<open>What a handler leaves alone: the identities of the endpoints.\<close>

definition sameIdents :: "conn \<Rightarrow> conn \<Rightarrow> bool" where
  "sameIdents c c' \<longleftrightarrow> (\<forall>j. ident (coEps c' ! j) = ident (coEps c ! j))"

lemma sameIdents_refl [simp]: "sameIdents c c"
  by (simp add: sameIdents_def)

lemma sameIdents_trans: "sameIdents c c1 \<Longrightarrow> sameIdents c1 c2 \<Longrightarrow> sameIdents c c2"
  by (simp add: sameIdents_def)

lemma sameIdents_frame [simp]:
  "sameIdents c (c'\<lparr>coPeerMap := m\<rparr>) = sameIdents c c'" "sameIdents c (c'\<lparr>coDiscoInfo := d\<rparr>) = sameIdents c c'"
  "sameIdents c (c'\<lparr>coSourceProbes := p\<rparr>) = sameIdents c c'"
  by (simp_all add: sameIdents_def)

lemma sameIdents_update: "ident de = ident (coEps c ! r) \<Longrightarrow> sameIdents c (c\<lparr>coEps := (coEps c)[r := de]\<rparr>)"
  by (cases "r < length (coEps c)") (auto simp: sameIdents_def nth_list_update list_update_beyond)

lemma sameIdents_disco: "sameIdents c c' \<Longrightarrow> deDisco (coEps c' ! r) = deDisco (coEps c ! r) \<and> dePublicKey (coEps c' ! r) = dePublicKey (coEps c ! r)"
  by (simp add: sameIdents_def ident_def)

lemma lookup_setNodeKey [simp]: "endpointForNodeKey k (setNodeKeyForEpAddr eps a nk m) = endpointForNodeKey k m"
  by (simp add: endpointForNodeKey_def)

lemma candidateLoop_steps:
  assumes "candidateLoop x src tx rs n k c = (res, c')"
  shows "connSteps c c' \<and> sameIdents c c' \<and> coPeerMap c' = coPeerMap c"
  using assms
proof (induction rs arbitrary: n k c)
  case (Cons r rs)
  let ?a = "addCandidateEndpoint (ceView (dxConn x)) (dxWall x) src tx (coEps c ! r)"
  let ?c1 = "c\<lparr>coEps := (coEps c)[r := snd ?a]\<rparr>"
  have id: "ident (snd ?a) = ident (coEps c ! r)" by simp
  have 1: "connSteps c ?c1" "sameIdents c ?c1"
    using connSteps_step [OF connStep.EndpointCall [OF epStep.Candidate id]] sameIdents_update [OF id] by simp_all
  show ?case
  proof (cases "fst ?a")
    case True
    then have "c' = ?c1" using Cons.prems by (simp add: split_beta Let_def)
    then show ?thesis using 1 by simp
  next
    case False
    then have "connSteps ?c1 c' \<and> sameIdents ?c1 c' \<and> coPeerMap c' = coPeerMap ?c1"
      using Cons.prems by (intro Cons.IH) (simp add: split_beta Let_def)
    then show ?thesis using 1 connSteps_trans [of c ?c1 c'] sameIdents_trans [of c ?c1 c'] by simp
  qed
qed simp

lemma coPeerMap_recordAddr_eps [simp]: "coEps (foldl (recordAddr r) c acts) = coEps c"
proof -
  have "coEps (recordAddr r c a) = coEps c" for c a by (cases a) simp_all
  then show ?thesis by (induction acts arbitrary: c) simp_all
qed

lemma recordAddr_steps: "connSteps c (foldl (recordAddr r) c acts)"
proof (induction acts arbitrary: c)
  case (Cons a acts)
  have "connSteps c (recordAddr r c a)"
    by (cases a) (simp_all add: connSteps_step [OF connStep.VerifiedAddress])
  then show ?case using Cons [of "recordAddr r c a"] connSteps_trans by simp
qed simp

text \<open>A pong that is not of the endpoint changes nothing; one that is records at most its source.\<close>

lemma handlePong_acts:
  assumes "handlePongConnLocked cv now wnow m src de = ((known, de'), acts)"
  shows "\<not> known \<Longrightarrow> de' = de \<and> acts = []"
    "SetNodeKeyForEpAddr a \<in> set acts \<Longrightarrow> a = src \<and> \<not> isDerpSrc src \<and> \<not> vniIsSet (vni src)"
proof -
  show "\<not> known \<Longrightarrow> de' = de \<and> acts = []"
    using assms by (auto simp: handlePongConnLocked_def Let_def andThen_def split: option.splits prod.splits if_splits)
  have rm: "SetNodeKeyForEpAddr a \<notin> set (snd (removeSentDiscoPingLocked cv wnow txid sp result de))" for txid sp result de
    by (simp add: removeSentDiscoPingLocked_def snd_andThen probeUDPLifetimeCliffDoneLocked_def
        scheduleHeartbeatForLifetimeLocked_def Let_def split: option.split maybeProbe.split)
  have cb: "SetNodeKeyForEpAddr a \<notin> set (snd (replyCallback l sp de))" for l sp de
    by (simp add: replyCallback_def split: option.split)
  show "a = src \<and> \<not> isDerpSrc src \<and> \<not> vniIsSet (vni src)" if "SetNodeKeyForEpAddr a \<in> set acts"
  proof -
    have "SetNodeKeyForEpAddr a \<in> set (snd (handlePongConnLocked cv now wnow m src de))" using that assms by simp
    then show ?thesis
      by (auto simp: handlePongConnLocked_def snd_andThen Let_def rm cb isDerpSrc_def split: option.splits if_splits)
  qed
qed

text \<open>Who an address can lead to after a handler: where it led before, or, for the source of a direct
  message, an endpoint that has the disco key of its sender.\<close>

definition boundBy :: "epAddr \<Rightarrow> discoKey \<Rightarrow> conn \<Rightarrow> conn \<Rightarrow> bool" where
  "boundBy src dk c c' \<longleftrightarrow> (\<forall>a r. endpointForEpAddr a (coPeerMap c') = Some r \<longrightarrow>
     endpointForEpAddr a (coPeerMap c) = Some r
     \<or> a = src \<and> deDisco (coEps c ! r) = Some dk \<and> \<not> isDerpSrc src \<and> \<not> vniIsSet (vni src))"

lemma boundBy_same: "coPeerMap c' = coPeerMap c \<Longrightarrow> boundBy src dk c c'"
  by (simp add: boundBy_def)

lemma boundBy_trans: "boundBy src dk c c1 \<Longrightarrow> boundBy src dk c1 c2 \<Longrightarrow> sameIdents c c1 \<Longrightarrow> boundBy src dk c c2"
  using sameIdents_disco [of c c1] unfolding boundBy_def by metis

lemma boundBy_record:
  assumes "connInv c" "endpointForNodeKey nk (coPeerMap c) = Some r" "deDisco (coEps c ! r) = Some dk" "\<not> isDerpSrc src" "\<not> vniIsSet (vni src)"
  shows "boundBy src dk c (c\<lparr>coPeerMap := setNodeKeyForEpAddr (coEps c) src nk (coPeerMap c)\<rparr>)"
proof -
  obtain i where i: "gm_get (mpByNodeKey (coPeerMap c)) nk = Some i" "infoEp (coPeerMap c) i = r"
    using assms(2) by (auto simp: endpointForNodeKey_def split: if_splits)
  have "peerInv (coEps c) (coPeerMap c)" using assms(1) by (simp add: connInv_def)
  note get = setNodeKey_get [OF this i(1), of src]
  show ?thesis using assms(3-5) i(2) by (auto simp: boundBy_def endpointForEpAddr_def get)
qed

lemma foldl_recordAddr_bound:
  assumes "connInv c" "endpointForNodeKey (dePublicKey (coEps c ! r)) (coPeerMap c) = Some r" "deDisco (coEps c ! r) = Some dk"
    "\<And>a. SetNodeKeyForEpAddr a \<in> set acts \<Longrightarrow> a = src \<and> \<not> isDerpSrc src \<and> \<not> vniIsSet (vni src)"
  shows "boundBy src dk c (foldl (recordAddr r) c acts)"
  using assms
proof (induction acts arbitrary: c)
  case (Cons a acts)
  let ?c1 = "recordAddr r c a"
  have 1: "boundBy src dk c ?c1 \<and> sameIdents c ?c1 \<and> connInv ?c1 \<and> endpointForNodeKey (dePublicKey (coEps ?c1 ! r)) (coPeerMap ?c1) = Some r
    \<and> deDisco (coEps ?c1 ! r) = Some dk"
  proof (cases "\<exists>b. a = SetNodeKeyForEpAddr b")
    case True
    then have a: "a = SetNodeKeyForEpAddr src" "\<not> isDerpSrc src" "\<not> vniIsSet (vni src)" using Cons.prems(4) by auto
    have "connInv ?c1" using connStep_inv [OF connStep.VerifiedAddress Cons.prems(1)] a(1) by simp
    then show ?thesis using boundBy_record [OF Cons.prems(1-3) a(2,3)] Cons.prems(2,3) a(1) by simp
  next
    case False
    then have "?c1 = c" by (cases a) auto
    then show ?thesis using Cons.prems by (simp add: boundBy_same)
  qed
  then have "boundBy src dk ?c1 (foldl (recordAddr r) ?c1 acts)" using Cons.prems(4) by (intro Cons.IH) auto
  then show ?case using 1 boundBy_trans [of src dk c ?c1] by simp
qed (simp add: boundBy_same)

lemma pongLoop_steps:
  assumes "connInv c" "\<forall>r\<in>set rs. present (coPeerMap c) r \<and> deDisco (coEps c ! r) = Some dk" "pongLoop x m src rs c = (known, c', acts)"
  shows "connSteps c c' \<and> sameIdents c c' \<and> boundBy src dk c c'"
  using assms
proof (induction rs arbitrary: c acts)
  case (Cons r rs)
  obtain k de acts1 where h: "handlePongConnLocked (ceView (dxConn x)) (dxNow x) (dxWall x) m src (coEps c ! r) = ((k, de), acts1)" by (metis prod.exhaust)
  have id: "ident de = ident (coEps c ! r)" using ident_handlePong [of "ceView (dxConn x)" "dxNow x" "dxWall x" m src "coEps c ! r"] h by simp
  let ?c0 = "c\<lparr>coEps := (coEps c)[r := de]\<rparr>" let ?c1 = "foldl (recordAddr r) ?c0 acts1"
  have s0: "connSteps c ?c0" by (rule connSteps_step [OF connStep.EndpointCall [OF epStep.Pong [OF h] id]])
  have i0: "sameIdents c ?c0" by (rule sameIdents_update [OF id])
  have inv0: "connInv ?c0" by (rule connSteps_inv [OF s0 Cons.prems(1)])
  have "present (coPeerMap c) r" "deDisco (coEps c ! r) = Some dk" using Cons.prems(2) by simp_all
  then have "endpointForNodeKey (dePublicKey (coEps ?c0 ! r)) (coPeerMap ?c0) = Some r" "deDisco (coEps ?c0 ! r) = Some dk"
    using present_lookups(2) [OF inv0] sameIdents_disco [OF i0] by simp_all
  then have b1: "boundBy src dk ?c0 ?c1" using foldl_recordAddr_bound [OF inv0] handlePong_acts(2) [OF h] by blast
  have b: "boundBy src dk c ?c1" by (rule boundBy_trans [OF boundBy_same b1 i0]) simp
  have s1: "connSteps c ?c1" using connSteps_trans [OF s0 recordAddr_steps] .
  have i1: "sameIdents c ?c1" using i0 by (simp add: sameIdents_def)
  show ?case
  proof (cases k)
    case True
    then have "c' = ?c1" using Cons.prems(3) h by (simp add: Let_def)
    then show ?thesis using b s1 i1 by simp
  next
    case False
    then have same: "de = coEps c ! r" "acts1 = []" using handlePong_acts(1) [OF h] by auto
    then have c1: "?c1 = c" by simp
    obtain acts2 where "pongLoop x m src rs c = (known, c', acts2)"
      using Cons.prems(3) h False c1 by (auto simp: Let_def split: prod.splits)
    then show ?thesis using Cons.IH [OF Cons.prems(1)] Cons.prems(2) by simp
  qed
qed (simp add: boundBy_same)

lemma withDisco:
  assumes "connInv c"
  shows "r \<in> set (forEachEndpointWithDiscoKey dk (coPeerMap c)) \<Longrightarrow> present (coPeerMap c) r \<and> deDisco (coEps c ! r) = Some dk"
    "nk \<in> set (nodesOf (coPeerMap c) dk) \<Longrightarrow> nk \<noteq> zeroNodeKey \<Longrightarrow> nodeHasDisco nk dk c"
proof -
  have disco: "k \<in> set (nodesOf (coPeerMap c) dk) \<longleftrightarrow>
      (\<exists>i. gm_get (mpByNodeKey (coPeerMap c)) k = Some i \<and> \<not> deIsWireguardOnly (coEps c ! infoEp (coPeerMap c) i)
         \<and> deDisco (coEps c ! infoEp (coPeerMap c) i) = Some dk)" for k
    using assms by (simp add: connInv_def peerInv_def discoInv_def)
  show "r \<in> set (forEachEndpointWithDiscoKey dk (coPeerMap c)) \<Longrightarrow> present (coPeerMap c) r \<and> deDisco (coEps c ! r) = Some dk"
    by (auto simp: forEachEndpointWithDiscoKey_def List.map_filter_def disco present_def, blast)
  show "nk \<in> set (nodesOf (coPeerMap c) dk) \<Longrightarrow> nk \<noteq> zeroNodeKey \<Longrightarrow> nodeHasDisco nk dk c"
    by (auto simp: disco nodeHasDisco_def endpointForNodeKey_def)
qed

text \<open>The node key a ping is attributed to has the disco key that sent it.\<close>

lemma nodesOf_nonzero: "connInv c \<Longrightarrow> nk \<in> set (nodesOf (coPeerMap c) dk) \<Longrightarrow> nk \<noteq> zeroNodeKey"
proof -
  assume inv: "connInv c" and nk: "nk \<in> set (nodesOf (coPeerMap c) dk)"
  then obtain i where i: "gm_get (mpByNodeKey (coPeerMap c)) nk = Some i" by (auto simp: connInv_def peerInv_def discoInv_def)
  then have "present (coPeerMap c) (infoEp (coPeerMap c) i)" by (auto simp: present_def)
  moreover have "dePublicKey (coEps c ! infoEp (coPeerMap c) i) = nk"
    using inv i by (auto simp: connInv_def peerInv_def dest: keysInvD(3))
  ultimately show ?thesis using presentE [OF inv] by (metis epOk_def)
qed

lemma unambiguous_hasDisco:
  assumes "connInv c" "unambiguousNodeKeyOfPingLocked dm dk dns c = Some nk"
  shows "nodeHasDisco nk dk c"
  using assms(2) withDisco(2) [OF assms(1), of nk dk] nodesOf_nonzero [OF assms(1), of nk dk]
  by (auto simp: unambiguousNodeKeyOfPingLocked_def split: if_splits list.splits)

definition sound :: "epAddr \<Rightarrow> discoKey \<Rightarrow> conn \<Rightarrow> conn \<Rightarrow> bool" where
  "sound src dk c c' \<longleftrightarrow> connSteps c c' \<and> sameIdents c c' \<and> boundBy src dk c c'"

lemma sound_trans: "sound src dk c c1 \<Longrightarrow> sound src dk c1 c2 \<Longrightarrow> sound src dk c c2"
  unfolding sound_def using connSteps_trans sameIdents_trans boundBy_trans by blast

lemma sound_frame [simp]:
  "sound src dk c (c\<lparr>coDiscoInfo := d\<rparr>)" "sound src dk c (c\<lparr>coSourceProbes := p\<rparr>)" "sound src dk c c"
proof -
  have "connSteps c (c\<lparr>coSourceProbes := p\<rparr>)" using connSteps_step [OF connStep.SourcePaths [of c _ "coSourcePath c" p]] by simp
  then show "sound src dk c (c\<lparr>coDiscoInfo := d\<rparr>)" "sound src dk c (c\<lparr>coSourceProbes := p\<rparr>)" "sound src dk c c"
    by (simp_all add: sound_def boundBy_same connSteps_step [OF connStep.DiscoInfo])
qed

lemma sound_inv: "sound src dk c c' \<Longrightarrow> connInv c \<Longrightarrow> connInv c'"
  by (auto simp: sound_def dest: connSteps_inv)

lemma sound_ping:
  assumes "connInv c"
  shows "sound src dk c (fst (handlePingLocked x dm src dk dns c))"
proof -
  let ?c0 = "c\<lparr>coDiscoInfo := gm_set dk \<lparr>diLastPingFrom = src, diLastPingTime = dxWall x\<rparr> (coDiscoInfo c)\<rparr>"
  let ?c1 = "case unambiguousNodeKeyOfPingLocked dm dk dns ?c0 of
     Some nk \<Rightarrow> if isDerpSrc src then ?c0 else ?c0\<lparr>coPeerMap := setNodeKeyForEpAddr (coEps ?c0) src nk (coPeerMap ?c0)\<rparr> | None \<Rightarrow> ?c0"
  let ?l = "candidateLoop x (ap src) (pnTxID dm) (forEachEndpointWithDiscoKey dk (coPeerMap ?c1)) 0 dns ?c1"
  have c0: "sound src dk c ?c0" by simp
  note inv0 = sound_inv [OF c0 assms]
  have c1: "sound src dk ?c0 ?c1" if "\<not> vniIsSet (vni src)"
  proof (cases "isDerpSrc src \<or> unambiguousNodeKeyOfPingLocked dm dk dns ?c0 = None")
    case False
    then obtain nk where nk: "unambiguousNodeKeyOfPingLocked dm dk dns ?c0 = Some nk" by blast
    then obtain r where r: "endpointForNodeKey nk (coPeerMap ?c0) = Some r" "deDisco (coEps ?c0 ! r) = Some dk"
      using unambiguous_hasDisco [OF inv0] by (fastforce simp: nodeHasDisco_def split: option.splits)
    show ?thesis using boundBy_record [OF inv0 r _ that] connSteps_step [OF connStep.VerifiedAddress, of ?c0] False nk
      by (simp add: sound_def)
  qed (auto split: option.split)
  have c2: "sound src dk ?c1 (snd ?l)"
    using candidateLoop_steps [of x "ap src" "pnTxID dm" "forEachEndpointWithDiscoKey dk (coPeerMap ?c1)" 0 dns ?c1 "fst ?l" "snd ?l"]
    by (simp add: sound_def boundBy_same)
  have "fst (handlePingLocked x dm src dk dns c) \<in> {?c0} \<union> (if vniIsSet (vni src) then {} else {?c1, snd ?l})"
    unfolding handlePingLocked_def Let_def by (auto simp: split_beta split: option.split)
  then consider "fst (handlePingLocked x dm src dk dns c) = ?c0"
    | "\<not> vniIsSet (vni src)" "fst (handlePingLocked x dm src dk dns c) = ?c1"
    | "\<not> vniIsSet (vni src)" "fst (handlePingLocked x dm src dk dns c) = snd ?l" by (auto split: if_splits)
  then show ?thesis
  proof cases
    case 1
    then show ?thesis using c0 by simp
  next
    case 2
    then show ?thesis using sound_trans [OF c0 c1] by simp
  next
    case 3
    then show ?thesis using sound_trans [OF sound_trans [OF c0 c1] c2] by simp
  qed
qed

lemma sound_pong:
  assumes "connInv c"
  shows "sound src dk c (fst (handlePongMsg x m src dk meta c))"
proof -
  let ?h = "handlePongLocked (dxKnobs x) m dk src meta (dxNow x) (coSourceProbes c)"
  let ?c0 = "c\<lparr>coSourceProbes := snd ?h\<rparr>"
  let ?l = "pongLoop x m src (forEachEndpointWithDiscoKey dk (coPeerMap ?c0)) ?c0"
  have inv0: "connInv ?c0" using assms by simp
  have "sound src dk ?c0 (fst (snd ?l))"
    using pongLoop_steps [OF inv0, of "forEachEndpointWithDiscoKey dk (coPeerMap ?c0)" dk x m src "fst ?l" "fst (snd ?l)" "snd (snd ?l)"] withDisco(1) [OF inv0]
    by (simp add: sound_def)
  then have "sound src dk c (fst (snd ?l))" using sound_trans [OF sound_frame(2)] by blast
  then show ?thesis by (simp add: handlePongMsg_def Let_def split_beta)
qed

lemma sound_noteRecvUDP:
  assumes "connInv c"
  shows "sound src dk c (noteRecvUDP now src c)"
proof (cases "endpointForEpAddr src (coPeerMap c)")
  case (Some r)
  have "ident ((coEps c ! r)\<lparr>deLastRecvUDPAny := now\<rparr>) = ident (coEps c ! r)" by simp
  from sameIdents_update [OF this] connSteps_step [OF connStep.EndpointCall [OF epStep.RecvUDP this]]
  show ?thesis using Some by (simp add: noteRecvUDP_def sound_def boundBy_same)
qed (simp add: noteRecvUDP_def)

lemma sound_dispatch: "connInv c \<Longrightarrow> sound src dk c (fst (dispatchDisco x dm src dk dns meta c))"
  by (cases dm) (simp_all add: sound_ping sound_pong handleSourcePathProbeLocked_def Let_def split_beta)

lemma sound_opened: "connInv c \<Longrightarrow> sound src dk c (fst (handleOpened x payload src rh dk dns meta c))"
  by (simp add: handleOpened_def sound_dispatch split: sum.split)

text \<open>The state in which the box is opened.\<close>

definition atOpen :: "discoRx \<Rightarrow> epAddr \<Rightarrow> bool \<Rightarrow> discoKey \<Rightarrow> conn \<Rightarrow> conn" where
  "atOpen x src rh dk c =
     (let c0 = (if rh then c else snd (discoInfoForKnownPeerLocked dk c))
      in if \<not> isDerpSrc src \<and> \<not> rh then noteRecvUDP (dxNow x) src c0 else c0)"

lemma handleDisco_cases:
  assumes "handleDiscoMessageWithSource x msg src rh dns meta c = Inr (c', acts)"
  obtains (ignored) "c' = c" "acts = []"
  | (unopened) "c' = atOpen x src rh (discoSender msg) c" "acts = []" "dxOpen x (discoSender msg) (drop discoHeaderLen msg) = None"
  | (opened) payload where "dxOpen x (discoSender msg) (drop discoHeaderLen msg) = Some payload"
      "(c', acts) = handleOpened x payload src rh (discoSender msg) dns meta (atOpen x src rh (discoSender msg) c)"
      "if rh then dxRelayHandshake x (discoSender msg) else knownPeerDiscoKey (discoSender msg) (coPeerMap c)"
      "\<not> coClosed c" "coPrivateKey c \<noteq> zeroPrivateKey"
  using assms that unfolding handleDiscoMessageWithSource_def Let_def atOpen_def
  by (cases "dxOpen x (discoSender msg) (drop discoHeaderLen msg)"; cases rh) (simp_all split: if_splits)

lemma sound_atOpen: "connInv c \<Longrightarrow> sound src dk c (atOpen x src rh dk' c)"
proof -
  assume inv: "connInv c"
  let ?c0 = "snd (discoInfoForKnownPeerLocked dk' c)"
  have c0: "sound src dk c ?c0"
    by (simp add: discoInfoForKnownPeerLocked_def Let_def split: option.split)
  have "connInv ?c0" using inv by simp
  note c1 = sound_trans [OF c0 sound_noteRecvUDP [OF this]]
  show ?thesis using c0 c1 [of "dxNow x"] by (simp add: atOpen_def Let_def)
qed

lemma sound_handleDisco:
  assumes "connInv c" "handleDiscoMessageWithSource x msg src rh dns meta c = Inr (c', acts)"
  shows "sound src (discoSender msg) c c'"
  using assms(2)
proof (cases rule: handleDisco_cases)
  case (opened payload)
  note a = sound_atOpen [OF assms(1), of src "discoSender msg" x rh "discoSender msg"]
  show ?thesis using sound_trans [OF a sound_opened [OF sound_inv [OF a assms(1)], of src "discoSender msg" x payload rh dns meta]] opened(2)
    by (metis fst_conv)
qed (use sound_atOpen [OF assms(1)] in simp_all)

lemma atOpen_eps: "map (\<lambda>de. de\<lparr>deLastRecvUDPAny := 0\<rparr>) (coEps (atOpen x src rh dk c)) = map (\<lambda>de. de\<lparr>deLastRecvUDPAny := 0\<rparr>) (coEps c)"
proof -
  have "map (\<lambda>de. de\<lparr>deLastRecvUDPAny := 0\<rparr>) (xs[r := (xs ! r)\<lparr>deLastRecvUDPAny := t\<rparr>]) = map (\<lambda>de. de\<lparr>deLastRecvUDPAny := 0\<rparr>) xs" for xs :: "endpoint list" and r t
    by (cases "r < length xs") (auto intro!: nth_equalityI simp: nth_list_update list_update_beyond)
  then show ?thesis by (simp add: atOpen_def noteRecvUDP_def Let_def split: option.split)
qed

lemma boundBy_refines: "boundBy src dk c c' \<Longrightarrow> endpointForEpAddr a (coPeerMap c') = Some r \<Longrightarrow>
  endpointForEpAddr a (coPeerMap c) = Some r \<or> a = src \<and> deDisco (coEps c ! r) = Some dk \<and> \<not> isDerpSrc src \<and> \<not> vniIsSet (vni src)"
  by (simp add: boundBy_def)

section \<open>What a message can do\<close>

text \<open>
  C3. An address is bound only by the holder of the disco key. Whatever disco frame arrives, from
  whatever source: if an address leads to an endpoint afterwards, then it did so before, or it is
  the UDP source of the frame, the frame opened under the key of its sender, and that endpoint is
  the peer with the sender's disco key. So nobody without a peer's disco key can make this node
  treat an address as that peer's.
\<close>

theorem address_bound_only_by_key_holder:
  assumes "connRun c" "handleDiscoMessageWithSource x msg src rh dns meta c = Inr (c', acts)" "endpointForEpAddr a (coPeerMap c') = Some r"
  shows "endpointForEpAddr a (coPeerMap c) = Some r
    \<or> a = src \<and> \<not> isDerpSrc src \<and> \<not> vniIsSet (vni src) \<and> deDisco (coEps c ! r) = Some (discoSender msg)
      \<and> dxOpen x (discoSender msg) (drop discoHeaderLen msg) \<noteq> None"
proof -
  have b: "endpointForEpAddr a (coPeerMap c) = Some r
      \<or> a = src \<and> deDisco (coEps c ! r) = Some (discoSender msg) \<and> \<not> isDerpSrc src \<and> \<not> vniIsSet (vni src)"
    using boundBy_refines [OF _ assms(3), of src "discoSender msg" c] sound_handleDisco [OF connRun_inv [OF assms(1)] assms(2)] by (simp add: sound_def)
  have "coPeerMap (atOpen x src rh dk c) = coPeerMap c" for dk by (simp add: atOpen_def noteRecvUDP_def Let_def split: option.split)
  note at = this
  show ?thesis using assms(2) by (cases rule: handleDisco_cases) (use at assms(3) b in auto)
qed


text \<open>Actions that stand for requests to this node.\<close>

lemma pongLoop_EpActs: "pongLoop x m src rs c = (k, c', acts) \<Longrightarrow> set acts \<subseteq> range (\<lambda>(r, a). EpAct r a)"
proof (induction rs arbitrary: c k c' acts)
  case (Cons r rs)
  obtain k1 de acts1 where h: "handlePongConnLocked (ceView (dxConn x)) (dxNow x) (dxWall x) m src (coEps c ! r) = ((k1, de), acts1)" by (metis prod.exhaust)
  let ?c1 = "foldl (recordAddr r) (c\<lparr>coEps := (coEps c)[r := de]\<rparr>) acts1"
  obtain k2 c2 acts2 where l: "pongLoop x m src rs ?c1 = (k2, c2, acts2)" by (metis prod.exhaust)
  have "acts = map (EpAct r) acts1 \<or> acts = map (EpAct r) acts1 @ acts2" using Cons.prems h l by (auto simp: Let_def split: if_splits)
  then show ?case using Cons.IH [OF l] by fastforce
qed simp

definition isRequest :: "connAction \<Rightarrow> bool" where
  "isRequest a = (case a of RelayCallMeMaybeVia _ _ _ _ \<Rightarrow> True | HandleCallMeMaybe _ _ \<Rightarrow> True | PublishAllocReq _ _ _ \<Rightarrow> True | _ \<Rightarrow> False)"

lemma noRequests:
  "isRequest a \<Longrightarrow> a \<notin> set (snd (handlePingLocked x dm src dk dns c))"
  "isRequest a \<Longrightarrow> a \<notin> set (snd (handleSourcePathProbeLocked x dm src dk c))"
  "isRequest a \<Longrightarrow> a \<notin> set (snd (handlePongMsg x m src dk meta c))"
proof -
  show "isRequest a \<Longrightarrow> a \<notin> set (snd (handlePingLocked x dm src dk dns c))"
    by (auto simp: handlePingLocked_def Let_def isRequest_def split_beta split: if_splits option.splits)
  show "isRequest a \<Longrightarrow> a \<notin> set (snd (handleSourcePathProbeLocked x dm src dk c))"
    by (auto simp: handleSourcePathProbeLocked_def Let_def isRequest_def split_beta split: if_splits)
  let ?h = "handlePongLocked (dxKnobs x) m dk src meta (dxNow x) (coSourceProbes c)"
  let ?c0 = "c\<lparr>coSourceProbes := snd ?h\<rparr>"
  let ?l = "pongLoop x m src (forEachEndpointWithDiscoKey dk (coPeerMap ?c0)) ?c0"
  have "set (snd (snd ?l)) \<subseteq> range (\<lambda>(r, a). EpAct r a)" using pongLoop_EpActs [of x m src _ ?c0 "fst ?l" "fst (snd ?l)"] by simp
  then show "isRequest a \<Longrightarrow> a \<notin> set (snd (handlePongMsg x m src dk meta c))"
    by (auto simp: handlePongMsg_def Let_def isRequest_def split_beta split: if_splits)
qed

lemma atOpen_sel [simp]:
  "coPeerMap (atOpen x src rh dk c) = coPeerMap c" "coPeersByID (atOpen x src rh dk c) = coPeersByID c"
  "coFilt (atOpen x src rh dk c) = coFilt c" "coSelf (atOpen x src rh dk c) = coSelf c"
  "coRelayClientEnabled (atOpen x src rh dk c) = coRelayClientEnabled c" "coSourceProbes (atOpen x src rh dk c) = coSourceProbes c"
  "deDisco (coEps (atOpen x src rh dk c) ! r) = deDisco (coEps c ! r)" "deRelayCapable (coEps (atOpen x src rh dk c) ! r) = deRelayCapable (coEps c ! r)"
  "deNodeID (coEps (atOpen x src rh dk c) ! r) = deNodeID (coEps c ! r)" "dePublicKey (coEps (atOpen x src rh dk c) ! r) = dePublicKey (coEps c ! r)"
  "deEndpointState (coEps (atOpen x src rh dk c) ! r) = deEndpointState (coEps c ! r)"
  "length (coEps (atOpen x src rh dk c)) = length (coEps c)"
proof -
  have u: "f ((xs[i := (xs ! i)\<lparr>deLastRecvUDPAny := t\<rparr>]) ! r) = f (xs ! r)" if "\<And>de. f (de\<lparr>deLastRecvUDPAny := t\<rparr>) = f de"
    for f :: "endpoint \<Rightarrow> 'b" and xs i t
    using that by (cases "i < length xs") (auto simp: nth_list_update list_update_beyond)
  show "deDisco (coEps (atOpen x src rh dk c) ! r) = deDisco (coEps c ! r)" "deRelayCapable (coEps (atOpen x src rh dk c) ! r) = deRelayCapable (coEps c ! r)"
    "deNodeID (coEps (atOpen x src rh dk c) ! r) = deNodeID (coEps c ! r)" "dePublicKey (coEps (atOpen x src rh dk c) ! r) = dePublicKey (coEps c ! r)"
    "deEndpointState (coEps (atOpen x src rh dk c) ! r) = deEndpointState (coEps c ! r)"
    by (simp_all add: atOpen_def noteRecvUDP_def Let_def u split: option.split)
qed (simp_all add: atOpen_def noteRecvUDP_def Let_def discoInfoForKnownPeerLocked_def split: option.split)

text \<open>
  C28. Requests need the peer's disco key. A frame makes this node act on a call-me-maybe, forward an
  offered relay endpoint to the relay manager, or publish a relay allocation request only if it came
  over DERP from a peer in the map, opened under the key of its sender, and that peer has this disco
  key. An offered relay endpoint also needs the relay client to be enabled and the peer to be relay
  capable; an allocation request names the sender as one of its two clients, and the packet filter
  grants the peer the relay capability.
\<close>

theorem disco_requests_authenticated:
  assumes "handleDiscoMessageWithSource x msg src rh dns meta c = Inr (c', acts)" "a \<in> set acts" "isRequest a"
  shows "isDerpSrc src \<and> dxOpen x (discoSender msg) (drop discoHeaderLen msg) \<noteq> None \<and>
    (\<exists>r. endpointForNodeKey dns (coPeerMap c) = Some r \<and> deDisco (coEps c ! r) = Some (discoSender msg) \<and>
      (case a of
         HandleCallMeMaybe r' _ \<Rightarrow> r' = r
       | RelayCallMeMaybeVia r' _ _ _ \<Rightarrow> r' = r \<and> coRelayClientEnabled c \<and> deRelayCapable (coEps c ! r)
       | PublishAllocReq dk nk req \<Rightarrow> dk = discoSender msg \<and> nk = dns \<and> (dk = fst (arClientDisco req) \<or> dk = snd (arClientDisco req)) \<and>
           (\<exists>peer. gm_get (coPeersByID c) (deNodeID (coEps c ! r)) = Some peer \<and> nodeHasCap (coFilt c) (Some peer) (coSelf c) PeerCapabilityRelay)
       | _ \<Rightarrow> False))"
  using assms(1)
proof (cases rule: handleDisco_cases)
  case (opened payload)
  let ?c = "atOpen x src rh (discoSender msg) c"
  have acts: "acts = snd (handleOpened x payload src rh (discoSender msg) dns meta ?c)" using opened(2) by (metis snd_conv)
  obtain dm where dm: "Parse payload = Inr dm" "\<not> rh" "a \<in> set (snd (dispatchDisco x dm src (discoSender msg) dns meta ?c))"
    using assms(2,3) unfolding acts by (auto simp: handleOpened_def isRequest_def split: sum.splits if_splits message.splits)
  show ?thesis using dm(3) opened(1) assms(3)
    by (cases dm) (auto simp: noRequests handleCallMeMaybes_def handleAllocate_def Let_def isRequest_def split: if_splits option.splits, (metis)+)
qed (use assms(2) in simp_all)

text \<open>
  A source-path probe is answered and leaves no trace. Handling one changes neither the peer map
  nor any candidate address nor the probes of this node; of the endpoints only the receive time of
  the one behind the source may change. The only reaction is a pong with the probe's transaction id
  to the address it came from, and only over direct UDP.
\<close>

theorem source_path_probe_only_answered:
  assumes "handleDiscoMessageWithSource x msg src False dns meta c = Inr (c', acts)"
    "dxOpen x (discoSender msg) (drop discoHeaderLen msg) = Some payload" "Parse payload = Inr (SourcePathProbe dm)"
  shows "coPeerMap c' = coPeerMap c \<and> coSourceProbes c' = coSourceProbes c
    \<and> map (\<lambda>de. de\<lparr>deLastRecvUDPAny := 0\<rparr>) (coEps c') = map (\<lambda>de. de\<lparr>deLastRecvUDPAny := 0\<rparr>) (coEps c)
    \<and> (acts = [] \<or> \<not> isDerpSrc src \<and> \<not> vniIsSet (vni src) \<and>
        (\<exists>k. acts = [SendDiscoMessage src k (discoSender msg) (Pong \<lparr>pgTxID = pnTxID dm, pgSrc = ap src\<rparr>)]))"
  using assms(1)
proof (cases rule: handleDisco_cases)
  case (opened p)
  let ?c = "atOpen x src False (discoSender msg) c"
  have h: "(c', acts) = handleSourcePathProbeLocked x dm src (discoSender msg) ?c"
    using opened(1,2) assms(2,3) by (simp add: handleOpened_def)
  then have "c' = ?c" by (auto simp: handleSourcePathProbeLocked_def Let_def split_beta split: if_splits)
  moreover have "acts = [] \<or> \<not> isDerpSrc src \<and> \<not> vniIsSet (vni src) \<and>
        (\<exists>k. acts = [SendDiscoMessage src k (discoSender msg) (Pong \<lparr>pgTxID = pnTxID dm, pgSrc = ap src\<rparr>)])"
    using h by (auto simp: handleSourcePathProbeLocked_def Let_def split_beta split: if_splits)
  ultimately show ?thesis using atOpen_eps [of x src False] by simp
qed (use assms(2) in simp_all)

section \<open>Pings are answered\<close>

lemma addCandidate_dup:
  "fst (addCandidateEndpoint cv wnow a tx de) \<longleftrightarrow>
     \<not> cvOmit cv a \<and> (\<exists>st. gm_get (deEndpointState de) a = Some st \<and> esLastGotPingTxID st = tx)"
  by (auto simp: addCandidateEndpoint_def Let_def split: option.split)

lemma candidateLoop_result:
  assumes "distinct rs" "\<forall>r\<in>set rs. r < length (coEps c) \<and> \<not> fst (addCandidateEndpoint (ceView (dxConn x)) (dxWall x) src tx (coEps c ! r))"
  shows "\<exists>k' c'. candidateLoop x src tx rs n k c = (Some (n + length rs, k'), c')"
  using assms
proof (induction rs arbitrary: n k c)
  case (Cons r rs)
  let ?a = "addCandidateEndpoint (ceView (dxConn x)) (dxWall x) src tx (coEps c ! r)"
  let ?c1 = "c\<lparr>coEps := (coEps c)[r := snd ?a]\<rparr>"
  have "\<forall>r'\<in>set rs. r' < length (coEps ?c1) \<and> \<not> fst (addCandidateEndpoint (ceView (dxConn x)) (dxWall x) src tx (coEps ?c1 ! r'))"
  proof
    fix r'
    assume "r' \<in> set rs"
    moreover from this have "r' \<noteq> r" using Cons.prems(1) by auto
    ultimately show "r' < length (coEps ?c1) \<and> \<not> fst (addCandidateEndpoint (ceView (dxConn x)) (dxWall x) src tx (coEps ?c1 ! r'))"
      using Cons.prems(2) by simp
  qed
  then show ?case using Cons.IH [of ?c1 "n + 1"] Cons.prems by (simp add: split_beta Let_def)
qed simp

lemma handlePing_direct:
  assumes "\<not> isDerpSrc src" "\<not> vniIsSet (vni src)" "\<not> cvNeverDirectUDP (ceView (dxConn x))"
    "c0 = c\<lparr>coDiscoInfo := gm_set dk \<lparr>diLastPingFrom = src, diLastPingTime = dxWall x\<rparr> (coDiscoInfo c)\<rparr>"
    "c1 = (case unambiguousNodeKeyOfPingLocked dm dk dns c0 of
       Some nk \<Rightarrow> if isDerpSrc src then c0 else c0\<lparr>coPeerMap := setNodeKeyForEpAddr (coEps c0) src nk (coPeerMap c0)\<rparr> | None \<Rightarrow> c0)"
    "candidateLoop x (ap src) (pnTxID dm) (forEachEndpointWithDiscoKey dk (coPeerMap c1)) 0 dns c1 = (Some (n, k), c2)" "n \<noteq> 0"
  shows "handlePingLocked x dm src dk dns c =
    (c2, [SendDiscoMessage src (if n > 1 then zeroNodeKey else k) dk (Pong \<lparr>pgTxID = pnTxID dm, pgSrc = ap src\<rparr>)])"
  unfolding handlePingLocked_def Let_def assms(4) [symmetric] using assms(1-3,6,7) assms(5) [symmetric] by simp

lemma distinct_withDisco:
  assumes "connInv c"
  shows "distinct (forEachEndpointWithDiscoKey dk (coPeerMap c))"
proof -
  let ?m = "coPeerMap c" let ?f = "\<lambda>nk. map_option (infoEp ?m) (gm_get (mpByNodeKey ?m) nk)"
  have keys: "keysInv (coEps c) ?m" using assms by (simp add: connInv_def peerInv_def)
  have "inj_on (the \<circ> ?f) (set (filter (\<lambda>nk. ?f nk \<noteq> None) (nodesOf ?m dk)))"
  proof (rule inj_onI)
    fix k k'
    assume "k \<in> set (filter (\<lambda>nk. ?f nk \<noteq> None) (nodesOf ?m dk))" "k' \<in> set (filter (\<lambda>nk. ?f nk \<noteq> None) (nodesOf ?m dk))"
      and eq: "(the \<circ> ?f) k = (the \<circ> ?f) k'"
    then obtain i i' where i: "gm_get (mpByNodeKey ?m) k = Some i" "gm_get (mpByNodeKey ?m) k' = Some i'" by auto
    then show "k = k'" using eq keysInvD(3) [OF keys i(1)] keysInvD(3) [OF keys i(2)] by simp
  qed
  then show ?thesis using assms unfolding forEachEndpointWithDiscoKey_def List.map_filter_def
    by (simp add: distinct_map connInv_def comp_def)
qed

lemma forEach_setNodeKey [simp]:
  "forEachEndpointWithDiscoKey dk (setNodeKeyForEpAddr eps a nk m) = forEachEndpointWithDiscoKey dk m"
  by (simp add: forEachEndpointWithDiscoKey_def nodesOf_def)

text \<open>
  C29. A ping is answered. When the connection is open and has a private key, a ping over direct UDP
  that opens under the key of a peer is answered with a pong to its source, carrying its transaction
  id and that source, unless the same ping was already noted for the address at one of the nodes
  with the sender's disco key.
\<close>

theorem ping_answered:
  assumes "connRun c" "\<not> coClosed c" "coPrivateKey c \<noteq> zeroPrivateKey" "discoHeaderLen \<le> length msg"
    "dxOpen x (discoSender msg) (drop discoHeaderLen msg) = Some payload" "Parse payload = Inr (Ping dm)"
    "forEachEndpointWithDiscoKey (discoSender msg) (coPeerMap c) \<noteq> []"
    "\<forall>r\<in>set (forEachEndpointWithDiscoKey (discoSender msg) (coPeerMap c)). \<forall>st.
       gm_get (deEndpointState (coEps c ! r)) (ap src) = Some st \<longrightarrow> esLastGotPingTxID st \<noteq> pnTxID dm"
    "\<not> isDerpSrc src" "\<not> vniIsSet (vni src)" "\<not> cvNeverDirectUDP (ceView (dxConn x))"
  shows "\<exists>c' k. handleDiscoMessageWithSource x msg src False dns meta c =
    Inr (c', [SendDiscoMessage src k (discoSender msg) (Pong \<lparr>pgTxID = pnTxID dm, pgSrc = ap src\<rparr>)])"
proof -
  let ?dk = "discoSender msg" let ?ca = "atOpen x src False ?dk c"
  let ?rs = "forEachEndpointWithDiscoKey ?dk (coPeerMap c)"
  note inv = connRun_inv [OF assms(1)]
  have "knownPeerDiscoKey ?dk (coPeerMap c)"
    using assms(7) by (auto simp: knownPeerDiscoKey_def forEachEndpointWithDiscoKey_def nodesOf_def split: option.splits)
  then have h: "handleDiscoMessageWithSource x msg src False dns meta c = Inr (handlePingLocked x dm src ?dk dns ?ca)"
    using assms(2-6) by (simp add: handleDiscoMessageWithSource_def handleOpened_def Let_def atOpen_def)
  let ?c0 = "?ca\<lparr>coDiscoInfo := gm_set ?dk \<lparr>diLastPingFrom = src, diLastPingTime = dxWall x\<rparr> (coDiscoInfo ?ca)\<rparr>"
  let ?c1 = "case unambiguousNodeKeyOfPingLocked dm ?dk dns ?c0 of
     Some nk \<Rightarrow> if isDerpSrc src then ?c0 else ?c0\<lparr>coPeerMap := setNodeKeyForEpAddr (coEps ?c0) src nk (coPeerMap ?c0)\<rparr> | None \<Rightarrow> ?c0"
  have rs: "forEachEndpointWithDiscoKey ?dk (coPeerMap ?c1) = ?rs" and eps: "coEps ?c1 = coEps ?ca" by (simp_all split: option.split)
  have "r < length (coEps c)" if "r \<in> set ?rs" for r using withDisco(1) [OF inv that] presentE [OF inv] by blast
  then obtain k' c2 where l: "candidateLoop x (ap src) (pnTxID dm) ?rs 0 dns ?c1 = (Some (length ?rs, k'), c2)"
    using candidateLoop_result [of ?rs ?c1 x "ap src" "pnTxID dm" 0 dns] distinct_withDisco [OF inv] assms(8) unfolding eps by (auto simp: addCandidate_dup)
  have l': "candidateLoop x (ap src) (pnTxID dm) (forEachEndpointWithDiscoKey ?dk (coPeerMap ?c1)) 0 dns ?c1 = (Some (length ?rs, k'), c2)"
    unfolding rs by (rule l)
  have "handlePingLocked x dm src ?dk dns ?ca = (c2, [SendDiscoMessage src (if length ?rs > 1 then zeroNodeKey else k') ?dk (Pong \<lparr>pgTxID = pnTxID dm, pgSrc = ap src\<rparr>)])"
    by (rule handlePing_direct [OF assms(9-11) refl refl l']) (use assms(7) in simp)
  then show ?thesis using h by auto
qed

section \<open>Witnesses\<close>

text \<open>A peer pings from an address; the boxes are left unsealed.\<close>

definition exKeyed :: conn where
  "exKeyed = fst (SetPrivateKey exEnv 5 (replicate 32 1) exOnePeer)"

definition exRx :: discoRx where
  "exRx = \<lparr>dxConn = exEnv, dxKnobs = defaultEnv, dxOpen = (\<lambda>k b. Some b), dxRelayHandshake = (\<lambda>k. False), dxNow = 50, dxWall = 7\<rparr>"

definition exFrame :: "u8 \<Rightarrow> message \<Rightarrow> u8 list" where
  "exFrame k m = Magic @ replicate 32 k @ appendMarshal m []"

definition exPing :: pingMsg where
  "exPing = \<lparr>pnTxID = replicate 12 4, pnNodeKey = replicate 32 9, pnPadding = 0\<rparr>"

definition exDerpSrc :: epAddr where
  "exDerpSrc = \<lparr>ap = \<lparr>apAddr = derpMagicIPAddr, apPort = 1\<rparr>, vni = 0\<rparr>"

lemma exKeyed_run: "connRun exKeyed"
  unfolding exKeyed_def by (rule connRun.Step [OF exOnePeer_run connStep.PrivateKey [OF prod.collapse [symmetric]]])

lemma inr_obtain: "\<not> isl s \<Longrightarrow> \<exists>c acts. s = Inr (c, acts)"
  by (cases s) auto

theorem address_bound_only_by_key_holder_witness:
  "\<exists>c' acts. handleDiscoMessageWithSource exRx (exFrame 109 (Ping exPing)) exSrc False zeroNodeKey primarySourceRxMeta exKeyed = Inr (c', acts)
     \<and> endpointForEpAddr exSrc (coPeerMap c') = Some 0 \<and> endpointForEpAddr exSrc (coPeerMap exKeyed) = None
     \<and> deDisco (coEps exKeyed ! 0) = Some (discoSender (exFrame 109 (Ping exPing)))"
proof -
  let ?h = "handleDiscoMessageWithSource exRx (exFrame 109 (Ping exPing)) exSrc False zeroNodeKey primarySourceRxMeta exKeyed"
  have "case ?h of Inr (c', _) \<Rightarrow> endpointForEpAddr exSrc (coPeerMap c') = Some 0 | Inl _ \<Rightarrow> False" by code_simp
  then obtain c' acts where h: "?h = Inr (c', acts)" "endpointForEpAddr exSrc (coPeerMap c') = Some 0" by (auto split: sum.splits prod.splits)
  have "endpointForEpAddr exSrc (coPeerMap exKeyed) = None" by code_simp
  then show ?thesis using address_bound_only_by_key_holder [OF exKeyed_run h] h by auto
qed


theorem disco_requests_authenticated_witness:
  "\<exists>c' acts. handleDiscoMessageWithSource exRx (exFrame 109 (CallMeMaybe [exAP 0x01020304])) exDerpSrc False (replicate 32 9) primarySourceRxMeta exKeyed = Inr (c', acts)
     \<and> HandleCallMeMaybe 0 [exAP 0x01020304] \<in> set acts
     \<and> endpointForNodeKey (replicate 32 9) (coPeerMap exKeyed) = Some 0"
proof -
  let ?h = "handleDiscoMessageWithSource exRx (exFrame 109 (CallMeMaybe [exAP 0x01020304])) exDerpSrc False (replicate 32 9) primarySourceRxMeta exKeyed"
  have "case ?h of Inr (_, acts) \<Rightarrow> acts = [HandleCallMeMaybe 0 [exAP 0x01020304]] | Inl _ \<Rightarrow> False" by code_simp
  then obtain c' acts where h: "?h = Inr (c', acts)" "HandleCallMeMaybe 0 [exAP 0x01020304] \<in> set acts"
    by (auto split: sum.splits prod.splits)
  have "isRequest (HandleCallMeMaybe 0 [exAP 0x01020304])" by (simp add: isRequest_def)
  from disco_requests_authenticated [OF h this] h show ?thesis by auto
qed

theorem source_path_probe_only_answered_witness:
  "\<exists>c' k. handleDiscoMessageWithSource exRx (exFrame 109 (SourcePathProbe exPing)) exSrc False zeroNodeKey primarySourceRxMeta exKeyed
      = Inr (c', [SendDiscoMessage exSrc k (replicate 32 109) (Pong \<lparr>pgTxID = replicate 12 4, pgSrc = ap exSrc\<rparr>)])
     \<and> coPeerMap c' = coPeerMap exKeyed"
proof -
  let ?f = "exFrame 109 (SourcePathProbe exPing)"
  let ?h = "handleDiscoMessageWithSource exRx ?f exSrc False zeroNodeKey primarySourceRxMeta exKeyed"
  have "case ?h of Inr (_, acts) \<Rightarrow> acts \<noteq> [] | Inl _ \<Rightarrow> False" by code_simp
  then obtain c' acts where h: "?h = Inr (c', acts)" "acts \<noteq> []" by (auto split: sum.splits prod.splits)
  have p: "dxOpen exRx (discoSender ?f) (drop discoHeaderLen ?f) = Some (appendMarshal (SourcePathProbe exPing) [])"
      "Parse (appendMarshal (SourcePathProbe exPing) []) = Inr (SourcePathProbe exPing)" "discoSender ?f = replicate 32 109" "pnTxID exPing = replicate 12 4"
    by code_simp+
  from source_path_probe_only_answered [OF h(1) p(1,2)] h p(3,4) show ?thesis by auto
qed

theorem ping_answered_witness:
  "\<exists>c' k. handleDiscoMessageWithSource exRx (exFrame 109 (Ping exPing)) exSrc False zeroNodeKey primarySourceRxMeta exKeyed
      = Inr (c', [SendDiscoMessage exSrc k (replicate 32 109) (Pong \<lparr>pgTxID = replicate 12 4, pgSrc = ap exSrc\<rparr>)])"
proof -
  let ?f = "exFrame 109 (Ping exPing)"
  have p: "dxOpen exRx (discoSender ?f) (drop discoHeaderLen ?f) = Some (appendMarshal (Ping exPing) [])"
      "Parse (appendMarshal (Ping exPing) []) = Inr (Ping exPing)" and s: "discoSender ?f = replicate 32 109" "pnTxID exPing = replicate 12 4"
    by code_simp+
  have c: "\<not> coClosed exKeyed" "coPrivateKey exKeyed \<noteq> zeroPrivateKey" "discoHeaderLen \<le> length ?f"
    "\<not> isDerpSrc exSrc" "\<not> vniIsSet (vni exSrc)" "\<not> cvNeverDirectUDP (ceView (dxConn exRx))" by code_simp+
  have rs: "forEachEndpointWithDiscoKey (discoSender ?f) (coPeerMap exKeyed) = [0]" "gm_get (deEndpointState (coEps exKeyed ! 0)) (ap exSrc) = None"
    by code_simp+
  show ?thesis using ping_answered [OF exKeyed_run c(1-3) p _ _ c(4-6), of zeroNodeKey primarySourceRxMeta] rs s by simp
qed
end
