(* ===== verification/Srcsel_Conn.thy ===== *)
theory Srcsel_Conn
  imports Conn_Disco Srcsel_Score Srcsel_Flow
begin

text \<open>
  The source-path part of \<open>Conn\<close> (\<open>src/wgengine/magicsock/sourcepath.go\<close> and
  \<open>sourcepath_supported.go\<close>): which socket a batch is sent from, the failover of the primary socket,
  the ranking of paths for redundant sending, the rotation of auxiliary sockets and the probes. A
  method takes the connection and returns it updated; a reading of the monotonic clock is an argument.
\<close>

section \<open>The environment\<close>

text \<open>The debug knobs; \<open>math.Exp\<close> and \<open>strconv.ParseFloat\<close>; what endpoints see; the node key; the box
  a peer's shared key seals; what \<open>listenPacket\<close> answers when the socket of a source is bound anew;
  \<open>device.MessageTransportType\<close> of wireguard-go.\<close>

record srcEnv =
  seKnobs :: env
  seExp :: "float64 \<Rightarrow> float64"
  seParse :: "string \<Rightarrow> float64 option"
  seView :: connView
  seNodeKey :: nodeKey
  seSeal :: "discoKey \<Rightarrow> u8 list \<Rightarrow> u8 list"
  seListen :: "sourceRxMeta \<Rightarrow> string option"
  seTransportType :: u32

definition onProbes :: "(sourcePathProbeManager \<Rightarrow> 'a \<times> sourcePathProbeManager) \<Rightarrow> conn \<Rightarrow> 'a \<times> conn" where
  "onProbes f c = (case f (coSourceProbes c) of (x, pm) \<Rightarrow> (x, c\<lparr>coSourceProbes := pm\<rparr>))"

definition probeSources :: "srcEnv \<Rightarrow> epAddr \<Rightarrow> conn \<Rightarrow> sourceRxMeta list" where
  "probeSources s dst c = sourcePathProbeSources (seKnobs s) (is4 (apAddr (ap dst))) (coSourcePath c)"

section \<open>What the endpoint of an address has measured\<close>

definition primaryRTTForDst :: "epAddr \<Rightarrow> conn \<Rightarrow> duration" where
  "primaryRTTForDst dst c = (case endpointForEpAddr dst (coPeerMap c) of
     None \<Rightarrow> 0 | Some r \<Rightarrow> primaryRTTForLocked dst (coEps c ! r))"

definition primaryPongsSinceDst :: "epAddr \<Rightarrow> mono \<Rightarrow> conn \<Rightarrow> nat" where
  "primaryPongsSinceDst dst since c = (case endpointForEpAddr dst (coPeerMap c) of
     None \<Rightarrow> 0 | Some r \<Rightarrow> primaryPongsSinceLocked dst since (coEps c ! r))"

section \<open>Candidates\<close>

definition noteSourcePathSendFailure :: "epAddr \<Rightarrow> sourceRxMeta \<Rightarrow> conn \<Rightarrow> conn" where
  "noteSourcePathSendFailure dst source c =
     (if isPrimary source then c
      else
        let (dropped, c1) = onProbes (invalidateLocked dst source) c;
            (droppedFlows, c2) = onProbes (dropFlowsLocked dst source) c1
        in c2)"

definition sourcePathBestCandidate :: "srcEnv \<Rightarrow> epAddr \<Rightarrow> mono \<Rightarrow> conn \<Rightarrow> sourcePathCandidateScore option \<times> conn" where
  "sourcePathBestCandidate s dst now c =
     (if \<not> isDirect dst then (None, c)
      else
        let sources = probeSources s dst c in
        if sources = [] then (None, c)
        else
          let primaryRTT = primaryRTTForDst dst c
          in onProbes (bestCandidateLocked (seExp s) (seParse s) (seKnobs s) dst sources now primaryRTT) c)"

definition sourcePathBestFailoverCandidate :: "srcEnv \<Rightarrow> epAddr \<Rightarrow> mono \<Rightarrow> conn \<Rightarrow> sourceRxMeta option \<times> conn" where
  "sourcePathBestFailoverCandidate s dst now c =
     (if \<not> isDirect dst then (None, c)
      else
        let sources = probeSources s dst c in
        if sources = [] then (None, c)
        else case onProbes (bestCandidateLocked (seExp s) (seParse s) (seKnobs s) dst sources now 0) c of
          (score, c1) \<Rightarrow> (map_option csSource score, c1))"

definition sourcePathSourceAvailable :: "srcEnv \<Rightarrow> epAddr \<Rightarrow> sourceRxMeta \<Rightarrow> conn \<Rightarrow> bool" where
  "sourcePathSourceAvailable s dst source c =
     (if isPrimary source \<or> \<not> isDirect dst then isPrimary source
      else list_ex (\<lambda>current. current = source) (probeSources s dst c))"

section \<open>Active backup\<close>

text \<open>Reading the map; a nil map has no entries.\<close>

definition backupOf :: "epAddr \<Rightarrow> sourcePathProbeManager \<Rightarrow> sourcePathActiveBackupState option" where
  "backupOf dst pm = (case pmActiveBackup pm of None \<Rightarrow> None | Some m \<Rightarrow> gm_get m dst)"

definition zeroBackup :: sourcePathActiveBackupState where
  "zeroBackup = \<lparr>abSendFailStreak = 0, abFailoverAt = 0, abHoldUntil = 0, abSource = \<lparr>rxSocketID = 0, rxGeneration = 0\<rparr>\<rparr>"

text \<open>Writing an entry panics on a nil map.\<close>

definition setBackup :: "epAddr \<Rightarrow> sourcePathActiveBackupState \<Rightarrow> sourcePathProbeManager \<Rightarrow> panic + sourcePathProbeManager" where
  "setBackup dst st pm = (case pmActiveBackup pm of
     None \<Rightarrow> Inl NilMapWrite
   | Some m \<Rightarrow> Inr (pm\<lparr>pmActiveBackup := Some (gm_set dst st m)\<rparr>))"

definition delBackup :: "epAddr \<Rightarrow> sourcePathProbeManager \<Rightarrow> sourcePathProbeManager" where
  "delBackup dst pm = pm\<lparr>pmActiveBackup := map_option (gm_del dst) (pmActiveBackup pm)\<rparr>"

definition noteSourcePathPrimarySendSuccess :: "srcEnv \<Rightarrow> epAddr \<Rightarrow> conn \<Rightarrow> panic + conn" where
  "noteSourcePathPrimarySendSuccess s dst c =
     (if \<not> sourcePathActiveBackupEnabled (seKnobs s) \<or> \<not> isDirect dst then Inr c
      else case backupOf dst (coSourceProbes c) of
        None \<Rightarrow> Inr c
      | Some st \<Rightarrow> map_sum id (\<lambda>pm. c\<lparr>coSourceProbes := pm\<rparr>)
                    (setBackup dst (st\<lparr>abSendFailStreak := 0\<rparr>) (coSourceProbes c)))"

text \<open>
  \<open>noteSourcePathPrimarySendFailure\<close> holds the lock twice, with the search for a candidate between.
  The first critical section counts the failure and says how the call goes on.
\<close>

datatype failureNext = ReturnSource sourceRxMeta | ReturnNone | SeekFailover

definition primaryFailureCount :: "srcEnv \<Rightarrow> epAddr \<Rightarrow> sourcePathProbeManager \<Rightarrow> panic + failureNext \<times> sourcePathProbeManager" where
  "primaryFailureCount s dst pm0 =
     (let pm = (if pmActiveBackup pm0 = None then pm0\<lparr>pmActiveBackup := Some []\<rparr> else pm0);
          st0 = (case backupOf dst pm of None \<Rightarrow> zeroBackup | Some st \<Rightarrow> st);
          st = st0\<lparr>abSendFailStreak := abSendFailStreak st0 + 1\<rparr>
      in if \<not> mzero (abFailoverAt st) \<and> \<not> isPrimary (abSource st)
         then map_sum id (\<lambda>pm'. (ReturnSource (abSource st), pm')) (setBackup dst st pm)
         else if abSendFailStreak st < sourcePathActiveBackupPrimaryFailStreakValue (seKnobs s)
         then map_sum id (\<lambda>pm'. (ReturnNone, pm')) (setBackup dst st pm)
         else Inr (SeekFailover, pm))"

text \<open>The second one records the failover.\<close>

definition primaryFailureCommit ::
    "srcEnv \<Rightarrow> epAddr \<Rightarrow> mono \<Rightarrow> sourceRxMeta \<Rightarrow> sourcePathProbeManager \<Rightarrow> panic + sourcePathProbeManager" where
  "primaryFailureCommit s dst now source pm =
     (let st = (case backupOf dst pm of None \<Rightarrow> zeroBackup | Some st \<Rightarrow> st)
      in setBackup dst (st\<lparr>abFailoverAt := now,
           abHoldUntil := madd now (sourcePathActiveBackupFailoverHoldValue (seKnobs s)), abSource := source\<rparr>) pm)"

definition noteSourcePathPrimarySendFailure ::
    "srcEnv \<Rightarrow> epAddr \<Rightarrow> mono \<Rightarrow> conn \<Rightarrow> panic + sourceRxMeta option \<times> conn" where
  "noteSourcePathPrimarySendFailure s dst now c =
     (if \<not> sourcePathActiveBackupEnabled (seKnobs s) \<or> \<not> isDirect dst \<or> sourcePathAuxSocketCount (seKnobs s) = 0
      then Inr (None, c)
      else case primaryFailureCount s dst (coSourceProbes c) of
        Inl p \<Rightarrow> Inl p
      | Inr (ReturnSource source, pm) \<Rightarrow> Inr (Some source, c\<lparr>coSourceProbes := pm\<rparr>)
      | Inr (ReturnNone, pm) \<Rightarrow> Inr (None, c\<lparr>coSourceProbes := pm\<rparr>)
      | Inr (SeekFailover, pm) \<Rightarrow>
          (case sourcePathBestFailoverCandidate s dst now (c\<lparr>coSourceProbes := pm\<rparr>) of
             (None, c1) \<Rightarrow> Inr (None, c1)
           | (Some source, c1) \<Rightarrow> map_sum id (\<lambda>pm'. (Some source, c1\<lparr>coSourceProbes := pm'\<rparr>))
                                    (primaryFailureCommit s dst now source (coSourceProbes c1))))"

text \<open>The test \<open>current, ok := activeBackup[dst]; ok && current.failoverAt == st.failoverAt\<close> after the
  lock is taken again.\<close>

definition sameFailover :: "epAddr \<Rightarrow> mono \<Rightarrow> sourcePathProbeManager \<Rightarrow> bool" where
  "sameFailover dst failoverAt pm = (case backupOf dst pm of None \<Rightarrow> False | Some current \<Rightarrow> abFailoverAt current = failoverAt)"

definition endFailover :: "epAddr \<Rightarrow> mono \<Rightarrow> conn \<Rightarrow> conn" where
  "endFailover dst failoverAt c =
     (if sameFailover dst failoverAt (coSourceProbes c) then c\<lparr>coSourceProbes := delBackup dst (coSourceProbes c)\<rparr> else c)"

definition moveFailover :: "epAddr \<Rightarrow> mono \<Rightarrow> sourceRxMeta \<Rightarrow> conn \<Rightarrow> conn" where
  "moveFailover dst failoverAt source c =
     (if sameFailover dst failoverAt (coSourceProbes c)
      then c\<lparr>coSourceProbes := (coSourceProbes c)\<lparr>pmActiveBackup := map_option (\<lambda>m. case gm_get m dst of
               None \<Rightarrow> m | Some current \<Rightarrow> gm_set dst (current\<lparr>abSource := source\<rparr>) m) (pmActiveBackup (coSourceProbes c))\<rparr>\<rparr>
      else c)"

definition sourcePathActiveBackupCandidate :: "srcEnv \<Rightarrow> epAddr \<Rightarrow> mono \<Rightarrow> conn \<Rightarrow> sourceRxMeta option \<times> conn" where
  "sourcePathActiveBackupCandidate s dst now c =
     (if \<not> sourcePathActiveBackupEnabled (seKnobs s) \<or> \<not> isDirect dst then (None, c)
      else case backupOf dst (coSourceProbes c) of
        None \<Rightarrow> (None, c)
      | Some st \<Rightarrow>
          if mzero (abFailoverAt st) \<or> isPrimary (abSource st) then (None, c)
          else
            let pongs = int (primaryPongsSinceDst dst (abFailoverAt st) c);
                recoveryPongs = sourcePathActiveBackupRecoveryPongsValue (seKnobs s)
            in if pongs \<ge> recoveryPongs \<or> (mafter now (abHoldUntil st) \<and> pongs > 0)
               then (None, endFailover dst (abFailoverAt st) c)
               else if sourcePathSourceAvailable s dst (abSource st) c then (Some (abSource st), c)
               else case sourcePathBestFailoverCandidate s dst now c of
                 (Some source, c1) \<Rightarrow> (Some source, moveFailover dst (abFailoverAt st) source c1)
               | (None, c1) \<Rightarrow> (None, endFailover dst (abFailoverAt st) c1))"

section \<open>The source of a batch\<close>

definition sourcePathForcedDataSourceAllowsAddr :: "env \<Rightarrow> addr \<Rightarrow> bool" where
  "sourcePathForcedDataSourceAllowsAddr e a = sourcePathForcedDataSourceModeAllowsAddr (sourcePathForcedDataSourceMode e) a"

text \<open>Only one of the two branches that read the clock runs in a call.\<close>

definition sourcePathDataSendSource :: "srcEnv \<Rightarrow> epAddr \<Rightarrow> mono \<Rightarrow> conn \<Rightarrow> sourceRxMeta \<times> conn" where
  "sourcePathDataSendSource s dst now c =
     (let e = seKnobs s; mode = sourcePathDataStrategyMode e; forceMode = sourcePathForcedDataSourceMode e in
      if sourcePathAuxSocketCount e = 0 \<or> \<not> isDirect dst then (primarySourceRxMeta, c)
      else if mode = sourcePathDataStrategyActiveBackup
      then (case sourcePathActiveBackupCandidate s dst now c of
              (Some source, c1) \<Rightarrow> (source, c1)
            | (None, c1) \<Rightarrow> (primarySourceRxMeta, c1))
      else if mode \<noteq> sourcePathDataStrategySingleSource then (primarySourceRxMeta, c)
      else if forceMode \<noteq> []
      then if \<not> sourcePathForcedDataSourceModeAllowsAddr forceMode (apAddr (ap dst)) then (primarySourceRxMeta, c)
           else (sourcePathForcedDataSendSource dst (coSourcePath c), c)
      else if \<not> envknobSrcSelAutoDataSource e then (primarySourceRxMeta, c)
      else case sourcePathBestCandidate s dst now c of
        (Some score, c1) \<Rightarrow> (csSource score, c1)
      | (None, c1) \<Rightarrow> (primarySourceRxMeta, c1))"

definition sourcePathNewFlowSource ::
    "srcEnv \<Rightarrow> epAddr \<Rightarrow> u64 \<Rightarrow> sourcePathCandidateScore option \<Rightarrow> conn \<Rightarrow> sourceRxMeta \<times> conn" where
  "sourcePathNewFlowSource s dst flowID score c = (case score of
     None \<Rightarrow> (primarySourceRxMeta, c)
   | Some aux \<Rightarrow>
       let e = seKnobs s; policy = sourcePathBalancePolicyValue e in
       if policy = ''rr''
       then (case onProbes (nextFlowRRLocked dst) c of (rr, c1) \<Rightarrow>
               (if rr mod 2 = 0 then primarySourceRxMeta else csSource aux, c1))
       else if policy = ''xor''
       then (if sourcePathMix64 flowID AND 1 = 0 then primarySourceRxMeta else csSource aux, c)
       else
         let weights = sourcePathScoreWeightsValue (seParse s) e;
             auxWeight = (if sourcePathMultiMetricEnabled e
               then if fle (csScore aux) (Fin 0)
                    then sourcePathQualityScore (seExp s) e (csLatency aux) (csJitter aux) (csLoss aux) weights
                    else csScore aux
               else Fin 1);
             primaryWeight = (if sourcePathMultiMetricEnabled e \<and> primaryRTTForDst dst c > 0
               then sourcePathQualityScore (seExp s) e (primaryRTTForDst dst c) 0 (Fin 0) weights
               else Fin 1)
         in (if sourcePathFlowChooseAuxByWeight flowID auxWeight primaryWeight then csSource aux else primarySourceRxMeta, c))"

text \<open>The last part of \<open>sourcePathDataSendSourceForFlow\<close>; \<open>later\<close> is the reading of
  \<open>sourcePathBestCandidate\<close>, and of \<open>sourcePathDataSendSource\<close> below.\<close>

definition assignNewFlow :: "srcEnv \<Rightarrow> epAddr \<Rightarrow> u64 \<Rightarrow> mono \<Rightarrow> mono \<Rightarrow> conn \<Rightarrow> sourceRxMeta \<times> conn" where
  "assignNewFlow s dst flowID now later c =
     (let (score, c1) = sourcePathBestCandidate s dst later c;
          (source, c2) = sourcePathNewFlowSource s dst flowID score c1
      in (source, c2\<lparr>coSourceProbes := assignFlowLocked (seKnobs s) \<lparr>fkDst = dst, fkId = flowID\<rparr> source now (coSourceProbes c2)\<rparr>))"

definition sourcePathDataSendSourceForFlow ::
    "srcEnv \<Rightarrow> epAddr \<Rightarrow> u64 \<Rightarrow> mono \<Rightarrow> mono \<Rightarrow> conn \<Rightarrow> sourceRxMeta \<times> conn" where
  "sourcePathDataSendSourceForFlow s dst flowID now later c =
     (if \<not> sourcePathFlowAwareEnabled (seKnobs s) \<or> \<not> isDirect dst \<or> flowID = 0
      then sourcePathDataSendSource s dst later c
      else case sourcePathActiveBackupCandidate s dst now c of
        (Some source, c1) \<Rightarrow> (source, c1)
      | (None, c1) \<Rightarrow>
          let forceMode = sourcePathForcedDataSourceMode (seKnobs s) in
          if forceMode \<noteq> []
          then if \<not> sourcePathForcedDataSourceModeAllowsAddr forceMode (apAddr (ap dst)) then (primarySourceRxMeta, c1)
               else (sourcePathForcedDataSendSource dst (coSourcePath c1), c1)
          else
            let key = \<lparr>fkDst = dst, fkId = flowID\<rparr>;
                (st, c2) = onProbes (lookupFlowLocked (seKnobs s) key now) c1
            in case st of
                 None \<Rightarrow> assignNewFlow s dst flowID now later c2
               | Some fs \<Rightarrow>
                   if isPrimary (fsSource fs) \<or> sourcePathSourceAvailable s dst (fsSource fs) c2 then (fsSource fs, c2)
                   else assignNewFlow s dst flowID now later
                          (c2\<lparr>coSourceProbes := forgetFlowLocked key (fsSource fs) (coSourceProbes c2)\<rparr>))"

definition sourcePathDataSendSourceForBatch ::
    "srcEnv \<Rightarrow> epAddr \<Rightarrow> u8 list list \<Rightarrow> int \<Rightarrow> mono \<Rightarrow> mono \<Rightarrow> conn \<Rightarrow> sourceRxMeta \<times> conn" where
  "sourcePathDataSendSourceForBatch s dst buffs offset now later c =
     (if \<not> sourcePathFlowAwareEnabled (seKnobs s) then sourcePathDataSendSource s dst later c
      else case sourcePathFlowIDFromBatch (seTransportType s) buffs offset of
        None \<Rightarrow> sourcePathDataSendSource s dst later c
      | Some flowID \<Rightarrow> sourcePathDataSendSourceForFlow s dst flowID now later c)"

section \<open>Rotation\<close>

definition rotateSourcePathAuxSocket :: "srcEnv \<Rightarrow> sourceRxMeta \<Rightarrow> conn \<Rightarrow> conn" where
  "rotateSourcePathAuxSocket s source c =
     (case rebindSourcePathSocket (seKnobs s) (seListen s source) source (coSourcePath c) of
        (RebindUnavailable, sp) \<Rightarrow> c\<lparr>coSourcePath := sp\<rparr>
      | (RebindStale _, sp) \<Rightarrow> c\<lparr>coSourcePath := sp\<rparr>
      | (RebindFailed _ _, sp) \<Rightarrow> c\<lparr>coSourcePath := sp\<rparr>
      | (Rebound _, sp) \<Rightarrow> snd (onProbes (dropSourceLocked source) (c\<lparr>coSourcePath := sp\<rparr>)))"

definition noteSourcePathDualSendAuxSuccess :: "epAddr \<Rightarrow> sourceRxMeta \<Rightarrow> conn \<Rightarrow> conn" where
  "noteSourcePathDualSendAuxSuccess dst source c =
     (let key = \<lparr>dkDst = dst, dkSource = source\<rparr>; pm = coSourceProbes c
      in c\<lparr>coSourceProbes := pm\<lparr>pmAuxFailStreak := gm_del key (pmAuxFailStreak pm),
                               pmAuxProbeLoss := gm_del key (pmAuxProbeLoss pm)\<rparr>\<rparr>)"

text \<open>\<open>sendErr\<close>: whether the error passed is not nil.\<close>

definition noteSourcePathDualSendAuxFailure :: "srcEnv \<Rightarrow> epAddr \<Rightarrow> sourceRxMeta \<Rightarrow> mono \<Rightarrow> bool \<Rightarrow> conn \<Rightarrow> conn" where
  "noteSourcePathDualSendAuxFailure s dst source now sendErr c =
     (let key = \<lparr>dkDst = dst, dkSource = source\<rparr>;
          dropStreak = sourcePathDualSendAuxDropStreakValue (seKnobs s);
          recovery = sourcePathDualSendRecoveryValue (seKnobs s);
          pm = coSourceProbes c;
          streak = (case gm_get (pmAuxFailStreak pm) key of None \<Rightarrow> 0 | Some n \<Rightarrow> n) + 1;
          pm1 = pm\<lparr>pmAuxFailStreak := gm_set key streak (pmAuxFailStreak pm)\<rparr>
      in if \<not> (sendErr \<or> streak \<ge> dropStreak) then c\<lparr>coSourceProbes := pm1\<rparr>
         else
           let pm2 = pm1\<lparr>pmAuxFailStreak := gm_del key (pmAuxFailStreak pm1),
                        pmDemotedAuxTill := gm_set key (madd now recovery) (pmDemotedAuxTill pm1)\<rparr>
           in rotateSourcePathAuxSocket s source (c\<lparr>coSourceProbes := pm2\<rparr>))"

section \<open>Redundant sending\<close>

definition sourcePathDualSendCandidate :: "srcEnv \<Rightarrow> epAddr \<Rightarrow> mono \<Rightarrow> conn \<Rightarrow> sourceRxMeta option \<times> conn" where
  "sourcePathDualSendCandidate s dst now c =
     (if \<not> sourcePathDualSendEnabled (seKnobs s) \<or> \<not> isDirect dst then (None, c)
      else
        let sources = probeSources s dst c in
        if sources = [] then (None, c)
        else
          let (score, c1) = onProbes (bestCandidateLocked (seExp s) (seParse s) (seKnobs s) dst sources now 0) c;
              source = (case score of Some sc \<Rightarrow> csSource sc | None \<Rightarrow> sources ! 0);
              maxSkew = sourcePathDualSendMaxSkewValue (seKnobs s);
              primaryRTT = primaryRTTForDst dst c1;
              skewed = (case score of None \<Rightarrow> False
                | Some sc \<Rightarrow> maxSkew > 0 \<and> primaryRTT > 0 \<and> absDuration (dsub (csLatency sc) primaryRTT) \<ge> maxSkew)
          in if skewed then (None, c1)
             else case onProbes (dualSendDemotedLocked \<lparr>dkDst = dst, dkSource = source\<rparr> now) c1 of
               (demoted, c2) \<Rightarrow> (if demoted then None else Some source, c2))"

text \<open>One turn of the loop over the auxiliary sources.\<close>

definition rankedStep ::
    "srcEnv \<Rightarrow> sourcePathDstCandidate \<Rightarrow> mono \<Rightarrow> sourcePathSendPath list \<times> sourcePathProbeManager \<Rightarrow> sourceRxMeta
      \<Rightarrow> sourcePathSendPath list \<times> sourcePathProbeManager" where
  "rankedStep s candidate now acc source = (case acc of (paths, pm) \<Rightarrow>
     let dst = dsDst candidate; maxSkew = sourcePathDualSendMaxSkewValue (seKnobs s);
         (demoted, pm1) = dualSendDemotedLocked \<lparr>dkDst = dst, dkSource = source\<rparr> now pm
     in if demoted then (paths, pm1)
        else case candidateScoreLocked (seExp s) (seParse s) (seKnobs s) dst source now 0 pm1 of
          (None, pm2) \<Rightarrow> (paths, pm2)
        | (Some score, pm2) \<Rightarrow>
            if maxSkew > 0 \<and> dsPrimaryRTT candidate > 0
               \<and> absDuration (dsub (csLatency score) (dsPrimaryRTT candidate)) \<ge> maxSkew
            then (paths, pm2)
            else (paths @ [\<lparr>pDst = dst, pSource = source, pLatency = csLatency score, pHasLatency = True,
                           pLastAt = csLastAt score\<rparr>], pm2))"

definition limitPaths :: "nat \<Rightarrow> sourcePathSendPath list \<Rightarrow> sourcePathSendPath list" where
  "limitPaths limit paths = (if length paths > limit then take limit paths else paths)"

definition sourcePathRankedSendPathsForDst ::
    "srcEnv \<Rightarrow> sourcePathDstCandidate \<Rightarrow> mono \<Rightarrow> nat \<Rightarrow> conn \<Rightarrow> sourcePathSendPath list \<times> conn" where
  "sourcePathRankedSendPathsForDst s candidate now limit c =
     (let dst = dsDst candidate in
      if \<not> isDirect dst then ([], c)
      else
        let paths0 = (if dsAllowPrimarySource candidate \<or> dsHasPrimaryRTT candidate
              then [\<lparr>pDst = dst, pSource = primarySourceRxMeta, pLatency = dsPrimaryRTT candidate,
                     pHasLatency = dsHasPrimaryRTT candidate, pLastAt = 0\<rparr>] else []);
            (paths, c1) = onProbes (\<lambda>pm. foldl (rankedStep s candidate now) (paths0, pm) (probeSources s dst c)) c;
            sorted = sortFunc compareSourcePathSendPath paths
        in (if limit > 0 then limitPaths limit sorted else sorted, c1))"

fun rankedLoop :: "srcEnv \<Rightarrow> mono \<Rightarrow> sourcePathDstCandidate list \<Rightarrow> conn \<Rightarrow> sourcePathSendPath list \<times> conn" where
  "rankedLoop s now [] c = ([], c)"
| "rankedLoop s now (candidate # candidates) c =
     (let (ranked, c1) = sourcePathRankedSendPathsForDst s candidate now 2 c;
          (paths, c2) = rankedLoop s now candidates c1
      in (ranked @ paths, c2))"

definition sourcePathRankedDualSendPaths ::
    "srcEnv \<Rightarrow> sourcePathDstCandidate list \<Rightarrow> mono \<Rightarrow> conn \<Rightarrow> sourcePathSendPath list \<times> conn" where
  "sourcePathRankedDualSendPaths s candidates now c =
     (if \<not> sourcePathDualSendEnabled (seKnobs s) \<or> candidates = [] then ([], c)
      else if length candidates = 1 then sourcePathRankedSendPathsForDst s (candidates ! 0) now 3 c
      else
        let (paths, c1) = rankedLoop s now candidates c;
            sorted = limitPaths sourcePathMaxRankedPaths (sortFunc compareSourcePathSendPath paths)
        in (if length sorted < 2 then [] else sorted, c1))"

section \<open>Probes\<close>

definition discoPingSize :: int where
  "discoPingSize = 6 + 32 + 24 + 16 + 2 + 44"

definition errSourcePathUnavailable :: string where
  "errSourcePathUnavailable = ''magicsock: source path unavailable''"
definition errSourcePathProbePeerBudgetExceeded :: string where
  "errSourcePathProbePeerBudgetExceeded = ''magicsock: source path probe peer budget exceeded''"
definition errSourcePathProbeBurstBudgetExceeded :: string where
  "errSourcePathProbeBurstBudgetExceeded = ''magicsock: source path probe burst budget exceeded''"
definition errConnClosed :: string where
  "errConnClosed = ''Conn closed''"

definition sourcePathProbePacket :: "srcEnv \<Rightarrow> discoKey \<Rightarrow> txID \<Rightarrow> int \<Rightarrow> u8 list" where
  "sourcePathProbePacket s dstDisco txid sz =
     (let padding = max (sz - discoPingSize) 0;
          msg = SourcePathProbe \<lparr>pnTxID = txid, pnNodeKey = seNodeKey s, pnPadding = nat padding\<rparr>
      in Magic @ cvDiscoPublic (seView s) @ seSeal s dstDisco (appendMarshal msg []))"

text \<open>Returns \<open>Inl err\<close> for \<open>(false, err)\<close> and \<open>Inr pkt\<close> for \<open>(true, nil)\<close> with the packet written.
  \<open>write\<close> is \<open>WriteToUDPAddrPort\<close>: the number of bytes written and the error, if any.\<close>

definition sendSourcePathDiscoPing ::
    "srcEnv \<Rightarrow> (sourcePathSocket \<Rightarrow> u8 list \<Rightarrow> int \<times> string option) \<Rightarrow> mono \<Rightarrow> sourceRxMeta \<Rightarrow> epAddr \<Rightarrow> discoKey \<Rightarrow> txID \<Rightarrow> int
      \<Rightarrow> conn \<Rightarrow> (string + u8 list) \<times> conn" where
  "sendSourcePathDiscoPing s write now source dst dstDisco txid sz0 c =
     (if isPrimary source \<or> \<not> isDirect dst then (Inl errSourcePathUnavailable, c)
      else
        let sz = min sz0 (MaxDiscoPingSize (seView s)) in
        if coClosed c then (Inl errConnClosed, c)
        else if \<not> knownPeerDiscoKey dstDisco (coPeerMap c) then (Inl ''unknown peer'', c)
        else
          let c0 = snd (discoInfoForKnownPeerLocked dstDisco c);
              (expired, c1) = onProbes (\<lambda>pm. prod.swap (pruneExpiredLocked (seKnobs s) now pm)) c0;
              (rotations, c2) = onProbes (noteProbeExpirationsLocked (seKnobs s) expired now) c1;
              (addResult, c3) = onProbes (addLocked (seKnobs s) \<lparr>txTxid = txid, txDst = dst, txDstDisco = dstDisco,
                                                                txSource = source, txAt = now, txSize = sz\<rparr>) c2;
              forget = (\<lambda>c. c\<lparr>coSourceProbes := forgetLocked txid (coSourceProbes c)\<rparr>)
          in case addResult of
               sourcePathProbePeerBudgetExceeded \<Rightarrow> (Inl errSourcePathProbePeerBudgetExceeded, c3)
             | sourcePathProbeBurstBudgetExceeded \<Rightarrow> (Inl errSourcePathProbeBurstBudgetExceeded, c3)
             | sourcePathProbeHardCapExceeded \<Rightarrow> (Inl errSourcePathUnavailable, c3)
             | sourcePathProbeAdded \<Rightarrow>
                 let c4 = foldl (\<lambda>c rotation. rotateSourcePathAuxSocket s (roSource rotation) c) c3 rotations in
                 if list_ex (\<lambda>rotation. roSource rotation = source) rotations
                 then (Inl errSourcePathUnavailable, forget c4)
                 else
                   let pkt = sourcePathProbePacket s dstDisco txid sz;
                       res = sourcePathWriteTo source (ap dst) (\<lambda>sock. write sock pkt) (0, Some errSourcePathUnavailable) (coSourcePath c4);
                       err = (case snd res of Some e \<Rightarrow> Some e
                              | None \<Rightarrow> if fst res \<noteq> int (length pkt) then Some ''short write'' else None)
                   in (case err of
                         Some e \<Rightarrow> (Inl e, forget c4)
                       | None \<Rightarrow> (Inr pkt, c4)))"

text \<open>The probes a tick starts, with the transaction ids drawn in order.\<close>

definition tickDst :: "srcEnv \<Rightarrow> (nat \<Rightarrow> txID) \<Rightarrow> conn \<Rightarrow> discoKey \<Rightarrow> epAction list \<Rightarrow> epAddr \<Rightarrow> epAction list" where
  "tickDst s newTxID c disco acts dst =
     acts @ sourcePathPings newTxID dst disco 0 True (length acts) (probeSources s dst c)"

definition tickEndpoint ::
    "srcEnv \<Rightarrow> (nat \<Rightarrow> txID) \<Rightarrow> mono \<Rightarrow> walltime \<Rightarrow> conn \<Rightarrow> connAction list \<Rightarrow> epRef \<Rightarrow> connAction list" where
  "tickEndpoint s newTxID now wnow c acts r =
     (let de = coEps c ! r in
      case deDisco de of
        None \<Rightarrow> acts
      | Some disco \<Rightarrow> acts @ map (EpAct r) (foldl (tickDst s (\<lambda>n. newTxID (length acts + n)) c disco) []
                                (sourcePathProbeDstsLocked (seKnobs s) now wnow de)))"

definition sendSourcePathProbeTick :: "srcEnv \<Rightarrow> (nat \<Rightarrow> txID) \<Rightarrow> mono \<Rightarrow> walltime \<Rightarrow> conn \<Rightarrow> connAction list" where
  "sendSourcePathProbeTick s newTxID now wnow c =
     (if coClosed c then [] else foldl (tickEndpoint s newTxID now wnow c) [] (forEachEndpoint (coPeerMap c)))"

text \<open>The interval of the ticks, if the loop starts.\<close>

definition startSourcePathProbeLoop :: "env \<Rightarrow> duration option" where
  "startSourcePathProbeLoop e =
     (let interval = sourcePathProbeIntervalValue e
      in if interval \<le> 0 \<or> sourcePathAuxSocketCount e = 0 then None else Some interval)"

section \<open>What the methods leave alone\<close>

text \<open>The sockets, the endpoints and the peer map.\<close>

definition sameRest :: "conn \<Rightarrow> conn \<Rightarrow> bool" where
  "sameRest c c' \<longleftrightarrow> (\<exists>pm. c' = c\<lparr>coSourceProbes := pm\<rparr>)"

lemma sameRest_refl [simp]: "sameRest c c"
proof -
  have "c = c\<lparr>coSourceProbes := coSourceProbes c\<rparr>" by simp
  then show ?thesis unfolding sameRest_def by blast
qed

lemma sameRest_probes [simp]: "sameRest c (c'\<lparr>coSourceProbes := pm\<rparr>) \<longleftrightarrow> sameRest c c'"
proof -
  have "c' = (c'\<lparr>coSourceProbes := pm\<rparr>)\<lparr>coSourceProbes := coSourceProbes c'\<rparr>" by simp
  then show ?thesis unfolding sameRest_def
    by (metis (no_types, lifting) conn.update_convs(15) conn.surjective)
qed

lemma sameRest_trans: "sameRest c c' \<Longrightarrow> sameRest c' c'' \<Longrightarrow> sameRest c c''"
  by (auto simp: sameRest_def)

lemma sameRest_fields:
  assumes "sameRest c c'"
  shows "coSourcePath c' = coSourcePath c" "coEps c' = coEps c" "coPeerMap c' = coPeerMap c"
    "probeSources s dst c' = probeSources s dst c" "primaryRTTForDst dst c' = primaryRTTForDst dst c"
  using assms by (auto simp: sameRest_def probeSources_def primaryRTTForDst_def split: option.split)

lemma onProbes_fst [simp]: "fst (onProbes f c) = fst (f (coSourceProbes c))"
  by (simp add: onProbes_def split: prod.split)

lemma onProbes_snd [simp]: "snd (onProbes f c) = c\<lparr>coSourceProbes := snd (f (coSourceProbes c))\<rparr>"
  by (simp add: onProbes_def split: prod.split)

named_theorems source_frame

lemma sameRest_candidates [source_frame]:
  "sameRest c (noteSourcePathSendFailure dst source c)"
  "sameRest c (snd (sourcePathBestCandidate s dst now c))"
  "sameRest c (snd (sourcePathBestFailoverCandidate s dst now c))"
  "sameRest c (noteSourcePathDualSendAuxSuccess dst source c)"
  "sameRest c (endFailover dst t c)" "sameRest c (moveFailover dst t source c)"
  by (simp_all add: noteSourcePathSendFailure_def sourcePathBestCandidate_def sourcePathBestFailoverCandidate_def
      noteSourcePathDualSendAuxSuccess_def endFailover_def moveFailover_def Let_def case_prod_unfold)

lemma sameRest_backup [source_frame]: "sameRest c (snd (sourcePathActiveBackupCandidate s dst now c))"
proof -
  have b: "sameRest c c'" if "sourcePathBestFailoverCandidate s dst now c = (x, c')" for x c'
    using sameRest_candidates(3) [of c s dst now] that by simp
  show ?thesis
    by (auto simp: sourcePathActiveBackupCandidate_def Let_def source_frame
        split: option.split prod.split dest: b intro: sameRest_trans)
qed

lemma sameRest_noteFailure [source_frame]:
  "noteSourcePathPrimarySendFailure s dst now c = Inr (x, c') \<Longrightarrow> sameRest c c'"
  "noteSourcePathPrimarySendSuccess s dst c = Inr c' \<Longrightarrow> sameRest c c'"
proof -
  have b: "sameRest c c2" if "sourcePathBestFailoverCandidate s dst now (c\<lparr>coSourceProbes := pm\<rparr>) = (y, c2)" for y c2 pm
    using sameRest_candidates(3) [of "c\<lparr>coSourceProbes := pm\<rparr>" s dst now] that
    by (auto simp: sameRest_def)
  show "sameRest c c'" if "noteSourcePathPrimarySendFailure s dst now c = Inr (x, c')"
    using that
    by (auto simp: noteSourcePathPrimarySendFailure_def map_sum_def dest: b
        split: if_splits sum.splits prod.splits failureNext.splits option.splits)
  show "sameRest c c'" if "noteSourcePathPrimarySendSuccess s dst c = Inr c'"
    using that
    by (auto simp: noteSourcePathPrimarySendSuccess_def map_sum_def split: if_splits option.splits sum.splits)
qed

lemma sameRest_dataSource [source_frame]:
  "sameRest c (snd (sourcePathDataSendSource s dst now c))"
  "sameRest c (snd (sourcePathNewFlowSource s dst flowID score c))"
proof -
  have b: "sameRest c c'" if "sourcePathBestCandidate s dst now c = (x, c')" for x c'
    using sameRest_candidates(2) [of c s dst now] that by simp
  have a: "sameRest c c'" if "sourcePathActiveBackupCandidate s dst now c = (x, c')" for x c'
    using sameRest_backup [of c s dst now] that by simp
  show "sameRest c (snd (sourcePathDataSendSource s dst now c))"
    by (auto simp: sourcePathDataSendSource_def Let_def split: option.split prod.split dest: a b)
  show "sameRest c (snd (sourcePathNewFlowSource s dst flowID score c))"
    by (simp add: sourcePathNewFlowSource_def Let_def onProbes_def split: option.split prod.split)
qed

section \<open>Which source a batch gets\<close>

lemma scan_source:
  "(case fst st of None \<Rightarrow> True | Some c \<Rightarrow> csSource c = source) \<Longrightarrow>
   (case fst (foldl (scanSampleStep e dst source now) st sms) of None \<Rightarrow> True | Some c \<Rightarrow> csSource c = source)"
proof (induction sms arbitrary: st)
  case (Cons sm sms)
  have "case fst (scanSampleStep e dst source now st sm) of None \<Rightarrow> True | Some c \<Rightarrow> csSource c = source"
    using Cons.prems by (cases st) (auto simp: scanSampleStep_def Let_def split: option.splits)
  then show ?case using Cons.IH by simp
qed simp

lemma scoreOf_source:
  assumes "scoreOf fexp parseFloat e dst now rtt pm source = Some b"
  shows "csSource b = source \<and> \<not> isPrimary source"
proof -
  from assms obtain c0 sl sq where "\<not> isPrimary source"
    "foldl (scanSampleStep e dst source now) (None, Fin 0, Fin 0) (freshSamples e dst source now pm) = (Some c0, sl, sq)"
    and g: "gate fexp parseFloat e rtt (rawCandidate e dst source now pm c0 sl sq) = Some b"
    by (rule scoreOf_Some)
  moreover from this(2) have "csSource c0 = source"
    using scan_source [where st = "(None, Fin 0, Fin 0)" and sms = "freshSamples e dst source now pm" and source = source
        and e = e and dst = dst and now = now] by simp
  ultimately show ?thesis by (simp add: gate_Some [OF g])
qed

lemma bestCandidate_source:
  assumes "fst (bestCandidateLocked fexp parseFloat e dst sources now rtt pm) = Some b"
  shows "csSource b \<in> set sources \<and> \<not> isPrimary (csSource b)"
proof -
  have "b \<in> set (List.map_filter (scoreOf fexp parseFloat e dst now rtt pm) sources)"
    using assms unfolding bestCandidate_eq by (rule selectBest_in)
  then obtain source where "source \<in> set sources" "scoreOf fexp parseFloat e dst now rtt pm source = Some b"
    by (auto simp: List.map_filter_def)
  then show ?thesis using scoreOf_source by blast
qed

lemma bestCandidate_source':
  "bestCandidateLocked fexp parseFloat e dst sources now rtt pm = (Some b, pm') \<Longrightarrow> csSource b \<in> set sources"
  using bestCandidate_source [of fexp parseFloat e dst sources now rtt pm b] by simp

lemma candidate_sources:
  "sourcePathBestCandidate s dst now c = (Some b, c') \<Longrightarrow> csSource b \<in> set (probeSources s dst c) \<and> isDirect dst"
  "sourcePathBestFailoverCandidate s dst now c = (Some src, c') \<Longrightarrow> src \<in> set (probeSources s dst c) \<and> isDirect dst"
  by (auto simp: sourcePathBestCandidate_def sourcePathBestFailoverCandidate_def Let_def onProbes_def
      split: if_splits prod.splits dest: bestCandidate_source')

text \<open>A source to send from: the primary one, or one of the address family's bound sockets.\<close>

definition usableSource :: "srcEnv \<Rightarrow> epAddr \<Rightarrow> conn \<Rightarrow> sourceRxMeta \<Rightarrow> bool" where
  "usableSource s dst c source \<longleftrightarrow> isPrimary source \<or> (isDirect dst \<and> source \<in> set (probeSources s dst c))"

lemma usable_rest: "sameRest c c' \<Longrightarrow> usableSource s dst c' = usableSource s dst c"
  by (simp add: usableSource_def fun_eq_iff sameRest_fields(4))

lemma usable_primary [simp]: "usableSource s dst c primarySourceRxMeta"
  by (simp add: usableSource_def isPrimary_def primarySourceRxMeta_def)

lemma usable_available: "sourcePathSourceAvailable s dst source c \<Longrightarrow> usableSource s dst c source"
  by (auto simp: sourcePathSourceAvailable_def usableSource_def list_ex_iff split: if_splits)

lemma usable_forced:
  assumes "isDirect dst" "sourcePathAuxSocketCount (seKnobs s) \<noteq> 0"
  shows "usableSource s dst c (sourcePathForcedDataSendSource dst (coSourcePath c))"
proof -
  let ?v4 = "is4 (apAddr (ap dst))"
  have "isPrimary (foldl forcedStep m sls) \<or> foldl forcedStep m sls \<in> insert m (rxMeta ` fst ` {sl \<in> set sls. snd sl})" for m sls
  proof (induction sls arbitrary: m)
    case (Cons sl sls)
    then show ?case using Cons.IH [of "forcedStep m sl"] by (auto simp: forcedStep_def split: if_splits)
  qed simp
  then have "isPrimary src \<or> src = \<lparr>rxSocketID = 0, rxGeneration = 0\<rparr> \<or> src \<in> set (probeSources s dst c)"
    if "src = foldl forcedStep \<lparr>rxSocketID = 0, rxGeneration = 0\<rparr> (socketsOf ?v4 (coSourcePath c))" for src
    using that assms(2) by (fastforce simp: probeSources_def sourcePathProbeSources_def)
  then show ?thesis using assms(1)
    by (auto simp: sourcePathForcedDataSendSource_def Let_def usableSource_def isPrimary_def primarySourceRxMeta_def primarySourceSocketID_def)
qed

lemma usable_backup:
  assumes "sourcePathActiveBackupCandidate s dst now c = (Some source, c')"
  shows "usableSource s dst c source"
proof -
  have "source \<in> set (probeSources s dst c) \<and> isDirect dst"
    if "sourcePathBestFailoverCandidate s dst now c = (Some source, c1)" for c1
    using that by (rule candidate_sources)
  with assms usable_available show ?thesis
    by (auto simp: sourcePathActiveBackupCandidate_def Let_def usableSource_def split: if_splits option.splits prod.splits)
qed

lemma usable_best:
  "sourcePathBestCandidate s dst now c = (Some b, c') \<Longrightarrow> usableSource s dst c (csSource b)"
  using candidate_sources(1) by (simp add: usableSource_def)

lemma usable_dataSource: "usableSource s dst c (fst (sourcePathDataSendSource s dst now c))"
  by (auto simp: sourcePathDataSendSource_def Let_def usable_forced
      split: option.split prod.split dest: usable_best usable_backup)

lemma usable_newFlow:
  assumes "\<And>b. score = Some b \<Longrightarrow> usableSource s dst c (csSource b)"
  shows "usableSource s dst c (fst (sourcePathNewFlowSource s dst flowID score c))"
  using assms by (auto simp: sourcePathNewFlowSource_def Let_def onProbes_def split: option.split prod.split)

lemma flowAware_aux: "sourcePathFlowAwareEnabled e \<Longrightarrow> sourcePathAuxSocketCount e \<noteq> 0"
  by (simp add: sourcePathFlowAwareEnabled_def)

lemma usable_assign:
  "usableSource s dst c (fst (assignNewFlow s dst flowID now later c)) \<and> sameRest c (snd (assignNewFlow s dst flowID now later c))"
proof -
  obtain score c1 where best: "sourcePathBestCandidate s dst later c = (score, c1)" by fastforce
  then have rest: "sameRest c c1" using sameRest_candidates(2) [of c s dst later] by simp
  have "usableSource s dst c1 (csSource b)" if "score = Some b" for b
    using usable_best [of s dst later c b c1] best that by (simp add: usable_rest [OF rest])
  then have "usableSource s dst c1 (fst (sourcePathNewFlowSource s dst flowID score c1))" by (rule usable_newFlow)
  then show ?thesis using rest sameRest_dataSource(2) [of c1 s dst flowID score]
    by (simp add: assignNewFlow_def best case_prod_unfold Let_def usable_rest [OF rest]) (blast intro: sameRest_trans)
qed

lemma usable_flow:
  "usableSource s dst c (fst (sourcePathDataSendSourceForFlow s dst flowID now later c))
     \<and> sameRest c (snd (sourcePathDataSendSourceForFlow s dst flowID now later c))"
proof (cases "\<not> sourcePathFlowAwareEnabled (seKnobs s) \<or> \<not> isDirect dst \<or> flowID = 0")
  case True
  then show ?thesis
    using usable_dataSource [of s dst c later] sameRest_dataSource(1) [of c s dst later]
    by (auto simp: sourcePathDataSendSourceForFlow_def)
next
  case False
  obtain b c1 where backup: "sourcePathActiveBackupCandidate s dst now c = (b, c1)" by fastforce
  then have rest: "sameRest c c1" using sameRest_backup [of c s dst now] by simp
  note u = usable_rest [OF rest]
  show ?thesis
  proof (cases b)
    case (Some source)
    with False backup rest usable_backup [of s dst now c source c1] show ?thesis
      by (auto simp: sourcePathDataSendSourceForFlow_def)
  next
    case None
    have f: "usableSource s dst c (sourcePathForcedDataSendSource dst (coSourcePath c1))"
      using usable_forced [of dst s c1] False flowAware_aux by (simp add: u)
    obtain st c2 where look: "onProbes (lookupFlowLocked (seKnobs s) \<lparr>fkDst = dst, fkId = flowID\<rparr> now) c1 = (st, c2)"
      by fastforce
    then have "c2 = c1\<lparr>coSourceProbes := snd (lookupFlowLocked (seKnobs s) \<lparr>fkDst = dst, fkId = flowID\<rparr> now (coSourceProbes c1))\<rparr>"
      by (metis onProbes_snd snd_conv)
    then have r2: "sameRest c c2" using rest by simp
    have r3: "sameRest c (c2\<lparr>coSourceProbes := pm\<rparr>)" for pm using r2 by simp
    have new: "usableSource s dst c (fst (assignNewFlow s dst flowID now later c3))
        \<and> sameRest c (snd (assignNewFlow s dst flowID now later c3))" if "sameRest c c3" for c3
      using usable_assign [of s dst c3 flowID now later] that by (auto simp: usable_rest [OF that] intro: sameRest_trans)
    have old: "usableSource s dst c src" if "isPrimary src \<or> sourcePathSourceAvailable s dst src c2" for src
      using that usable_available [of s dst src c2] by (auto simp: usable_rest [OF r2] usableSource_def)
    show ?thesis using False
      by (simp add: sourcePathDataSendSourceForFlow_def backup None look Let_def rest f r2 new [OF r2] new [OF r3] old split: option.split)
  qed
qed

lemma usable_batch:
  "usableSource s dst c (fst (sourcePathDataSendSourceForBatch s dst buffs offset now later c))
     \<and> sameRest c (snd (sourcePathDataSendSourceForBatch s dst buffs offset now later c))"
  using usable_flow [of s dst c _ now later] usable_dataSource [of s dst c later] sameRest_dataSource(1) [of c s dst later]
  by (auto simp: sourcePathDataSendSourceForBatch_def split: option.split)

lemma pickSocket_meta: "pickSocket v4 source sp = Some sock \<Longrightarrow> rxMeta sock = source"
  by (auto simp: pickSocket_def find_Some_iff)

lemma usable_picks:
  assumes "usableSource s dst c source" "\<not> isPrimary source"
  shows "isDirect dst \<and> (\<exists>sock. pickSocket (is4 (apAddr (ap dst))) source (coSourcePath c) = Some sock \<and> rxMeta sock = source)"
proof -
  let ?v4 = "is4 (apAddr (ap dst))"
  have "source \<in> boundMetas ?v4 (coSourcePath c)" and dir: "isDirect dst"
    using assms by (auto simp: usableSource_def probeSources_def sourcePathProbeSources_def boundMetas_def split: if_splits)
  then obtain sock where "pickSocket ?v4 source (coSourcePath c) = Some sock"
    using pickSocket_None [of ?v4 source "coSourcePath c"] by auto
  with dir show ?thesis using pickSocket_meta by blast
qed

text \<open>
  C8. Data leaves from a live socket. Whatever the strategy, the failover state, the forced source and
  the assignment of flows say, the source chosen for a batch is the primary one or, for a direct
  address, an auxiliary source whose socket is bound now: the write that follows finds a bound socket
  of the address's family that carries exactly this identifier and generation. A socket that was
  rotated or closed is never picked, not even for a flow that was assigned to it.
\<close>

theorem data_source_bound:
  assumes "sourcePathDataSendSourceForBatch s dst buffs offset now later c = (source, c')"
  shows "isPrimary source \<or> isDirect dst
    \<and> (\<exists>sock. pickSocket (is4 (apAddr (ap dst))) source (coSourcePath c') = Some sock \<and> rxMeta sock = source)"
  using usable_batch [of s dst c buffs offset now later] usable_picks [of s dst c' source] assms
  by (auto simp: usable_rest sameRest_fields(1))

section \<open>Failover\<close>

text \<open>The consecutive failures at the end of a history of primary sends (\<open>True\<close> is a success).\<close>

definition failuresAtEnd :: "bool list \<Rightarrow> nat" where
  "failuresAtEnd h = length (takeWhile Not (rev h))"

lemma failuresAtEnd_simps [simp]:
  "failuresAtEnd [] = 0" "failuresAtEnd (h @ [True]) = 0" "failuresAtEnd (h @ [False]) = Suc (failuresAtEnd h)"
  by (simp_all add: failuresAtEnd_def)

text \<open>A history of the primary sends to an address without a failover so far, between which
  everything else that leaves the address's failover state alone may happen.\<close>

inductive sendHistory :: "srcEnv \<Rightarrow> epAddr \<Rightarrow> bool list \<Rightarrow> conn \<Rightarrow> bool" for s dst where
  Start: "backupOf dst (coSourceProbes c) = None \<Longrightarrow> sendHistory s dst [] c"
| Success: "sendHistory s dst h c \<Longrightarrow> noteSourcePathPrimarySendSuccess s dst c = Inr c' \<Longrightarrow> sendHistory s dst (h @ [True]) c'"
| Failure: "sendHistory s dst h c \<Longrightarrow> noteSourcePathPrimarySendFailure s dst now c = Inr (None, c') \<Longrightarrow> sendHistory s dst (h @ [False]) c'"
| Other: "sendHistory s dst h c \<Longrightarrow> backupOf dst (coSourceProbes c') = backupOf dst (coSourceProbes c) \<Longrightarrow> sendHistory s dst h c'"

lemma scoreOf_backup [simp]:
  "scoreOf fexp parseFloat e dst now rtt (pm\<lparr>pmActiveBackup := x\<rparr>) = scoreOf fexp parseFloat e dst now rtt pm"
  by (rule ext) (simp add: scoreOf_eq freshSamples_def rawCandidate_def lossRatioLocked_def pruneOutcomes_eq
      split: prod.split option.split)

lemma bestCandidate_backup [simp]:
  "fst (bestCandidateLocked fexp parseFloat e dst sources now rtt (pm\<lparr>pmActiveBackup := x\<rparr>))
     = fst (bestCandidateLocked fexp parseFloat e dst sources now rtt pm)"
  by (simp add: bestCandidate_eq)

lemma pruneOutcomes_backup [simp]: "pmActiveBackup (pruneExpiredOutcomesLocked e now pm) = pmActiveBackup pm"
  by (simp add: pruneOutcomes_eq)

lemma bestCandidate_keeps_backup [simp]:
  "pmActiveBackup (snd (bestCandidateLocked fexp parseFloat e dst sources now rtt pm)) = pmActiveBackup pm"
  using bestCandidate_foldl [of pm pm e now fexp parseFloat dst rtt None sources] by (auto simp: bestCandidateLocked_def)

lemma failover_candidate:
  "fst (sourcePathBestFailoverCandidate s dst now (c\<lparr>coSourceProbes := pm\<rparr>))
     = (if \<not> isDirect dst \<or> probeSources s dst c = [] then None
        else map_option csSource (fst (bestCandidateLocked (seExp s) (seParse s) (seKnobs s) dst (probeSources s dst c) now 0 pm)))"
  "pmActiveBackup (coSourceProbes (snd (sourcePathBestFailoverCandidate s dst now c))) = pmActiveBackup (coSourceProbes c)"
  by (simp_all add: sourcePathBestFailoverCandidate_def Let_def case_prod_unfold)
    (simp_all add: probeSources_def)

lemma failStreak_pos: "1 \<le> sourcePathActiveBackupPrimaryFailStreakValue e"
  by (simp add: sourcePathActiveBackupPrimaryFailStreakValue_def srcsel_consts Let_def)

lemma backupOf_cases:
  "backupOf dst pm = Some st \<Longrightarrow> \<exists>m. pmActiveBackup pm = Some m \<and> gm_get m dst = Some st"
  by (auto simp: backupOf_def split: option.splits)

text \<open>A failed primary send in full, for an address that has not failed over.\<close>

definition streakOf :: "epAddr \<Rightarrow> conn \<Rightarrow> int" where
  "streakOf dst c = (case backupOf dst (coSourceProbes c) of None \<Rightarrow> 0 | Some st \<Rightarrow> abSendFailStreak st)"

definition notFailedOver :: "epAddr \<Rightarrow> conn \<Rightarrow> bool" where
  "notFailedOver dst c = (case backupOf dst (coSourceProbes c) of None \<Rightarrow> True | Some st \<Rightarrow> mzero (abFailoverAt st))"

lemma noteFailure_cases:
  fixes now :: mono
  assumes on: "sourcePathActiveBackupEnabled (seKnobs s)" "isDirect dst" and nf: "notFailedOver dst c"
  defines "T \<equiv> sourcePathActiveBackupPrimaryFailStreakValue (seKnobs s)"
    and "best \<equiv> fst (sourcePathBestFailoverCandidate s dst now c)"
  obtains
    (Counted) c' where "streakOf dst c + 1 < T" "noteSourcePathPrimarySendFailure s dst now c = Inr (None, c')"
      "streakOf dst c' = streakOf dst c + 1" "notFailedOver dst c'"
  | (NoCandidate) c' where "T \<le> streakOf dst c + 1" "best = None"
      "noteSourcePathPrimarySendFailure s dst now c = Inr (None, c')" "streakOf dst c' = streakOf dst c" "notFailedOver dst c'"
  | (FailedOver) c' st source where "T \<le> streakOf dst c + 1" "best = Some source"
      "noteSourcePathPrimarySendFailure s dst now c = Inr (Some source, c')"
      "backupOf dst (coSourceProbes c') = Some st" "abSource st = source" "abFailoverAt st = now"
      "abHoldUntil st = madd now (sourcePathActiveBackupFailoverHoldValue (seKnobs s))"
proof -
  define m where "m = (case pmActiveBackup (coSourceProbes c) of None \<Rightarrow> [] | Some m \<Rightarrow> m)"
  define pm where "pm = (coSourceProbes c)\<lparr>pmActiveBackup := Some m\<rparr>"
  define st0 where "st0 = (case gm_get m dst of None \<Rightarrow> zeroBackup | Some st \<Rightarrow> st)"
  have pm: "(if pmActiveBackup (coSourceProbes c) = None then (coSourceProbes c)\<lparr>pmActiveBackup := Some []\<rparr> else coSourceProbes c) = pm"
    by (auto simp: pm_def m_def split: option.split)
  have b: "backupOf dst pm = gm_get m dst" "gm_get m dst = backupOf dst (coSourceProbes c)"
    by (auto simp: pm_def m_def backupOf_def split: option.split)
  have pmb: "pmActiveBackup pm = Some m" by (simp add: pm_def)
  have streak: "abSendFailStreak st0 = streakOf dst c" and nf0: "mzero (abFailoverAt st0)"
    using nf by (auto simp: st0_def streakOf_def notFailedOver_def b zeroBackup_def mzero_def split: option.splits)
  have aux: "sourcePathAuxSocketCount (seKnobs s) \<noteq> 0" using on(1) by (simp add: sourcePathActiveBackupEnabled_def)
  obtain f where f: "sourcePathBestFailoverCandidate s dst now (c\<lparr>coSourceProbes := pm\<rparr>) = (best, f)"
  proof -
    have "c\<lparr>coSourceProbes := coSourceProbes c\<rparr> = c" by simp
    then have "best = fst (sourcePathBestFailoverCandidate s dst now (c\<lparr>coSourceProbes := pm\<rparr>))"
      unfolding best_def by (metis failover_candidate(1) bestCandidate_backup pm_def)
    then show thesis using that by (metis prod.collapse)
  qed
  have fm: "pmActiveBackup (coSourceProbes f) = Some m"
    using failover_candidate(2) [of s dst now "c\<lparr>coSourceProbes := pm\<rparr>"] by (simp add: f) (simp add: pm_def)
  note unfolded = noteSourcePathPrimarySendFailure_def primaryFailureCount_def pm Let_def b(1) st0_def [symmetric] streak nf0 on aux
  show thesis
  proof (cases "streakOf dst c + 1 < T")
    case True
    then have eq: "noteSourcePathPrimarySendFailure s dst now c = Inr (None, c\<lparr>coSourceProbes := pm\<lparr>pmActiveBackup := Some (gm_set dst (st0\<lparr>abSendFailStreak := streakOf dst c + 1\<rparr>) m)\<rparr>\<rparr>)"
      by (simp add: unfolded T_def setBackup_def pmb)
    show thesis by (rule Counted [OF True eq]) (use nf0 in \<open>simp_all add: streakOf_def notFailedOver_def backupOf_def gm_get_set\<close>)
  next
    case False
    show thesis
    proof (cases best)
      case None
      then have eq: "noteSourcePathPrimarySendFailure s dst now c = Inr (None, f)"
        using False by (simp add: unfolded T_def f)
      have "backupOf dst (coSourceProbes f) = backupOf dst (coSourceProbes c)" using b(2) by (simp add: backupOf_def [of dst "coSourceProbes f"] fm)
      then show thesis by (intro NoCandidate [OF _ None eq]) (use False nf in \<open>simp_all add: streakOf_def notFailedOver_def\<close>)
    next
      case (Some source)
      let ?st = "st0\<lparr>abFailoverAt := now, abHoldUntil := madd now (sourcePathActiveBackupFailoverHoldValue (seKnobs s)), abSource := source\<rparr>"
      have eq: "noteSourcePathPrimarySendFailure s dst now c
          = Inr (Some source, f\<lparr>coSourceProbes := (coSourceProbes f)\<lparr>pmActiveBackup := Some (gm_set dst ?st m)\<rparr>\<rparr>)"
      proof -
        have "backupOf dst (coSourceProbes f) = gm_get m dst" by (simp add: backupOf_def fm)
        then have "primaryFailureCommit s dst now source (coSourceProbes f) = Inr ((coSourceProbes f)\<lparr>pmActiveBackup := Some (gm_set dst ?st m)\<rparr>)"
          by (simp add: primaryFailureCommit_def setBackup_def fm Let_def st0_def [symmetric])
        then show ?thesis using False Some by (simp add: unfolded T_def f)
      qed
      show thesis by (rule FailedOver [OF _ Some eq, of ?st]) (use False in \<open>simp_all add: backupOf_def gm_get_set\<close>)
    qed
  qed
qed

lemma noteSuccess_streak:
  assumes "noteSourcePathPrimarySendSuccess s dst c = Inr c'" "sourcePathActiveBackupEnabled (seKnobs s)" "isDirect dst"
  shows "streakOf dst c' = 0 \<and> (notFailedOver dst c \<longrightarrow> notFailedOver dst c')"
  using assms
  by (auto simp: noteSourcePathPrimarySendSuccess_def setBackup_def streakOf_def notFailedOver_def
      dest!: backupOf_cases split: option.splits) (auto simp: backupOf_def gm_get_set)

lemma sendHistory_streak:
  assumes "sendHistory s dst h c" "sourcePathActiveBackupEnabled (seKnobs s)" "isDirect dst"
  shows "notFailedOver dst c
    \<and> streakOf dst c = min (int (failuresAtEnd h)) (sourcePathActiveBackupPrimaryFailStreakValue (seKnobs s) - 1)"
  using assms(1)
proof (induction rule: sendHistory.induct)
  case (Start c)
  then show ?case using failStreak_pos [of "seKnobs s"] by (simp add: notFailedOver_def streakOf_def)
next
  case (Success h c c')
  then show ?case using noteSuccess_streak [OF Success(2) assms(2,3)] failStreak_pos [of "seKnobs s"] by simp
next
  case (Failure h c now c')
  then have "notFailedOver dst c" by simp
  from assms(2,3) this show ?case
    by (cases rule: noteFailure_cases [where now = now]) (use Failure in auto)
next
  case (Other h c c')
  then show ?case by (simp add: notFailedOver_def streakOf_def)
qed


text \<open>
  The second critical section writes the map that the first one made. If the connection is closed
  in between, \<open>clearLocked\<close> has set it to nil and the write panics.
\<close>

lemma close_between_panics: "primaryFailureCommit s dst now source (clearLocked pm) = Inl NilMapWrite"
  by (simp add: primaryFailureCommit_def setBackup_def clearLocked_def Let_def)

section \<open>Probes in flight\<close>

lemma pruneExpired_pending:
  assumes "gm_wf (pmPending pm)"
  shows "gm_wf (pmPending (fst (pruneExpiredLocked e now pm)))"
    "gm_get (pmPending pm) k = None \<Longrightarrow> gm_get (pmPending (fst (pruneExpiredLocked e now pm))) k = None"
  using assms by (simp_all add: pruneExpired_eq Let_def gm_wf_del_if gm_get_del_if)

lemma noteExpirations_pending [simp]:
  "pmPending (snd (noteProbeExpirationsLocked e txs now pm)) = pmPending pm"
proof -
  have "pmPending (fst (foldl (noteExpirationStep e now th) st txs)) = pmPending (fst st)" for th st
  proof (induction txs arbitrary: st)
    case (Cons tx txs)
    then show ?case by (cases st) (simp add: noteExpirationStep_def Let_def)
  qed simp
  from this [of _ "(pm, [], [])"] show ?thesis
    by (simp add: noteProbeExpirationsLocked_def Let_def split: prod.split) (metis fst_conv)
qed

lemma addLocked_pending:
  assumes "addLocked e tx pm = (r, pm')" "gm_wf (pmPending pm)" "gm_get (pmPending pm) (txTxid tx) = None"
  shows "gm_wf (pmPending pm') \<and> gm_get (pmPending pm') (txTxid tx) = (if r = sourcePathProbeAdded then Some tx else None)"
  using assms pruneExpired_pending [OF assms(2), where e = e and now = "txAt tx"]
  by (auto simp: addLocked_def addWithBudgetLocked_def Let_def gm_wf_set gm_get_set split: if_splits prod.splits)

lemma rotate_pending:
  assumes "gm_wf (pmPending (coSourceProbes c))"
  shows "gm_wf (pmPending (coSourceProbes (rotateSourcePathAuxSocket s source c)))"
    "gm_get (pmPending (coSourceProbes c)) k = Some tx \<Longrightarrow> txSource tx \<noteq> source \<Longrightarrow>
     gm_get (pmPending (coSourceProbes (rotateSourcePathAuxSocket s source c))) k = Some tx"
  using assms
  by (auto simp: rotateSourcePathAuxSocket_def dropSourceLocked_def gm_wf_del_if gm_get_del_if
      split: prod.split rebindResult.split)

lemma rotations_pending:
  assumes "gm_wf (pmPending (coSourceProbes c))" "gm_get (pmPending (coSourceProbes c)) k = Some tx"
    "\<not> list_ex (\<lambda>rotation. roSource rotation = txSource tx) rotations"
  shows "gm_get (pmPending (coSourceProbes (foldl (\<lambda>c rotation. rotateSourcePathAuxSocket s (roSource rotation) c) c rotations))) k = Some tx"
  using assms
proof (induction rotations arbitrary: c)
  case (Cons rotation rotations)
  then have "txSource tx \<noteq> roSource rotation" by auto
  note Cons.IH [OF rotate_pending(1) [OF Cons.prems(1)] rotate_pending(2) [OF Cons.prems(1,2) this], of s]
  then show ?case using Cons.prems(3) by simp
qed simp

lemma writeTo_Some:
  assumes "sourcePathWriteTo source dst write (0, Some err) sp = (n, None)"
  shows "\<exists>sock. pickSocket (is4 (apAddr dst)) source sp = Some sock \<and> rxMeta sock = source \<and> write sock = (n, None)"
  using assms pickSocket_meta by (auto simp: sourcePathWriteTo_def split: option.splits)

text \<open>
  C33. A probe is tracked exactly when it is on the wire. For a fresh transaction id, the call leaves
  an entry in the table of pending probes if and only if it reports the probe as sent; the entry then
  has this destination, peer, source and time, the packet went whole to a bound auxiliary socket that
  is this very source, and connection and peer were fit for it. Every refusal and every error, of a
  budget, of a source that was rotated on the way or of the write, leaves no trace of the id.
\<close>

theorem probe_pending_iff_sent:
  assumes "gm_wf (pmPending (coSourceProbes c))" "gm_get (pmPending (coSourceProbes c)) txid = None"
    "sendSourcePathDiscoPing s write now source dst dstDisco txid sz c = (res, c')"
  shows "case res of
      Inl err \<Rightarrow> gm_get (pmPending (coSourceProbes c')) txid = None
    | Inr pkt \<Rightarrow> gm_get (pmPending (coSourceProbes c')) txid =
          Some \<lparr>txTxid = txid, txDst = dst, txDstDisco = dstDisco, txSource = source, txAt = now,
                txSize = min sz (MaxDiscoPingSize (seView s))\<rparr>
        \<and> \<not> isPrimary source \<and> isDirect dst \<and> \<not> coClosed c \<and> knownPeerDiscoKey dstDisco (coPeerMap c)
        \<and> pkt = sourcePathProbePacket s dstDisco txid (min sz (MaxDiscoPingSize (seView s)))
        \<and> (\<exists>sock. pickSocket (is4 (apAddr (ap dst))) source (coSourcePath c') = Some sock \<and> rxMeta sock = source
             \<and> write sock pkt = (int (length pkt), None))"
proof (cases "isPrimary source \<or> \<not> isDirect dst \<or> coClosed c \<or> \<not> knownPeerDiscoKey dstDisco (coPeerMap c)")
  case True
  then show ?thesis using assms(2,3) by (auto simp: sendSourcePathDiscoPing_def Let_def split: if_splits)
next
  case False
  let ?sz = "min sz (MaxDiscoPingSize (seView s))"
  let ?tx = "\<lparr>txTxid = txid, txDst = dst, txDstDisco = dstDisco, txSource = source, txAt = now, txSize = ?sz\<rparr>"
  let ?pkt = "sourcePathProbePacket s dstDisco txid ?sz"
  define c0 where "c0 = snd (discoInfoForKnownPeerLocked dstDisco c)"
  have p0: "coSourceProbes c0 = coSourceProbes c"
    by (simp add: c0_def discoInfoForKnownPeerLocked_def Let_def split: option.split)
  define pm1 where "pm1 = fst (pruneExpiredLocked (seKnobs s) now (coSourceProbes c0))"
  define expired where "expired = snd (pruneExpiredLocked (seKnobs s) now (coSourceProbes c0))"
  define rotations where "rotations = fst (noteProbeExpirationsLocked (seKnobs s) expired now pm1)"
  define pm2 where "pm2 = snd (noteProbeExpirationsLocked (seKnobs s) expired now pm1)"
  obtain r pm3 where add: "addLocked (seKnobs s) ?tx pm2 = (r, pm3)" by fastforce
  have pend: "gm_wf (pmPending pm3)" "gm_get (pmPending pm3) txid = (if r = sourcePathProbeAdded then Some ?tx else None)"
    using addLocked_pending [OF add] pruneExpired_pending [OF assms(1), where e = "seKnobs s" and now = now] assms(2)
    by (simp_all add: pm2_def pm1_def p0)
  define c3 where "c3 = c0\<lparr>coSourceProbes := pm3\<rparr>"
  define c4 where "c4 = foldl (\<lambda>c rotation. rotateSourcePathAuxSocket s (roSource rotation) c) c3 rotations"
  define w where "w = sourcePathWriteTo source (ap dst) (\<lambda>sock. write sock ?pkt) (0, Some errSourcePathUnavailable) (coSourcePath c4)"
  let ?forget = "\<lambda>c. c\<lparr>coSourceProbes := forgetLocked txid (coSourceProbes c)\<rparr>"
  have eq: "(res, c') = (case r of
       sourcePathProbePeerBudgetExceeded \<Rightarrow> (Inl errSourcePathProbePeerBudgetExceeded, c3)
     | sourcePathProbeBurstBudgetExceeded \<Rightarrow> (Inl errSourcePathProbeBurstBudgetExceeded, c3)
     | sourcePathProbeHardCapExceeded \<Rightarrow> (Inl errSourcePathUnavailable, c3)
     | sourcePathProbeAdded \<Rightarrow>
         if list_ex (\<lambda>rotation. roSource rotation = source) rotations then (Inl errSourcePathUnavailable, ?forget c4)
         else case snd w of Some e \<Rightarrow> (Inl e, ?forget c4)
           | None \<Rightarrow> if fst w \<noteq> int (length ?pkt) then (Inl ''short write'', ?forget c4) else (Inr ?pkt, c4))"
  proof -
    have run: "onProbes (\<lambda>pm. prod.swap (pruneExpiredLocked (seKnobs s) now pm)) c0 = (expired, c0\<lparr>coSourceProbes := pm1\<rparr>)"
      "onProbes (noteProbeExpirationsLocked (seKnobs s) expired now) (c0\<lparr>coSourceProbes := pm1\<rparr>) = (rotations, c0\<lparr>coSourceProbes := pm2\<rparr>)"
      "onProbes (addLocked (seKnobs s) ?tx) (c0\<lparr>coSourceProbes := pm2\<rparr>) = (r, c3)"
      by (simp add: onProbes_def case_prod_unfold expired_def pm1_def, simp add: onProbes_def case_prod_unfold rotations_def pm2_def,
          simp add: onProbes_def add c3_def)
    have err: "(case (case snd w of Some e \<Rightarrow> Some e | None \<Rightarrow> if fst w \<noteq> int (length ?pkt) then Some ''short write'' else None) of
          Some e \<Rightarrow> (Inl e, ?forget c4) | None \<Rightarrow> (Inr ?pkt, c4))
        = (case snd w of Some e \<Rightarrow> (Inl e, ?forget c4)
           | None \<Rightarrow> if fst w \<noteq> int (length ?pkt) then (Inl ''short write'', ?forget c4) else (Inr ?pkt, c4))"
      by (simp split: option.split)
    show ?thesis
      using False unfolding assms(3) [symmetric] sendSourcePathDiscoPing_def Let_def c0_def [symmetric] run prod.case
        c4_def [symmetric] w_def [symmetric] err by simp
  qed
  show ?thesis
  proof (cases "r = sourcePathProbeAdded \<and> \<not> list_ex (\<lambda>rotation. roSource rotation = source) rotations
      \<and> w = (int (length ?pkt), None)")
    case True
    then have "res = Inr ?pkt" "c' = c4" using eq by simp_all
    moreover have "gm_get (pmPending (coSourceProbes c4)) txid = Some ?tx"
      unfolding c4_def using rotations_pending [of c3 txid ?tx rotations s] pend True by (simp add: c3_def)
    moreover have "\<exists>sock. pickSocket (is4 (apAddr (ap dst))) source (coSourcePath c4) = Some sock \<and> rxMeta sock = source
        \<and> write sock ?pkt = (int (length ?pkt), None)"
      using writeTo_Some [of source "ap dst" "\<lambda>sock. write sock ?pkt" errSourcePathUnavailable "coSourcePath c4"] True by (simp add: w_def)
    ultimately show ?thesis using False by simp
  next
    case False
    then show ?thesis using eq pend
      by (cases w) (auto simp: c3_def forgetLocked_def gm_get_del split: sourcePathProbeAddResult.splits if_splits option.splits)
  qed
qed

section \<open>Retiring a failed socket\<close>

text \<open>The manager holds nothing about a source.\<close>

definition forgotten :: "sourceRxMeta \<Rightarrow> sourcePathProbeManager \<Rightarrow> bool" where
  "forgotten source pm \<longleftrightarrow>
     (\<forall>sm\<in>set (pmSamples pm). smSource sm \<noteq> source) \<and> (\<forall>oc\<in>set (pmOutcomes pm). ocSource oc \<noteq> source)
   \<and> (\<forall>(k, tx)\<in>set (pmPending pm). txSource tx \<noteq> source) \<and> (\<forall>(k, st)\<in>set (pmFlowMap pm). fsSource st \<noteq> source)
   \<and> (\<forall>(k, n)\<in>set (pmAuxFailStreak pm). dkSource k \<noteq> source) \<and> (\<forall>(k, n)\<in>set (pmAuxProbeLoss pm). dkSource k \<noteq> source)
   \<and> (\<forall>(k, u)\<in>set (pmDemotedAuxTill pm). dkSource k \<noteq> source)"

lemma dropSource_forgotten: "\<not> isPrimary source \<Longrightarrow> forgotten source (snd (dropSourceLocked source pm))"
  by (auto simp: forgotten_def dropSourceLocked_def compactSlice_eq_filter gm_del_if_def)

text \<open>A rebind of a bound source leaves it unbound.\<close>

lemma rebind_bound:
  assumes "poolInv sp" "spGeneration sp \<noteq> - 1" "source \<in> boundMetas v4 sp" "\<not> isPrimary source" "sourcePathAuxSocketCount e \<noteq> 0"
    "rebindSourcePathSocket e listen source sp = (r, sp')"
  shows "source \<notin> boundMetas w4 sp'" "listen = None \<Longrightarrow> \<exists>m. r = Rebound m"
    "listen = Some err \<Longrightarrow> \<exists>m. r = RebindFailed m err"
proof -
  let ?g = "spGeneration sp"
  have len: "length (socketsOf u4 sp) \<le> 32" for u4 using assms(1) by (simp add: poolInv_def)
  from assms(3) obtain i where i: "i < length (socketsOf v4 sp)" "snd (socketsOf v4 sp ! i)" "source = rxMeta (fst (socketsOf v4 sp ! i))"
    by (auto simp: boundMetas_nth)
  then have "slotOk v4 ?g i (socketsOf v4 sp ! i)" using assms(1) by (simp add: poolInv_def)
  with i have sid: "rxSocketID source = sourcePathAuxSocketID v4 i" and gen: "rxGeneration source \<le> ?g"
    by (simp_all add: slotOk_def rxMeta_def)
  have slot: "sourcePathSocketSlotLocked (rxSocketID source) sp = Some ((v4, i), networkOf v4)"
    using slot_of_auxSocketID [OF i(1) len] by (simp only: sid)
  have not1: "r \<noteq> RebindUnavailable \<and> (\<forall>m. r \<noteq> RebindStale m)"
    using assms(4-6) slot i(3)
    by (auto simp: rebindSourcePathSocket_def Let_def getSlot_def bindSourcePathSocketLocked_def split: if_splits option.splits)
  have inv': "poolInv sp'" using poolInv_rebindOne [OF assms(1,2,6)] .
  from assms(6) show "source \<notin> boundMetas w4 sp'" "listen = None \<Longrightarrow> \<exists>m. r = Rebound m"
    "listen = Some err \<Longrightarrow> \<exists>m. r = RebindFailed m err"
  proof (atomize (full), cases rule: rebindOne_cases)
    case 1
    then show "source \<notin> boundMetas w4 sp' \<and> (listen = None \<longrightarrow> (\<exists>m. r = Rebound m)) \<and> (listen = Some err \<longrightarrow> (\<exists>m. r = RebindFailed m err))"
      using not1 by (cases r) auto
  next
    case (2 u4 k)
    have uk: "u4 = v4" "k = i" using 2(4) slot by simp_all
    have k: "i < length (socketsOf v4 (sp\<lparr>spGeneration := ?g + 1\<rparr>))" using i(1) by simp
    have "source \<notin> boundMetas w4 sp'"
    proof
      assume "source \<in> boundMetas w4 sp'"
      then obtain j where j: "j < length (socketsOf w4 sp')" "snd (socketsOf w4 sp' ! j)" "source = rxMeta (fst (socketsOf w4 sp' ! j))"
        by (auto simp: boundMetas_nth)
      then have "sourcePathAuxSocketID w4 j = sourcePathAuxSocketID v4 i" using inv' sid by (auto simp: poolInv_def slotOk_def rxMeta_def)
      moreover have "j < 32" "i < 32" using j(1) inv' i(1) len [of v4] by (auto simp: poolInv_def intro: less_le_trans)
      ultimately have "w4 = v4" "j = i" by (metis auxSocketID_inj)+
      with j(3) i(1) have "rxGeneration source = ?g + 1"
        by (simp add: 2(5) uk getSlot_put [OF k] boundSlot_def rxMeta_def)
      with gen assms(2) show False using word_inc_le [OF order_refl assms(2)] by auto
    qed
    with 2(6) show "source \<notin> boundMetas w4 sp' \<and> (listen = None \<longrightarrow> (\<exists>m. r = Rebound m)) \<and> (listen = Some err \<longrightarrow> (\<exists>m. r = RebindFailed m err))"
      by auto
  qed
qed


section \<open>Examples\<close>

lemma scan_count:
  "\<forall>sm\<in>set sms. freshFor e dst source now sm \<Longrightarrow> sms \<noteq> [] \<Longrightarrow>
   \<exists>c sl sq. foldl (scanSampleStep e dst source now) (None, Fin 0, Fin 0) sms = (Some c, sl, sq) \<and> csSamples c = int (length sms)"
proof (induction sms rule: rev_induct)
  case (snoc sm sms)
  show ?case
  proof (cases "sms = []")
    case True
    then show ?thesis using snoc.prems by (simp add: scanSampleStep_def freshFor_def Let_def)
  next
    case False
    with snoc obtain c sl sq where f: "foldl (scanSampleStep e dst source now) (None, Fin 0, Fin 0) sms = (Some c, sl, sq)"
      "csSamples c = int (length sms)" by auto
    have "\<exists>c' sl' sq'. scanSampleStep e dst source now (Some c, sl, sq) sm = (Some c', sl', sq') \<and> csSamples c' = csSamples c + 1"
      using snoc.prems(1) by (simp add: scanSampleStep_def freshFor_def Let_def)
    with f show ?thesis by auto
  qed
qed simp

text \<open>Outside the multi-metric mode and without a primary time to beat, three fresh samples are enough.\<close>

lemma scoreOf_three:
  assumes "\<not> sourcePathMultiMetricEnabled e" "isDirect dst" "\<not> isPrimary source" "3 \<le> length (freshSamples e dst source now pm)"
  shows "\<exists>b. scoreOf fexp parseFloat e dst now 0 pm source = Some b"
proof -
  let ?sms = "freshSamples e dst source now pm"
  have "\<forall>sm\<in>set ?sms. freshFor e dst source now sm" "?sms \<noteq> []" using assms(4) by (auto simp: freshSamples_def)
  then obtain c sl sq where "foldl (scanSampleStep e dst source now) (None, Fin 0, Fin 0) ?sms = (Some c, sl, sq)"
    "csSamples c = int (length ?sms)" using scan_count by blast
  with assms show ?thesis by (simp add: scoreOf_eq gate_def srcsel_consts)
qed

lemma scoreOf_none:
  assumes "freshSamples e dst source now pm = []"
  shows "scoreOf fexp parseFloat e dst now rtt pm source = None"
  by (simp add: scoreOf_eq assms)

definition exSrcEnv :: "env \<Rightarrow> srcEnv" where
  "exSrcEnv e = \<lparr>seKnobs = e, seExp = exExp, seParse = exParse, seView = exConn, seNodeKey = replicate 32 2,
     seSeal = (\<lambda>k b. b), seListen = (\<lambda>m. None), seTransportType = 4\<rparr>"

definition exSlot :: "u32 \<Rightarrow> string \<Rightarrow> slot" where
  "exSlot i net = (\<lparr>skID = i, skGeneration = 7, skPconn = Listening net\<rparr>, True)"

definition exSockets :: sourcePathState where
  "exSockets = \<lparr>spGeneration = 7, spAux4 = exSlot 1 ''udp4'', spAux6 = exSlot 2 ''udp6'',
     spExtra4 = [exSlot 100 ''udp4''], spExtra6 = [exSlot 200 ''udp6'']\<rparr>"

definition exBound :: "sourcePathProbeManager \<Rightarrow> conn" where
  "exBound pm = newConn\<lparr>coSourcePath := exSockets, coSourceProbes := pm\<rparr>"

definition exForced :: srcEnv where
  "exForced = exSrcEnv (defaultEnv\<lparr>envknobSrcSelDataStrategy := ''single-source'', envknobSrcSelForceDataSource := ''aux''\<rparr>)"

definition exBackup :: srcEnv where
  "exBackup = exSrcEnv (defaultEnv\<lparr>envknobSrcSelDataStrategy := ''active-backup'', envknobSrcSelActiveBackup := True,
     envknobSrcSelPrimaryFailStreak := 1\<rparr>)"

lemma exSockets_inv: "poolInv exSockets"
proof -
  have "slotOk v4 7 i (socketsOf v4 exSockets ! i)" if "i < length (socketsOf v4 exSockets)" for v4 i
  proof -
    have "i = 0 \<or> i = 1" using that by (cases v4) (auto simp: socketsOf_def exSockets_def less_Suc_eq)
    then show ?thesis
      by (cases v4) (auto simp: slotOk_def socketsOf_def exSockets_def exSlot_def networkOf_def sourcePathAuxSocketID_def socket_ids)
  qed
  moreover have "length (socketsOf v4 exSockets) \<le> 32" "spGeneration exSockets = 7" for v4
    by (simp_all add: socketsOf_def exSockets_def)
  ultimately show ?thesis by (simp add: poolInv_def)
qed

lemma exSources: "e = seKnobs s \<Longrightarrow> sourcePathAuxSocketCount e \<noteq> 0 \<Longrightarrow> probeSources s exDst (exBound pm) = [exAux, \<lparr>rxSocketID = 100, rxGeneration = 7\<rparr>]"
proof -
  assume "e = seKnobs s" "sourcePathAuxSocketCount e \<noteq> 0"
  moreover have "is4 (apAddr (ap exDst))" by code_simp
  ultimately show ?thesis
    by (simp add: probeSources_def sourcePathProbeSources_def exBound_def socketsOf_def exSockets_def exSlot_def rxMeta_def exAux_def)
qed

theorem data_source_bound_witness:
  "\<exists>c'. sourcePathDataSendSourceForBatch exForced exDst [] 0 30 30 (exBound emptyManager) = (exAux, c')
     \<and> (\<exists>sock. pickSocket True exAux (coSourcePath c') = Some sock \<and> rxMeta sock = exAux)"
proof -
  let ?r = "sourcePathDataSendSourceForBatch exForced exDst [] 0 30 30 (exBound emptyManager)"
  have "fst ?r = exAux" by code_simp
  then have eq: "?r = (exAux, snd ?r)" by (metis prod.collapse)
  have "\<not> isPrimary exAux" "is4 (apAddr (ap exDst))" by code_simp+
  with data_source_bound [OF eq] eq show ?thesis by auto
qed


definition exProbing :: conn where
  "exProbing = exKeyed\<lparr>coSourcePath := exSockets\<rparr>"

definition exWrite :: "sourcePathSocket \<Rightarrow> u8 list \<Rightarrow> int \<times> string option" where
  "exWrite sock pkt = (int (length pkt), None)"

theorem probe_pending_iff_sent_witness:
  "\<exists>pkt c'. sendSourcePathDiscoPing (exSrcEnv defaultEnv) exWrite 30 exAux exDst (replicate 32 109) (exTxID 1) 0 exProbing = (Inr pkt, c')
     \<and> gm_get (pmPending (coSourceProbes c')) (exTxID 1) \<noteq> None"
proof -
  let ?r = "sendSourcePathDiscoPing (exSrcEnv defaultEnv) exWrite 30 exAux exDst (replicate 32 109) (exTxID 1) 0 exProbing"
  have "\<not> isl (fst ?r)" by code_simp
  then obtain pkt where "fst ?r = Inr pkt" by (cases "fst ?r") auto
  then have eq: "?r = (Inr pkt, snd ?r)" by (metis prod.collapse)
  have "pmPending (coSourceProbes exProbing) = []" by code_simp
  then have "gm_wf (pmPending (coSourceProbes exProbing))" "gm_get (pmPending (coSourceProbes exProbing)) (exTxID 1) = None"
    by (simp_all add: gm_wf_def gm_get_def)
  from probe_pending_iff_sent [OF this eq] eq show ?thesis by auto
qed


end
