(* ===== verification/Srcsel_Rank.thy ===== *)
theory Srcsel_Rank
  imports Srcsel_Conn
begin

text \<open>
  The ranking of paths for redundant sending (\<open>sourcePathRankedDualSendPaths\<close> of
  \<open>src/wgengine/magicsock/sourcepath.go\<close>): what the loop over the sources collects, and that the
  sorted and cut result is fit for the active-path policy.
\<close>

section \<open>The ranking\<close>

lemma scan_lastAt:
  "(case fst st of None \<Rightarrow> True | Some c \<Rightarrow> csLastAt c \<in> A) \<Longrightarrow> smAt ` set sms \<subseteq> A \<Longrightarrow>
   (case fst (foldl (scanSampleStep e dst source now) st sms) of None \<Rightarrow> True | Some c \<Rightarrow> csLastAt c \<in> A)"
proof (induction sms arbitrary: st)
  case (Cons sm sms)
  have "case fst (scanSampleStep e dst source now st sm) of None \<Rightarrow> True | Some c \<Rightarrow> csLastAt c \<in> A"
    using Cons.prems by (cases st) (auto simp: scanSampleStep_def Let_def split: option.splits)
  then show ?case using Cons.IH Cons.prems(2) by simp
qed simp

lemma candidateScore_lastAt:
  assumes "candidateScoreLocked fexp parseFloat e dst source now rtt pm = (Some b, pm')"
  shows "csLastAt b \<in> smAt ` set (pmSamples pm)"
proof -
  have "scoreOf fexp parseFloat e dst now rtt pm source = Some b" by (simp add: scoreOf_def assms)
  then obtain c0 sl sq where
    f: "foldl (scanSampleStep e dst source now) (None, Fin 0, Fin 0) (freshSamples e dst source now pm) = (Some c0, sl, sq)"
    and g: "gate fexp parseFloat e rtt (rawCandidate e dst source now pm c0 sl sq) = Some b"
    by (rule scoreOf_Some)
  have "smAt ` set (freshSamples e dst source now pm) \<subseteq> smAt ` set (pmSamples pm)" by (auto simp: freshSamples_def)
  with scan_lastAt [where st = "(None, Fin 0, Fin 0)" and A = "smAt ` set (pmSamples pm)" and sms = "freshSamples e dst source now pm"
      and e = e and dst = dst and source = source and now = now] f
  show ?thesis by (simp add: gate_Some [OF g])
qed

lemma candidateScore_samples:
  "pmSamples (snd (candidateScoreLocked fexp parseFloat e dst source now rtt pm)) = pmSamples pm"
  using candidateScore_state [of fexp parseFloat e dst source now rtt pm] by auto

lemma demoted_samples: "pmSamples (snd (dualSendDemotedLocked k now pm)) = pmSamples pm"
  by (simp add: dualSendDemotedLocked_def split: option.split)

lemma rankedStep_cases:
  "\<exists>ps pm'. rankedStep s cand now (paths, pm) source = (paths @ ps, pm') \<and> pmSamples pm' = pmSamples pm
     \<and> (ps = [] \<or> (\<exists>p. ps = [p] \<and> pDst p = dsDst cand \<and> pSource p = source \<and> pHasLatency p \<and> pLastAt p \<in> smAt ` set (pmSamples pm)))"
proof -
  obtain demoted pm1 where d: "dualSendDemotedLocked \<lparr>dkDst = dsDst cand, dkSource = source\<rparr> now pm = (demoted, pm1)" by fastforce
  obtain score pm2 where sc: "candidateScoreLocked (seExp s) (seParse s) (seKnobs s) (dsDst cand) source now 0 pm1 = (score, pm2)" by fastforce
  have sm: "pmSamples pm1 = pmSamples pm" "pmSamples pm2 = pmSamples pm"
    using demoted_samples [of "\<lparr>dkDst = dsDst cand, dkSource = source\<rparr>" now pm]
      candidateScore_samples [of "seExp s" "seParse s" "seKnobs s" "dsDst cand" source now 0 pm1] by (simp_all add: d sc)
  show ?thesis
  proof (cases score)
    case None
    then show ?thesis using sm by (auto simp: rankedStep_def d sc Let_def)
  next
    case (Some b)
    then have "csLastAt b \<in> smAt ` set (pmSamples pm)" using candidateScore_lastAt sc sm by fastforce
    with Some sm show ?thesis by (auto simp: rankedStep_def d sc Let_def)
  qed
qed

text \<open>The paths of one destination.\<close>

definition pathsOfDst :: "conn \<Rightarrow> srcEnv \<Rightarrow> epAddr \<Rightarrow> sourcePathSendPath list \<Rightarrow> bool" where
  "pathsOfDst c s dst ps \<longleftrightarrow> distinct (map pSource ps) \<and> (\<forall>p\<in>set ps. pDst p = dst \<and> isDirect dst \<and> pathClock p \<and> usableSource s dst c (pSource p)
     \<and> (isPrimary (pSource p) \<longrightarrow> pSource p = primarySourceRxMeta))"

lemma distinct_map_filter_nth:
  "(\<And>i j. i < length xs \<Longrightarrow> j < length xs \<Longrightarrow> P (xs ! i) \<Longrightarrow> P (xs ! j) \<Longrightarrow> f (xs ! i) = f (xs ! j) \<Longrightarrow> i = j)
     \<Longrightarrow> distinct (map f (filter P xs))"
proof (induction xs)
  case (Cons x xs)
  have "distinct (map f (filter P xs))"
    by (rule Cons.IH) (use Cons.prems [of "Suc _" "Suc _"] in auto)
  moreover have "f x \<notin> f ` set (filter P xs)" if "P x"
  proof
    assume "f x \<in> f ` set (filter P xs)"
    then obtain j where "j < length xs" "P (xs ! j)" "f x = f (xs ! j)" by (auto simp: in_set_conv_nth)
    with Cons.prems [of 0 "Suc j"] that show False by simp
  qed
  ultimately show ?case by auto
qed simp

lemma probeSources_distinct:
  assumes "poolInv (coSourcePath c)"
  shows "distinct (probeSources s dst c)" "\<forall>source\<in>set (probeSources s dst c). \<not> isPrimary source"
proof -
  let ?sl = "socketsOf (is4 (apAddr (ap dst))) (coSourcePath c)"
  have len: "length ?sl \<le> 32" using assms by (simp add: poolInv_def)
  have ok: "skID (fst (?sl ! i)) = sourcePathAuxSocketID (is4 (apAddr (ap dst))) i" if "i < length ?sl" "snd (?sl ! i)" for i
    using assms that by (auto simp: poolInv_def slotOk_def)
  have inj: "i = j" if "i < length ?sl" "j < length ?sl" "snd (?sl ! i)" "snd (?sl ! j)" "rxMeta (fst (?sl ! i)) = rxMeta (fst (?sl ! j))" for i j
    using auxSocketID_inj [of i j] that ok len by (auto simp: rxMeta_def)
  show "distinct (probeSources s dst c)"
    using inj by (auto simp: probeSources_def sourcePathProbeSources_def intro!: distinct_map_filter_nth)
  show "\<forall>source\<in>set (probeSources s dst c). \<not> isPrimary source"
    using ok len auxSocketID_not_primary
    by (auto simp: probeSources_def sourcePathProbeSources_def in_set_conv_nth isPrimary_def rxMeta_def primarySourceSocketID_def)
      (metis fst_conv less_le_trans snd_conv)
qed

lemma ranked_foldl:
  assumes "distinct sources" "\<forall>sm\<in>set (pmSamples pm). clock (smAt sm)"
  shows "\<exists>ps pm'. foldl (rankedStep s cand now) (paths, pm) sources = (paths @ ps, pm') \<and> pmSamples pm' = pmSamples pm
    \<and> distinct (map pSource ps) \<and> (\<forall>p\<in>set ps. pDst p = dsDst cand \<and> pSource p \<in> set sources \<and> pathClock p)"
  using assms(1)
proof (induction sources rule: rev_induct)
  case (snoc source sources)
  then obtain ps pm1 where ih: "foldl (rankedStep s cand now) (paths, pm) sources = (paths @ ps, pm1)" "pmSamples pm1 = pmSamples pm"
    "distinct (map pSource ps)" "\<forall>p\<in>set ps. pDst p = dsDst cand \<and> pSource p \<in> set sources \<and> pathClock p" by auto
  obtain qs pm2 where step: "rankedStep s cand now (paths @ ps, pm1) source = ((paths @ ps) @ qs, pm2)" "pmSamples pm2 = pmSamples pm1"
    "qs = [] \<or> (\<exists>p. qs = [p] \<and> pDst p = dsDst cand \<and> pSource p = source \<and> pHasLatency p \<and> pLastAt p \<in> smAt ` set (pmSamples pm1))"
    using rankedStep_cases by blast
  have "distinct (map pSource (ps @ qs)) \<and> (\<forall>p\<in>set (ps @ qs). pDst p = dsDst cand \<and> pSource p \<in> set (sources @ [source]) \<and> pathClock p)"
    using step(3) ih snoc.prems assms(2) by (auto simp: pathClock_def)
  with ih(1,2) step(1,2) show ?case by (intro exI [of _ "ps @ qs"] exI [of _ pm2]) simp
qed simp

lemma limitPaths_take: "limitPaths n ps = take n ps"
  by (simp add: limitPaths_def)

lemma rankedForDst_ok:
  assumes "poolInv (coSourcePath c)" "\<forall>sm\<in>set (pmSamples (coSourceProbes c)). clock (smAt sm)" "0 < limit"
    "sourcePathRankedSendPathsForDst s cand now limit c = (ps, c')"
  shows "pathsOfDst c s (dsDst cand) ps \<and> length ps \<le> limit \<and> sorted_wrt (\<lambda>a b. compareSourcePathSendPath a b \<le> 0) ps
    \<and> sameRest c c' \<and> pmSamples (coSourceProbes c') = pmSamples (coSourceProbes c)"
proof (cases "isDirect (dsDst cand)")
  case False
  then show ?thesis using assms(4) by (auto simp: sourcePathRankedSendPathsForDst_def Let_def pathsOfDst_def)
next
  case True
  let ?dst = "dsDst cand"
  define paths0 where "paths0 = (if dsAllowPrimarySource cand \<or> dsHasPrimaryRTT cand
      then [\<lparr>pDst = ?dst, pSource = primarySourceRxMeta, pLatency = dsPrimaryRTT cand, pHasLatency = dsHasPrimaryRTT cand, pLastAt = 0\<rparr>] else [])"
  have "distinct (probeSources s ?dst c)" using assms(1) by (rule probeSources_distinct)
  from ranked_foldl [OF this assms(2)] obtain qs pm' where
    fold: "foldl (rankedStep s cand now) (paths0, coSourceProbes c) (probeSources s ?dst c) = (paths0 @ qs, pm')"
    and sm: "pmSamples pm' = pmSamples (coSourceProbes c)" and qs: "distinct (map pSource qs)"
    "\<forall>p\<in>set qs. pDst p = ?dst \<and> pSource p \<in> set (probeSources s ?dst c) \<and> pathClock p" by blast
  define sorted where "sorted = sortFunc compareSourcePathSendPath (paths0 @ qs)"
  have eq: "ps = take limit sorted" "c' = c\<lparr>coSourceProbes := pm'\<rparr>"
    using assms(3,4) True
    by (simp_all add: sourcePathRankedSendPathsForDst_def Let_def paths0_def [symmetric] onProbes_def fold sorted_def limitPaths_take)
  have p0: "\<forall>p\<in>set paths0. pDst p = ?dst \<and> pSource p = primarySourceRxMeta \<and> isPrimary (pSource p) \<and> pathClock p \<and> usableSource s ?dst c (pSource p)" "length paths0 \<le> 1"
    by (simp_all add: paths0_def pathClock_def clock_def isPrimary_def primarySourceRxMeta_def usableSource_def)
  have all: "\<forall>p\<in>set sorted. pDst p = ?dst \<and> isDirect ?dst \<and> pathClock p \<and> usableSource s ?dst c (pSource p)
      \<and> (isPrimary (pSource p) \<longrightarrow> pSource p = primarySourceRxMeta)"
    using p0 qs True probeSources_distinct(2) [OF assms(1), of s ?dst] by (auto simp: sorted_def usableSource_def)
  have "distinct (map pSource paths0)" using p0(2) by (cases paths0) auto
  then have d: "distinct (map pSource (paths0 @ qs))"
    using qs p0 probeSources_distinct(2) [OF assms(1), of s ?dst] by auto metis
  have "mset (map pSource sorted) = mset (map pSource (paths0 @ qs))" by (simp add: sorted_def)
  then have "distinct (map pSource sorted)" using d by (metis mset_eq_imp_distinct_iff)
  moreover have "sorted_wrt (\<lambda>a b. compareSourcePathSendPath a b \<le> 0) sorted"
    unfolding sorted_def using all by (intro paths.sorted_sortFunc) (auto simp: sorted_def)
  ultimately show ?thesis using all sm
    by (auto simp: eq pathsOfDst_def sorted_wrt_take take_map [symmetric] dest: in_set_takeD)
qed

lemma pathsOfDst_rest: "sameRest c c' \<Longrightarrow> pathsOfDst c' s dst ps = pathsOfDst c s dst ps"
  by (simp add: pathsOfDst_def usable_rest)

lemma pathsOfDst_ids: "pathsOfDst c s dst ps \<Longrightarrow> distinct (map pathId ps)"
  unfolding pathsOfDst_def distinct_map by (auto simp: inj_on_def pathId_def)

lemma rankedLoop_ok:
  assumes "poolInv (coSourcePath c)" "\<forall>sm\<in>set (pmSamples (coSourceProbes c)). clock (smAt sm)" "distinct (map dsDst candList)"
    "rankedLoop s now candList c = (ps, c')"
  shows "distinct (map pathId ps) \<and> (\<forall>p\<in>set ps. pDst p \<in> dsDst ` set candList \<and> isDirect (pDst p) \<and> pathClock p \<and> usableSource s (pDst p) c (pSource p) \<and> (isPrimary (pSource p) \<longrightarrow> pSource p = primarySourceRxMeta))
    \<and> (\<forall>d. length (filter (\<lambda>p. pDst p = d) ps) \<le> 2) \<and> sameRest c c'"
  using assms
proof (induction candList arbitrary: c ps c')
  case (Cons cand candList)
  obtain qs c1 where one: "sourcePathRankedSendPathsForDst s cand now 2 c = (qs, c1)" by fastforce
  obtain rs c2 where rest: "rankedLoop s now candList c1 = (rs, c2)" by fastforce
  have ps: "ps = qs @ rs" "c' = c2" using Cons.prems(4) by (simp_all add: one rest)
  note q = rankedForDst_ok [OF Cons.prems(1,2) _ one, simplified]
  then have same: "sameRest c c1" and sm: "pmSamples (coSourceProbes c1) = pmSamples (coSourceProbes c)" by simp_all
  have ih: "distinct (map pathId rs) \<and> (\<forall>p\<in>set rs. pDst p \<in> dsDst ` set candList \<and> isDirect (pDst p) \<and> pathClock p \<and> usableSource s (pDst p) c1 (pSource p) \<and> (isPrimary (pSource p) \<longrightarrow> pSource p = primarySourceRxMeta))
    \<and> (\<forall>d. length (filter (\<lambda>p. pDst p = d) rs) \<le> 2) \<and> sameRest c1 c2"
    using Cons.prems rest by (intro Cons.IH) (simp_all add: sameRest_fields(1) [OF same] sm)
  have qd: "pDst p = dsDst cand" if "p \<in> set qs" for p using q that by (simp add: pathsOfDst_def)
  have rd: "pDst p \<noteq> dsDst cand" if "p \<in> set rs" for p
    using ih that Cons.prems(3) by (metis distinct.simps(2) list.set_map list.simps(9))
  have "pathId ` set qs \<inter> pathId ` set rs = {}" using qd rd by (fastforce simp: pathId_def)
  moreover have "length (filter (\<lambda>p. pDst p = d) (qs @ rs)) \<le> 2" for d
  proof (cases "d = dsDst cand")
    case True
    then have "filter (\<lambda>p. pDst p = d) rs = []" using rd by (auto simp: filter_empty_conv)
    then show ?thesis using q order_trans [OF length_filter_le [of "\<lambda>p. pDst p = d" qs]] by simp
  next
    case False
    then have "filter (\<lambda>p. pDst p = d) qs = []" using qd by (auto simp: filter_empty_conv)
    then show ?thesis using ih by simp
  qed
  ultimately show ?case using q ih pathsOfDst_ids [of c s "dsDst cand" qs] same
    by (auto simp: ps pathsOfDst_def usable_rest [OF same] intro: sameRest_trans)
qed simp

lemma ranked_ok:
  assumes "poolInv (coSourcePath c)" "\<forall>sm\<in>set (pmSamples (coSourceProbes c)). clock (smAt sm)" "distinct (map dsDst candidates)"
    "sourcePathRankedDualSendPaths s candidates now c = (paths, c')"
  shows "length paths \<le> 32 \<and> (\<forall>d. length (filter (\<lambda>p. pDst p = d) paths) \<le> (if length candidates = 1 then 3 else 2))
    \<and> sorted_wrt (\<lambda>a b. compareSourcePathSendPath a b \<le> 0) paths \<and> rankedOk paths
    \<and> (\<forall>p\<in>set paths. pDst p \<in> dsDst ` set candidates \<and> isDirect (pDst p) \<and> usableSource s (pDst p) c' (pSource p)
         \<and> (isPrimary (pSource p) \<longrightarrow> pSource p = primarySourceRxMeta)) \<and> sameRest c c'"
proof (cases "\<not> sourcePathDualSendEnabled (seKnobs s) \<or> candidates = []")
  case True
  then show ?thesis using assms(4) by (auto simp: sourcePathRankedDualSendPaths_def rankedOk_def)
next
  case off: False
  show ?thesis
  proof (cases "length candidates = 1")
    case True
    then obtain cand where cand: "candidates = [cand]" by (auto simp: length_Suc_conv)
    then have "sourcePathRankedSendPathsForDst s cand now 3 c = (paths, c')" using off assms(4) by (simp add: sourcePathRankedDualSendPaths_def)
    from rankedForDst_ok [OF assms(1,2) _ this] have r: "pathsOfDst c s (dsDst cand) paths" "length paths \<le> 3"
      "sorted_wrt (\<lambda>a b. compareSourcePathSendPath a b \<le> 0) paths" "sameRest c c'" by simp_all
    have "length (filter (\<lambda>p. pDst p = d) paths) \<le> 3" for d using length_filter_le r(2) by (rule le_trans)
    with r show ?thesis using pathsOfDst_ids [OF r(1)] by (auto simp: True cand rankedOk_def pathsOfDst_def usable_rest)
  next
    case False
    obtain qs c1 where loop: "rankedLoop s now candidates c = (qs, c1)" by fastforce
    define sorted where "sorted = sortFunc compareSourcePathSendPath qs"
    have eq: "paths = (if length (take 32 sorted) < 2 then [] else take 32 sorted)" "c' = c1"
      using off False assms(4)
      by (auto simp: sourcePathRankedDualSendPaths_def Let_def loop limitPaths_take sourcePathMaxRankedPaths_def sorted_def)
    note r = rankedLoop_ok [OF assms(1-3) loop]
    have ids: "distinct (map pathId sorted)"
      using r mset_eq_imp_distinct_iff [of "map pathId sorted" "map pathId qs"] by (simp add: sorted_def)
    have fl: "length (filter (\<lambda>p. pDst p = d) (take 32 sorted)) \<le> 2" for d
    proof -
      have "mset (filter (\<lambda>p. pDst p = d) sorted) = mset (filter (\<lambda>p. pDst p = d) qs)" by (simp add: sorted_def)
      then have "length (filter (\<lambda>p. pDst p = d) sorted) \<le> 2" using r by (metis size_mset)
      moreover have "length (filter (\<lambda>p. pDst p = d) (take 32 sorted)) \<le> length (filter (\<lambda>p. pDst p = d) sorted)"
        by (metis append_take_drop_id filter_append le_add1 length_append)
      ultimately show ?thesis by simp
    qed
    have "sorted_wrt (\<lambda>a b. compareSourcePathSendPath a b \<le> 0) sorted"
      unfolding sorted_def using r by (intro paths.sorted_sortFunc) simp
    then have "sorted_wrt (\<lambda>a b. compareSourcePathSendPath a b \<le> 0) (take 32 sorted)" by (rule sorted_wrt_take)
    moreover have "distinct (map pathId (take 32 sorted))" using ids by (simp add: take_map [symmetric])
    moreover have "\<forall>p\<in>set (take 32 sorted). pDst p \<in> dsDst ` set candidates \<and> isDirect (pDst p) \<and> pathClock p \<and> usableSource s (pDst p) c (pSource p)
        \<and> (isPrimary (pSource p) \<longrightarrow> pSource p = primarySourceRxMeta)"
      using r by (auto simp: sorted_def dest!: in_set_takeD)
    moreover have "sameRest c c1" using r by blast
    ultimately show ?thesis using fl False by (simp add: eq rankedOk_def usable_rest [OF \<open>sameRest c c1\<close>])
  qed
qed

text \<open>
  C35. The ranking is small, sorted and made of live paths. For destinations that are all different,
  redundant sending ranks at most 32 paths, at most three for a single destination and at most two per
  destination otherwise. They are in the order of the comparison function, no pair of destination and
  source occurs twice, every destination is one of the candidates and direct, and every source is the
  primary one or a bound socket of the destination's family. So the ranking meets the conditions
  under which the active-path policy returns two different paths.
\<close>

theorem ranked_paths_sound:
  assumes "poolInv (coSourcePath c)" "\<forall>sm\<in>set (pmSamples (coSourceProbes c)). clock (smAt sm)" "distinct (map dsDst candidates)"
    "sourcePathRankedDualSendPaths s candidates now c = (paths, c')"
  shows "length paths \<le> 32 \<and> (\<forall>d. length (filter (\<lambda>p. pDst p = d) paths) \<le> (if length candidates = 1 then 3 else 2))
    \<and> sorted_wrt (\<lambda>a b. compareSourcePathSendPath a b \<le> 0) paths \<and> rankedOk paths
    \<and> (\<forall>p\<in>set paths. pDst p \<in> dsDst ` set candidates \<and> isDirect (pDst p) \<and> usableSource s (pDst p) c' (pSource p))"
  using ranked_ok [OF assms] by blast

definition exCandidates :: "sourcePathDstCandidate list" where
  "exCandidates = [\<lparr>dsDst = exDst, dsPrimaryRTT = 0, dsHasPrimaryRTT = False, dsAllowPrimarySource = True\<rparr>,
     \<lparr>dsDst = exSrc, dsPrimaryRTT = 5, dsHasPrimaryRTT = True, dsAllowPrimarySource = False\<rparr>]"

theorem ranked_paths_sound_witness:
  "\<exists>paths c'. sourcePathRankedDualSendPaths (exSrcEnv defaultEnv) exCandidates 30 (exBound emptyManager) = (paths, c')
     \<and> map pDst paths = [exSrc, exDst] \<and> rankedOk paths"
proof -
  let ?r = "sourcePathRankedDualSendPaths (exSrcEnv defaultEnv) exCandidates 30 (exBound emptyManager)"
  have ps: "map pDst (fst ?r) = [exSrc, exDst]" by code_simp
  have inv: "poolInv (coSourcePath (exBound emptyManager))" by (simp add: exBound_def exSockets_inv)
  have "distinct (map dsDst exCandidates)" by code_simp
  from ranked_paths_sound [OF inv _ this prod.collapse [symmetric]] ps show ?thesis
    by (intro exI [of _ "fst ?r"] exI [of _ "snd ?r"]) (simp add: exBound_def emptyManager_def)
qed

end
