(* ===== verification/Conn_Derp.thy ===== *)
theory Conn_Derp
  imports Conn_Disco
begin

unbundle bit_operations_syntax

text \<open>
  The DERP side of \<open>Conn\<close> (\<open>src/wgengine/magicsock/derp.go\<close>): which relay connections are open,
  the routes learned from what arrives over them, the queues of packets to write, the home region,
  and the goroutines that read and write. \<open>record wire\<close> holds the connection of \<open>Conn_Peers\<close> and the
  fields of the struct that this theory and the following ones read and write. A \<open>derphttp.Client\<close>
  is known by its number in the order of creation; what the code asks of it, of the health tracker
  and of new goroutines is collected as \<open>derpAction\<close>s.
\<close>

section \<open>The data\<close>

text \<open>The DERP map; \<open>Rest\<close> stands for the fields that only \<open>reflect.DeepEqual\<close> looks at, and of the map
  itself for whether its table of regions is nil.\<close>

record derpNode =
  dnName :: string
  dnRegionID :: int
  dnHostName :: string
  dnDERPPort :: int
  dnRest :: string

record derpRegion =
  rgRegionID :: int
  rgRegionCode :: string
  rgNodes :: "derpNode list"
  rgRest :: string

record derpMap =
  dmOmitDefaultRegions :: bool
  dmRegions :: "(int, derpRegion option) gomap"
  dmRest :: string

type_synonym derpClient = nat

record derpRoute =
  drRegionID :: int
  drClient :: derpClient

record activeDerp =
  adClient :: derpClient
  adLastWrite :: walltime
  adCreateTime :: walltime

record derpWriteRequest =
  wrAddr :: addrPort
  wrPubKey :: nodeKey
  wrB :: "u8 list"
  wrIsDisco :: bool

text \<open>What the goroutines of a connection wait for before they start.\<close>

datatype startGate = GateOpen | GateAfter derpClient | GateDerpStarted

datatype derpAction =
    NewClient derpClient int
  | ConnectFirst derpClient
  | StartReader int derpClient startGate
  | StartWriter derpClient startGate
  | CloseClient derpClient
  | ReaderClose derpClient
  | NotePreferred derpClient bool
  | PingClient int derpClient
  | ClientSend derpClient nodeKey "u8 list"
  | ClientSendPong derpClient "u8 list"
  | GoDerpConnect int
  | GoReSTUN string
  | GoUpdateEndpoints string
  | HealthConnected int bool
  | HealthProblem int string
  | HealthFrame int
  | HealthDERPHome int bool
  | ArmCleanTimer
  | StopCleanTimer

text \<open>The queue of a connection belongs to its client. \<open>wiActiveDerp\<close> is nil until the first connection.\<close>

record wire =
  wiConn :: conn
  wiDerpMap :: "derpMap option"
  wiHomeless :: bool
  wiNetworkUp :: bool
  wiActiveDerp :: "(int, activeDerp) gomap option"
  wiPrevDerp :: "(int, derpClient) gomap"
  wiDerpRoute :: "(nodeKey, derpRoute) gomap"
  wiPeerLastDerp :: "(nodeKey, int) gomap"
  wiPeerSet :: "nodeKey list"
  wiCleanArmed :: bool
  wiClients :: derpClient
  wiQueues :: "(derpClient, derpWriteRequest list) gomap"
  wiUpdateActive :: bool
  wiWantUpdate :: string

text \<open>Whether the network is assumed to be up (\<open>envknob.AssumeNetworkUp\<close>, or a test that does not look),
  and the knobs that replace the DERP map by a single server.\<close>

record wireEnv =
  weAssumeNetworkUp :: bool
  weDerpAddr :: string
  weDerpHTTP :: bool

type_synonym wstep = "wire \<times> derpAction list"

definition networkDown :: "wireEnv \<Rightarrow> wire \<Rightarrow> bool" where
  "networkDown e w = (if weAssumeNetworkUp e then False else \<not> wiNetworkUp w)"

definition activeOf :: "wire \<Rightarrow> (int, activeDerp) gomap" where
  "activeOf w = (case wiActiveDerp w of None \<Rightarrow> [] | Some m \<Rightarrow> m)"

definition regionOf :: "derpMap \<Rightarrow> int \<Rightarrow> derpRegion option" where
  "regionOf dm rid = (case gm_get (dmRegions dm) rid of None \<Rightarrow> None | Some r \<Rightarrow> r)"

definition myDerp :: "wire \<Rightarrow> int" where
  "myDerp w = coMyDerp (wiConn w)"

definition setMyDerp :: "int \<Rightarrow> wire \<Rightarrow> wire" where
  "setMyDerp rid w = w\<lparr>wiConn := (wiConn w)\<lparr>coMyDerp := rid\<rparr>\<rparr>"

section \<open>Routes\<close>

definition removeDerpPeerRoute :: "nodeKey \<Rightarrow> int \<Rightarrow> derpClient \<Rightarrow> wire \<Rightarrow> wire" where
  "removeDerpPeerRoute peer regionID dc w =
     (case gm_get (wiDerpRoute w) peer of
        Some r \<Rightarrow> if r = \<lparr>drRegionID = regionID, drClient = dc\<rparr> then w\<lparr>wiDerpRoute := gm_del peer (wiDerpRoute w)\<rparr> else w
      | None \<Rightarrow> w)"

definition addDerpPeerRoute :: "nodeKey \<Rightarrow> int \<Rightarrow> derpClient \<Rightarrow> wire \<Rightarrow> wire" where
  "addDerpPeerRoute peer regionID dc w = w\<lparr>wiDerpRoute := gm_set peer \<lparr>drRegionID = regionID, drClient = dc\<rparr> (wiDerpRoute w)\<rparr>"

definition fallbackDERPRegionForPeer :: "nodeKey \<Rightarrow> wire \<Rightarrow> int" where
  "fallbackDERPRegionForPeer peer w = (case gm_get (wiDerpRoute w) peer of Some dr \<Rightarrow> drRegionID dr | None \<Rightarrow> 0)"

section \<open>The home region\<close>

definition wantDerpLocked :: "wire \<Rightarrow> bool" where
  "wantDerpLocked w \<longleftrightarrow> wiDerpMap w \<noteq> None"

text \<open>\<open>DERPMap.RegionIDs\<close>: the ids of the map, sorted.\<close>

definition RegionIDs :: "derpMap \<Rightarrow> int list" where
  "RegionIDs dm = sort (map fst (dmRegions dm))"

text \<open>\<open>pick\<close> is \<open>rands.IntN\<close> of the address of the connection: an index below its argument.\<close>

definition pickDERPFallback :: "(nat \<Rightarrow> nat) \<Rightarrow> wire \<Rightarrow> int" where
  "pickDERPFallback pick w = (case wiDerpMap w of
     None \<Rightarrow> 0
   | Some dm \<Rightarrow> let ids = RegionIDs dm in
       if length ids = 0 then 0
       else if myDerp w \<noteq> 0 then myDerp w
       else ids ! pick (length ids))"

definition goDerpConnect :: "int \<Rightarrow> derpAction list" where
  "goDerpConnect regionID = (if regionID = 0 then [] else [GoDerpConnect regionID])"

definition startDerpHomeConnectLocked :: "wire \<Rightarrow> derpAction list" where
  "startDerpHomeConnectLocked w = goDerpConnect (myDerp w)"

definition setNearestDERP :: "int \<Rightarrow> wire \<Rightarrow> (bool \<times> wire) \<times> derpAction list" where
  "setNearestDERP derpNum w =
     (if \<not> wantDerpLocked w then ((False, setMyDerp 0 w), [HealthDERPHome 0 (wiHomeless w)])
      else if wiHomeless w then ((False, setMyDerp 0 w), [HealthDERPHome 0 (wiHomeless w)])
      else if derpNum = myDerp w then ((True, w), [])
      else
        let w1 = setMyDerp derpNum w;
            acts = [HealthDERPHome derpNum (wiHomeless w)]
        in if coPrivateKey (wiConn w1) = zeroPrivateKey then ((True, w1), acts)
           else ((True, w1), acts @ map (\<lambda>(i, ad). NotePreferred (adClient ad) (i = myDerp w1)) (activeOf w1)
                   @ goDerpConnect derpNum))"

text \<open>Of the netcheck report only the preferred region counts. \<open>connectedToControl\<close> is
  \<open>health.GetInPollNetMap\<close>.\<close>

definition maybeSetNearestDERP :: "(nat \<Rightarrow> nat) \<Rightarrow> bool \<Rightarrow> int \<Rightarrow> wire \<Rightarrow> (int \<times> wire) \<times> derpAction list" where
  "maybeSetNearestDERP pick connectedToControl reportPreferred w =
     (if \<not> connectedToControl \<and> myDerp w \<noteq> 0 then ((myDerp w, w), [])
      else
        let preferred = (if reportPreferred = 0 then pickDERPFallback pick w else reportPreferred)
        in case setNearestDERP preferred w of
             ((want, w1), acts) \<Rightarrow> ((if want then preferred else 0, w1), acts))"

section \<open>Opening a connection\<close>

definition setPeerLastDerpLocked :: "nodeKey \<Rightarrow> int \<Rightarrow> wire \<Rightarrow> wire" where
  "setPeerLastDerpLocked peer regionID w =
     (if peer = zeroNodeKey then w
      else if (case gm_get (wiPeerLastDerp w) peer of None \<Rightarrow> 0 | Some old \<Rightarrow> old) = regionID then w
      else w\<lparr>wiPeerLastDerp := gm_set peer regionID (wiPeerLastDerp w)\<rparr>)"

definition scheduleCleanStaleDerpLocked :: "wire \<Rightarrow> wstep" where
  "scheduleCleanStaleDerpLocked w = (if wiCleanArmed w then (w, []) else (w\<lparr>wiCleanArmed := True\<rparr>, [ArmCleanTimer]))"

definition setActive :: "int \<Rightarrow> activeDerp \<Rightarrow> wire \<Rightarrow> wire" where
  "setActive rid ad w = w\<lparr>wiActiveDerp := Some (gm_set rid ad (activeOf w))\<rparr>"

definition derpWriteQueueDepth :: nat where
  "derpWriteQueueDepth = 32"

text \<open>The last part of \<open>derpWriteChanForRegion\<close>: a new client, its queue and its goroutines.\<close>

definition openDerp :: "walltime \<Rightarrow> int \<Rightarrow> nodeKey \<Rightarrow> wire \<Rightarrow> wstep" where
  "openDerp wnow regionID peer w =
     (let firstDerp = (wiActiveDerp w = None);
          dc = wiClients w;
          w0 = (if firstDerp then w\<lparr>wiActiveDerp := Some [], wiPrevDerp := []\<rparr> else w);
          w1 = setActive regionID \<lparr>adClient = dc, adLastWrite = wnow, adCreateTime = wnow\<rparr>
                 (w0\<lparr>wiClients := dc + 1, wiQueues := gm_set dc [] (wiQueues w0)\<rparr>);
          w2 = setPeerLastDerpLocked peer regionID w1;
          (w3, arm) = scheduleCleanStaleDerpLocked w2;
          startGate = (if firstDerp then GateDerpStarted
                       else case gm_get (wiPrevDerp w3) regionID of None \<Rightarrow> GateOpen | Some prev \<Rightarrow> GateAfter prev)
      in (w3\<lparr>wiPrevDerp := gm_set regionID dc (wiPrevDerp w3)\<rparr>,
          [NewClient dc regionID, NotePreferred dc (myDerp w = regionID)] @ arm
          @ (if firstDerp then [ConnectFirst dc] else [])
          @ [StartReader regionID dc startGate, StartWriter dc startGate]))"

definition touchDerp :: "walltime \<Rightarrow> int \<Rightarrow> activeDerp \<Rightarrow> wire \<Rightarrow> wire" where
  "touchDerp wnow rid ad w = setActive rid (ad\<lparr>adLastWrite := wnow\<rparr>) w"

text \<open>The active connection to the region a peer was last heard from, if its client is still the one.\<close>

definition reverseRoute :: "nodeKey \<Rightarrow> wire \<Rightarrow> (int \<times> activeDerp) option" where
  "reverseRoute peer w =
     (if peer = zeroNodeKey then None
      else case gm_get (wiDerpRoute w) peer of
        None \<Rightarrow> None
      | Some r \<Rightarrow> (case gm_get (activeOf w) (drRegionID r) of
            None \<Rightarrow> None
          | Some ad \<Rightarrow> if adClient ad = drClient r then Some (drRegionID r, ad) else None))"

text \<open>Returns the client whose queue to write to, or None for a nil channel.\<close>

definition derpWriteChanForRegion ::
    "wireEnv \<Rightarrow> walltime \<Rightarrow> int \<Rightarrow> nodeKey \<Rightarrow> wire \<Rightarrow> (derpClient option \<times> wire) \<times> derpAction list" where
  "derpWriteChanForRegion e wnow regionID peer w =
     (if networkDown e w then ((None, w), [])
      else case wiDerpMap w of
        None \<Rightarrow> ((None, w), [])
      | Some dm \<Rightarrow>
          if coClosed (wiConn w) then ((None, w), [])
          else if regionOf dm regionID = None then ((None, w), [])
          else if coPrivateKey (wiConn w) = zeroPrivateKey then ((None, w), [])
          else case gm_get (activeOf w) regionID of
            Some ad \<Rightarrow> ((Some (adClient ad), setPeerLastDerpLocked peer regionID (touchDerp wnow regionID ad w)), [])
          | None \<Rightarrow>
              (case reverseRoute peer w of
                 Some (rid, ad) \<Rightarrow> ((Some (adClient ad), touchDerp wnow rid ad (setPeerLastDerpLocked peer rid w)), [])
               | None \<Rightarrow> (case openDerp wnow regionID peer w of (w1, acts) \<Rightarrow> ((Some (wiClients w), w1), acts))))"

section \<open>Closing connections\<close>

definition closeDerpLocked :: "int \<Rightarrow> wire \<Rightarrow> wstep" where
  "closeDerpLocked regionID w = (case gm_get (activeOf w) regionID of
     None \<Rightarrow> (w, [])
   | Some ad \<Rightarrow> (w\<lparr>wiActiveDerp := map_option (gm_del regionID) (wiActiveDerp w)\<rparr>, [CloseClient (adClient ad)]))"

text \<open>A loop of steps.\<close>

fun wloop :: "('a \<Rightarrow> wire \<Rightarrow> wstep) \<Rightarrow> 'a list \<Rightarrow> wire \<Rightarrow> wstep" where
  "wloop f [] w = (w, [])"
| "wloop f (x # xs) w = (case f x w of (w1, acts) \<Rightarrow> case wloop f xs w1 of (w2, acts') \<Rightarrow> (w2, acts @ acts'))"

definition closeAllDerpLocked :: "wire \<Rightarrow> wstep" where
  "closeAllDerpLocked w = wloop closeDerpLocked (map fst (activeOf w)) w"

definition closeOrReconnectDERPLocked :: "int \<Rightarrow> wire \<Rightarrow> wstep" where
  "closeOrReconnectDERPLocked regionID w =
     (case closeDerpLocked regionID w of (w1, acts) \<Rightarrow>
       (w1, acts @ (if coPrivateKey (wiConn w1) \<noteq> zeroPrivateKey \<and> myDerp w1 = regionID
                    then startDerpHomeConnectLocked w1 else [])))"

definition DebugBreakDERPConns :: "wire \<Rightarrow> wstep" where
  "DebugBreakDERPConns w =
     (if gm_len (activeOf w) = 0 then (w, [])
      else case closeAllDerpLocked w of (w1, acts) \<Rightarrow> (w1, acts @ startDerpHomeConnectLocked w1))"

text \<open>\<open>netip.Prefix.Contains\<close> and \<open>tsaddr.PrefixesContainsIP\<close>.\<close>

definition prefixContains :: "addr \<times> int \<Rightarrow> addr \<Rightarrow> bool" where
  "prefixContains p a = (case (fst p, a) of
     (AddrV4 x, AddrV4 y) \<Rightarrow> 0 \<le> snd p \<and> snd p \<le> 32 \<and> drop_bit (nat (32 - snd p)) (x XOR y) = 0
   | (AddrV6 x _, AddrV6 y z) \<Rightarrow> 0 \<le> snd p \<and> snd p \<le> 128 \<and> z = [] \<and> drop_bit (nat (128 - snd p)) (x XOR y) = 0
   | _ \<Rightarrow> False)"

definition prefixesContainsIP :: "(addr \<times> int) list \<Rightarrow> addr \<Rightarrow> bool" where
  "prefixesContainsIP ipp a = list_ex (\<lambda>p. prefixContains p a) ipp"

text \<open>\<open>localAddr\<close> answers \<open>Client.LocalAddr\<close>.\<close>

definition rebindOne :: "(derpClient \<Rightarrow> addr option) \<Rightarrow> (addr \<times> int) list \<Rightarrow> int \<times> activeDerp \<Rightarrow> wire \<Rightarrow> wstep" where
  "rebindOne localAddr okayLocalIPs entry w = (case entry of (regionID, ad) \<Rightarrow>
     case localAddr (adClient ad) of
       None \<Rightarrow> closeOrReconnectDERPLocked regionID w
     | Some la \<Rightarrow> if \<not> prefixesContainsIP okayLocalIPs la then closeOrReconnectDERPLocked regionID w
                  else (w, [PingClient regionID (adClient ad)]))"

definition maybeCloseDERPsOnRebind :: "(derpClient \<Rightarrow> addr option) \<Rightarrow> (addr \<times> int) list \<Rightarrow> wire \<Rightarrow> wstep" where
  "maybeCloseDERPsOnRebind localAddr okayLocalIPs w = wloop (rebindOne localAddr okayLocalIPs) (activeOf w) w"

definition derpInactiveCleanupTime :: duration where
  "derpInactiveCleanupTime = 60 * second"

definition cleanOne :: "walltime \<Rightarrow> int \<times> activeDerp \<Rightarrow> wire \<Rightarrow> wstep" where
  "cleanOne tooOld entry w =
     (if fst entry = myDerp w then (w, [])
      else if adLastWrite (snd entry) < tooOld then closeDerpLocked (fst entry) w
      else (w, []))"

definition cleanStaleDerp :: "walltime \<Rightarrow> wire \<Rightarrow> wstep" where
  "cleanStaleDerp wnow w0 =
     (if coClosed (wiConn w0) then (w0, [])
      else
        let w = w0\<lparr>wiCleanArmed := False\<rparr>;
            tooOld = wnow - derpInactiveCleanupTime;
            someNonHomeOpen = list_ex (\<lambda>(i, ad). i \<noteq> myDerp w \<and> \<not> adLastWrite ad < tooOld) (activeOf w);
            (w1, acts) = wloop (cleanOne tooOld) (activeOf w) w
        in if someNonHomeOpen then (case scheduleCleanStaleDerpLocked w1 of (w2, acts') \<Rightarrow> (w2, acts @ acts')) else (w1, acts))"

definition DERPs :: "wire \<Rightarrow> nat" where
  "DERPs w = gm_len (activeOf w)"

section \<open>The DERP map\<close>

text \<open>\<open>reflect.DeepEqual\<close> of two maps does not depend on the order of their entries.\<close>

definition sameDERPMap :: "derpMap option \<Rightarrow> derpMap option \<Rightarrow> bool" where
  "sameDERPMap x y = (case (x, y) of
     (None, None) \<Rightarrow> True
   | (Some dm, Some dm') \<Rightarrow> dmOmitDefaultRegions dm = dmOmitDefaultRegions dm' \<and> dmRest dm = dmRest dm'
       \<and> list_all (\<lambda>(k, r). gm_get (dmRegions dm') k = Some r) (dmRegions dm)
       \<and> list_all (\<lambda>(k, r). gm_get (dmRegions dm) k = Some r) (dmRegions dm')
   | _ \<Rightarrow> False)"

definition debugDERPMap :: "wireEnv \<Rightarrow> derpMap" where
  "debugDERPMap e = \<lparr>dmOmitDefaultRegions = True, dmRegions = [(999, Some \<lparr>rgRegionID = 999, rgRegionCode = [],
     rgNodes = [\<lparr>dnName = ''999dev'', dnRegionID = 999, dnHostName = weDerpAddr e,
                 dnDERPPort = (if weDerpHTTP e then 3340 else 443), dnRest = []\<rparr>], rgRest = []\<rparr>)], dmRest = []\<rparr>"

definition redefineRegion :: "derpMap \<Rightarrow> int \<times> derpRegion option \<Rightarrow> wire \<Rightarrow> wstep" where
  "redefineRegion dm entry w =
     (if snd entry = regionOf dm (fst entry) then (w, [])
      else closeDerpLocked (fst entry) (if fst entry = myDerp w then setMyDerp 0 w else w))"

definition SetDERPMap :: "wireEnv \<Rightarrow> derpMap option \<Rightarrow> wire \<Rightarrow> wstep" where
  "SetDERPMap e dm0 w =
     (let dm = (if weDerpAddr e \<noteq> [] then Some (debugDERPMap e) else dm0) in
      if sameDERPMap dm (wiDerpMap w) then (w, [])
      else
        let w1 = w\<lparr>wiDerpMap := dm\<rparr> in
        case dm of
          None \<Rightarrow> closeAllDerpLocked w1
        | Some dm1 \<Rightarrow>
            (case (case wiDerpMap w of None \<Rightarrow> (w1, []) | Some old \<Rightarrow> wloop (redefineRegion dm1) (dmRegions old) w1) of
               (w2, acts) \<Rightarrow> (w2, acts @ [GoReSTUN ''derp-map-update''])))"

section \<open>The peers\<close>

definition UpdatePeers :: "nodeKey list \<Rightarrow> wire \<Rightarrow> wstep" where
  "UpdatePeers newPeers w =
     (let oldPeers = wiPeerSet w;
          gone = filter (\<lambda>p. p \<notin> set newPeers) oldPeers
      in (w\<lparr>wiPeerSet := newPeers,
            wiDerpRoute := gm_del_if (\<lambda>p _. p \<in> set gone) (wiDerpRoute w),
            wiPeerLastDerp := gm_del_if (\<lambda>p _. p \<in> set gone) (wiPeerLastDerp w)\<rparr>,
          if oldPeers = [] \<and> newPeers \<noteq> [] then [GoReSTUN ''non-zero-peers''] else []))"

definition SetHomeless :: "bool \<Rightarrow> wire \<Rightarrow> wstep" where
  "SetHomeless v w0 =
     (let w = w0\<lparr>wiHomeless := v\<rparr>;
          (w1, acts) = (if v \<and> myDerp w \<noteq> 0 then closeDerpLocked (myDerp w) (setMyDerp 0 w) else (w, []))
      in (w1, acts @ (if \<not> v then [GoUpdateEndpoints ''set-homeless-disabled''] else [])))"

section \<open>Endpoint updates\<close>

text \<open>\<open>ReSTUN\<close>: at most one update runs, and one more can be wanted.\<close>

definition reSTUN :: "string \<Rightarrow> wire \<Rightarrow> wstep" where
  "reSTUN why w =
     (if coClosed (wiConn w) then (w, [])
      else if coPrivateKey (wiConn w) = zeroPrivateKey \<and> coEverHadKey (wiConn w) then (w, [])
      else if wiUpdateActive w then (if wiWantUpdate w \<noteq> why then w\<lparr>wiWantUpdate := why\<rparr> else w, [])
      else (w\<lparr>wiUpdateActive := True\<rparr>, [GoUpdateEndpoints why]))"

section \<open>Reading\<close>

text \<open>What \<open>Client.RecvDetail\<close> answers: an error (whether it is \<open>ErrClientClosed\<close>) or a message.\<close>

datatype derpRecv =
    RecvError bool
  | ServerInfoMessage
  | ReceivedPacket nodeKey "u8 list"
  | PingMessage "u8 list"
  | HealthMessage string
  | PeerGoneMessage nodeKey
  | OtherMessage

record derpReadResult =
  rrRegionID :: int
  rrN :: nat
  rrSrc :: nodeKey
  rrData :: "u8 list"

text \<open>The local variables of \<open>runDerpReader\<close>.\<close>

record derpReader =
  rdRegionID :: int
  rdClient :: derpClient
  rdPeerPresent :: "nodeKey list"
  rdLastPacketTime :: walltime
  rdLastPacketSrc :: nodeKey

datatype readerNext = ReaderContinues | ReaderReturns | ReaderDelivers derpReadResult bool

definition frameReceiveRecordRate :: duration where
  "frameReceiveRecordRate = 5 * second"

definition newReader :: "int \<Rightarrow> derpClient \<Rightarrow> derpReader" where
  "newReader regionID dc = \<lparr>rdRegionID = regionID, rdClient = dc, rdPeerPresent = [], rdLastPacketTime = 0, rdLastPacketSrc = zeroNodeKey\<rparr>"

text \<open>The health state a reader leaves when it returns, and \<open>dc.Close()\<close>, which is deferred too.\<close>

definition readerExit :: "derpReader \<Rightarrow> derpAction list" where
  "readerExit rd = [HealthProblem (rdRegionID rd) [], HealthConnected (rdRegionID rd) False, ReaderClose (rdClient rd)]"

text \<open>The first part of a turn, on an error. \<open>ctxDone\<close>: whether the context is cancelled at the first
  and at the second \<open>select\<close>.\<close>

definition readerError :: "wireEnv \<Rightarrow> bool \<times> bool \<Rightarrow> bool \<Rightarrow> derpReader \<Rightarrow> wire \<Rightarrow> (readerNext \<times> derpReader \<times> wire) \<times> derpAction list" where
  "readerError e ctxDone clientClosed rd w =
     (let w1 = foldl (\<lambda>w peer. removeDerpPeerRoute peer (rdRegionID rd) (rdClient rd) w) w (rdPeerPresent rd);
          rd1 = rd\<lparr>rdPeerPresent := []\<rparr>;
          acts = [HealthConnected (rdRegionID rd) False]
      in if clientClosed \<or> networkDown e w1 \<or> fst ctxDone then ((ReaderReturns, rd1, w1), acts @ readerExit rd)
         else
           let (w2, restun) = reSTUN ''derp-recv-error'' w1
           in if snd ctxDone then ((ReaderReturns, rd1, w2), acts @ restun @ readerExit rd)
              else ((ReaderContinues, rd1, w2), acts @ restun))"

text \<open>A new sender is remembered and gets a route, unless it is the sender of the packet before.\<close>

definition noteSender :: "nodeKey \<Rightarrow> derpReader \<Rightarrow> wire \<Rightarrow> derpReader \<times> wire" where
  "noteSender src rd w =
     (if src = rdLastPacketSrc rd then (rd, w)
      else
        let rd1 = rd\<lparr>rdLastPacketSrc := src\<rparr>
        in if src \<in> set (rdPeerPresent rd1) then (rd1, w)
           else (rd1\<lparr>rdPeerPresent := src # rdPeerPresent rd1\<rparr>, addDerpPeerRoute src (rdRegionID rd) (rdClient rd) w))"

text \<open>One turn of the loop of \<open>runDerpReader\<close>. A packet is handed to \<open>derpRecvCh\<close> unless the context is
  cancelled first; the reader goes on once it is copied, or returns when the context is cancelled then.\<close>

definition runDerpReader ::
    "wireEnv \<Rightarrow> walltime \<Rightarrow> bool \<times> bool \<Rightarrow> derpRecv \<Rightarrow> derpReader \<Rightarrow> wire \<Rightarrow> (readerNext \<times> derpReader \<times> wire) \<times> derpAction list" where
  "runDerpReader e wnow ctxDone msg rd0 w =
     (case msg of
        RecvError clientClosed \<Rightarrow> readerError e ctxDone clientClosed rd0 w
      | _ \<Rightarrow>
          let fresh = (wzero (rdLastPacketTime rd0) \<or> wnow - rdLastPacketTime rd0 > frameReceiveRecordRate);
              rid = rdRegionID rd0;
              rd = (if fresh then rd0\<lparr>rdLastPacketTime := wnow\<rparr> else rd0);
              acts = (if fresh then [HealthFrame rid] else [])
          in (case msg of
                ServerInfoMessage \<Rightarrow> ((ReaderContinues, rd, w), acts @ [HealthConnected rid True, HealthProblem rid []])
              | ReceivedPacket src data \<Rightarrow>
                  (case noteSender src rd w of (rd1, w1) \<Rightarrow>
                     if fst ctxDone then ((ReaderReturns, rd1, w1), acts @ readerExit rd)
                     else ((ReaderDelivers \<lparr>rrRegionID = rid, rrN = length data, rrSrc = src, rrData = data\<rparr> (snd ctxDone), rd1, w1),
                           acts @ (if snd ctxDone then readerExit rd else [])))
              | PingMessage data \<Rightarrow> ((ReaderContinues, rd, w), acts @ [ClientSendPong (rdClient rd) data])
              | HealthMessage problem \<Rightarrow> ((ReaderContinues, rd, w), acts @ [HealthProblem rid problem])
              | PeerGoneMessage peer \<Rightarrow> ((ReaderContinues, rd, removeDerpPeerRoute peer rid (rdClient rd) w), acts)
              | _ \<Rightarrow> ((ReaderContinues, rd, w), acts)))"

section \<open>Writing\<close>

definition queueOf :: "derpClient \<Rightarrow> wire \<Rightarrow> derpWriteRequest list" where
  "queueOf dc w = (case gm_get (wiQueues w) dc of None \<Rightarrow> [] | Some q \<Rightarrow> q)"

definition setQueue :: "derpClient \<Rightarrow> derpWriteRequest list \<Rightarrow> wire \<Rightarrow> wire" where
  "setQueue dc q w = w\<lparr>wiQueues := gm_set dc q (wiQueues w)\<rparr>"

text \<open>One turn of \<open>runDerpWriter\<close> that finds a request.\<close>

definition runDerpWriter :: "derpClient \<Rightarrow> wire \<Rightarrow> wstep" where
  "runDerpWriter dc w = (case queueOf dc w of
     [] \<Rightarrow> (w, [])
   | wr # q \<Rightarrow> (setQueue dc q w, [ClientSend dc (wrPubKey wr) (wrB wr)]))"

definition errDropDerpPacket :: string where
  "errDropDerpPacket = ''too many DERP packets queued; dropping''"

text \<open>
  The loop of \<open>sendAddr\<close> with \<open>n\<close> attempts left. Before each attempt, and between a failed
  attempt and the removal of the oldest request, the other goroutines may change the queue: \<open>others\<close>
  says what they make of it. \<open>donec\<close>: whether the \<open>select\<close> of the attempt takes the
  branch of \<open>donec\<close>, which it can only once the connection is being closed.
\<close>

fun enqueueLoop ::
    "(nat \<Rightarrow> derpWriteRequest list \<Rightarrow> derpWriteRequest list) \<Rightarrow> (nat \<Rightarrow> bool) \<Rightarrow> nat \<Rightarrow> derpWriteRequest \<Rightarrow> derpWriteRequest list
      \<Rightarrow> (bool \<times> string option) \<times> derpWriteRequest list" where
  "enqueueLoop others donec 0 wr q = ((False, Some errDropDerpPacket), q)"
| "enqueueLoop others donec (Suc n) wr q =
     (let q1 = others (2 * n + 1) q in
      if donec n then ((False, Some ''Conn closed''), q1)
      else if length q1 < derpWriteQueueDepth then ((True, None), q1 @ [wr])
      else enqueueLoop others donec n wr (tl (others (2 * n) q1)))"

text \<open>The part of \<open>sendAddr\<close> for the DERP address.\<close>

definition sendDerp ::
    "wireEnv \<Rightarrow> walltime \<Rightarrow> (nat \<Rightarrow> derpWriteRequest list \<Rightarrow> derpWriteRequest list) \<Rightarrow> (nat \<Rightarrow> bool)
      \<Rightarrow> addrPort \<Rightarrow> nodeKey \<Rightarrow> u8 list \<Rightarrow> bool \<Rightarrow> wire \<Rightarrow> ((bool \<times> string option) \<times> wire) \<times> derpAction list" where
  "sendDerp e wnow others donec addr pubKey b isDisco w =
     (case derpWriteChanForRegion e wnow (uint (apPort addr)) pubKey w of
        ((None, w1), acts) \<Rightarrow> (((False, None), w1), acts)
      | ((Some dc, w1), acts) \<Rightarrow>
          (case enqueueLoop others donec 3 \<lparr>wrAddr = addr, wrPubKey = pubKey, wrB = b, wrIsDisco = isDisco\<rparr> (queueOf dc w1) of
             (res, q) \<Rightarrow> ((res, setQueue dc q w1), acts)))"

section \<open>What the connection asks of the relays\<close>

text \<open>The calls that the operations of \<open>Conn_Peers\<close> leave as actions, carried out.\<close>

fun carryOut :: "connAction \<Rightarrow> wire \<Rightarrow> wstep" where
  "carryOut (CloseAllDerp why) w = closeAllDerpLocked w"
| "carryOut StartDerpHomeConnect w = (w, startDerpHomeConnectLocked w)"
| "carryOut (ReSTUN why) w = (w, [GoReSTUN why])"
| "carryOut _ w = (w, [])"

definition onConn :: "conn \<times> connAction list \<Rightarrow> wire \<Rightarrow> wstep" where
  "onConn r w = wloop carryOut (snd r) (w\<lparr>wiConn := fst r\<rparr>)"

section \<open>What closes a connection or takes its key\<close>

text \<open>Only \<open>Close\<close> and \<open>SetPrivateKey\<close> change whether the connection is closed and its key, and they close
  every DERP connection when it must not have one any more.\<close>

definition keyOf :: "conn \<Rightarrow> bool \<times> u8 list" where
  "keyOf c = (coClosed c, coPrivateKey c)"

lemma keyOf_updates [simp]:
  "keyOf (c\<lparr>coEps := x1\<rparr>) = keyOf c" "keyOf (c\<lparr>coPeerMap := x2\<rparr>) = keyOf c" "keyOf (c\<lparr>coPeersByID := x3\<rparr>) = keyOf c"
  "keyOf (c\<lparr>coSelf := x4\<rparr>) = keyOf c" "keyOf (c\<lparr>coDiscoInfo := x5\<rparr>) = keyOf c" "keyOf (c\<lparr>coMyDerp := x6\<rparr>) = keyOf c"
  "keyOf (c\<lparr>coSilentDiscoOn := x7\<rparr>) = keyOf c" "keyOf (c\<lparr>coProbeUDPLifetimeOn := x7\<rparr>) = keyOf c"
  "keyOf (c\<lparr>coLastFlags := x8\<rparr>) = keyOf c" "keyOf (c\<lparr>coRelayClientEnabled := x7\<rparr>) = keyOf c"
  "keyOf (c\<lparr>coFilt := x9\<rparr>) = keyOf c" "keyOf (c\<lparr>coSourceProbes := xa\<rparr>) = keyOf c" "keyOf (c\<lparr>coSourcePath := xb\<rparr>) = keyOf c"
  by (simp_all add: keyOf_def)

lemma keyOf_onEndpoint [simp]: "keyOf (fst (onEndpoint r f c)) = keyOf c"
  by (simp add: onEndpoint_def split: prod.split)

lemma keyOf_foldl:
  assumes "\<And>c x. keyOf (fst (f c x)) = keyOf (fst c)"
  shows "keyOf (fst (foldl f c xs)) = keyOf (fst c)"
  by (induction xs arbitrary: c) (simp_all add: assms)

lemma keyOf_onEndpoints [simp]: "keyOf (fst (onEndpoints rs f c)) = keyOf c"
  unfolding onEndpoints_def by (subst keyOf_foldl) (auto split: prod.split simp: fst_def [symmetric], metis fst_conv keyOf_onEndpoint)

lemma keyOf_deletePeer [simp]: "keyOf (fst (deletePeer e wnow r c)) = keyOf c"
  by (simp add: deletePeer_def split: prod.split)

lemma keyOf_lookupPeer: "lookupPeer e wnow n c = (ep, c1, acts) \<Longrightarrow> keyOf c1 = keyOf c"
  by (auto simp: lookupPeer_def split: option.splits if_splits prod.splits) (metis fst_conv keyOf_deletePeer)

lemma devPanicf_Inr: "devPanicf b m x = Inr y \<Longrightarrow> y = x"
  by (simp add: devPanicf_def split: if_splits)

lemma keyOf_upsertPeer:
  assumes "upsertPeerLocked e wnow n flags c = Inr (c', acts)"
  shows "keyOf c' = keyOf c"
proof -
  obtain ep c1 as where l: "lookupPeer e wnow n c = (ep, c1, as)" by (cases "lookupPeer e wnow n c")
  have "keyOf c' = keyOf c \<or> keyOf c' = keyOf c1 \<or> (\<exists>r. c' = fst (deletePeer e wnow r c1))"
    using assms unfolding upsertPeerLocked_def l Let_def
    by (auto simp: map_sum_Inr dest!: devPanicf_Inr split: if_splits option.splits) (metis fst_conv)+
  then show ?thesis using keyOf_lookupPeer [OF l] by auto
qed

lemma keyOf_upsertAll: "upsertAll e wnow flags ns c = Inr (c', acts) \<Longrightarrow> keyOf c' = keyOf c"
proof (induction ns arbitrary: c c' acts)
  case (Cons n ns)
  then obtain c1 acts1 where "upsertPeerLocked e wnow n flags c = Inr (c1, acts1)"
    by (cases "upsertPeerLocked e wnow n flags c") auto
  with Cons show ?case using keyOf_upsertPeer by (fastforce simp: map_sum_Inr)
qed simp

lemma keyOf_dropStale [simp]: "keyOf (fst (dropStalePeers e wnow keep c)) = keyOf c"
  unfolding dropStalePeers_def
  by (subst keyOf_foldl) (auto split: prod.splits, metis fst_conv keyOf_deletePeer)

lemma keyOf_dropUnused [simp]: "keyOf (dropUnusedDisco c) = keyOf c"
  by (simp add: dropUnusedDisco_def)

lemma keyOf_updateNodes:
  assumes "updateNodes e wnow self peers c = Inr (b, c', acts)"
  shows "keyOf c' = keyOf c"
proof (cases "c' = c \<or> c' = c\<lparr>coSelf := self\<rparr>")
  case False
  let ?flags = "debugFlagsLocked e (c\<lparr>coSelf := self\<rparr>)"
  let ?m = "foldl (\<lambda>m n. gm_set (nvID n) n m) [] peers"
  let ?u = "upsertAll e wnow ?flags peers (c\<lparr>coSelf := self, coLastFlags := ?flags\<rparr>)"
  obtain c2 acts2 where u: "?u = Inr (c2, acts2)"
    using assms False unfolding updateNodes_def Let_def by (cases ?u) (auto split: if_splits)
  let ?c3 = "c2\<lparr>coPeersByID := ?m\<rparr>"
  obtain n where nc: "nodeCount (ceCrash e) (coPeerMap c2) = Inr n"
    using assms False unfolding updateNodes_def Let_def u
    by (cases "nodeCount (ceCrash e) (coPeerMap c2)") (auto split: if_splits)
  let ?p = "if n \<noteq> length ?m then dropStalePeers e wnow (map (nvKey \<circ> snd) ?m) ?c3 else (?c3, [])"
  have "c' = dropUnusedDisco (fst ?p)"
    using assms False unfolding updateNodes_def Let_def u
    by (simp add: nc split: if_split_asm prod.split_asm)
  then show ?thesis using keyOf_upsertAll [OF u] by simp
qed auto

lemma keyOf_peers:
  "SetNetworkMap e wnow dr self peers c = Inr (c', acts) \<Longrightarrow> keyOf c' = keyOf c"
  "UpsertPeer e wnow n c = Inr (c', acts) \<Longrightarrow> keyOf c' = keyOf c"
  "SetFilter f c = Inr (c', acts) \<Longrightarrow> keyOf c' = keyOf c"
  "HandleDiscoKeyAdvertisement nk dk c = Inr (c', acts) \<Longrightarrow> keyOf c' = keyOf c"
  subgoal unfolding SetNetworkMap_def
    by (auto simp: Let_def map_sum_Inr split: if_splits sum.splits prod.splits dest: keyOf_updateNodes)
  subgoal premises p
  proof (cases "coClosed c \<or> nvID n = 0")
    case True
    then show ?thesis using p by (auto simp: UpsertPeer_def dest!: devPanicf_Inr split: if_splits)
  next
    case False
    then obtain c1 acts1 where "upsertPeerLocked e wnow n (debugFlagsLocked e c) (c\<lparr>coPeersByID := gm_set (nvID n) n (coPeersByID c)\<rparr>)
        = Inr (c1, acts1)" "c' = c1"
      using p by (cases "upsertPeerLocked e wnow n (debugFlagsLocked e c) (c\<lparr>coPeersByID := gm_set (nvID n) n (coPeersByID c)\<rparr>)")
        (auto simp: UpsertPeer_def map_sum_Inr)
    then show ?thesis using keyOf_upsertPeer by fastforce
  qed
  subgoal unfolding SetFilter_def by (auto simp: Let_def map_sum_Inr split: if_splits)
  subgoal unfolding HandleDiscoKeyAdvertisement_def discoInfoForKnownPeerLocked_def
    by (auto simp: Let_def map_sum_Inr split: if_splits option.splits)
  done

lemma keyOf_mutation: "keyOf (fst (applyMutation e wnow ca m)) = keyOf (fst ca)"
  by (cases "(e, wnow, ca, m)" rule: applyMutation.cases)
    (auto split: option.split prod.splits, (metis fst_conv keyOf_onEndpoint)+)

lemma keyOf_calls [simp]:
  "keyOf (fst (RemovePeer e wnow nid c)) = keyOf c"
  "keyOf (fst (UpdateNetmapDelta e wnow muts c)) = keyOf c"
  "keyOf (fst (SetSilentDisco v c)) = keyOf c"
  "keyOf (fst (SetProbeUDPLifetime v c)) = keyOf c"
  "keyOf (fst (resetEndpointStates c)) = keyOf c"
  "keyOf (fst (RotateDiscoKey c)) = keyOf c"
  "keyOf (fst (maybeSendTSMPDiscoAdvert b now r c)) = keyOf c"
  subgoal unfolding RemovePeer_def
    by (auto simp: Let_def split: option.split prod.splits) (metis fst_conv keyOf_deletePeer keyOf_updates(3))+
  subgoal unfolding UpdateNetmapDelta_def by (subst keyOf_foldl) (simp_all add: keyOf_mutation)
  subgoal by (simp add: SetSilentDisco_def Let_def)
  subgoal by (simp add: SetProbeUDPLifetime_def Let_def)
  subgoal by (simp add: resetEndpointStates_def)
  subgoal unfolding RotateDiscoKey_def Let_def by (auto split: prod.split) (metis fst_conv keyOf_onEndpoints keyOf_updates(5))
  subgoal by (simp add: maybeSendTSMPDiscoAdvert_def Let_def)
  done

lemma connStep_keys:
  assumes "connStep c acts c'"
  shows "keyOf c' = keyOf c \<or> (coClosed c' = coClosed c \<and> coPrivateKey c' \<noteq> zeroPrivateKey) \<or> (\<exists>why. CloseAllDerp why \<in> set acts)"
  using assms
proof cases
  case (PrivateKey e wnow k)
  then show ?thesis by (auto simp: SetPrivateKey_def keyOf_def Let_def split: if_splits prod.splits)
next
  case (Close e wnow)
  then show ?thesis by (auto simp: Close_def Let_def split: if_splits prod.splits)
qed (simp_all add: keyOf_peers, (metis fst_conv keyOf_calls)+)

section \<open>Connections and their trace\<close>

fun isFirst :: "derpAction \<Rightarrow> bool" where
  "isFirst (ConnectFirst _) = True"
| "isFirst _ = False"

fun lifecycle :: "derpAction \<Rightarrow> bool" where
  "lifecycle (NewClient _ _) = True"
| "lifecycle (CloseClient _) = True"
| "lifecycle (ConnectFirst _) = True"
| "lifecycle _ = False"

text \<open>The active connections are those opened and not closed, each client is opened once, and the first
  connection of all is made once.\<close>

definition tracked :: "derpAction list \<Rightarrow> wire \<Rightarrow> bool" where
  "tracked tr w \<longleftrightarrow> gm_wf (activeOf w)
     \<and> (\<forall>rid dc. (\<exists>ad. gm_get (activeOf w) rid = Some ad \<and> adClient ad = dc) \<longleftrightarrow> NewClient dc rid \<in> set tr \<and> CloseClient dc \<notin> set tr)
     \<and> (\<forall>dc rid. NewClient dc rid \<in> set tr \<longrightarrow> dc < wiClients w \<and> (\<forall>rid'. NewClient dc rid' \<in> set tr \<longrightarrow> rid' = rid))
     \<and> (\<forall>dc. CloseClient dc \<in> set tr \<longrightarrow> dc < wiClients w)
     \<and> length (filter isFirst tr) = (if wiActiveDerp w = None then 0 else 1)
     \<and> (\<forall>dc. length (queueOf dc w) \<le> derpWriteQueueDepth)
     \<and> (\<forall>dc\<ge>wiClients w. queueOf dc w = [])"

lemma filter_quiet: "list_all (\<lambda>a. \<not> lifecycle a) acts \<Longrightarrow> filter isFirst acts = []"
  by (induction acts) (auto elim: isFirst.elims)

lemma quiet_mem: "list_all (\<lambda>a. \<not> lifecycle a) acts \<Longrightarrow> NewClient dc rid \<notin> set acts \<and> CloseClient dc \<notin> set acts"
  by (auto simp: list_all_iff)

lemma tracked_quiet:
  assumes "tracked tr w" "list_all (\<lambda>a. \<not> lifecycle a) acts" "wiActiveDerp w' = wiActiveDerp w" "wiClients w' = wiClients w"
    "wiQueues w' = wiQueues w"
  shows "tracked (tr @ acts) w'"
proof -
  have "activeOf w' = activeOf w" "queueOf dc w' = queueOf dc w" for dc
    using assms(3-5) by (simp_all add: activeOf_def queueOf_def)
  then show ?thesis using assms(1,3,4) filter_quiet [OF assms(2)] quiet_mem [OF assms(2)] by (simp add: tracked_def)
qed

text \<open>Steps that open nothing and leave the DERP map, the key and whether the connection is closed alone.\<close>

definition shrinks :: "wire \<Rightarrow> wstep \<Rightarrow> bool" where
  "shrinks w r \<longleftrightarrow> (\<forall>tr. tracked tr w \<longrightarrow> tracked (tr @ snd r) (fst r))
     \<and> (\<forall>rid ad. gm_get (activeOf (fst r)) rid = Some ad \<longrightarrow> (\<exists>ad0. gm_get (activeOf w) rid = Some ad0 \<and> adClient ad0 = adClient ad))
     \<and> wiDerpMap (fst r) = wiDerpMap w \<and> keyOf (wiConn (fst r)) = keyOf (wiConn w)"

lemma shrinks_quiet:
  assumes "list_all (\<lambda>a. \<not> lifecycle a) acts" "wiActiveDerp w' = wiActiveDerp w" "wiClients w' = wiClients w"
    "wiQueues w' = wiQueues w" "wiDerpMap w' = wiDerpMap w" "keyOf (wiConn w') = keyOf (wiConn w)"
  shows "shrinks w (w', acts)"
  using assms tracked_quiet [of _ w acts w'] by (auto simp: shrinks_def activeOf_def)

lemma shrinks_refl [simp]: "shrinks w (w, [])"
  by (rule shrinks_quiet) simp_all

lemma shrinks_trans: "shrinks w (w1, acts) \<Longrightarrow> shrinks w1 (w2, acts') \<Longrightarrow> shrinks w (w2, acts @ acts')"
  unfolding shrinks_def by (simp add: append_assoc [symmetric] del: append_assoc) metis

lemma shrinks_more: "shrinks w (w1, acts) \<Longrightarrow> list_all (\<lambda>a. \<not> lifecycle a) acts' \<Longrightarrow> shrinks w (w1, acts @ acts')"
  by (erule shrinks_trans, rule shrinks_quiet) simp_all

lemma shrinks_case_more:
  "shrinks w r \<Longrightarrow> (\<And>w1. list_all (\<lambda>a. \<not> lifecycle a) (g w1)) \<Longrightarrow> shrinks w (case r of (w1, acts) \<Rightarrow> (w1, acts @ g w1))"
  by (cases r) (simp add: shrinks_more)

lemma shrinks_from: "shrinks w (w1, []) \<Longrightarrow> shrinks w1 r \<Longrightarrow> shrinks w r"
  using shrinks_trans [of w w1 "[]" "fst r" "snd r"] by simp

lemma shrinks_wloop:
  assumes "\<And>x w. shrinks w (f x w)"
  shows "shrinks w (wloop f xs w)"
proof (induction xs arbitrary: w)
  case (Cons x xs)
  obtain w1 acts w2 acts' where r: "f x w = (w1, acts)" "wloop f xs w1 = (w2, acts')" by (metis surj_pair)
  show ?case using shrinks_trans [of w w1 acts w2 acts'] assms [of w x] Cons [of w1] by (simp add: r)
qed simp

lemma setMyDerp_frame [simp]:
  "wiActiveDerp (setMyDerp d w) = wiActiveDerp w" "wiClients (setMyDerp d w) = wiClients w" "wiQueues (setMyDerp d w) = wiQueues w"
  "wiDerpMap (setMyDerp d w) = wiDerpMap w" "keyOf (wiConn (setMyDerp d w)) = keyOf (wiConn w)"
  "activeOf (setMyDerp d w) = activeOf w" "myDerp (setMyDerp d w) = d"
  by (simp_all add: setMyDerp_def activeOf_def myDerp_def)

lemma activeOf_close: "activeOf (fst (closeDerpLocked rid w)) = gm_del rid (activeOf w)"
  by (auto simp: closeDerpLocked_def activeOf_def gm_del_def gm_get_None split: option.split intro!: filter_True [symmetric])

lemma tracked_close:
  assumes t: "tracked tr w"
  shows "tracked (tr @ snd (closeDerpLocked rid w)) (fst (closeDerpLocked rid w))"
proof (cases "gm_get (activeOf w) rid")
  case None
  then show ?thesis using t by (simp add: closeDerpLocked_def)
next
  case (Some ad)
  let ?w = "fst (closeDerpLocked rid w)"
  let ?tr = "tr @ [CloseClient (adClient ad)]"
  have acts: "snd (closeDerpLocked rid w) = [CloseClient (adClient ad)]" using Some by (simp add: closeDerpLocked_def)
  have frame: "wiClients ?w = wiClients w" "wiQueues ?w = wiQueues w" "wiActiveDerp ?w = None \<longleftrightarrow> wiActiveDerp w = None"
    using Some by (simp_all add: closeDerpLocked_def)
  have opened: "NewClient (adClient ad) rid \<in> set tr" using t Some unfolding tracked_def by blast
  have "\<forall>rid' dc. (\<exists>ad'. gm_get (activeOf ?w) rid' = Some ad' \<and> adClient ad' = dc) \<longleftrightarrow> NewClient dc rid' \<in> set ?tr \<and> CloseClient dc \<notin> set ?tr"
  proof (intro allI)
    fix rid' dc
    have iff: "(\<exists>ad'. gm_get (activeOf w) rid' = Some ad' \<and> adClient ad' = dc) \<longleftrightarrow> NewClient dc rid' \<in> set tr \<and> CloseClient dc \<notin> set tr"
      using t by (simp add: tracked_def)
    have only: "NewClient (adClient ad) rid' \<in> set tr \<Longrightarrow> rid' = rid"
      using t opened unfolding tracked_def by blast
    show "(\<exists>ad'. gm_get (activeOf ?w) rid' = Some ad' \<and> adClient ad' = dc) \<longleftrightarrow> NewClient dc rid' \<in> set ?tr \<and> CloseClient dc \<notin> set ?tr"
    proof (cases "rid' = rid")
      case True
      then show ?thesis using iff Some by (auto simp: activeOf_close gm_get_del)
    next
      case False
      then have "dc = adClient ad \<Longrightarrow> NewClient dc rid' \<notin> set tr" using only by blast
      then show ?thesis using iff False by (auto simp: activeOf_close gm_get_del)
    qed
  qed
  moreover have "\<forall>dc. CloseClient dc \<in> set ?tr \<longrightarrow> dc < wiClients ?w"
    using t opened frame(1) by (auto simp: tracked_def)
  moreover have "gm_wf (activeOf ?w)" "\<forall>dc. length (queueOf dc ?w) \<le> derpWriteQueueDepth" "\<forall>dc\<ge>wiClients ?w. queueOf dc ?w = []"
      "length (filter isFirst ?tr) = (if wiActiveDerp ?w = None then 0 else 1)"
    using t frame by (simp_all add: tracked_def activeOf_close gm_wf_del queueOf_def)
  moreover have "\<forall>dc rid. NewClient dc rid \<in> set ?tr \<longrightarrow> dc < wiClients ?w \<and> (\<forall>rid'. NewClient dc rid' \<in> set ?tr \<longrightarrow> rid' = rid)"
    using t frame(1) by (simp add: tracked_def)
  ultimately show ?thesis unfolding acts tracked_def by (intro conjI) assumption+
qed

lemma shrinks_close [simp]: "shrinks w (closeDerpLocked rid w)"
proof -
  have "wiDerpMap (fst (closeDerpLocked rid w)) = wiDerpMap w" "wiConn (fst (closeDerpLocked rid w)) = wiConn w"
    by (simp_all add: closeDerpLocked_def split: option.split)
  then show ?thesis using tracked_close unfolding shrinks_def
    by (auto simp: activeOf_close gm_get_del split: if_splits)
qed

lemma shrinks_closeAll [simp]: "shrinks w (closeAllDerpLocked w)"
  unfolding closeAllDerpLocked_def by (rule shrinks_wloop) simp

lemma quiet_goDerpConnect [simp]: "list_all (\<lambda>a. \<not> lifecycle a) (goDerpConnect d)"
  by (simp add: goDerpConnect_def)

lemma quiet_home [simp]: "list_all (\<lambda>a. \<not> lifecycle a) (startDerpHomeConnectLocked w)"
  by (simp add: startDerpHomeConnectLocked_def)

lemma shrinks_closeOrReconnect [simp]: "shrinks w (closeOrReconnectDERPLocked rid w)"
  unfolding closeOrReconnectDERPLocked_def by (rule shrinks_case_more) simp_all

lemma shrinks_debugBreak: "shrinks w (DebugBreakDERPConns w)"
  unfolding DebugBreakDERPConns_def by (simp add: shrinks_case_more)

lemma shrinks_rebind: "shrinks w (maybeCloseDERPsOnRebind la ips w)"
  unfolding maybeCloseDERPsOnRebind_def
  by (rule shrinks_wloop) (auto simp: rebindOne_def split: prod.split option.split intro: shrinks_quiet)

lemma shrinks_schedule: "shrinks w (scheduleCleanStaleDerpLocked w)"
  by (auto simp: scheduleCleanStaleDerpLocked_def intro: shrinks_quiet)

lemma shrinks_clean: "shrinks w (cleanStaleDerp wnow w)"
proof (cases "coClosed (wiConn w)")
  case False
  let ?w = "w\<lparr>wiCleanArmed := False\<rparr>"
  obtain w1 acts where l: "wloop (cleanOne (wnow - derpInactiveCleanupTime)) (activeOf ?w) ?w = (w1, acts)" by (metis surj_pair)
  have "shrinks ?w (w1, acts)"
    unfolding l [symmetric] by (rule shrinks_wloop) (simp add: cleanOne_def)
  moreover have "shrinks w (?w, [])" by (rule shrinks_quiet) simp_all
  ultimately have "shrinks w (w1, acts)" using shrinks_trans [of w ?w "[]" w1 acts] by simp
  then show ?thesis using False l shrinks_schedule [of w1] shrinks_trans [of w w1 acts]
    by (auto simp: cleanStaleDerp_def Let_def split: prod.split)
qed (simp add: cleanStaleDerp_def)

lemma shrinks_routes:
  "shrinks w (removeDerpPeerRoute peer rid dc w, [])" "shrinks w (addDerpPeerRoute peer rid dc w, [])"
  "shrinks w (setPeerLastDerpLocked peer rid w, [])" "shrinks w (setMyDerp d w, [])"
  by (auto simp: removeDerpPeerRoute_def addDerpPeerRoute_def setPeerLastDerpLocked_def intro!: shrinks_quiet split: option.split)

lemma shrinks_peers: "shrinks w (UpdatePeers ps w)"
  by (auto simp: UpdatePeers_def Let_def intro!: shrinks_quiet)

lemma shrinks_homeless: "shrinks w (SetHomeless v w)"
proof -
  let ?w = "w\<lparr>wiHomeless := v\<rparr>"
  let ?r = "if v \<and> myDerp ?w \<noteq> 0 then closeDerpLocked (myDerp ?w) (setMyDerp 0 ?w) else (?w, [])"
  have "shrinks w (?w, [])" "shrinks w (setMyDerp 0 ?w, [])" by (rule shrinks_quiet; simp)+
  then have "shrinks w ?r" by (auto intro: shrinks_from)
  then have "shrinks w (case ?r of (w1, acts) \<Rightarrow> (w1, acts @ (if \<not> v then [GoUpdateEndpoints ''set-homeless-disabled''] else [])))"
    by (rule shrinks_case_more) simp
  then show ?thesis by (simp add: SetHomeless_def Let_def)
qed

lemma shrinks_reSTUN: "shrinks w (reSTUN why w)"
  by (auto simp: reSTUN_def intro: shrinks_quiet)

lemma shrinks_nearest: "shrinks w (case setNearestDERP d w of ((b, w1), acts) \<Rightarrow> (w1, acts))"
  by (auto simp: setNearestDERP_def Let_def intro!: shrinks_quiet) (auto simp: list_all_iff)

lemma shrinks_maybeNearest: "shrinks w (case maybeSetNearestDERP pick b d w of ((x, w1), acts) \<Rightarrow> (w1, acts))"
  using shrinks_nearest [of w "if d = 0 then pickDERPFallback pick w else d"]
  by (auto simp: maybeSetNearestDERP_def Let_def split: prod.splits)

lemma shrinks_forget: "shrinks w (foldl (\<lambda>w peer. removeDerpPeerRoute peer r dc w) w ps, [])"
proof (induction ps arbitrary: w)
  case (Cons p ps)
  show ?case using shrinks_from [OF shrinks_routes(1) Cons] by simp
qed simp

lemma quiet_exit [simp]: "list_all (\<lambda>a. \<not> lifecycle a) (readerExit rd)"
  by (simp add: readerExit_def)

lemma shrinks_acts: "shrinks w (w1, []) \<Longrightarrow> list_all (\<lambda>a. \<not> lifecycle a) acts \<Longrightarrow> shrinks w (w1, acts)"
  using shrinks_more [of w w1 "[]" acts] by simp

lemma shrinks_before: "list_all (\<lambda>a. \<not> lifecycle a) acts \<Longrightarrow> shrinks w (w1, acts1) \<Longrightarrow> shrinks w (w1, acts @ acts1)"
  using shrinks_trans [of w w acts w1 acts1] shrinks_acts [of w w acts] by simp

lemma shrinks_readerError: "shrinks w (case readerError e ctxDone b rd w of ((nx, rd1, w1), acts) \<Rightarrow> (w1, acts))"
proof -
  let ?w = "foldl (\<lambda>w peer. removeDerpPeerRoute peer (rdRegionID rd) (rdClient rd) w) w (rdPeerPresent rd)"
  obtain w2 acts where s: "reSTUN ''derp-recv-error'' ?w = (w2, acts)" by (metis surj_pair)
  have w: "shrinks w (?w, [])" by (rule shrinks_forget)
  have w2: "shrinks w (w2, acts)" using shrinks_from [OF w] shrinks_reSTUN [of ?w] s by metis
  let ?h = "[HealthConnected (rdRegionID rd) False]"
  have "shrinks w (?w, ?h @ readerExit rd)" by (rule shrinks_acts [OF w]) simp
  moreover have "shrinks w (w2, ?h @ acts)" by (rule shrinks_before [OF _ w2]) simp
  moreover have "shrinks w (w2, (?h @ acts) @ readerExit rd)" by (rule shrinks_more [OF calculation(2)]) simp
  ultimately show ?thesis by (simp add: readerError_def Let_def s)
qed

lemma shrinks_reader: "shrinks w (case runDerpReader e wnow ctxDone msg rd w of ((nx, rd1, w1), acts) \<Rightarrow> (w1, acts))"
proof (cases msg)
  case (RecvError b)
  then show ?thesis using shrinks_readerError [of w e ctxDone b rd] by (simp add: runDerpReader_def)
next
  case (ReceivedPacket src data)
  let ?rd = "if wzero (rdLastPacketTime rd) \<or> wnow - rdLastPacketTime rd > frameReceiveRecordRate then rd\<lparr>rdLastPacketTime := wnow\<rparr> else rd"
  obtain rd1 w1 where n: "noteSender src ?rd w = (rd1, w1)" by (metis surj_pair)
  have "shrinks w (snd (noteSender src ?rd w), [])"
    by (auto simp: noteSender_def Let_def shrinks_routes)
  then have "shrinks w (w1, acts)" if "list_all (\<lambda>a. \<not> lifecycle a) acts" for acts
    using that n shrinks_acts [of w w1 acts] by simp
  then show ?thesis by (simp add: ReceivedPacket runDerpReader_def Let_def n)
qed (simp_all add: runDerpReader_def Let_def split del: if_split, (rule shrinks_acts; simp add: shrinks_routes(1))+)

lemma queueOf_set: "queueOf dc' (setQueue dc q w) = (if dc' = dc then q else queueOf dc' w)"
  by (simp add: queueOf_def setQueue_def gm_get_set)

lemma shrinks_queue:
  assumes "length q \<le> derpWriteQueueDepth" "dc < wiClients w \<or> q = []"
  shows "shrinks w (setQueue dc q w, [])"
proof -
  have "activeOf (setQueue dc q w) = activeOf w" by (simp add: setQueue_def activeOf_def)
  then show ?thesis using assms by (auto simp: shrinks_def tracked_def queueOf_set) (simp_all add: setQueue_def)
qed

lemma openDerp_frame:
  "wiActiveDerp (fst (openDerp wnow rid peer w)) = Some (gm_set rid \<lparr>adClient = wiClients w, adLastWrite = wnow, adCreateTime = wnow\<rparr> (activeOf w))"
  "wiClients (fst (openDerp wnow rid peer w)) = Suc (wiClients w)"
  "wiQueues (fst (openDerp wnow rid peer w)) = gm_set (wiClients w) [] (wiQueues w)"
  "wiDerpMap (fst (openDerp wnow rid peer w)) = wiDerpMap w" "wiConn (fst (openDerp wnow rid peer w)) = wiConn w"
  by (auto simp: openDerp_def Let_def setActive_def activeOf_def scheduleCleanStaleDerpLocked_def setPeerLastDerpLocked_def split: option.split)

lemma openDerp_acts:
  "NewClient dc r \<in> set (snd (openDerp wnow rid peer w)) \<longleftrightarrow> dc = wiClients w \<and> r = rid"
  "CloseClient dc \<notin> set (snd (openDerp wnow rid peer w))"
  "length (filter isFirst (snd (openDerp wnow rid peer w))) = (if wiActiveDerp w = None then 1 else 0)"
  by (auto simp: openDerp_def Let_def scheduleCleanStaleDerpLocked_def)

lemma tracked_open:
  assumes t: "tracked tr w" and n: "gm_get (activeOf w) rid = None"
  shows "tracked (tr @ snd (openDerp wnow rid peer w)) (fst (openDerp wnow rid peer w))"
proof -
  let ?w = "fst (openDerp wnow rid peer w)"
  let ?tr = "tr @ snd (openDerp wnow rid peer w)"
  have new: "NewClient dc r \<in> set ?tr \<longleftrightarrow> NewClient dc r \<in> set tr \<or> dc = wiClients w \<and> r = rid" for dc r
    by (auto simp: openDerp_acts)
  have close: "CloseClient dc \<in> set ?tr \<longleftrightarrow> CloseClient dc \<in> set tr" for dc by (auto simp: openDerp_acts)
  have fresh: "NewClient (wiClients w) r \<notin> set tr" "CloseClient (wiClients w) \<notin> set tr" for r
    using t by (auto simp: tracked_def)
  have active: "gm_get (activeOf ?w) r = (if r = rid then Some \<lparr>adClient = wiClients w, adLastWrite = wnow, adCreateTime = wnow\<rparr>
      else gm_get (activeOf w) r)" for r
    by (simp add: activeOf_def [of ?w] openDerp_frame gm_get_set)
  have "\<forall>r dc. (\<exists>ad. gm_get (activeOf ?w) r = Some ad \<and> adClient ad = dc) \<longleftrightarrow> NewClient dc r \<in> set ?tr \<and> CloseClient dc \<notin> set ?tr"
  proof (intro allI)
    fix r dc
    have "(\<exists>ad. gm_get (activeOf w) r = Some ad \<and> adClient ad = dc) \<longleftrightarrow> NewClient dc r \<in> set tr \<and> CloseClient dc \<notin> set tr"
      using t by (simp add: tracked_def)
    then show "(\<exists>ad. gm_get (activeOf ?w) r = Some ad \<and> adClient ad = dc) \<longleftrightarrow> NewClient dc r \<in> set ?tr \<and> CloseClient dc \<notin> set ?tr"
      unfolding new close active using n fresh by (cases "r = rid") auto
  qed
  moreover have "\<forall>dc r. NewClient dc r \<in> set ?tr \<longrightarrow> dc < wiClients ?w \<and> (\<forall>r'. NewClient dc r' \<in> set ?tr \<longrightarrow> r' = r)"
    using t fresh unfolding new by (auto simp: tracked_def openDerp_frame less_Suc_eq)
  moreover have "\<forall>dc. CloseClient dc \<in> set ?tr \<longrightarrow> dc < wiClients ?w"
    using t unfolding close by (auto simp: tracked_def openDerp_frame less_Suc_eq)
  moreover have "gm_wf (activeOf ?w)"
    using t by (simp add: tracked_def activeOf_def [of ?w] openDerp_frame gm_wf_set)
  moreover have "length (filter isFirst ?tr) = (if wiActiveDerp ?w = None then 0 else 1)"
    using t by (simp add: tracked_def openDerp_acts openDerp_frame)
  moreover have "\<forall>dc. length (queueOf dc ?w) \<le> derpWriteQueueDepth" "\<forall>dc\<ge>wiClients ?w. queueOf dc ?w = []"
    using t by (auto simp: tracked_def queueOf_def openDerp_frame gm_get_set)
  ultimately show ?thesis unfolding tracked_def by (intro conjI) assumption+
qed

lemma shrinks_touch:
  assumes "gm_get (activeOf w) rid = Some ad"
  shows "shrinks w (touchDerp wnow rid ad w, [])"
proof -
  let ?w = "touchDerp wnow rid ad w"
  have act: "activeOf ?w = gm_set rid (ad\<lparr>adLastWrite := wnow\<rparr>) (activeOf w)" by (simp add: touchDerp_def setActive_def activeOf_def)
  have some: "wiActiveDerp w \<noteq> None" "wiActiveDerp ?w \<noteq> None" using assms by (auto simp: activeOf_def touchDerp_def setActive_def split: option.splits)
  have iff: "(\<exists>ad'. gm_get (activeOf ?w) r = Some ad' \<and> adClient ad' = dc) \<longleftrightarrow> (\<exists>ad'. gm_get (activeOf w) r = Some ad' \<and> adClient ad' = dc)" for r dc
    using assms by (auto simp: act gm_get_set)
  have frame: "wiClients ?w = wiClients w" "wiDerpMap ?w = wiDerpMap w" "wiConn ?w = wiConn w" "queueOf dc ?w = queueOf dc w" for dc
    by (simp_all add: touchDerp_def setActive_def queueOf_def)
  have "tracked tr ?w" if "tracked tr w" for tr
    using that some gm_wf_set [of "activeOf w" rid "ad\<lparr>adLastWrite := wnow\<rparr>"]
    unfolding tracked_def iff frame by (simp add: act)
  moreover have "\<exists>ad0. gm_get (activeOf w) r = Some ad0 \<and> adClient ad0 = adClient ad'" if "gm_get (activeOf ?w) r = Some ad'" for r ad'
    using iff [of r "adClient ad'"] that by blast
  ultimately show ?thesis by (simp add: shrinks_def frame)
qed

text \<open>Every active connection is to a region of the DERP map, on an open connection with a key.\<close>

definition allowed :: "wire \<Rightarrow> bool" where
  "allowed w \<longleftrightarrow> (\<forall>rid ad. gm_get (activeOf w) rid = Some ad \<longrightarrow> \<not> coClosed (wiConn w) \<and> coPrivateKey (wiConn w) \<noteq> zeroPrivateKey
     \<and> (\<exists>dm. wiDerpMap w = Some dm \<and> regionOf dm rid \<noteq> None))"

definition derpInv :: "derpAction list \<Rightarrow> wire \<Rightarrow> bool" where
  "derpInv tr w \<longleftrightarrow> tracked tr w \<and> allowed w"

lemma inv_shrinks: "derpInv tr w \<Longrightarrow> shrinks w (w', acts) \<Longrightarrow> derpInv (tr @ acts) w'"
  unfolding derpInv_def shrinks_def allowed_def keyOf_def by auto metis+

text \<open>When a packet for a region can be handed to a connection at all.\<close>

definition derpReady :: "wireEnv \<Rightarrow> int \<Rightarrow> wire \<Rightarrow> bool" where
  "derpReady e rid w \<longleftrightarrow> \<not> networkDown e w \<and> \<not> coClosed (wiConn w) \<and> coPrivateKey (wiConn w) \<noteq> zeroPrivateKey
     \<and> (\<exists>dm. wiDerpMap w = Some dm \<and> regionOf dm rid \<noteq> None)"

lemma writeChan_not_ready: "\<not> derpReady e rid w \<Longrightarrow> derpWriteChanForRegion e wnow rid peer w = ((None, w), [])"
  by (auto simp: derpReady_def derpWriteChanForRegion_def split: option.split)

lemma writeChan_ready:
  assumes "derpReady e rid w"
  shows "derpWriteChanForRegion e wnow rid peer w = (case gm_get (activeOf w) rid of
      Some ad \<Rightarrow> ((Some (adClient ad), setPeerLastDerpLocked peer rid (touchDerp wnow rid ad w)), [])
    | None \<Rightarrow> (case reverseRoute peer w of
         Some (rid', ad) \<Rightarrow> ((Some (adClient ad), touchDerp wnow rid' ad (setPeerLastDerpLocked peer rid' w)), [])
       | None \<Rightarrow> ((Some (wiClients w), fst (openDerp wnow rid peer w)), snd (openDerp wnow rid peer w))))"
  using assms by (auto simp: derpReady_def derpWriteChanForRegion_def split: option.split prod.split)

lemma reverseRoute_active: "reverseRoute peer w = Some (rid, ad) \<Longrightarrow> gm_get (activeOf w) rid = Some ad"
  by (auto simp: reverseRoute_def split: if_splits option.splits)

lemma inv_writeChan:
  assumes i: "derpInv tr w" and r: "derpWriteChanForRegion e wnow rid peer w = ((ch, w'), acts)"
  shows "derpInv (tr @ acts) w'"
proof (cases "derpReady e rid w")
  case False
  then show ?thesis using i r by (simp add: writeChan_not_ready)
next
  case ok: True
  show ?thesis
  proof (cases "gm_get (activeOf w) rid")
    case (Some ad)
    have "shrinks w (setPeerLastDerpLocked peer rid (touchDerp wnow rid ad w), [])"
      using shrinks_from [OF shrinks_touch [OF Some] shrinks_routes(3)] .
    from inv_shrinks [OF i this] show ?thesis using r Some by (auto simp: writeChan_ready [OF ok])
  next
    case None
    show ?thesis
    proof (cases "reverseRoute peer w")
      case (Some p)
      then obtain rid' ad where p: "p = (rid', ad)" "gm_get (activeOf w) rid' = Some ad"
        using reverseRoute_active by (cases p) simp
      have "gm_get (activeOf (setPeerLastDerpLocked peer rid' w)) rid' = Some ad"
        using p by (simp add: setPeerLastDerpLocked_def activeOf_def)
      then have "shrinks w (touchDerp wnow rid' ad (setPeerLastDerpLocked peer rid' w), [])"
        by (rule shrinks_from [OF shrinks_routes(3) shrinks_touch])
      from inv_shrinks [OF i this] show ?thesis using r None Some p by (auto simp: writeChan_ready [OF ok])
    next
      case none: None
      have "w' = fst (openDerp wnow rid peer w)" "acts = snd (openDerp wnow rid peer w)"
        using r None none by (simp_all add: writeChan_ready [OF ok])
      moreover have "allowed (fst (openDerp wnow rid peer w))"
        using i ok unfolding derpInv_def allowed_def derpReady_def
        by (auto simp: activeOf_def [of "fst (openDerp wnow rid peer w)"] openDerp_frame gm_get_set split: if_splits)
      ultimately show ?thesis using i tracked_open [OF _ None] by (simp add: derpInv_def)
    qed
  qed
qed

text \<open>A queue never outgrows its channel while the other goroutines respect it.\<close>

lemma enqueue_bound:
  assumes "\<And>i q. length q \<le> derpWriteQueueDepth \<Longrightarrow> length (others i q) \<le> derpWriteQueueDepth" "length q \<le> derpWriteQueueDepth"
  shows "length (snd (enqueueLoop others donec n wr q)) \<le> derpWriteQueueDepth"
  using assms(2)
proof (induction n arbitrary: q)
  case (Suc n)
  let ?q = "others (2 * n + 1) q"
  have q: "length ?q \<le> derpWriteQueueDepth" by (rule assms(1) [OF Suc.prems])
  have "length (tl (others (2 * n) ?q)) \<le> derpWriteQueueDepth" using assms(1) [OF q, of "2 * n"] by simp
  then show ?case using q Suc.IH by (simp add: Let_def)
qed simp

text \<open>The region whose connection a packet is handed to.\<close>

definition chosenRegion :: "int \<Rightarrow> nodeKey \<Rightarrow> wire \<Rightarrow> int" where
  "chosenRegion rid peer w = (case gm_get (activeOf w) rid of
     Some _ \<Rightarrow> rid
   | None \<Rightarrow> (case reverseRoute peer w of Some (rid', _) \<Rightarrow> rid' | None \<Rightarrow> rid))"

lemma writeChan_client:
  assumes "derpInv tr w" "derpWriteChanForRegion e wnow rid peer w = ((Some dc, w'), acts)"
  shows "\<exists>ad. gm_get (activeOf w') (chosenRegion rid peer w) = Some ad \<and> adClient ad = dc"
    and "queueOf d w' = queueOf d w"
proof -
  have ok: "derpReady e rid w" using assms(2) writeChan_not_ready by fastforce
  have t: "gm_get (activeOf (touchDerp wnow r ad v)) r = Some (ad\<lparr>adLastWrite := wnow\<rparr>)" for r ad v
    by (simp add: touchDerp_def setActive_def activeOf_def gm_get_set)
  have p: "activeOf (setPeerLastDerpLocked peer r v) = activeOf v" "queueOf d (setPeerLastDerpLocked peer r v) = queueOf d v" for r v d
    by (simp_all add: setPeerLastDerpLocked_def activeOf_def queueOf_def)
  have q: "queueOf d (touchDerp wnow r ad v) = queueOf d v" for d r ad v
    by (simp add: touchDerp_def setActive_def queueOf_def)
  have new: "queueOf (wiClients w) w = []" using assms(1) by (simp add: derpInv_def tracked_def)
  have o: "gm_get (activeOf (fst (openDerp wnow rid peer w))) rid = Some \<lparr>adClient = wiClients w, adLastWrite = wnow, adCreateTime = wnow\<rparr>"
      "queueOf d (fst (openDerp wnow rid peer w)) = queueOf d w" for d
    using new by (auto simp: activeOf_def [of "fst (openDerp wnow rid peer w)"] queueOf_def openDerp_frame gm_get_set)
  have "(\<exists>ad. gm_get (activeOf w') (chosenRegion rid peer w) = Some ad \<and> adClient ad = dc) \<and> queueOf d w' = queueOf d w"
  proof (cases "gm_get (activeOf w) rid")
    case (Some ad)
    then have w: "dc = adClient ad" "w' = setPeerLastDerpLocked peer rid (touchDerp wnow rid ad w)"
      using assms(2) by (simp_all add: writeChan_ready [OF ok])
    then show ?thesis using Some by (simp add: chosenRegion_def p q t)
  next
    case None
    show ?thesis
    proof (cases "reverseRoute peer w")
      case none: None
      then have w: "dc = wiClients w" "w' = fst (openDerp wnow rid peer w)"
        using assms(2) None by (simp_all add: writeChan_ready [OF ok])
      then show ?thesis using None none o by (simp add: chosenRegion_def)
    next
      case (Some x)
      obtain r ad where x: "x = (r, ad)" by (cases x)
      have w: "dc = adClient ad" "w' = touchDerp wnow r ad (setPeerLastDerpLocked peer r w)"
        using assms(2) None Some x by (simp_all add: writeChan_ready [OF ok])
      then show ?thesis using None Some x by (simp add: chosenRegion_def p q t)
    qed
  qed
  then show "\<exists>ad. gm_get (activeOf w') (chosenRegion rid peer w) = Some ad \<and> adClient ad = dc" "queueOf d w' = queueOf d w" by simp_all
qed

lemma active_client_below: "derpInv tr w \<Longrightarrow> gm_get (activeOf w) rid = Some ad \<Longrightarrow> adClient ad < wiClients w"
  unfolding derpInv_def tracked_def by blast

lemma inv_sendDerp:
  assumes i: "derpInv tr w" and s: "sendDerp e wnow others donec addr pk b d w = ((res, w'), acts)"
    and o: "\<And>i q. length q \<le> derpWriteQueueDepth \<Longrightarrow> length (others i q) \<le> derpWriteQueueDepth"
  shows "derpInv (tr @ acts) w'"
proof -
  obtain ch w1 as where c: "derpWriteChanForRegion e wnow (uint (apPort addr)) pk w = ((ch, w1), as)" by (metis surj_pair)
  have i1: "derpInv (tr @ as) w1" by (rule inv_writeChan [OF i c])
  show ?thesis
  proof (cases ch)
    case None
    then show ?thesis using s c i1 by (simp add: sendDerp_def)
  next
    case (Some dc)
    obtain r q where l: "enqueueLoop others donec 3 \<lparr>wrAddr = addr, wrPubKey = pk, wrB = b, wrIsDisco = d\<rparr> (queueOf dc w1) = (r, q)"
      by (metis surj_pair)
    have "length (queueOf dc w1) \<le> derpWriteQueueDepth" using i1 by (simp add: derpInv_def tracked_def)
    from enqueue_bound [where others = others and donec = donec and n = 3 and wr = "\<lparr>wrAddr = addr, wrPubKey = pk, wrB = b, wrIsDisco = d\<rparr>", OF o this]
    have "length q \<le> derpWriteQueueDepth" by (simp add: l)
    moreover have "dc < wiClients w1" using writeChan_client(1) [OF i c [unfolded Some]] active_client_below [OF i1] by blast
    ultimately have "shrinks w1 (setQueue dc q w1, [])" by (simp add: shrinks_queue)
    from inv_shrinks [OF i1 this] show ?thesis using s c Some l by (auto simp: sendDerp_def)
  qed
qed

lemma inv_writer: "derpInv tr w \<Longrightarrow> runDerpWriter dc w = (w', acts) \<Longrightarrow> derpInv (tr @ acts) w'"
proof (cases "queueOf dc w")
  case (Cons wr q)
  assume i: "derpInv tr w" and r: "runDerpWriter dc w = (w', acts)"
  have q: "length (queueOf dc w) \<le> derpWriteQueueDepth" "\<not> dc \<ge> wiClients w"
    using i Cons unfolding derpInv_def tracked_def by (blast, metis list.distinct(1))
  then have "shrinks w (setQueue dc q w, [])" using Cons by (intro shrinks_queue) simp_all
  then have "shrinks w (setQueue dc q w, [] @ [ClientSend dc (wrPubKey wr) (wrB wr)])" by (rule shrinks_more) simp
  then show ?thesis using inv_shrinks [OF i] r Cons by (simp add: runDerpWriter_def)
qed (simp add: runDerpWriter_def)

text \<open>A loop of closing steps leaves no connection to a region it was told to close.\<close>

lemma wloop_removes:
  assumes f: "\<And>x w. shrinks w (f x w)" and g: "\<And>x w. P x \<Longrightarrow> gm_get (activeOf (fst (f x w))) (g x) = None"
  shows "x \<in> set xs \<Longrightarrow> P x \<Longrightarrow> gm_get (activeOf (fst (wloop f xs w))) (g x) = None"
proof (induction xs arbitrary: w)
  case (Cons y ys)
  obtain w1 acts w2 acts' where r: "f y w = (w1, acts)" "wloop f ys w1 = (w2, acts')" by (metis surj_pair)
  have fw: "fst (wloop f (y # ys) w) = fst (wloop f ys w1)" by (simp add: r)
  show ?case
  proof (cases "x = y")
    case True
    then have "gm_get (activeOf w1) (g x) = None" using g [of x w] Cons.prems r by simp
    then show ?thesis using shrinks_wloop [of f w1 ys, OF f] unfolding fw shrinks_def by (metis option.exhaust option.distinct(1))
  next
    case False
    then show ?thesis unfolding fw using Cons by simp
  qed
qed simp

lemma closeAll_none: "activeOf (fst (closeAllDerpLocked w)) = []"
proof -
  let ?w = "fst (closeAllDerpLocked w)"
  have "gm_get (activeOf ?w) rid = None" for rid
  proof (cases "rid \<in> fst ` set (activeOf w)")
    case True
    then have "rid \<in> set (map fst (activeOf w))" by simp
    from wloop_removes [where f = closeDerpLocked and P = "\<lambda>_. True" and g = "\<lambda>x. x", OF _ _ this] show ?thesis
      by (simp add: closeAllDerpLocked_def activeOf_close gm_get_del)
  next
    case False
    then have "gm_get (activeOf w) rid = None" by (simp add: gm_get_None)
    then show ?thesis using shrinks_closeAll [of w] unfolding shrinks_def by (metis option.exhaust option.distinct(1))
  qed
  then have "fst kv \<notin> fst ` set (activeOf ?w)" for kv unfolding gm_get_None .
  then show ?thesis by (metis imageI list.set_intros(1) neq_Nil_conv)
qed

lemma shrinks_redefine: "shrinks w (redefineRegion dm entry w)"
  using shrinks_from [OF shrinks_routes(4) shrinks_close] by (simp add: redefineRegion_def)

lemma inv_SetDERPMap:
  assumes i: "derpInv tr w" and s: "SetDERPMap e dm0 w = (w', acts)"
  shows "derpInv (tr @ acts) w'"
proof -
  define dm where "dm = (if weDerpAddr e \<noteq> [] then Some (debugDERPMap e) else dm0)"
  let ?w = "w\<lparr>wiDerpMap := dm\<rparr>"
  have t: "tracked tr ?w" using i tracked_quiet [of tr w "[]" ?w] by (simp add: derpInv_def)
  consider "sameDERPMap dm (wiDerpMap w)" | "dm = None" "\<not> sameDERPMap dm (wiDerpMap w)"
    | dm1 where "dm = Some dm1" "\<not> sameDERPMap dm (wiDerpMap w)" by (cases dm) auto
  then show ?thesis
  proof cases
    case 1
    then show ?thesis using s i by (simp add: SetDERPMap_def dm_def [symmetric])
  next
    case 2
    then have "closeAllDerpLocked ?w = (w', acts)" using s by (simp add: SetDERPMap_def dm_def [symmetric] Let_def)
    then show ?thesis using t shrinks_closeAll [of ?w] closeAll_none [of ?w]
      by (simp add: derpInv_def shrinks_def allowed_def)
  next
    case (3 dm1)
    let ?r = "case wiDerpMap w of None \<Rightarrow> (?w, []) | Some old \<Rightarrow> wloop (redefineRegion dm1) (dmRegions old) ?w"
    obtain w2 as where r: "?r = (w2, as)" by (metis surj_pair)
    have w': "w' = w2" "acts = as @ [GoReSTUN ''derp-map-update'']"
      using s r 3 unfolding SetDERPMap_def Let_def dm_def [symmetric] by simp_all
    have sh: "shrinks ?w (w2, as)" unfolding r [symmetric]
      by (simp add: shrinks_wloop [OF shrinks_redefine] split: option.split)
    then have "tracked (tr @ acts) w'" using t shrinks_more [OF sh, of "[GoReSTUN ''derp-map-update'']"] w' by (simp add: shrinks_def)
    moreover have "allowed w'"
      unfolding allowed_def
    proof (intro allI impI)
      fix rid ad
      assume a: "gm_get (activeOf w') rid = Some ad"
      then obtain ad0 where a0: "gm_get (activeOf w) rid = Some ad0" using sh w' by (force simp: shrinks_def activeOf_def)
      then obtain old where old: "wiDerpMap w = Some old" "regionOf old rid \<noteq> None"
        using i by (auto simp: derpInv_def allowed_def)
      then obtain rg where rg: "(rid, Some rg) \<in> set (dmRegions old)"
        by (auto simp: regionOf_def split: option.splits dest: gm_get_in)
      have "regionOf dm1 rid \<noteq> None"
      proof
        assume n: "regionOf dm1 rid = None"
        have "gm_get (activeOf (fst (wloop (redefineRegion dm1) (dmRegions old) ?w))) (fst (rid, Some rg)) = None"
          by (rule wloop_removes [where P = "\<lambda>x. snd x \<noteq> regionOf dm1 (fst x)", OF shrinks_redefine _ rg])
            (simp_all add: redefineRegion_def activeOf_close gm_get_del n)
        then show False using a w' r old(1) by simp
      qed
      moreover have "wiDerpMap w' = Some dm1" "keyOf (wiConn w') = keyOf (wiConn w)"
        using sh w' 3 by (simp_all add: shrinks_def)
      ultimately show "\<not> coClosed (wiConn w') \<and> coPrivateKey (wiConn w') \<noteq> zeroPrivateKey
          \<and> (\<exists>dm. wiDerpMap w' = Some dm \<and> regionOf dm rid \<noteq> None)"
        using i a0 by (auto simp: derpInv_def allowed_def keyOf_def)
    qed
    ultimately show ?thesis by (simp add: derpInv_def)
  qed
qed

section \<open>Runs\<close>

lemma inv_onConn:
  assumes i: "derpInv tr w" and c: "connStep (wiConn w) as c'" and r: "onConn (c', as) w = (w', acts)"
  shows "derpInv (tr @ acts) w'"
proof -
  let ?w = "w\<lparr>wiConn := c'\<rparr>"
  have sh1: "shrinks v (carryOut a v)" for a v by (cases a) (auto intro: shrinks_quiet)
  have l: "wloop carryOut as ?w = (w', acts)" using r by (simp add: onConn_def)
  have sh: "shrinks ?w (w', acts)" unfolding l [symmetric] by (rule shrinks_wloop) (rule sh1)
  have t: "tracked tr ?w" using i tracked_quiet [of tr w "[]" ?w] by (simp add: derpInv_def)
  then have t': "tracked (tr @ acts) w'" using sh by (simp add: shrinks_def)
  show ?thesis
  proof (cases "\<exists>why. CloseAllDerp why \<in> set as")
    case True
    then obtain why where why: "CloseAllDerp why \<in> set as" by blast
    have "gm_get (activeOf w') rid = None" for rid
      using wloop_removes [where f = carryOut and P = "\<lambda>a. a = CloseAllDerp why" and g = "\<lambda>_. rid", OF sh1 _ why, of ?w]
      by (simp add: closeAll_none l)
    then have "allowed w'" by (simp add: allowed_def)
    then show ?thesis using t' by (simp add: derpInv_def)
  next
    case False
    then have k: "keyOf c' = keyOf (wiConn w) \<or> (coClosed c' = coClosed (wiConn w) \<and> coPrivateKey c' \<noteq> zeroPrivateKey)"
      using connStep_keys [OF c] by blast
    have "allowed w'" unfolding allowed_def
    proof (intro allI impI)
      fix rid ad
      assume "gm_get (activeOf w') rid = Some ad"
      then obtain ad0 where "gm_get (activeOf w) rid = Some ad0" using sh by (force simp: shrinks_def activeOf_def)
      then show "\<not> coClosed (wiConn w') \<and> coPrivateKey (wiConn w') \<noteq> zeroPrivateKey
          \<and> (\<exists>dm. wiDerpMap w' = Some dm \<and> regionOf dm rid \<noteq> None)"
        using i k sh by (auto simp: derpInv_def allowed_def shrinks_def keyOf_def)
    qed
    then show ?thesis using t' by (simp add: derpInv_def)
  qed
qed

definition newWire :: wire where
  "newWire = \<lparr>wiConn = newConn, wiDerpMap = None, wiHomeless = False, wiNetworkUp = True, wiActiveDerp = None, wiPrevDerp = [],
     wiDerpRoute = [], wiPeerLastDerp = [], wiPeerSet = [], wiCleanArmed = False, wiClients = 0, wiQueues = [], wiUpdateActive = False,
     wiWantUpdate = []\<rparr>"

text \<open>The critical sections of \<open>derp.go\<close> and the calls of \<open>Conn_Run\<close>, in any order, with whatever the clock,
  the network, the clients and the other goroutines contribute.\<close>

inductive wireStep :: "wire \<Rightarrow> derpAction list \<Rightarrow> wire \<Rightarrow> bool" where
  ConnCall: "connStep (wiConn w) as c' \<Longrightarrow> onConn (c', as) w = (w', acts) \<Longrightarrow> wireStep w acts w'"
| NetworkUp: "wireStep w [] (w\<lparr>wiNetworkUp := up\<rparr>)"
| NearestDERP: "maybeSetNearestDERP pick control preferred w = ((rid, w'), acts) \<Longrightarrow> wireStep w acts w'"
| WriteChan: "derpWriteChanForRegion e wnow rid peer w = ((ch, w'), acts) \<Longrightarrow> wireStep w acts w'"
| SendDerp: "sendDerp e wnow others donec addr pk b d w = ((res, w'), acts) \<Longrightarrow>
    (\<And>i q. length q \<le> derpWriteQueueDepth \<Longrightarrow> length (others i q) \<le> derpWriteQueueDepth) \<Longrightarrow> wireStep w acts w'"
| Reader: "runDerpReader e wnow ctxDone msg rd w = ((nx, rd', w'), acts) \<Longrightarrow> wireStep w acts w'"
| Writer: "runDerpWriter dc w = (w', acts) \<Longrightarrow> wireStep w acts w'"
| Map: "SetDERPMap e dm w = (w', acts) \<Longrightarrow> wireStep w acts w'"
| Break: "DebugBreakDERPConns w = (w', acts) \<Longrightarrow> wireStep w acts w'"
| Rebind: "maybeCloseDERPsOnRebind la ips w = (w', acts) \<Longrightarrow> wireStep w acts w'"
| PingFailed: "closeOrReconnectDERPLocked rid w = (w', acts) \<Longrightarrow> wireStep w acts w'"
| CleanStale: "cleanStaleDerp wnow w = (w', acts) \<Longrightarrow> wireStep w acts w'"
| Peers: "UpdatePeers ps w = (w', acts) \<Longrightarrow> wireStep w acts w'"
| Homeless: "SetHomeless v w = (w', acts) \<Longrightarrow> wireStep w acts w'"
| Update: "reSTUN why w = (w', acts) \<Longrightarrow> wireStep w acts w'"

inductive wireRun :: "derpAction list \<Rightarrow> wire \<Rightarrow> bool" where
  New: "wireRun [] newWire"
| Step: "wireRun tr w \<Longrightarrow> wireStep w acts w' \<Longrightarrow> wireRun (tr @ acts) w'"

lemma wireStep_inv:
  assumes "wireStep w acts w'" "derpInv tr w"
  shows "derpInv (tr @ acts) w'"
  using assms
proof (induction rule: wireStep.induct)
  case (ConnCall w as c' w' acts)
  then show ?case using inv_onConn by blast
next
  case (NetworkUp w up)
  have "shrinks w (w\<lparr>wiNetworkUp := up\<rparr>, [])" by (rule shrinks_quiet) simp_all
  then show ?case using inv_shrinks [OF NetworkUp] by blast
next
  case (NearestDERP pick control preferred w rid w' acts)
  then show ?case using inv_shrinks [OF NearestDERP(2)] shrinks_maybeNearest [of w pick control preferred] by simp
next
  case (SendDerp e wnow others donec addr pk b d w res w' acts)
  then show ?case using inv_sendDerp by blast
next
  case (Reader e wnow ctxDone msg rd w nx rd' w' acts)
  then show ?case using inv_shrinks [OF Reader(2)] shrinks_reader [of w e wnow ctxDone msg rd] by simp
next
  case (Rebind la ips w w' acts)
  then show ?case using inv_shrinks [OF Rebind(2)] shrinks_rebind [of w la ips] by simp
next
  case (PingFailed rid w w' acts)
  then show ?case using inv_shrinks [OF PingFailed(2)] shrinks_closeOrReconnect [of w rid] by simp
next
  case (CleanStale wnow w w' acts)
  then show ?case using inv_shrinks [OF CleanStale(2)] shrinks_clean [of w wnow] by simp
next
  case (Break w w' acts)
  then show ?case using inv_shrinks [OF Break(2)] shrinks_debugBreak [of w] by simp
next
  case (Peers ps w w' acts)
  then show ?case using inv_shrinks [OF Peers(2)] shrinks_peers [of w ps] by simp
next
  case (Homeless v w w' acts)
  then show ?case using inv_shrinks [OF Homeless(2)] shrinks_homeless [of w v] by simp
next
  case (Update why w w' acts)
  then show ?case using inv_shrinks [OF Update(2)] shrinks_reSTUN [of w why] by simp
qed (blast intro: inv_writeChan inv_writer inv_SetDERPMap)+

lemma wireRun_inv: "wireRun tr w \<Longrightarrow> derpInv tr w"
proof (induction rule: wireRun.induct)
  case New
  show ?case by (simp add: derpInv_def tracked_def allowed_def newWire_def activeOf_def queueOf_def)
next
  case (Step tr w acts w')
  then show ?case using wireStep_inv by blast
qed


text \<open>What a packet finds: with the other goroutines only taking requests out, the second attempt succeeds
  at the latest.\<close>

lemma enqueue_succeeds:
  assumes o: "\<And>i q. \<exists>k. others i q = drop k q" and d: "\<And>n. \<not> donec n" and l: "length q \<le> derpWriteQueueDepth"
  shows "\<exists>m. enqueueLoop others donec 3 wr q = ((True, None), drop m q @ [wr])
    \<and> ((\<forall>i q. others i q = q) \<longrightarrow> m = (if length q < derpWriteQueueDepth then 0 else 1))"
proof -
  obtain k1 where k1: "others 5 q = drop k1 q" using o by blast
  obtain k2 where k2: "others 4 (drop k1 q) = drop k2 (drop k1 q)" using o by blast
  let ?q = "drop (Suc (k2 + k1)) q"
  obtain k3 where k3: "others 3 ?q = drop k3 ?q" using o by blast
  have tl: "tl (drop k2 (drop k1 q)) = ?q" by (simp add: drop_Suc tl_drop add.commute)
  have e3: "enqueueLoop others donec 3 wr q = (if length (others 5 q) < derpWriteQueueDepth then ((True, None), others 5 q @ [wr])
      else enqueueLoop others donec 2 wr (tl (others 4 (others 5 q))))"
    using enqueueLoop.simps(2) [of others donec 2 wr q] d by (simp add: Let_def)
  have e2: "enqueueLoop others donec 2 wr p = (if length (others 3 p) < derpWriteQueueDepth then ((True, None), others 3 p @ [wr])
      else enqueueLoop others donec 1 wr (tl (others 2 (others 3 p))))" for p
    using enqueueLoop.simps(2) [of others donec 1 wr p] d by (simp add: Let_def numeral_2_eq_2 [symmetric] numeral_3_eq_3 [symmetric])
  show ?thesis
  proof (cases "length (drop k1 q) < derpWriteQueueDepth")
    case True
    then have "enqueueLoop others donec 3 wr q = ((True, None), drop k1 q @ [wr])" using k1 by (simp add: e3)
    moreover have "drop k1 q = drop 0 q" "length q < derpWriteQueueDepth" if "\<forall>i q. others i q = q" using that k1 True by simp_all
    ultimately show ?thesis by metis
  next
    case False
    then have full: "length q = derpWriteQueueDepth" using l by simp
    have short: "length (drop k3 ?q) < derpWriteQueueDepth" using full by (simp add: derpWriteQueueDepth_def)
    have run: "enqueueLoop others donec 3 wr q = ((True, None), drop k3 ?q @ [wr])"
      using False k1 k2 k3 tl short by (simp add: e3 e2)
    have "drop k3 ?q = drop 1 q" if "\<forall>i q. others i q = q"
      using that k1 k2 k3 tl by (metis drop_0 drop_Suc One_nat_def)
    then show ?thesis using run full by (metis drop_drop less_irrefl)
  qed
qed

text \<open>
  C39. A packet for a region of the DERP map, on an open connection with a key and the network up, is
  queued whatever the writer does meanwhile: \<open>sendAddr\<close> reports it sent, and it is the last packet in the
  queue of an active connection, which is the one to its region, else the one the peer was last heard
  on, else a new one. Nothing else is lost, except the oldest packet of a queue that was full.
\<close>

theorem derp_send_queued:
  assumes run: "wireRun tr w" and ready: "derpReady e (uint (apPort addr)) w"
    and o: "\<And>i q. \<exists>k. others i q = drop k q" and d: "\<And>n. \<not> donec n"
  shows "\<exists>dc ad w' acts m. sendDerp e wnow others donec addr pk b isDisco w = (((True, None), w'), acts)
    \<and> gm_get (activeOf w') (chosenRegion (uint (apPort addr)) pk w) = Some ad \<and> adClient ad = dc
    \<and> queueOf dc w' = drop m (queueOf dc w) @ [\<lparr>wrAddr = addr, wrPubKey = pk, wrB = b, wrIsDisco = isDisco\<rparr>]
    \<and> ((\<forall>i q. others i q = q) \<longrightarrow> m = (if length (queueOf dc w) < 32 then 0 else 1))
    \<and> (\<forall>dc'. dc' \<noteq> dc \<longrightarrow> queueOf dc' w' = queueOf dc' w)"
proof -
  let ?wr = "\<lparr>wrAddr = addr, wrPubKey = pk, wrB = b, wrIsDisco = isDisco\<rparr>"
  have i: "derpInv tr w" by (rule wireRun_inv [OF run])
  obtain ch w1 acts where c: "derpWriteChanForRegion e wnow (uint (apPort addr)) pk w = ((ch, w1), acts)" by (metis surj_pair)
  obtain dc where dc: "ch = Some dc" using c by (auto simp: writeChan_ready [OF ready] split: option.splits)
  note cl = writeChan_client [OF i c [unfolded dc]]
  obtain ad where ad: "gm_get (activeOf w1) (chosenRegion (uint (apPort addr)) pk w) = Some ad" "adClient ad = dc" using cl(1) by blast
  have l: "length (queueOf dc w) \<le> derpWriteQueueDepth" using i by (simp add: derpInv_def tracked_def)
  obtain m where m: "enqueueLoop others donec 3 ?wr (queueOf dc w) = ((True, None), drop m (queueOf dc w) @ [?wr])"
      "(\<forall>i q. others i q = q) \<longrightarrow> m = (if length (queueOf dc w) < 32 then 0 else 1)"
    using enqueue_succeeds [where others = others and donec = donec and wr = ?wr, OF o d l] by (auto simp: derpWriteQueueDepth_def)
  let ?w = "setQueue dc (drop m (queueOf dc w) @ [?wr]) w1"
  have "sendDerp e wnow others donec addr pk b isDisco w = (((True, None), ?w), acts)"
    using c dc m(1) cl(2) by (simp add: sendDerp_def)
  moreover have "gm_get (activeOf ?w) (chosenRegion (uint (apPort addr)) pk w) = Some ad"
    using ad(1) by (simp add: setQueue_def activeOf_def)
  moreover have "queueOf dc' ?w = (if dc' = dc then drop m (queueOf dc w) @ [?wr] else queueOf dc' w)" for dc'
    by (simp add: queueOf_set cl(2))
  ultimately show ?thesis using ad(2) m(2) by auto
qed

text \<open>What \<open>SetDERPMap\<close> does to the home region, entry by entry.\<close>

lemma redefine_home: "myDerp (fst (redefineRegion dm entry w)) = (if snd entry \<noteq> regionOf dm (fst entry) \<and> fst entry = myDerp w then 0 else myDerp w)"
  by (auto simp: redefineRegion_def closeDerpLocked_def split: option.split) (simp_all add: myDerp_def setMyDerp_def)

lemma redefine_active:
  "gm_get (activeOf (fst (redefineRegion dm entry w))) rid =
     (if snd entry \<noteq> regionOf dm (fst entry) \<and> fst entry = rid then None else gm_get (activeOf w) rid)"
  by (auto simp: redefineRegion_def activeOf_close gm_get_del)

lemma redefine_loop:
  "gm_get (activeOf (fst (wloop (redefineRegion dm) rs w))) rid = (if \<exists>r. (rid, r) \<in> set rs \<and> r \<noteq> regionOf dm rid then None else gm_get (activeOf w) rid)"
  "myDerp w \<noteq> 0 \<Longrightarrow> myDerp (fst (wloop (redefineRegion dm) rs w)) = (if \<exists>r. (myDerp w, r) \<in> set rs \<and> r \<noteq> regionOf dm (myDerp w) then 0 else myDerp w)"
  "myDerp w = 0 \<Longrightarrow> myDerp (fst (wloop (redefineRegion dm) rs w)) = 0"
proof -
  have step: "fst (wloop (redefineRegion dm) (x # xs) w) = fst (wloop (redefineRegion dm) xs (fst (redefineRegion dm x w)))" for x xs w
    by (simp split: prod.split)
  show "gm_get (activeOf (fst (wloop (redefineRegion dm) rs w))) rid = (if \<exists>r. (rid, r) \<in> set rs \<and> r \<noteq> regionOf dm rid then None else gm_get (activeOf w) rid)"
    by (induction rs arbitrary: w) (auto simp: step redefine_active simp del: wloop.simps(2))
  have z: "myDerp w = 0 \<Longrightarrow> myDerp (fst (wloop (redefineRegion dm) xs w)) = 0" for w xs
    by (induction xs arbitrary: w) (auto simp: step redefine_home simp del: wloop.simps(2))
  then show "myDerp w = 0 \<Longrightarrow> myDerp (fst (wloop (redefineRegion dm) rs w)) = 0" .
  show "myDerp w \<noteq> 0 \<Longrightarrow> myDerp (fst (wloop (redefineRegion dm) rs w)) = (if \<exists>r. (myDerp w, r) \<in> set rs \<and> r \<noteq> regionOf dm (myDerp w) then 0 else myDerp w)"
  proof (induction rs arbitrary: w)
    case (Cons x xs)
    show ?case
    proof (cases "snd x \<noteq> regionOf dm (fst x) \<and> fst x = myDerp w")
      case True
      then have "myDerp (fst (redefineRegion dm x w)) = 0" by (auto simp: redefine_home)
      then show ?thesis using z True unfolding step by (cases x) auto
    next
      case False
      then have "myDerp (fst (redefineRegion dm x w)) = myDerp w" by (auto simp: redefine_home)
      then show ?thesis using Cons False unfolding step by (cases x) auto
    qed
  qed simp
qed

text \<open>
  C40. A changed DERP map closes the connections to exactly the regions whose definition changed and
  keeps the others, and the home region is given up exactly if its own definition changed.
\<close>

theorem derp_map_update_exact:
  assumes "wiDerpMap w = Some old" "gm_wf (dmRegions old)" "weDerpAddr e = []" "\<not> sameDERPMap (Some dm) (Some old)"
    and run: "wireRun tr w"
  shows "gm_get (activeOf (fst (SetDERPMap e (Some dm) w))) rid = (if regionOf dm rid = regionOf old rid then gm_get (activeOf w) rid else None)
    \<and> myDerp (fst (SetDERPMap e (Some dm) w))
        = (if gm_get (dmRegions old) (myDerp w) = None \<or> regionOf dm (myDerp w) = regionOf old (myDerp w) then myDerp w else 0)"
proof -
  let ?w = "w\<lparr>wiDerpMap := Some dm\<rparr>"
  have f: "fst (SetDERPMap e (Some dm) w) = fst (wloop (redefineRegion dm) (dmRegions old) ?w)"
    using assms(1,3,4) by (simp add: SetDERPMap_def Let_def split: prod.split)
  have e: "(r, x) \<in> set (dmRegions old) \<longleftrightarrow> gm_get (dmRegions old) r = Some x" for r x using gm_get_iff [OF assms(2)] by simp
  have "gm_get (activeOf w) rid = None" if "regionOf old rid = None"
    using assms(1) wireRun_inv [OF run] that by (cases "gm_get (activeOf w) rid") (auto simp: derpInv_def allowed_def)
  moreover have "activeOf ?w = activeOf w" "myDerp ?w = myDerp w" by (simp_all add: activeOf_def myDerp_def)
  ultimately show ?thesis
    unfolding f using redefine_loop [where dm = dm and rs = "dmRegions old" and w = ?w]
    by (cases "myDerp w = 0") (auto simp: e regionOf_def split: option.splits)
qed

section \<open>A route that is not learned again\<close>

text \<open>Packets from several senders, read one after the other.\<close>

fun readPackets :: "wireEnv \<Rightarrow> (walltime \<times> nodeKey \<times> u8 list) list \<Rightarrow> derpReader \<Rightarrow> wire \<Rightarrow> derpReader \<times> wire" where
  "readPackets e [] rd w = (rd, w)"
| "readPackets e ((t, src, data) # ps) rd w =
     (case runDerpReader e t (False, False) (ReceivedPacket src data) rd w of ((_, rd1, w1), _) \<Rightarrow> readPackets e ps rd1 w1)"

definition routeVia :: "derpReader \<Rightarrow> derpRoute" where
  "routeVia rd = \<lparr>drRegionID = rdRegionID rd, drClient = rdClient rd\<rparr>"

lemma readPacket_keeps_lost:
  assumes "peer \<in> set (rdPeerPresent rd)" "gm_get (wiDerpRoute w) peer \<noteq> Some (routeVia rd)"
    and r: "runDerpReader e t ctx (ReceivedPacket src data) rd w = ((nx, rd1, w1), acts)"
  shows "peer \<in> set (rdPeerPresent rd1) \<and> routeVia rd1 = routeVia rd \<and> gm_get (wiDerpRoute w1) peer \<noteq> Some (routeVia rd)"
proof -
  let ?rd = "if wzero (rdLastPacketTime rd) \<or> t - rdLastPacketTime rd > frameReceiveRecordRate then rd\<lparr>rdLastPacketTime := t\<rparr> else rd"
  have "noteSender src ?rd w = (rd1, w1)"
    using r by (auto simp: runDerpReader_def Let_def split: prod.splits if_splits)
  then show ?thesis using assms(1,2)
    by (auto simp: noteSender_def addDerpPeerRoute_def routeVia_def Let_def gm_get_set split: if_splits)
qed

lemma readPackets_keep_lost:
  "peer \<in> set (rdPeerPresent rd) \<Longrightarrow> gm_get (wiDerpRoute w) peer \<noteq> Some (routeVia rd) \<Longrightarrow>
   gm_get (wiDerpRoute (snd (readPackets e ps rd w))) peer \<noteq> Some (routeVia rd)"
proof (induction ps arbitrary: rd w)
  case (Cons p ps)
  obtain t src data where p: "p = (t, src, data)" by (cases p) auto
  obtain nx rd1 w1 acts where r: "runDerpReader e t (False, False) (ReceivedPacket src data) rd w = ((nx, rd1, w1), acts)"
    by (metis surj_pair)
  show ?case using Cons.IH [of rd1 w1] readPacket_keeps_lost [OF Cons.prems r] by (simp add: p r)
qed simp

text \<open>
  Once the server has said that a peer is gone, packets from this peer on the same connection do not
  bring its route back, however many arrive: the reader still counts the peer as present.
\<close>

theorem route_lost_after_peer_gone:
  assumes "peer \<in> set (rdPeerPresent rd)"
    and r: "runDerpReader e t ctx (PeerGoneMessage peer) rd w = ((nx, rd1, w1), acts)"
  shows "gm_get (wiDerpRoute (snd (readPackets e ps rd1 w1))) peer \<noteq> Some (routeVia rd)"
proof -
  have "rdPeerPresent rd1 = rdPeerPresent rd" "routeVia rd1 = routeVia rd"
      "w1 = removeDerpPeerRoute peer (rdRegionID rd) (rdClient rd) w"
    using r by (auto simp: runDerpReader_def Let_def routeVia_def split: if_splits)
  then show ?thesis using assms(1) readPackets_keep_lost [of peer rd1 w1 e ps]
    by (auto simp: removeDerpPeerRoute_def routeVia_def gm_get_del split: option.splits if_splits)
qed

section \<open>Examples\<close>

definition exDerpEnv :: wireEnv where
  "exDerpEnv = \<lparr>weAssumeNetworkUp = True, weDerpAddr = [], weDerpHTTP = False\<rparr>"

definition exRegion :: "int \<Rightarrow> string \<Rightarrow> derpRegion" where
  "exRegion rid code = \<lparr>rgRegionID = rid, rgRegionCode = code, rgNodes = [], rgRest = []\<rparr>"

definition exDerpMap :: "string \<Rightarrow> derpMap" where
  "exDerpMap code = \<lparr>dmOmitDefaultRegions = True, dmRegions = [(1, Some (exRegion 1 ''fra'')), (2, Some (exRegion 2 code))], dmRest = []\<rparr>"

text \<open>A connection with a key and a map, and with connections to both regions.\<close>

definition exKeyedWire :: wire where
  "exKeyedWire = fst (onConn (SetPrivateKey exEnv 5 (replicate 32 1) newConn) newWire)"

definition exMappedWire :: wire where
  "exMappedWire = fst (SetDERPMap exDerpEnv (Some (exDerpMap ''sfo'')) exKeyedWire)"

definition exOneWire :: wire where
  "exOneWire = snd (fst (derpWriteChanForRegion exDerpEnv 9 1 zeroNodeKey exMappedWire))"

definition exTwoWire :: wire where
  "exTwoWire = snd (fst (derpWriteChanForRegion exDerpEnv 9 2 zeroNodeKey exOneWire))"

definition exWireTrace :: "derpAction list" where
  "exWireTrace = snd (onConn (SetPrivateKey exEnv 5 (replicate 32 1) newConn) newWire)
     @ snd (SetDERPMap exDerpEnv (Some (exDerpMap ''sfo'')) exKeyedWire)
     @ snd (derpWriteChanForRegion exDerpEnv 9 1 zeroNodeKey exMappedWire)
     @ snd (derpWriteChanForRegion exDerpEnv 9 2 zeroNodeKey exOneWire)"

lemma exTwoWire_run: "wireRun exWireTrace exTwoWire"
proof -
  have "wireStep newWire (snd (onConn (SetPrivateKey exEnv 5 (replicate 32 1) newConn) newWire)) exKeyedWire"
    by (rule wireStep.ConnCall [OF connStep.PrivateKey, of exEnv 5 "replicate 32 1" _ "fst (SetPrivateKey exEnv 5 (replicate 32 1) newConn)"
        "snd (SetPrivateKey exEnv 5 (replicate 32 1) newConn)"])
      (simp_all add: newWire_def exKeyedWire_def)
  moreover have "wireStep exKeyedWire (snd (SetDERPMap exDerpEnv (Some (exDerpMap ''sfo'')) exKeyedWire)) exMappedWire"
    by (rule wireStep.Map [of exDerpEnv "Some (exDerpMap ''sfo'')"]) (simp add: exMappedWire_def)
  moreover have "wireStep exMappedWire (snd (derpWriteChanForRegion exDerpEnv 9 1 zeroNodeKey exMappedWire)) exOneWire"
    by (rule wireStep.WriteChan [of exDerpEnv 9 1 zeroNodeKey _ "fst (fst (derpWriteChanForRegion exDerpEnv 9 1 zeroNodeKey exMappedWire))"])
      (simp add: exOneWire_def)
  moreover have "wireStep exOneWire (snd (derpWriteChanForRegion exDerpEnv 9 2 zeroNodeKey exOneWire)) exTwoWire"
    by (rule wireStep.WriteChan [of exDerpEnv 9 2 zeroNodeKey _ "fst (fst (derpWriteChanForRegion exDerpEnv 9 2 zeroNodeKey exOneWire))"])
      (simp add: exTwoWire_def)
  ultimately show ?thesis
    using wireRun.Step [OF wireRun.Step [OF wireRun.Step [OF wireRun.Step [OF wireRun.New]]]] by (simp add: exWireTrace_def)
qed

lemma exTwoWire_facts:
  "wiDerpMap exTwoWire = Some (exDerpMap ''sfo'')" "coClosed (wiConn exTwoWire) = False"
  "coPrivateKey (wiConn exTwoWire) = replicate 32 1" "map fst (activeOf exTwoWire) = [1, 2]" "wiQueues exTwoWire = [(0, []), (1, [])]"
  "reverseRoute zeroNodeKey exTwoWire = None" "myDerp exTwoWire = 0"
  by code_simp+


theorem derp_send_queued_witness:
  "\<exists>w' acts ad. sendDerp exDerpEnv 9 (\<lambda>_ q. q) (\<lambda>_. False) \<lparr>apAddr = derpMagicIPAddr, apPort = 2\<rparr> zeroNodeKey [7] False exTwoWire
       = (((True, None), w'), acts)
     \<and> gm_get (activeOf w') 2 = Some ad \<and> map wrB (queueOf (adClient ad) w') = [[7]]"
proof -
  let ?a = "\<lparr>apAddr = derpMagicIPAddr, apPort = 2\<rparr>"
  have "regionOf (exDerpMap ''sfo'') 2 = Some (exRegion 2 ''sfo'')" by code_simp
  moreover have "replicate 32 (1::u8) \<noteq> zeroPrivateKey" by code_simp
  ultimately have ready: "derpReady exDerpEnv (uint (apPort ?a)) exTwoWire"
    by (simp add: derpReady_def exTwoWire_facts networkDown_def exDerpEnv_def)
  have "gm_get (activeOf exTwoWire) 2 \<noteq> None" by code_simp
  then have ch: "chosenRegion (uint (apPort ?a)) zeroNodeKey exTwoWire = 2" by (auto simp: chosenRegion_def)
  have q: "queueOf dc exTwoWire = []" for dc by (simp add: queueOf_def exTwoWire_facts)
  have "\<exists>k. q = drop k q" for q :: "derpWriteRequest list" by (rule exI [of _ 0]) simp
  from derp_send_queued [OF exTwoWire_run ready this, where donec = "\<lambda>_. False" and wnow = 9 and pk = zeroNodeKey and b = "[7]" and isDisco = False]
  show ?thesis unfolding ch q by fastforce
qed

theorem derp_map_update_exact_witness:
  "wireRun exWireTrace exTwoWire \<and> wiDerpMap exTwoWire = Some (exDerpMap ''sfo'')
   \<and> gm_get (activeOf (fst (SetDERPMap exDerpEnv (Some (exDerpMap ''nyc'')) exTwoWire))) 2 = None
   \<and> gm_get (activeOf (fst (SetDERPMap exDerpEnv (Some (exDerpMap ''nyc'')) exTwoWire))) 1 = gm_get (activeOf exTwoWire) 1"
proof -
  have e: "regionOf (exDerpMap ''nyc'') 1 = regionOf (exDerpMap ''sfo'') 1" "regionOf (exDerpMap ''nyc'') 2 \<noteq> regionOf (exDerpMap ''sfo'') 2"
      "\<not> sameDERPMap (Some (exDerpMap ''nyc'')) (Some (exDerpMap ''sfo''))"
    by code_simp+
  have w: "gm_wf (dmRegions (exDerpMap ''sfo''))" by (simp add: exDerpMap_def gm_wf_def)
  have d: "weDerpAddr exDerpEnv = []" by (simp add: exDerpEnv_def)
  from derp_map_update_exact [OF exTwoWire_facts(1) w d e(3) exTwoWire_run, of 1]
    derp_map_update_exact [OF exTwoWire_facts(1) w d e(3) exTwoWire_run, of 2]
  show ?thesis using exTwoWire_run exTwoWire_facts(1) e(1,2) by simp
qed

theorem route_lost_after_peer_gone_witness:
  "\<exists>rd rd1 w w1 peer. gm_get (wiDerpRoute w) peer = Some (routeVia rd)
     \<and> fst (runDerpReader exDerpEnv 9 (False, False) (PeerGoneMessage peer) rd w) = (ReaderContinues, rd1, w1)
     \<and> gm_get (wiDerpRoute (snd (readPackets exDerpEnv [(10, peer, [1]), (11, peer, [2])] rd1 w1))) peer \<noteq> Some (routeVia rd)"
proof -
  define peer where "peer = (replicate 32 5 :: u8 list)"
  define rw where "rw = noteSender peer (newReader 2 1) exTwoWire"
  have p: "peer \<in> set (rdPeerPresent (fst rw))" "gm_get (wiDerpRoute (snd rw)) peer = Some (routeVia (fst rw))"
      "fst (fst (runDerpReader exDerpEnv 9 (False, False) (PeerGoneMessage peer) (fst rw) (snd rw))) = ReaderContinues"
    unfolding rw_def peer_def by code_simp+
  obtain rd1 w1 acts where r: "runDerpReader exDerpEnv 9 (False, False) (PeerGoneMessage peer) (fst rw) (snd rw) = ((ReaderContinues, rd1, w1), acts)"
    using p(3) by (metis prod.collapse)
  from route_lost_after_peer_gone [OF p(1) r] show ?thesis using p(2) r by (metis fst_conv)
qed

end
