(* ===== verification/Rebinding_Conn.thy ===== *)
theory Rebinding_Conn
  imports Srcsel_Sockets Disco Peer_Map
begin

text \<open>
  \<open>RebindingUDPConn\<close> (\<open>src/wgengine/magicsock/rebinding_conn.go\<close>), the socket that can be replaced while
  it is in use, and \<open>bindSocket\<close> of \<open>magicsock.go\<close>, which replaces it. Sockets are numbered in the order
  in which they become current. Other goroutines may rebind at any moment: \<open>cur t\<close> is the current socket
  at time \<open>t\<close>, and an operation on a socket, a look at the current socket and a load of the pointer each
  take one unit of time.
\<close>

section \<open>Errors\<close>

text \<open>What the code asks of an error: which system error it is or wraps, whether it is one of the errors of
  a closed pipe, and \<open>ErrUDPGSODisabled\<close> with its \<open>RetryErr\<close>.\<close>

datatype errno = EPERM | EPIPE | ENOTCONN | EHOSTUNREACH | ERROR_NO_DATA | OtherErrno int

datatype netErr = PlainErr string | ClosedErr | Errno errno | GSODisabled "netErr option"

fun isErrno :: "errno \<Rightarrow> netErr \<Rightarrow> bool" where
  "isErrno e (Errno n) = (n = e)"
| "isErrno e (GSODisabled (Some r)) = isErrno e r"
| "isErrno e _ = False"

fun isClosedErr :: "netErr \<Rightarrow> bool" where
  "isClosedErr ClosedErr = True"
| "isClosedErr (GSODisabled (Some r)) = isClosedErr r"
| "isClosedErr _ = False"

datatype goos = Linux | Windows | Js | OtherOS

definition IsClosedPipeError :: "goos \<Rightarrow> netErr \<Rightarrow> bool" where
  "IsClosedPipeError os err =
     (if os = Windows \<and> isErrno ERROR_NO_DATA err then True
      else isErrno EPIPE err \<or> isErrno ENOTCONN err \<or> isClosedErr err)"

definition TreatAsLostUDP :: "goos \<Rightarrow> netErr option \<Rightarrow> bool" where
  "TreatAsLostUDP os err = (case err of None \<Rightarrow> False | Some e \<Rightarrow> os = Linux \<and> isErrno EPERM e)"

definition shouldRebind :: "goos \<Rightarrow> netErr \<Rightarrow> string option" where
  "shouldRebind os err =
     (if IsClosedPipeError os err then Some ''broken-pipe''
      else if isErrno EPERM err then Some ''operation-not-permitted'' else None)"

definition isBadEndpointErr :: "netErr \<Rightarrow> bool" where
  "isBadEndpointErr err = isErrno EHOSTUNREACH err"

section \<open>Reading and writing\<close>

text \<open>The loop that reads and writes share: an operation that fails on a socket that is not current any
  more is tried again on the current one. Returns the result and the time.\<close>

partial_function (option) retryLoop ::
    "(nat \<Rightarrow> nat) \<Rightarrow> (nat \<Rightarrow> nat \<Rightarrow> 'a \<times> netErr option) \<Rightarrow> nat \<Rightarrow> nat \<Rightarrow> (('a \<times> netErr option) \<times> nat) option" where
  "retryLoop cur io pconn t =
     (case io t pconn of
        (x, None) \<Rightarrow> Some ((x, None), t + 1)
      | (x, Some err) \<Rightarrow> if pconn \<noteq> cur (t + 1) then retryLoop cur io (cur (t + 2)) (t + 3) else Some ((x, Some err), t + 2))"

definition readFromWithInitPconn ::
    "(nat \<Rightarrow> nat) \<Rightarrow> (nat \<Rightarrow> nat \<Rightarrow> (u8 list \<times> addrPort) \<times> netErr option) \<Rightarrow> nat \<Rightarrow> nat
      \<Rightarrow> (((u8 list \<times> addrPort) \<times> netErr option) \<times> nat) option" where
  "readFromWithInitPconn cur io pconn t = retryLoop cur io pconn t"

definition ReadFromUDPAddrPort ::
    "(nat \<Rightarrow> nat) \<Rightarrow> (nat \<Rightarrow> nat \<Rightarrow> (u8 list \<times> addrPort) \<times> netErr option) \<Rightarrow> nat \<Rightarrow> (((u8 list \<times> addrPort) \<times> netErr option) \<times> nat) option" where
  "ReadFromUDPAddrPort cur io t = readFromWithInitPconn cur io (cur t) (t + 1)"

text \<open>A write: \<open>io t s b a\<close> is what writing \<open>b\<close> to \<open>a\<close> on the socket \<open>s\<close> at time \<open>t\<close> answers.\<close>

type_synonym udpIO = "nat \<Rightarrow> nat \<Rightarrow> u8 list \<Rightarrow> addrPort \<Rightarrow> int \<times> netErr option"

definition writeToUDPAddrPortWithInitPconn ::
    "(nat \<Rightarrow> nat) \<Rightarrow> udpIO \<Rightarrow> nat \<Rightarrow> nat \<Rightarrow> u8 list \<Rightarrow> addrPort \<Rightarrow> ((int \<times> netErr option) \<times> nat) option" where
  "writeToUDPAddrPortWithInitPconn cur io pconn t b addr = retryLoop cur (\<lambda>t s. io t s b addr) pconn t"

definition WriteToUDPAddrPort ::
    "(nat \<Rightarrow> nat) \<Rightarrow> udpIO \<Rightarrow> nat \<Rightarrow> u8 list \<Rightarrow> addrPort \<Rightarrow> ((int \<times> netErr option) \<times> nat) option" where
  "WriteToUDPAddrPort cur io t b addr = writeToUDPAddrPortWithInitPconn cur io (cur t) (t + 1) b addr"

definition batchHeader :: "epAddr \<Rightarrow> GeneveHeader" where
  "batchHeader addr = zeroGeneveHeader\<lparr>ghProtocol := GeneveProtocolWireGuard, ghVNI := vni addr\<rparr>"

text \<open>The packet that goes out for a buffer; the error of \<open>Encode\<close> is ignored.\<close>

definition batchPacket :: "epAddr \<Rightarrow> int \<Rightarrow> u8 list \<Rightarrow> panic + u8 list" where
  "batchPacket addr offset buf =
     (if vniIsSet (vni addr) then Inr (case geneveEncode (batchHeader addr) buf of Inr b \<Rightarrow> b | Inl _ \<Rightarrow> buf)
      else if offset < 0 \<or> offset > int (length buf) then Inl SliceOutOfRange
      else Inr (drop (nat offset) buf))"

text \<open>Packet by packet, for sockets without batching: each starts on the socket loaded before the loop.\<close>

fun writePackets ::
    "(nat \<Rightarrow> nat) \<Rightarrow> udpIO \<Rightarrow> nat \<Rightarrow> epAddr \<Rightarrow> int \<Rightarrow> u8 list list \<Rightarrow> nat \<Rightarrow> (panic + netErr option \<times> nat) option" where
  "writePackets cur io pconn addr offset [] t = Some (Inr (None, t))"
| "writePackets cur io pconn addr offset (buf # buffs) t =
     (case batchPacket addr offset buf of
        Inl p \<Rightarrow> Some (Inl p)
      | Inr b \<Rightarrow> (case writeToUDPAddrPortWithInitPconn cur io pconn t b (ap addr) of
            None \<Rightarrow> None
          | Some ((n, Some err), t1) \<Rightarrow> Some (Inr (Some err, t1))
          | Some ((n, None), t1) \<Rightarrow> writePackets cur io pconn addr offset buffs t1))"

text \<open>\<open>rb t s\<close> is what \<open>batching.Conn.ReadBatch\<close> answers: the messages read, with their sources.\<close>

partial_function (option) ReadBatch ::
    "(nat \<Rightarrow> nat) \<Rightarrow> (nat \<Rightarrow> nat \<Rightarrow> (u8 list \<times> addrPort) \<times> netErr option) \<Rightarrow> (nat \<Rightarrow> bool)
      \<Rightarrow> (nat \<Rightarrow> nat \<Rightarrow> (u8 list \<times> addrPort) list \<times> netErr option) \<Rightarrow> nat \<Rightarrow> (((u8 list \<times> addrPort) list \<times> netErr option) \<times> nat) option" where
  "ReadBatch cur io isBatch rb t =
     (if \<not> isBatch (cur t)
      then map_option (\<lambda>(((b, src), err), t'). ((if err = None then [(b, src\<lparr>apAddr := unmap (apAddr src)\<rparr>)] else [], err), t'))
             (readFromWithInitPconn cur io (cur t) (t + 1))
      else case rb (t + 1) (cur t) of
        (ms, None) \<Rightarrow> Some ((ms, None), t + 2)
      | (ms, Some err) \<Rightarrow> if cur t \<noteq> cur (t + 2) then ReadBatch cur io isBatch rb (t + 3) else Some ((ms, Some err), t + 3))"

definition errOffset :: string where
  "errOffset = ''RebindingUDPConn.WriteWireGuardBatchTo: [unexpected] offset != Geneve header length''"

text \<open>\<open>isBatch\<close> says which sockets are a \<open>batching.Conn\<close>, and \<open>wb t s\<close> is what its \<open>WriteBatchTo\<close> answers.\<close>

partial_function (option) batchLoop ::
    "(nat \<Rightarrow> nat) \<Rightarrow> udpIO \<Rightarrow> (nat \<Rightarrow> bool) \<Rightarrow> (nat \<Rightarrow> nat \<Rightarrow> netErr option) \<Rightarrow> u8 list list \<Rightarrow> epAddr \<Rightarrow> int \<Rightarrow> nat
      \<Rightarrow> (panic + netErr option \<times> nat) option" where
  "batchLoop cur io isBatch wb buffs addr offset t =
     (if \<not> isBatch (cur t) then writePackets cur io (cur t) addr offset buffs (t + 1)
      else case wb (t + 1) (cur t) of
        None \<Rightarrow> Some (Inr (None, t + 2))
      | Some err \<Rightarrow> if cur t \<noteq> cur (t + 2) then batchLoop cur io isBatch wb buffs addr offset (t + 3) else Some (Inr (Some err, t + 3)))"

definition WriteWireGuardBatchTo ::
    "(nat \<Rightarrow> nat) \<Rightarrow> udpIO \<Rightarrow> (nat \<Rightarrow> bool) \<Rightarrow> (nat \<Rightarrow> nat \<Rightarrow> netErr option) \<Rightarrow> u8 list list \<Rightarrow> epAddr \<Rightarrow> int \<Rightarrow> nat
      \<Rightarrow> (panic + netErr option \<times> nat) option" where
  "WriteWireGuardBatchTo cur io isBatch wb buffs addr offset t =
     (if offset \<noteq> int GeneveFixedHeaderLength then Some (Inr (Some (PlainErr errOffset), t))
      else batchLoop cur io isBatch wb buffs addr offset t)"

section \<open>Calls return\<close>

text \<open>
  With finitely many rebinds the loop ends: every turn but the last one saw a rebind. \<open>attempt\<close> says that
  a result is the one of an operation on a socket, at a time; a failure is only reported for a socket
  that was still current.
\<close>

lemma retry_returns:
  assumes "mono cur" "\<And>t. cur t \<le> N" "s \<le> t" "pconn = cur s"
  shows "\<exists>x err t'. retryLoop cur io pconn t = Some ((x, err), t') \<and> t' \<le> t + 3 * (N - pconn) + 2
    \<and> (\<exists>t0 s0. io t0 (cur s0) = (x, err) \<and> t0 < t' \<and> s \<le> s0 \<and> s0 \<le> t0 \<and> (err \<noteq> None \<longrightarrow> cur s0 = cur (t0 + 1)))"
  using assms(3,4)
proof (induction "N - pconn" arbitrary: pconn s t rule: less_induct)
  case less
  obtain x err where io: "io t pconn = (x, err)" by (cases "io t pconn")
  show ?case
  proof (cases "err = None \<or> pconn = cur (t + 1)")
    case True
    then have "retryLoop cur io pconn t = Some ((x, err), if err = None then t + 1 else t + 2)"
      using io by (subst retryLoop.simps) (auto split: option.split)
    moreover have "io t (cur s) = (x, err)" using io less.prems by simp
    ultimately show ?thesis using less.prems True by (intro exI conjI) (auto split: if_splits)
  next
    case False
    then obtain e where e: "err = Some e" by auto
    have le: "pconn \<le> cur (t + 1)" using less.prems assms(1) by (simp add: monoD)
    have next_le: "cur (t + 1) \<le> cur (t + 2)" using assms(1) by (simp add: monoD)
    have lt: "pconn < cur (t + 2)" using False le next_le by simp
    have bound: "cur (t + 2) \<le> N" by (rule assms(2))
    have "N - cur (t + 2) < N - pconn" "t + 2 \<le> t + 3" using lt bound by simp_all
    from less.hyps [OF this refl] obtain x' err' t' t0 s0 where r:
      "retryLoop cur io (cur (t + 2)) (t + 3) = Some ((x', err'), t')" "t' \<le> t + 3 + 3 * (N - cur (t + 2)) + 2"
      "io t0 (cur s0) = (x', err')" "t0 < t'" "t + 2 \<le> s0" "s0 \<le> t0" "err' \<noteq> None \<longrightarrow> cur s0 = cur (t0 + 1)" by blast
    have "retryLoop cur io pconn t = Some ((x', err'), t')"
      using io e False r(1) by (subst retryLoop.simps) simp
    moreover have "t' \<le> t + 3 * (N - pconn) + 2" using r(2) lt bound by simp
    moreover have "s \<le> s0" using less.prems r(5) by simp
    ultimately show ?thesis using r by blast
  qed
qed

lemma retry_ok_time:
  assumes "retryLoop cur io pconn t = Some ((x, None), t')" "mono cur" "\<And>t. cur t \<le> N" "s \<le> t" "pconn = cur s"
  shows "\<exists>t0 s0. t \<le> t0 \<and> t0 < t' \<and> io t0 s0 = (x, None)"
  using assms(1,4,5)
proof (induction "N - pconn" arbitrary: pconn s t rule: less_induct)
  case less
  obtain y err where io: "io t pconn = (y, err)" by (cases "io t pconn")
  show ?case
  proof (cases "err = None \<or> pconn = cur (t + 1)")
    case True
    then show ?thesis using io less.prems(1) by (subst (asm) retryLoop.simps) (auto split: option.splits)
  next
    case False
    then obtain e where e: "err = Some e" by auto
    have "pconn \<le> cur (t + 1)" "cur (t + 1) \<le> cur (t + 2)" using less.prems assms(2) by (simp_all add: monoD)
    then have "pconn < cur (t + 2)" using False by linarith
    then have "N - cur (t + 2) < N - pconn" using assms(3) [of "t + 2"] by simp
    moreover have "retryLoop cur io (cur (t + 2)) (t + 3) = Some ((x, None), t')"
      using io e False less.prems(1) by (subst (asm) retryLoop.simps) simp
    ultimately obtain t0 s0 where "t + 3 \<le> t0" "t0 < t'" "io t0 s0 = (x, None)" using less.hyps [OF _ _ _ refl, of "t + 2"] by fastforce
    then show ?thesis by (intro exI [of _ t0] exI [of _ s0]) simp
  qed
qed

lemma writePackets_return:
  assumes "mono cur" "\<And>t. cur t \<le> N" "s \<le> t"
  shows "\<exists>r. writePackets cur io (cur s) addr offset buffs t = Some r
    \<and> (\<forall>err t'. r = Inr (Some err, t') \<longrightarrow> (\<exists>t0 s0 b n. io t0 (cur s0) b (ap addr) = (n, Some err) \<and> s0 \<le> t0 \<and> cur s0 = cur (t0 + 1)))
    \<and> (\<forall>t'. r = Inr (None, t') \<longrightarrow> (\<exists>ts. length ts = length buffs \<and> sorted_wrt (<) ts \<and> list_all (\<lambda>t0. t \<le> t0 \<and> t0 < t') ts
         \<and> list_all2 (\<lambda>t0 buf. \<exists>b s0 n. batchPacket addr offset buf = Inr b \<and> io t0 s0 b (ap addr) = (n, None)) ts buffs) \<and> t \<le> t')"
  using assms(3)
proof (induction buffs arbitrary: t)
  case (Cons buf buffs)
  show ?case
  proof (cases "batchPacket addr offset buf")
    case (Inr b)
    let ?io = "\<lambda>t s. io t s b (ap addr)"
    obtain n err t1 t0 s0 where w: "retryLoop cur ?io (cur s) t = Some ((n, err), t1)" "?io t0 (cur s0) = (n, err)" "t0 < t1" "s0 \<le> t0"
        "err \<noteq> None \<longrightarrow> cur s0 = cur (t0 + 1)"
      using retry_returns [OF assms(1,2) Cons.prems refl, of ?io] by metis
    show ?thesis
    proof (cases err)
      case (Some e)
      have "\<exists>t0 s0 b n. io t0 (cur s0) b (ap addr) = (n, Some e) \<and> s0 \<le> t0 \<and> cur s0 = cur (t0 + 1)"
        using w(2,4,5) Some by blast
      moreover have "writePackets cur io (cur s) addr offset (buf # buffs) t = Some (Inr (Some e, t1))"
        using w(1) Some Inr by (simp add: writeToUDPAddrPortWithInitPconn_def)
      ultimately show ?thesis by blast
    next
      case None
      obtain ta sa where ta: "t \<le> ta" "ta < t1" "?io ta sa = (n, None)"
        using retry_ok_time [OF w(1) [unfolded None] assms(1,2) Cons.prems refl] by blast
      have "s \<le> t1" using Cons.prems ta by simp
      from Cons.IH [OF this] obtain r where r: "writePackets cur io (cur s) addr offset buffs t1 = Some r"
        "\<forall>err t'. r = Inr (Some err, t') \<longrightarrow> (\<exists>t0 s0 b n. io t0 (cur s0) b (ap addr) = (n, Some err) \<and> s0 \<le> t0 \<and> cur s0 = cur (t0 + 1))"
        "\<forall>t'. r = Inr (None, t') \<longrightarrow> (\<exists>ts. length ts = length buffs \<and> sorted_wrt (<) ts \<and> list_all (\<lambda>t0. t1 \<le> t0 \<and> t0 < t') ts
         \<and> list_all2 (\<lambda>t0 buf. \<exists>b s0 n. batchPacket addr offset buf = Inr b \<and> io t0 s0 b (ap addr) = (n, None)) ts buffs) \<and> t1 \<le> t'" by blast
      have run: "writePackets cur io (cur s) addr offset (buf # buffs) t = Some r"
        using w(1) None Inr r(1) by (simp add: writeToUDPAddrPortWithInitPconn_def)
      have "\<exists>ts. length ts = length (buf # buffs) \<and> sorted_wrt (<) ts \<and> list_all (\<lambda>t0. t \<le> t0 \<and> t0 < t') ts
         \<and> list_all2 (\<lambda>t0 buf. \<exists>b s0 n. batchPacket addr offset buf = Inr b \<and> io t0 s0 b (ap addr) = (n, None)) ts (buf # buffs) \<and> t \<le> t'"
        if ok: "r = Inr (None, t')" for t'
      proof -
        obtain ts where ts: "length ts = length buffs" "sorted_wrt (<) ts" "list_all (\<lambda>t0. t1 \<le> t0 \<and> t0 < t') ts"
            "list_all2 (\<lambda>t0 buf. \<exists>b s0 n. batchPacket addr offset buf = Inr b \<and> io t0 s0 b (ap addr) = (n, None)) ts buffs" "t1 \<le> t'"
          using r(3) ok by blast
        then show ?thesis using ta Inr by (intro exI [of _ "ta # ts"]) (fastforce simp: list_all_iff)
      qed
      then show ?thesis using run r(2) by blast
    qed
  qed simp
qed simp

text \<open>What the result of a write of a batch says.\<close>

definition batchResult :: "(nat \<Rightarrow> nat) \<Rightarrow> udpIO \<Rightarrow> (nat \<Rightarrow> bool) \<Rightarrow> (nat \<Rightarrow> nat \<Rightarrow> netErr option) \<Rightarrow> u8 list list \<Rightarrow> epAddr \<Rightarrow> int
    \<Rightarrow> netErr option \<Rightarrow> bool" where
  "batchResult cur io isBatch wb buffs addr offset err \<longleftrightarrow> (case err of
     Some e \<Rightarrow> \<exists>t0 s0. s0 \<le> t0 \<and> cur s0 = cur (t0 + 1)
       \<and> ((isBatch (cur s0) \<and> wb t0 (cur s0) = Some e) \<or> (\<exists>b n. io t0 (cur s0) b (ap addr) = (n, Some e)))
   | None \<Rightarrow> (\<exists>t0 s0. isBatch s0 \<and> wb t0 s0 = None)
       \<or> (\<exists>ts. sorted_wrt (<) ts \<and> list_all2 (\<lambda>t0 buf. \<exists>b s0 n. batchPacket addr offset buf = Inr b \<and> io t0 s0 b (ap addr) = (n, None)) ts buffs))"

lemma batch_returns:
  assumes m: "mono cur" and N: "\<And>t. cur t \<le> N"
  shows "\<exists>r. batchLoop cur io isBatch wb buffs addr offset t = Some r
    \<and> (\<forall>err t'. r = Inr (err, t') \<longrightarrow> batchResult cur io isBatch wb buffs addr offset err)"
proof (induction "N - cur t" arbitrary: t rule: less_induct)
  case less
  show ?case
  proof (cases "isBatch (cur t)")
    case False
    obtain r where r: "writePackets cur io (cur t) addr offset buffs (t + 1) = Some r"
      "\<forall>err t'. r = Inr (Some err, t') \<longrightarrow> (\<exists>t0 s0 b n. io t0 (cur s0) b (ap addr) = (n, Some err) \<and> s0 \<le> t0 \<and> cur s0 = cur (t0 + 1))"
      "\<forall>t'. r = Inr (None, t') \<longrightarrow> (\<exists>ts. sorted_wrt (<) ts
         \<and> list_all2 (\<lambda>t0 buf. \<exists>b s0 n. batchPacket addr offset buf = Inr b \<and> io t0 s0 b (ap addr) = (n, None)) ts buffs)"
      using writePackets_return [OF m N, of t "t + 1" io addr offset buffs] by fastforce
    have "batchResult cur io isBatch wb buffs addr offset err" if "r = Inr (err, t')" for err t'
    proof (cases err)
      case None
      then show ?thesis unfolding batchResult_def using r(3) that by simp
    next
      case (Some e)
      with r(2) that obtain t0 s0 b n where "io t0 (cur s0) b (ap addr) = (n, Some e)" "s0 \<le> t0" "cur s0 = cur (t0 + 1)" by blast
      then show ?thesis unfolding batchResult_def Some option.case by blast
    qed
    with r(1) False show ?thesis by (subst batchLoop.simps) auto
  next
    case True
    show ?thesis
    proof (cases "wb (t + 1) (cur t)")
      case None
      then show ?thesis using True by (subst batchLoop.simps) (auto simp: batchResult_def)
    next
      case (Some e)
      show ?thesis
      proof (cases "cur t = cur (t + 2)")
        case same: True
        have "batchResult cur io isBatch wb buffs addr offset (Some e)"
          unfolding batchResult_def option.case by (rule exI [of _ "t + 1"], rule exI [of _ t]) (use Some True same in simp)
        with same Some True show ?thesis by (subst batchLoop.simps) simp
      next
        case False
        have "cur t \<le> cur (t + 2)" "cur (t + 2) \<le> cur (t + 3)" using m by (simp_all add: monoD)
        then have "N - cur (t + 3) < N - cur t" using False N [of "t + 3"] by linarith
        from less.hyps [OF this] show ?thesis using False Some True by (subst batchLoop.simps) simp
      qed
    qed
  qed
qed

text \<open>
  C11. A write returns if the socket is rebound only finitely often while it runs. When it reports
  success, the batch was written in one piece, or every packet of it, in order, by one successful write
  each; when it reports the error of a write, that write was on a socket that was still the current one
  after the failure.
\<close>

theorem rebinding_write_returns:
  assumes m: "mono cur" and N: "\<And>t. cur t \<le> N" and offset: "offset = int GeneveFixedHeaderLength"
  shows "\<exists>r. WriteWireGuardBatchTo cur io isBatch wb buffs addr offset t = Some r
    \<and> (\<forall>err t'. r = Inr (Some err, t') \<longrightarrow> (\<exists>t0 s0. s0 \<le> t0 \<and> cur s0 = cur (t0 + 1)
         \<and> ((isBatch (cur s0) \<and> wb t0 (cur s0) = Some err) \<or> (\<exists>b n. io t0 (cur s0) b (ap addr) = (n, Some err)))))
    \<and> (\<forall>t'. r = Inr (None, t') \<longrightarrow> (\<exists>t0 s0. isBatch s0 \<and> wb t0 s0 = None)
         \<or> (\<exists>ts. sorted_wrt (<) ts \<and> list_all2 (\<lambda>t0 buf. \<exists>b s0 n. batchPacket addr offset buf = Inr b \<and> io t0 s0 b (ap addr) = (n, None)) ts buffs))"
  using batch_returns [OF m N, of io isBatch wb buffs addr offset t] offset
  unfolding WriteWireGuardBatchTo_def batchResult_def by fastforce

section \<open>Binding\<close>

text \<open>A socket that is nil, the dummy that blocks forever, open on a port, or closed.\<close>

datatype udpConn = NilUdp | DummyUdp | OpenUdp u16 | ClosedUdp u16

record rebindingUDPConn =
  ruPconn :: udpConn
  ruPort :: u16

fun localPort :: "udpConn \<Rightarrow> u16" where
  "localPort (OpenUdp p) = p"
| "localPort (ClosedUdp p) = p"
| "localPort _ = 0"

definition setConnLocked :: "udpConn \<Rightarrow> rebindingUDPConn \<Rightarrow> rebindingUDPConn" where
  "setConnLocked p ruc = ruc\<lparr>ruPconn := p, ruPort := localPort p\<rparr>"

definition closeLocked :: "rebindingUDPConn \<Rightarrow> rebindingUDPConn" where
  "closeLocked ruc = (case ruPconn ruc of
     NilUdp \<Rightarrow> ruc
   | OpenUdp p \<Rightarrow> ruc\<lparr>ruPort := 0, ruPconn := ClosedUdp p\<rparr>
   | _ \<Rightarrow> ruc\<lparr>ruPort := 0\<rparr>)"

datatype currentPortFate = keepCurrentPort | dropCurrentPort

text \<open>The ports to try, without adjacent duplicates (\<open>slices.Compact\<close>).\<close>

definition bindPorts :: "u16 \<Rightarrow> currentPortFate \<Rightarrow> rebindingUDPConn \<Rightarrow> u16 list" where
  "bindPorts port fate ruc = remdups_adj ((if port \<noteq> 0 then [port] else [])
     @ (if ruPconn ruc \<noteq> NilUdp \<and> fate = keepCurrentPort then [localPort (ruPconn ruc)] else []) @ [0])"

text \<open>\<open>listen\<close> is \<open>listenPacket\<close> on a port: the port bound, or None for an error. Returns whether it succeeded.\<close>

fun bindLoop :: "(u16 \<Rightarrow> u16 option) \<Rightarrow> u16 list \<Rightarrow> rebindingUDPConn \<Rightarrow> bool \<times> rebindingUDPConn" where
  "bindLoop listen [] ruc = (False, setConnLocked DummyUdp ruc)"
| "bindLoop listen (port # ports) ruc =
     (let ruc1 = closeLocked ruc in
      case listen port of
        None \<Rightarrow> bindLoop listen ports ruc1
      | Some p \<Rightarrow> (True, setConnLocked (OpenUdp p) ruc1))"

definition bindSocket ::
    "bool \<Rightarrow> bool \<Rightarrow> u16 \<Rightarrow> (u16 \<Rightarrow> u16 option) \<Rightarrow> currentPortFate \<Rightarrow> rebindingUDPConn \<Rightarrow> bool \<times> rebindingUDPConn" where
  "bindSocket js alwaysDERP port listen fate ruc =
     (if js \<or> alwaysDERP then (True, setConnLocked DummyUdp ruc)
      else bindLoop listen (bindPorts port fate ruc) ruc)"

lemma bindLoop_first:
  "bindLoop listen ports ruc = (case filter (\<lambda>p. listen p \<noteq> None) ports of
     [] \<Rightarrow> (False, \<lparr>ruPconn = DummyUdp, ruPort = 0\<rparr>)
   | p # _ \<Rightarrow> (True, \<lparr>ruPconn = OpenUdp (the (listen p)), ruPort = the (listen p)\<rparr>))"
  by (induction ports arbitrary: ruc) (auto simp: setConnLocked_def Let_def split: option.split)

text \<open>
  A rebind tries every port at most once: the configured one, then the one in use if it is to be
  kept, then any. The socket ends up on the first that can be bound, and on the dummy only when not
  even port 0 could be bound, which is then reported; its recorded port is always the one it is
  bound to.
\<close>

theorem bind_socket_exact:
  shows "distinct (bindPorts port fate ruc) \<and> last (bindPorts port fate ruc) = 0
    \<and> set (bindPorts port fate ruc) = {port, 0} \<union> (if ruPconn ruc \<noteq> NilUdp \<and> fate = keepCurrentPort then {localPort (ruPconn ruc)} else {})
    \<and> bindSocket False False port listen fate ruc = (case filter (\<lambda>p. listen p \<noteq> None) (bindPorts port fate ruc) of
         [] \<Rightarrow> (False, \<lparr>ruPconn = DummyUdp, ruPort = 0\<rparr>)
       | p # _ \<Rightarrow> (True, \<lparr>ruPconn = OpenUdp (the (listen p)), ruPort = the (listen p)\<rparr>))"
  by (auto simp: bindPorts_def bindSocket_def bindLoop_first)

theorem rebinding_write_returns_witness:
  "mono (\<lambda>t. if t < 2 then 0 else (1::nat))
   \<and> (\<exists>r. WriteWireGuardBatchTo (\<lambda>t. if t < 2 then 0 else 1) (\<lambda>t s b a. if s = 0 then (0, Some ClosedErr) else (int (length b), None))
        (\<lambda>s. s = 1) (\<lambda>t s. Some ClosedErr) [[0, 0, 0, 0, 0, 0, 0, 0, 7]] zeroEpAddr 8 0 = Some r)"
proof -
  have m: "mono (\<lambda>t. if t < 2 then 0 else (1::nat))" by (rule monoI) auto
  have o: "(8::int) = int GeneveFixedHeaderLength" by (simp add: GeneveFixedHeaderLength_def)
  have "(if t < 2 then 0 else 1) \<le> (1::nat)" for t :: nat by simp
  from rebinding_write_returns [OF m this o] m show ?thesis by blast
qed

end
