(* ===== verification/Conn_Send.thy ===== *)
theory Conn_Send
  imports Conn_Derp Rebinding_Conn Srcsel_Rank
begin

text \<open>
  Sending (\<open>src/wgengine/magicsock/magicsock.go\<close> and \<open>endpoint.go\<close>): the writes to the primary and the
  auxiliary sockets, redundant sending over two sources, two paths or two addresses, sending over DERP,
  the rebind after an error, and \<open>endpoint.send\<close>, which composes them.
\<close>

section \<open>The environment and the state\<close>

text \<open>\<open>snWrite n\<close> is what the \<open>n\<close>-th write to a socket answers, \<open>snNow n i\<close> and \<open>snWall n i\<close> are readings of
  the clocks after \<open>n\<close> writes; the other fields answer the calls of \<open>Rebind\<close>, of the DERP queues and the
  random choices.\<close>

record sendEnv =
  snSrc :: srcEnv
  snWire :: wireEnv
  snOS :: goos
  snOnlyTCP443 :: bool
  snAlwaysDERP :: bool
  snPort :: u16
  snListen :: "bool \<Rightarrow> u16 \<Rightarrow> u16 option"
  snAuxListen :: "bool \<Rightarrow> nat \<Rightarrow> string option"
  snIfIPs :: "(addr \<times> int) list"
  snLocalAddr :: "derpClient \<Rightarrow> addr option"
  snWrite :: "nat \<Rightarrow> netErr option"
  snNow :: "nat \<Rightarrow> nat \<Rightarrow> mono"
  snWall :: "nat \<Rightarrow> nat \<Rightarrow> walltime"
  snPick :: nat
  snTxID :: "nat \<Rightarrow> txID"
  snOthers :: "nat \<Rightarrow> derpWriteRequest list \<Rightarrow> derpWriteRequest list"
  snDonec :: "nat \<Rightarrow> bool"

datatype udpSocket = PconnV4 | PconnV6 | AuxSocket sourceRxMeta

record socketWrite =
  swSocket :: udpSocket
  swAddr :: epAddr
  swBuffs :: "u8 list list"
  swResult :: "netErr option"

record tx =
  txWire :: wire
  txV4 :: rebindingUDPConn
  txV6 :: rebindingUDPConn
  txLastErrRebind :: walltime
  txLog :: "socketWrite list"
  txActs :: "connAction list"
  txDerpActs :: "derpAction list"

type_synonym 'a sending = "tx \<Rightarrow> panic + 'a \<times> tx"

definition sret :: "'a \<Rightarrow> 'a sending" where
  "sret x t = Inr (x, t)"

definition sbind :: "'a sending \<Rightarrow> ('a \<Rightarrow> 'b sending) \<Rightarrow> 'b sending" where
  "sbind m f t = (case m t of Inl p \<Rightarrow> Inl p | Inr (x, t1) \<Rightarrow> f x t1)"

definition txConn :: "tx \<Rightarrow> conn" where
  "txConn t = wiConn (txWire t)"

definition setConn :: "conn \<Rightarrow> tx \<Rightarrow> tx" where
  "setConn c t = t\<lparr>txWire := (txWire t)\<lparr>wiConn := c\<rparr>\<rparr>"

text \<open>A method of the connection that returns a value, may panic or acts on one endpoint.\<close>

definition liftConn :: "(conn \<Rightarrow> 'a \<times> conn) \<Rightarrow> 'a sending" where
  "liftConn f t = (case f (txConn t) of (x, c) \<Rightarrow> Inr (x, setConn c t))"

definition liftPanic :: "(conn \<Rightarrow> panic + 'a \<times> conn) \<Rightarrow> 'a sending" where
  "liftPanic f t = (case f (txConn t) of Inl p \<Rightarrow> Inl p | Inr (x, c) \<Rightarrow> Inr (x, setConn c t))"

definition liftEndpoint :: "epRef \<Rightarrow> (endpoint \<Rightarrow> ('a \<times> endpoint) step) \<Rightarrow> 'a sending" where
  "liftEndpoint r f t = (case f (coEps (txConn t) ! r) of ((x, de), acts) \<Rightarrow>
     Inr (x, (setConn ((txConn t)\<lparr>coEps := (coEps (txConn t))[r := de]\<rparr>) t)\<lparr>txActs := txActs t @ map (EpAct r) acts\<rparr>))"

definition onEp :: "epRef \<Rightarrow> (endpoint \<Rightarrow> endpoint) \<Rightarrow> unit sending" where
  "onEp r f = liftEndpoint r (\<lambda>de. (((), f de), []))"

definition monoNow :: "sendEnv \<Rightarrow> nat \<Rightarrow> tx \<Rightarrow> mono" where
  "monoNow e i t = snNow e (length (txLog t)) i"

definition wallNow :: "sendEnv \<Rightarrow> nat \<Rightarrow> tx \<Rightarrow> walltime" where
  "wallNow e i t = snWall e (length (txLog t)) i"

section \<open>Rebinding\<close>

definition rebind :: "sendEnv \<Rightarrow> currentPortFate \<Rightarrow> tx \<Rightarrow> bool \<times> tx" where
  "rebind e fate t =
     (let js = (snOS e = Js);
          (_, v6) = bindSocket js (snAlwaysDERP e) (snPort e) (snListen e False) fate (txV6 t);
          (ok4, v4) = bindSocket js (snAlwaysDERP e) (snPort e) (snListen e True) fate (txV4 t);
          t1 = t\<lparr>txV6 := v6, txV4 := v4\<rparr>
      in if \<not> ok4 then (False, t1)
         else case rebindSourcePathSockets (seKnobs (snSrc e)) (snAuxListen e) (coSourcePath (txConn t1)) (coSourceProbes (txConn t1)) of
           (_, sp, pm) \<Rightarrow> (True, setConn ((txConn t1)\<lparr>coSourcePath := sp, coSourceProbes := pm\<rparr>) t1))"

definition Rebind :: "sendEnv \<Rightarrow> tx \<Rightarrow> tx" where
  "Rebind e t =
     (case rebind e keepCurrentPort t of
        (False, t1) \<Rightarrow> t1
      | (True, t1) \<Rightarrow>
          let (w, acts) = (if snIfIPs e \<noteq> [] then maybeCloseDERPsOnRebind (snLocalAddr e) (snIfIPs e) (txWire t1) else (txWire t1, []));
              (c, eacts) = resetEndpointStates (wiConn w)
          in t1\<lparr>txWire := w\<lparr>wiConn := c\<rparr>, txDerpActs := txDerpActs t1 @ acts, txActs := txActs t1 @ eacts\<rparr>)"

definition maybeRebindOnError :: "sendEnv \<Rightarrow> netErr \<Rightarrow> unit sending" where
  "maybeRebindOnError e err t =
     (case shouldRebind (snOS e) err of
        None \<Rightarrow> Inr ((), t)
      | Some reason \<Rightarrow>
          if txLastErrRebind t < wallNow e 0 t - 5 * second
          then Inr ((), let t1 = Rebind e (t\<lparr>txLastErrRebind := wallNow e 1 t\<rparr>) in t1\<lparr>txDerpActs := txDerpActs t1 @ [GoReSTUN reason]\<rparr>)
          else Inr ((), t))"

section \<open>Batches over UDP\<close>

text \<open>\<open>RebindingUDPConn.WriteWireGuardBatchTo\<close>, whose offset check fails before anything is written.\<close>

definition writeBatch :: "sendEnv \<Rightarrow> udpSocket \<Rightarrow> epAddr \<Rightarrow> u8 list list \<Rightarrow> int \<Rightarrow> netErr option sending" where
  "writeBatch e s addr buffs offset t =
     (if offset \<noteq> int GeneveFixedHeaderLength then Inr (Some (PlainErr errOffset), t)
      else let r = snWrite e (length (txLog t))
           in Inr (r, t\<lparr>txLog := txLog t @ [\<lparr>swSocket = s, swAddr = addr, swBuffs = buffs, swResult = r\<rparr>]\<rparr>))"

text \<open>\<open>errors.AsType[ErrUDPGSODisabled]\<close>.\<close>

definition asGSODisabled :: "netErr \<Rightarrow> netErr option option" where
  "asGSODisabled err = (case err of GSODisabled retryErr \<Rightarrow> Some retryErr | _ \<Rightarrow> None)"

definition sendUDPBatch :: "sendEnv \<Rightarrow> epAddr \<Rightarrow> u8 list list \<Rightarrow> int \<Rightarrow> (bool \<times> netErr option) sending" where
  "sendUDPBatch e addr buffs offset =
     (if is4 (apAddr (ap addr)) \<or> is6 (apAddr (ap addr))
      then sbind (writeBatch e (if is4 (apAddr (ap addr)) then PconnV4 else PconnV6) addr buffs offset) (\<lambda>err. case err of
             None \<Rightarrow> sret (True, None)
           | Some x \<Rightarrow> (case asGSODisabled x of
               Some retryErr \<Rightarrow> sret (retryErr = None, retryErr)
             | None \<Rightarrow> sbind (maybeRebindOnError e x) (\<lambda>_. sret (False, Some x))))
      else (\<lambda>t. Inl (ExplicitPanic ''bogus sendUDPBatch addr type'')))"

definition unavailable :: netErr where
  "unavailable = PlainErr errSourcePathUnavailable"

text \<open>\<open>sourcePathWriteWireGuardBatchTo\<close> finds the socket among the ones bound now.\<close>

definition writeAux :: "sendEnv \<Rightarrow> sourceRxMeta \<Rightarrow> epAddr \<Rightarrow> u8 list list \<Rightarrow> int \<Rightarrow> netErr option sending" where
  "writeAux e source addr buffs offset t =
     sourcePathWriteWireGuardBatchTo source addr (\<lambda>sock. writeBatch e (AuxSocket (rxMeta sock)) addr buffs offset) (sret (Some unavailable))
       (coSourcePath (txConn t)) t"

definition sendUDPBatchFromSource ::
    "sendEnv \<Rightarrow> sourceRxMeta \<Rightarrow> epAddr \<Rightarrow> u8 list list \<Rightarrow> int \<Rightarrow> (bool \<times> netErr option) sending" where
  "sendUDPBatchFromSource e source addr buffs offset =
     (if isPrimary source then sendUDPBatch e addr buffs offset
      else if \<not> isDirect addr then sret (False, Some unavailable)
      else sbind (writeAux e source addr buffs offset) (\<lambda>err. case err of
             None \<Rightarrow> sret (True, None)
           | Some x \<Rightarrow> (case asGSODisabled x of
               Some retryErr \<Rightarrow> sret (retryErr = None, retryErr)
             | None \<Rightarrow> sret (False, Some x))))"

record dualSendResult =
  dsrErr :: "netErr option"
  dsrPrimaryErr :: "netErr option"
  dsrSecondErr :: "netErr option"

definition noteAux :: "sendEnv \<Rightarrow> epAddr \<Rightarrow> sourceRxMeta \<Rightarrow> netErr option \<Rightarrow> unit sending" where
  "noteAux e dst source err t = (case err of
     Some _ \<Rightarrow> liftConn (\<lambda>c. ((), noteSourcePathDualSendAuxFailure (snSrc e) dst source (monoNow e 1 t) True c)) t
   | None \<Rightarrow> liftConn (\<lambda>c. ((), noteSourcePathDualSendAuxSuccess dst source c)) t)"

definition notePrimary :: "sendEnv \<Rightarrow> epAddr \<Rightarrow> netErr option \<Rightarrow> unit sending" where
  "notePrimary e dst err t = (case err of
     Some _ \<Rightarrow> liftPanic (\<lambda>c. map_sum id (\<lambda>(_, c'). ((), c')) (noteSourcePathPrimarySendFailure (snSrc e) dst (monoNow e 0 t) c)) t
   | None \<Rightarrow> liftPanic (\<lambda>c. map_sum id (\<lambda>c'. ((), c')) (noteSourcePathPrimarySendSuccess (snSrc e) dst c)) t)"

definition sendUDPBatchDualSource :: "sendEnv \<Rightarrow> sourceRxMeta \<Rightarrow> epAddr \<Rightarrow> u8 list list \<Rightarrow> int \<Rightarrow> dualSendResult sending" where
  "sendUDPBatchDualSource e aux addr buffs offset =
     sbind (sendUDPBatch e addr buffs offset) (\<lambda>(_, primaryErr).
     sbind (sendUDPBatchFromSource e aux addr buffs offset) (\<lambda>(_, auxErr).
     sbind (notePrimary e addr primaryErr) (\<lambda>_.
     sbind (noteAux e addr aux auxErr) (\<lambda>_.
     sret \<lparr>dsrErr = (if primaryErr \<noteq> None \<and> auxErr \<noteq> None then primaryErr else None), dsrPrimaryErr = primaryErr, dsrSecondErr = auxErr\<rparr>))))"

text \<open>One turn of the loop over the two paths, then the loop; returns the errors in order.\<close>

definition sendPath :: "sendEnv \<Rightarrow> u8 list list \<Rightarrow> int \<Rightarrow> sourcePathSendPath \<Rightarrow> (bool \<times> netErr option) sending" where
  "sendPath e buffs offset path =
     sbind (sendUDPBatchFromSource e (pSource path) (pDst path) buffs offset) (\<lambda>(sent, err).
     sbind (if isPrimary (pSource path) then notePrimary e (pDst path) err else noteAux e (pDst path) (pSource path) err) (\<lambda>_.
     sret (sent, err)))"

fun sendPaths :: "sendEnv \<Rightarrow> u8 list list \<Rightarrow> int \<Rightarrow> sourcePathSendPath list \<Rightarrow> (bool \<times> netErr option) list sending" where
  "sendPaths e buffs offset [] = sret []"
| "sendPaths e buffs offset (p # ps) =
     sbind (sendPath e buffs offset p) (\<lambda>r. sbind (sendPaths e buffs offset ps) (\<lambda>rs. sret (r # rs)))"

definition sendUDPBatchDualSourcePath ::
    "sendEnv \<Rightarrow> sourcePathSendPath list \<Rightarrow> u8 list list \<Rightarrow> int \<Rightarrow> (netErr option \<times> netErr option list) sending" where
  "sendUDPBatchDualSourcePath e paths buffs offset = (case paths of
     [] \<Rightarrow> sret (None, [])
   | [p] \<Rightarrow> sbind (sendUDPBatchFromSource e (pSource p) (pDst p) buffs offset) (\<lambda>(_, err). sret (err, [err]))
   | _ \<Rightarrow> sbind (sendPaths e buffs offset (take 2 paths)) (\<lambda>rs.
            sret (if \<not> list_ex fst rs then snd (rs ! 0) else None, map snd rs)))"

definition sendUDPBatchDualEndpoint :: "sendEnv \<Rightarrow> epAddr list \<Rightarrow> u8 list list \<Rightarrow> int \<Rightarrow> dualSendResult sending" where
  "sendUDPBatchDualEndpoint e addrs buffs offset = (case addrs of
     [] \<Rightarrow> sret \<lparr>dsrErr = None, dsrPrimaryErr = None, dsrSecondErr = None\<rparr>
   | [a] \<Rightarrow> sbind (sendUDPBatch e a buffs offset) (\<lambda>(_, err). sret \<lparr>dsrErr = err, dsrPrimaryErr = err, dsrSecondErr = None\<rparr>)
   | a # b # _ \<Rightarrow>
       sbind (sendUDPBatch e a buffs offset) (\<lambda>(_, primaryErr).
       sbind (sendUDPBatch e b buffs offset) (\<lambda>(_, secondaryErr).
       sret \<lparr>dsrErr = (if primaryErr \<noteq> None \<and> secondaryErr \<noteq> None then primaryErr else None),
             dsrPrimaryErr = primaryErr, dsrSecondErr = secondaryErr\<rparr>)))"

section \<open>Single packets\<close>

definition writePacket :: "sendEnv \<Rightarrow> udpSocket \<Rightarrow> addrPort \<Rightarrow> u8 list \<Rightarrow> netErr option sending" where
  "writePacket e s a b t =
     (let r = snWrite e (length (txLog t))
      in Inr (r, t\<lparr>txLog := txLog t @ [\<lparr>swSocket = s, swAddr = zeroEpAddr\<lparr>ap := a\<rparr>, swBuffs = [b], swResult = r\<rparr>]\<rparr>))"

text \<open>What is made of the error of a write: a lost packet on a family without connectivity is no error.\<close>

definition lostUDP :: "sendEnv \<Rightarrow> bool \<Rightarrow> netErr option \<Rightarrow> bool" where
  "lostUDP e v4 err \<longleftrightarrow> err \<noteq> None
     \<and> ((if v4 then cvNoV4 (seView (snSrc e)) else cvNoV6 (seView (snSrc e))) \<or> TreatAsLostUDP (snOS e) err)"

definition sendUDPStd :: "sendEnv \<Rightarrow> addrPort \<Rightarrow> u8 list \<Rightarrow> (bool \<times> netErr option) sending" where
  "sendUDPStd e a b =
     (if snOnlyTCP443 e then sret (False, None)
      else if is4 (apAddr a)
      then sbind (writePacket e PconnV4 a b) (\<lambda>err. sret (if lostUDP e True err then (False, None) else (err = None, err)))
      else if is6 (apAddr a)
      then sbind (writePacket e PconnV6 a b) (\<lambda>err. sret (if lostUDP e False err then (False, None) else (err = None, err)))
      else (\<lambda>t. Inl (ExplicitPanic ''bogus sendUDPStd addr type'')))"

definition errNoUDP :: netErr where
  "errNoUDP = PlainErr ''no UDP available on platform''"

definition sendUDP :: "sendEnv \<Rightarrow> addrPort \<Rightarrow> u8 list \<Rightarrow> (bool \<times> netErr option) sending" where
  "sendUDP e a b =
     (if snOS e = Js then sret (False, Some errNoUDP)
      else sbind (sendUDPStd e a b) (\<lambda>(sent, err). case err of
             None \<Rightarrow> sret (sent, None)
           | Some x \<Rightarrow> sbind (maybeRebindOnError e x) (\<lambda>_. sret (sent, Some x))))"

definition writeAuxPacket :: "sendEnv \<Rightarrow> sourceRxMeta \<Rightarrow> addrPort \<Rightarrow> u8 list \<Rightarrow> netErr option sending" where
  "writeAuxPacket e source a b t =
     sourcePathWriteTo source a (\<lambda>sock. writePacket e (AuxSocket (rxMeta sock)) a b) (sret (Some unavailable)) (coSourcePath (txConn t)) t"

definition sendUDPStdFromSource :: "sendEnv \<Rightarrow> sourceRxMeta \<Rightarrow> addrPort \<Rightarrow> u8 list \<Rightarrow> (bool \<times> netErr option) sending" where
  "sendUDPStdFromSource e source a b =
     (if isPrimary source then sendUDPStd e a b
      else if snOnlyTCP443 e then sret (False, None)
      else sbind (writeAuxPacket e source a b) (\<lambda>err.
             sret (if (is4 (apAddr a) \<and> lostUDP e True err) \<or> (is6 (apAddr a) \<and> lostUDP e False err) then (False, None) else (err = None, err))))"

definition sendUDPFromSource :: "sendEnv \<Rightarrow> sourceRxMeta \<Rightarrow> addrPort \<Rightarrow> u8 list \<Rightarrow> bool \<Rightarrow> (bool \<times> netErr option) sending" where
  "sendUDPFromSource e source a b isGeneveEncap =
     (if isPrimary source then sendUDP e a b
      else if snOS e = Js then sret (False, Some errNoUDP)
      else if isGeneveEncap then sret (False, Some unavailable)
      else sendUDPStdFromSource e source a b)"

definition sendAddr :: "sendEnv \<Rightarrow> addrPort \<Rightarrow> nodeKey \<Rightarrow> u8 list \<Rightarrow> bool \<Rightarrow> (bool \<times> netErr option) sending" where
  "sendAddr e a pubKey b isDisco =
     (if apAddr a \<noteq> derpMagicIPAddr then sendUDP e a b
      else (\<lambda>t. case sendDerp (snWire e) (wallNow e 0 t) (snOthers e) (snDonec e) a pubKey b isDisco (txWire t) of
              (((sent, err), w), acts) \<Rightarrow>
                Inr ((sent, map_option PlainErr err), t\<lparr>txWire := w, txDerpActs := txDerpActs t @ acts\<rparr>)))"

definition sendAddrFromSource :: "sendEnv \<Rightarrow> sourceRxMeta \<Rightarrow> addrPort \<Rightarrow> nodeKey \<Rightarrow> u8 list \<Rightarrow> bool \<Rightarrow> bool \<Rightarrow> (bool \<times> netErr option) sending" where
  "sendAddrFromSource e source a pubKey b isDisco isGeneveEncap =
     (if isPrimary source \<or> apAddr a = derpMagicIPAddr then sendAddr e a pubKey b isDisco
      else sendUDPFromSource e source a b isGeneveEncap)"

section \<open>endpoint.send\<close>

text \<open>\<open>binary.LittleEndian.Uint32\<close>.\<close>

definition leUint32 :: "u8 list \<Rightarrow> u32" where
  "leUint32 b = ucast (b ! 0) OR push_bit 8 (ucast (b ! 1)) OR push_bit 16 (ucast (b ! 2)) OR push_bit 24 (ucast (b ! 3))"

definition wireGuardBatchIsTransport :: "u32 \<Rightarrow> u8 list list \<Rightarrow> int \<Rightarrow> bool" where
  "wireGuardBatchIsTransport transportType buffs offset =
     (if buffs = [] \<or> offset < 0 \<or> int (length (buffs ! 0)) - offset < 4 then False
      else leUint32 (drop (nat offset) (buffs ! 0)) = transportType)"

text \<open>What the first critical section decides.\<close>

record sendPlan =
  plDualEndpointAddrs :: "epAddr list"
  plObservedEndpointAddrs :: "epAddr list"
  plDstCandidates :: "sourcePathDstCandidate list"
  plUdpAddr :: epAddr
  plDerpAddr :: addrPort

definition pingAndDiscover :: "sendEnv \<Rightarrow> mono \<Rightarrow> mono \<Rightarrow> walltime \<Rightarrow> endpoint \<Rightarrow> endpoint step" where
  "pingAndDiscover e now now2 wnow de =
     (let cv = seView (snSrc e) in
      andThen (sendDiscoPingsLocked cv (snTxID e) now wnow True de) (\<lambda>de1.
        if wantUDPRelayPathDiscoveryLocked cv now de1 then discoverUDPRelayPathsLocked now now2 de1 else (de1, [])))"

definition chooseAddrs :: "sendEnv \<Rightarrow> bool \<Rightarrow> mono \<Rightarrow> walltime \<Rightarrow> endpoint \<Rightarrow> (sendPlan \<times> bool) \<times> endpoint" where
  "chooseAddrs e transport now wnow de =
     (let knobs = seKnobs (snSrc e);
          plan = (\<lambda>u d. \<lparr>plDualEndpointAddrs = [], plObservedEndpointAddrs = [], plDstCandidates = [], plUdpAddr = u, plDerpAddr = d\<rparr>)
      in if transport \<and> sourcePathDualEndpointStrategyEnabled knobs
         then (case dualEndpointAddrsForSendLocked now wnow de of
           ((addrs, start), de1) \<Rightarrow>
             if addrs \<noteq> [] then (((plan (addrs ! 0) zeroAddrPort)\<lparr>plDualEndpointAddrs := addrs\<rparr>, start), de1)
             else (case addrForSendLocked (snPick e) now de1 of ((u, d, start'), de2) \<Rightarrow> ((plan u d, start'), de2)))
         else (case addrForSendLocked (snPick e) now de of
           ((u, d, start), de1) \<Rightarrow>
             ((if transport \<and> sourcePathDualSendEnabled knobs
               then (plan u d)\<lparr>plDstCandidates := sourcePathDualSendDstCandidatesLocked now wnow u de1,
                               plObservedEndpointAddrs := dualSendObservedEndpointAddrsForSendLocked now wnow u de1\<rparr>
               else plan u d, start), de1)))"

definition planSend :: "sendEnv \<Rightarrow> bool \<Rightarrow> mono \<Rightarrow> mono \<Rightarrow> walltime \<Rightarrow> endpoint \<Rightarrow> (sendPlan \<times> endpoint) step" where
  "planSend e transport now now2 wnow de =
     (case chooseAddrs e transport now wnow de of ((pl, startWGPing), de1) \<Rightarrow>
      case (if deIsWireguardOnly de1
            then if startWGPing then sendWireGuardOnlyPingsLocked (seView (snSrc e)) now de1 else (de1, [])
            else if transport \<and> sourcePathDualEndpointStrategyEnabled (seKnobs (snSrc e))
            then if startWGPing then pingAndDiscover e now now2 wnow de1 else (de1, [])
            else if \<not> isDirect (plUdpAddr pl) \<or> mafter now (deTrustBestAddrUntil de1) then pingAndDiscover e now now2 wnow de1
            else (de1, [])) of
        (de2, acts) \<Rightarrow> ((pl, (noteTxActivityExtTriggerLocked now de2)\<lparr>deLastSendAny := now\<rparr>), acts))"

text \<open>The paths for redundant sending: the ranking, and under the lock of the endpoint the active pair.\<close>

definition choosePaths :: "sendEnv \<Rightarrow> epRef \<Rightarrow> mono \<Rightarrow> sendPlan \<Rightarrow> (sendPlan \<times> sourcePathSendPath list) sending" where
  "choosePaths e r now pl =
     (if sourcePathDualSendEnabled (seKnobs (snSrc e)) \<and> plDstCandidates pl \<noteq> []
      then sbind (liftConn (sourcePathRankedDualSendPaths (snSrc e) (plDstCandidates pl) now)) (\<lambda>ranked.
           sbind (if length ranked \<ge> 2
                  then liftEndpoint r (\<lambda>de. case sourcePathApplyActivePathPolicyLocked now ranked (deActive de) of
                         (paths, _, active) \<Rightarrow> ((paths, de\<lparr>deActive := active\<rparr>), []))
                  else sret []) (\<lambda>paths.
           sret (if length paths \<ge> 2 then (pl\<lparr>plUdpAddr := pDst (paths ! 0), plDerpAddr := zeroAddrPort\<rparr>, paths)
                 else if plObservedEndpointAddrs pl \<noteq> [] then (pl\<lparr>plDualEndpointAddrs := plObservedEndpointAddrs pl\<rparr>, paths)
                 else (pl, paths))))
      else sret (pl, []))"

text \<open>The reactions to the errors of the copies.\<close>

definition noteBad :: "epRef \<Rightarrow> epAddr \<Rightarrow> netErr option \<Rightarrow> unit sending" where
  "noteBad r addr err = (case err of
     Some x \<Rightarrow> if isBadEndpointErr x then onEp r (noteBadEndpoint addr) else sret ()
   | None \<Rightarrow> sret ())"

definition noteObserved :: "epRef \<Rightarrow> epAddr \<Rightarrow> netErr option \<Rightarrow> unit sending" where
  "noteObserved r addr err = (case err of
     Some x \<Rightarrow> sbind (onEp r (noteSourcePathObservedEndpointFailure addr)) (\<lambda>_. noteBad r addr err)
   | None \<Rightarrow> sret ())"

fun noteBads :: "epRef \<Rightarrow> (epAddr \<times> netErr option) list \<Rightarrow> unit sending" where
  "noteBads r [] = sret ()"
| "noteBads r ((a, err) # xs) = sbind (noteBad r a err) (\<lambda>_. noteBads r xs)"

text \<open>The branch of one source chosen for the batch.\<close>

definition sendSingleSource :: "sendEnv \<Rightarrow> epRef \<Rightarrow> epAddr \<Rightarrow> mono \<Rightarrow> u8 list list \<Rightarrow> int \<Rightarrow> netErr option sending" where
  "sendSingleSource e r addr now buffs offset =
     sbind (\<lambda>t. liftConn (sourcePathDataSendSourceForBatch (snSrc e) addr buffs offset (monoNow e 2 t) (monoNow e 3 t)) t) (\<lambda>source.
     sbind (sendUDPBatchFromSource e source addr buffs offset) (\<lambda>(_, err).
     sbind (if err \<noteq> None \<and> \<not> isPrimary source
            then sbind (liftConn (\<lambda>c. ((), noteSourcePathSendFailure addr source c))) (\<lambda>_.
                 sbind (sendUDPBatch e addr buffs offset) (\<lambda>(_, err2). sret (err2, True)))
            else if \<not> isPrimary source then sret (err, False)
            else if err \<noteq> None
            then sbind (liftPanic (noteSourcePathPrimarySendFailure (snSrc e) addr now)) (\<lambda>backup. case backup of
                   None \<Rightarrow> sret (err, True)
                 | Some aux \<Rightarrow> sbind (sendUDPBatchFromSource e aux addr buffs offset) (\<lambda>(_, auxErr).
                     if auxErr = None then sret (None, False)
                     else sbind (liftConn (\<lambda>c. ((), noteSourcePathSendFailure addr aux c))) (\<lambda>_. sret (err, True))))
            else sbind (liftPanic (\<lambda>c. map_sum id (\<lambda>c'. ((), c')) (noteSourcePathPrimarySendSuccess (snSrc e) addr c))) (\<lambda>_. sret (err, True)))
       (\<lambda>(err', usedPrimarySend).
     sbind (if usedPrimarySend then noteBad r addr err' else sret ()) (\<lambda>_. sret err'))))"

text \<open>Why a batch that could have been sent twice is sent once; empty when it could not.\<close>

definition singleReason :: "sendEnv \<Rightarrow> epAddr \<Rightarrow> string \<Rightarrow> string" where
  "singleReason e addr why = (if sourcePathDualSendEnabled (seKnobs (snSrc e)) \<and> isDirect addr then why else [])"

text \<open>The branches for a UDP address; returns the error, the mode of a redundant send and the reason of a
  single one.\<close>

definition sendToUDP :: "sendEnv \<Rightarrow> epRef \<Rightarrow> bool \<Rightarrow> epAddr \<Rightarrow> mono \<Rightarrow> u8 list list \<Rightarrow> int \<Rightarrow> (netErr option \<times> string \<times> string) sending" where
  "sendToUDP e r transport addr now buffs offset =
     sbind (liftConn (sourcePathActiveBackupCandidate (snSrc e) addr now)) (\<lambda>backup. case (if transport then backup else None) of
       Some source \<Rightarrow>
         sbind (sendUDPBatchFromSource e source addr buffs offset) (\<lambda>(_, err).
         sbind (if err \<noteq> None then liftConn (\<lambda>c. ((), noteSourcePathSendFailure addr source c)) else sret ()) (\<lambda>_.
         sret (err, [], singleReason e addr ''active-backup'')))
     | None \<Rightarrow>
         sbind (\<lambda>t. liftConn (sourcePathDualSendCandidate (snSrc e) addr (monoNow e 4 t)) t) (\<lambda>cand. case (if transport then cand else None) of
           Some aux \<Rightarrow>
             sbind (sendUDPBatchDualSource e aux addr buffs offset) (\<lambda>res.
             sbind (if dsrPrimaryErr res \<noteq> None \<and> dsrSecondErr res \<noteq> None then noteBad r addr (dsrPrimaryErr res) else sret ()) (\<lambda>_.
             sret (dsrErr res, ''aux-source'', [])))
         | None \<Rightarrow>
             if transport \<and> sourcePathSingleSourceStrategyEnabled (seKnobs (snSrc e))
             then sbind (sendSingleSource e r addr now buffs offset) (\<lambda>err. sret (err, [], singleReason e addr ''single-source-strategy''))
             else
               sbind (sendUDPBatch e addr buffs offset) (\<lambda>(_, err).
               sbind (if err = None then liftPanic (\<lambda>c. map_sum id (\<lambda>c'. ((), c')) (noteSourcePathPrimarySendSuccess (snSrc e) addr c))
                      else noteBad r addr err) (\<lambda>_.
               sret (err, [], singleReason e addr ''no-redundant-path'')))))"

text \<open>\<open>txBytes\<close> slices every buffer at the offset.\<close>

definition sliceable :: "int \<Rightarrow> u8 list list \<Rightarrow> bool" where
  "sliceable offset buffs \<longleftrightarrow> list_all (\<lambda>b. 0 \<le> offset \<and> offset \<le> int (length b)) buffs"

fun sendAllDerp :: "sendEnv \<Rightarrow> addrPort \<Rightarrow> nodeKey \<Rightarrow> int \<Rightarrow> u8 list list \<Rightarrow> bool sending" where
  "sendAllDerp e a pk offset [] = sret True"
| "sendAllDerp e a pk offset (b # bs) =
     (if \<not> (0 \<le> offset \<and> offset \<le> int (length b)) then (\<lambda>t. Inl SliceOutOfRange)
      else sbind (sendAddr e a pk (drop (nat offset) b) False) (\<lambda>(ok, _).
           sbind (sendAllDerp e a pk offset bs) (\<lambda>allOk. sret (ok \<and> allOk))))"

text \<open>The part between choosing the addresses and DERP.\<close>

definition sendData ::
    "sendEnv \<Rightarrow> epRef \<Rightarrow> bool \<Rightarrow> sendPlan \<Rightarrow> sourcePathSendPath list \<Rightarrow> mono \<Rightarrow> u8 list list \<Rightarrow> int \<Rightarrow> (netErr option \<times> string \<times> string) sending" where
  "sendData e r transport pl paths now buffs offset =
     (if length paths \<ge> 2
      then sbind (sendUDPBatchDualSourcePath e paths buffs offset) (\<lambda>(err, errs).
           sbind (noteBads r (zip (map pDst paths) errs)) (\<lambda>_. sret (err, ''path-pool'', [])))
      else case plDualEndpointAddrs pl of
        a # as \<Rightarrow>
          sbind (sendUDPBatchDualEndpoint e (a # as) buffs offset) (\<lambda>res.
          sbind (noteObserved r a (dsrPrimaryErr res)) (\<lambda>_.
          sbind (case as of [] \<Rightarrow> sret () | b # _ \<Rightarrow> noteObserved r b (dsrSecondErr res)) (\<lambda>_.
          sret (dsrErr res, ''observed-endpoint-fanout'', []))))
      | [] \<Rightarrow>
          if apIsValid (ap (plUdpAddr pl))
          then sbind (sendToUDP e r transport (plUdpAddr pl) now buffs offset) (\<lambda>res.
               if sliceable offset buffs then sret res else (\<lambda>t. Inl SliceOutOfRange))
          else sret (None, [], []))"

definition send :: "sendEnv \<Rightarrow> epRef \<Rightarrow> u8 list list \<Rightarrow> int \<Rightarrow> netErr option sending" where
  "send e r buffs offset t0 =
     (let de = coEps (txConn t0) ! r in
      if deExpired de then Inr (Some (PlainErr errExpired), t0)
      else
        let now = monoNow e 0 t0; transport = wireGuardBatchIsTransport (seTransportType (snSrc e)) buffs offset
        in sbind (liftEndpoint r (planSend e transport now (monoNow e 1 t0) (wallNow e 0 t0))) (\<lambda>pl0.
           sbind (choosePaths e r now pl0) (\<lambda>(pl, paths) t1.
             let lost = \<not> apIsValid (ap (plUdpAddr pl)) \<and> \<not> apIsValid (plDerpAddr pl);
                 rid = fallbackDERPRegionForPeer (dePublicKey de) (txWire t1);
                 derpAddr = (if lost then \<lparr>apAddr = derpMagicIPAddr, apPort = word_of_int rid\<rparr> else plDerpAddr pl)
             in if lost \<and> rid = 0 then Inr (Some (PlainErr errNoUDPOrDERP), t1)
                else
                  sbind (sendData e r transport pl paths now buffs offset) (\<lambda>(err, mode, reason).
                  sbind (onEp r (noteSourcePathDualSendAvailability now mode reason (int (length buffs)))) (\<lambda>_.
                  if apIsValid derpAddr
                  then sbind (sendAllDerp e derpAddr (dePublicKey de) offset buffs) (\<lambda>allOk. sret (if allOk then None else err))
                  else sret err)) t1)) t0)"

section \<open>Conn.Send\<close>

definition sendUDPNetcheck :: "sendEnv \<Rightarrow> u8 list \<Rightarrow> addrPort \<Rightarrow> netErr option sending" where
  "sendUDPNetcheck e b a =
     (if snOnlyTCP443 e \<or> snOS e = Js then sret (Some (PlainErr ''unsupported operation''))
      else if is4 (apAddr a) then writePacket e PconnV4 a b
      else if is6 (apAddr a) then writePacket e PconnV6 a b
      else (\<lambda>t. Inl (ExplicitPanic ''bogus sendUDPNetcheck addr type'')))"

definition sendWireGuardBatchDirectTo :: "sendEnv \<Rightarrow> u8 list list \<Rightarrow> epAddr \<Rightarrow> int \<Rightarrow> netErr option sending" where
  "sendWireGuardBatchDirectTo e buffs dst offset =
     (if is6 (apAddr (ap dst)) then writeBatch e PconnV6 dst buffs offset else writeBatch e PconnV4 dst buffs offset)"

definition errNetworkDown :: string where
  "errNetworkDown = ''magicsock: network down''"

text \<open>The types of \<open>conn.Endpoint\<close>: an endpoint, one wrapped with the source and the socket of a packet, one
  of a packet whose peer is not known or to be confirmed, and those of other packages.\<close>

datatype connEndpoint =
    PeerEndpoint epRef
  | SourcePathPeerAwareEndpoint epRef epAddr sourceRxMeta
  | LazyEndpoint "epRef option" epAddr sourceRxMeta
  | OtherEndpoint

definition Send :: "sendEnv \<Rightarrow> u8 list list \<Rightarrow> connEndpoint \<Rightarrow> int \<Rightarrow> netErr option sending" where
  "Send e buffs ep offset t =
     (if networkDown (snWire e) (txWire t) then Inr (Some (PlainErr errNetworkDown), t)
      else case ep of
        PeerEndpoint r \<Rightarrow> send e r buffs offset t
      | SourcePathPeerAwareEndpoint r src _ \<Rightarrow>
          if \<not> wireGuardBatchIsTransport (seTransportType (snSrc e)) buffs offset \<and> isDirect src
          then sendWireGuardBatchDirectTo e buffs src offset t
          else send e r buffs offset t
      | LazyEndpoint _ src _ \<Rightarrow> sendWireGuardBatchDirectTo e buffs src offset t
      | OtherEndpoint \<Rightarrow> Inr (None, t))"

end
