(* ===== verification/Send_Outcome.thy ===== *)
theory Send_Outcome
  imports Conn_Send
begin

text \<open>
  What sending amounts to: a small logic for the operations of \<open>Conn_Send\<close>, which of them write to a
  socket and what they return, and the properties of \<open>endpoint.send\<close> that follow.
\<close>

section \<open>Reasoning about sending\<close>

definition triple :: "(tx \<Rightarrow> bool) \<Rightarrow> 'a sending \<Rightarrow> ('a \<Rightarrow> tx \<Rightarrow> bool) \<Rightarrow> bool" where
  "triple P m Q \<longleftrightarrow> (\<forall>t x t'. P t \<longrightarrow> m t = Inr (x, t') \<longrightarrow> Q x t')"

lemma triple_ret [intro]: "(\<And>t. P t \<Longrightarrow> Q x t) \<Longrightarrow> triple P (sret x) Q"
  by (auto simp: triple_def sret_def)

lemma triple_bind: "triple P m R \<Longrightarrow> (\<And>x. triple (R x) (f x) Q) \<Longrightarrow> triple P (sbind m f) Q"
  unfolding triple_def sbind_def by (fastforce split: sum.splits)

lemma triple_bind2: "triple P m R \<Longrightarrow> (\<And>x y. triple (R (x, y)) (f (x, y)) Q) \<Longrightarrow> triple P (sbind m f) Q"
  by (rule triple_bind) auto

lemma sbind_Inr: "m t = Inr (x, t1) \<Longrightarrow> sbind m f t = f x t1"
  by (simp add: sbind_def)

lemma sbind_InrD: "sbind m f t = Inr (y, t') \<Longrightarrow> \<exists>x t1. m t = Inr (x, t1) \<and> f x t1 = Inr (y, t')"
  by (auto simp: sbind_def split: sum.splits)

lemma triple_bind_value: "triple P m (\<lambda>x t. x = v \<and> R t) \<Longrightarrow> triple R (f v) Q \<Longrightarrow> triple P (sbind m f) Q"
  by (erule triple_bind) (auto simp: triple_def)

lemma triple_panic [intro]: "triple P (\<lambda>t. Inl p) Q"
  by (simp add: triple_def)

lemma triple_weaken: "triple P m Q \<Longrightarrow> (\<And>x t. Q x t \<Longrightarrow> Q' x t) \<Longrightarrow> triple P m Q'"
  by (auto simp: triple_def)

lemma triple_pre: "triple P m Q \<Longrightarrow> (\<And>t. P' t \<Longrightarrow> P t) \<Longrightarrow> triple P' m Q"
  by (auto simp: triple_def)

lemma triple_if: "(b \<Longrightarrow> triple P m Q) \<Longrightarrow> (\<not> b \<Longrightarrow> triple P m' Q) \<Longrightarrow> triple P (if b then m else m') Q"
  by simp

lemma triple_False: "(\<And>t. P t \<Longrightarrow> False) \<Longrightarrow> triple P m Q"
  by (auto simp: triple_def)

text \<open>An observation that the silent operations leave alone: whatever they do, they write to no socket.\<close>

locale observation =
  fixes obs :: "tx \<Rightarrow> 'o"
  assumes wire: "obs (t\<lparr>txWire := w\<rparr>) = obs t"
    and sockets: "obs (t\<lparr>txV6 := v6, txV4 := v4\<rparr>) = obs t" "obs (t\<lparr>txLastErrRebind := z\<rparr>) = obs t"
    and acts: "obs (t\<lparr>txActs := as\<rparr>) = obs t" "obs (t\<lparr>txDerpActs := ds\<rparr>) = obs t"
begin

definition quiet :: "'a sending \<Rightarrow> bool" where
  "quiet m \<longleftrightarrow> (\<forall>t x t'. m t = Inr (x, t') \<longrightarrow> obs t' = obs t)"

lemma quiet_ret [intro, simp]: "quiet (sret x)"
  by (simp add: quiet_def sret_def)

lemma quiet_panic [intro, simp]: "quiet (\<lambda>t. Inl p)"
  by (simp add: quiet_def)

lemma quiet_bind [intro]: "quiet m \<Longrightarrow> (\<And>x. quiet (f x)) \<Longrightarrow> quiet (sbind m f)"
  unfolding quiet_def sbind_def by (fastforce split: sum.splits)

lemma obs_setConn [simp]: "obs (setConn c t) = obs t"
  by (simp add: setConn_def wire)

lemma quiet_liftConn [intro, simp]: "quiet (liftConn f)"
  by (auto simp: quiet_def liftConn_def split: prod.splits)

lemma quiet_liftPanic [intro, simp]: "quiet (liftPanic f)"
  by (auto simp: quiet_def liftPanic_def split: sum.splits prod.splits)

lemma quiet_liftEndpoint [intro, simp]: "quiet (liftEndpoint r f)"
  by (auto simp: quiet_def liftEndpoint_def acts split: prod.splits)

lemma quiet_onEp [intro, simp]: "quiet (onEp r f)"
  by (simp add: onEp_def)

lemma obs_Rebind [simp]: "obs (Rebind e t) = obs t"
proof -
  obtain ok t1 where r: "rebind e keepCurrentPort t = (ok, t1)" by fastforce
  then have "obs t1 = obs t"
    by (auto simp: rebind_def Let_def sockets split: prod.splits if_splits)
  moreover have "t1\<lparr>txWire := w, txDerpActs := ds, txActs := as\<rparr> = ((t1\<lparr>txWire := w\<rparr>)\<lparr>txDerpActs := ds\<rparr>)\<lparr>txActs := as\<rparr>" for w ds as
    by simp
  ultimately show ?thesis unfolding Rebind_def r by (cases ok) (simp_all add: Let_def wire acts split: prod.split)
qed

lemma quiet_rebind [intro, simp]: "quiet (maybeRebindOnError e err)"
  by (auto simp: quiet_def maybeRebindOnError_def Let_def acts sockets split: option.splits if_splits)

lemma quiet_noteAux [intro, simp]: "quiet (noteAux e dst source err)"
  by (cases err) (auto simp: quiet_def noteAux_def liftConn_def)

lemma quiet_notePrimary [intro, simp]: "quiet (notePrimary e dst err)"
  by (cases err) (auto simp: quiet_def notePrimary_def liftPanic_def split: sum.splits)

lemma quiet_noteBad [intro, simp]: "quiet (noteBad r a err)"
  by (simp add: noteBad_def split: option.split)

lemma quiet_noteObserved [intro, simp]: "quiet (noteObserved r a err)"
  by (auto simp: noteObserved_def split: option.split)

lemma quiet_noteBads [intro, simp]: "quiet (noteBads r xs)"
  by (induction r xs rule: noteBads.induct) auto

lemma quiet_choosePaths [intro, simp]: "quiet (choosePaths e r now pl)"
  unfolding choosePaths_def by (auto intro!: quiet_bind)

lemma quiet_sendDerp: "apAddr a = derpMagicIPAddr \<Longrightarrow> quiet (sendAddr e a pk b isDisco)"
proof -
  have "t\<lparr>txWire := w, txDerpActs := ds\<rparr> = (t\<lparr>txWire := w\<rparr>)\<lparr>txDerpActs := ds\<rparr>" for t w ds by simp
  then show "apAddr a = derpMagicIPAddr \<Longrightarrow> ?thesis"
    by (auto simp: quiet_def sendAddr_def wire acts split: prod.splits)
qed

lemma quiet_sendAllDerp: "apAddr a = derpMagicIPAddr \<Longrightarrow> quiet (sendAllDerp e a pk offset bs)"
  by (induction e a pk offset bs rule: sendAllDerp.induct) (auto intro!: quiet_bind quiet_sendDerp)

lemma quiet_triple: "quiet m \<Longrightarrow> triple (\<lambda>t. P (obs t)) m (\<lambda>x t. P (obs t))"
  by (auto simp: triple_def quiet_def)

lemma quiet_first: "quiet m \<Longrightarrow> (\<And>x. triple (\<lambda>t. P (obs t)) (f x) Q) \<Longrightarrow> triple (\<lambda>t. P (obs t)) (sbind m f) Q"
  by (rule triple_bind [OF quiet_triple])

end

interpretation logged: observation txLog
  by unfold_locales simp_all

section \<open>What a batch amounts to\<close>

text \<open>A write handed the batch to the socket if it reported no error, or that it succeeded once UDP
  segmentation offload was off.\<close>

definition okWrite :: "socketWrite \<Rightarrow> bool" where
  "okWrite w \<longleftrightarrow> swResult w = None \<or> swResult w = Some (GSODisabled None)"

text \<open>At most \<open>n\<close> writes since \<open>L\<close>, all of the batch, and whether one of them was handed over.\<close>

definition wrote :: "socketWrite list \<Rightarrow> u8 list list \<Rightarrow> nat \<Rightarrow> bool \<Rightarrow> socketWrite list \<Rightarrow> bool" where
  "wrote L buffs n d lg \<longleftrightarrow>
     (\<exists>ws. lg = L @ ws \<and> length ws \<le> n \<and> (\<forall>w\<in>set ws. swBuffs w = buffs) \<and> (d \<longleftrightarrow> (\<exists>w\<in>set ws. okWrite w)))"

lemma wrote_mono: "wrote L buffs n d lg \<Longrightarrow> n \<le> m \<Longrightarrow> wrote L buffs m d lg"
  by (auto simp: wrote_def)

lemma wrote_refl: "wrote L buffs 0 False L"
  by (auto simp: wrote_def)

lemma wrote_add:
  assumes "wrote L buffs n d lg" "swBuffs w = buffs"
  shows "wrote L buffs (Suc n) (d \<or> okWrite w) (lg @ [w])"
proof -
  obtain ws where "lg = L @ ws" "length ws \<le> n" "\<forall>w\<in>set ws. swBuffs w = buffs" "d \<longleftrightarrow> (\<exists>w\<in>set ws. okWrite w)"
    using assms(1) by (auto simp: wrote_def)
  then show ?thesis using assms(2) unfolding wrote_def by (intro exI [of _ "ws @ [w]"]) auto
qed

lemma batch_write:
  "triple (\<lambda>t. wrote L buffs n d (txLog t)) (writeBatch e s addr buffs offset)
     (\<lambda>r t. wrote L buffs (Suc n) (d \<or> r = None \<or> r = Some (GSODisabled None)) (txLog t))"
proof -
  have "wrote L buffs (Suc n) (d \<or> snWrite e (length (txLog t)) = None \<or> snWrite e (length (txLog t)) = Some (GSODisabled None))
      (txLog t @ [\<lparr>swSocket = s, swAddr = addr, swBuffs = buffs, swResult = snWrite e (length (txLog t))\<rparr>])"
    if "wrote L buffs n d (txLog t)" for t
    using wrote_add [OF that, of "\<lparr>swSocket = s, swAddr = addr, swBuffs = buffs, swResult = snWrite e (length (txLog t))\<rparr>"]
    by (simp add: okWrite_def)
  then show ?thesis by (auto simp: triple_def writeBatch_def Let_def split: if_splits intro: wrote_mono)
qed

text \<open>The result of an operation that sends the batch once.\<close>

definition sentOnce :: "socketWrite list \<Rightarrow> u8 list list \<Rightarrow> nat \<Rightarrow> bool \<Rightarrow> bool \<times> netErr option \<Rightarrow> tx \<Rightarrow> bool" where
  "sentOnce L buffs n d r t \<longleftrightarrow> fst r = (snd r = None) \<and> wrote L buffs (Suc n) (d \<or> snd r = None) (txLog t)"

lemma batch_udp:
  "triple (\<lambda>t. wrote L buffs n d (txLog t)) (sendUDPBatch e addr buffs offset) (sentOnce L buffs n d)"
proof -
  have "triple (\<lambda>t. wrote L buffs (Suc n) (d \<or> err = None \<or> err = Some (GSODisabled None)) (txLog t))
     (case err of None \<Rightarrow> sret (True, None)
           | Some x \<Rightarrow> (case asGSODisabled x of
               Some retryErr \<Rightarrow> sret (retryErr = None, retryErr)
             | None \<Rightarrow> sbind (maybeRebindOnError e x) (\<lambda>_. sret (False, Some x)))) (sentOnce L buffs n d)" for err
  proof (cases err)
    case (Some x)
    show ?thesis
    proof (cases x)
      case (GSODisabled ro)
      with Some show ?thesis by (cases ro) (auto simp: asGSODisabled_def sentOnce_def)
    qed (auto simp: Some asGSODisabled_def sentOnce_def intro!: logged.quiet_first)
  qed (auto simp: sentOnce_def)
  then show ?thesis unfolding sendUDPBatch_def by (auto intro!: triple_if triple_bind [OF batch_write])
qed

lemma batch_aux:
  "triple (\<lambda>t. wrote L buffs n d (txLog t)) (writeAux e source addr buffs offset)
     (\<lambda>r t. wrote L buffs (Suc n) (d \<or> r = None \<or> r = Some (GSODisabled None)) (txLog t))"
proof -
  have "wrote L buffs (Suc n) (d \<or> r = None \<or> r = Some (GSODisabled None)) (txLog t')"
    if w: "wrote L buffs n d (txLog t)" and r: "writeAux e source addr buffs offset t = Inr (r, t')" for t r t'
  proof (cases "if isDirect addr then pickSocket (is4 (apAddr (ap addr))) source (coSourcePath (txConn t)) else None")
    case None
    with r have "r = Some unavailable" "t' = t" by (simp_all add: writeAux_def sourcePathWriteWireGuardBatchTo_def sret_def)
    with w show ?thesis by (auto simp: unavailable_def intro: wrote_mono)
  next
    case (Some sock)
    with r have "writeBatch e (AuxSocket (rxMeta sock)) addr buffs offset t = Inr (r, t')"
      by (simp add: writeAux_def sourcePathWriteWireGuardBatchTo_def)
    with batch_write [of L buffs n d e "AuxSocket (rxMeta sock)" addr offset] w show ?thesis by (auto simp: triple_def)
  qed
  then show ?thesis by (simp add: triple_def)
qed

lemma batch_from:
  "triple (\<lambda>t. wrote L buffs n d (txLog t)) (sendUDPBatchFromSource e source addr buffs offset) (sentOnce L buffs n d)"
proof -
  have aux: "triple (\<lambda>t. wrote L buffs (Suc n) (d \<or> err = None \<or> err = Some (GSODisabled None)) (txLog t))
     (case err of None \<Rightarrow> sret (True, None)
           | Some x \<Rightarrow> (case asGSODisabled x of
               Some retryErr \<Rightarrow> sret (retryErr = None, retryErr)
             | None \<Rightarrow> sret (False, Some x))) (sentOnce L buffs n d)" for err
  proof (cases err)
    case (Some x)
    show ?thesis
    proof (cases x)
      case (GSODisabled ro)
      with Some show ?thesis by (cases ro) (auto simp: asGSODisabled_def sentOnce_def)
    qed (auto simp: Some asGSODisabled_def sentOnce_def)
  qed (auto simp: sentOnce_def)
  have "triple (\<lambda>t. wrote L buffs n d (txLog t)) (sret (False, Some unavailable)) (sentOnce L buffs n d)"
    by (rule triple_ret) (auto simp: sentOnce_def intro: wrote_mono)
  with aux show ?thesis unfolding sendUDPBatchFromSource_def by (auto intro!: triple_if batch_udp triple_bind [OF batch_aux])
qed

text \<open>The result of an operation that may send it twice: an error exactly if no copy was handed over.\<close>

definition sentTwice :: "socketWrite list \<Rightarrow> u8 list list \<Rightarrow> netErr option \<Rightarrow> tx \<Rightarrow> bool" where
  "sentTwice L buffs err t \<longleftrightarrow> wrote L buffs 2 (err = None) (txLog t)"

lemma once_twice: "sentOnce L buffs 0 False (b, err) t \<Longrightarrow> sentTwice L buffs err t"
  by (auto simp: sentOnce_def sentTwice_def intro: wrote_mono)

lemma onceI:
  "triple (\<lambda>t. wrote L buffs (Suc 0) (err = None) (txLog t)) m Q \<Longrightarrow> triple (sentOnce L buffs 0 False (b, err)) m Q"
  by (erule triple_pre) (auto simp: sentOnce_def)

lemma twiceI:
  "triple (\<lambda>t. wrote L buffs 2 (err = None \<or> err' = None) (txLog t)) m Q \<Longrightarrow> triple (sentOnce L buffs (Suc 0) (err = None) (b, err')) m Q"
  by (erule triple_pre) (auto simp: sentOnce_def numeral_2_eq_2)

lemma batch_dual_source:
  "triple (\<lambda>t. wrote L buffs 0 False (txLog t)) (sendUDPBatchDualSource e aux addr buffs offset) (\<lambda>r. sentTwice L buffs (dsrErr r))"
  unfolding sendUDPBatchDualSource_def
  apply (rule triple_bind2 [OF batch_udp], simp only: prod.case)
  apply (rule onceI, rule triple_bind2 [OF batch_from], simp only: prod.case)
  apply (rule twiceI)
  apply (rule logged.quiet_first [OF logged.quiet_notePrimary])
  apply (rule logged.quiet_first [OF logged.quiet_noteAux])
  apply (rule triple_ret)
  apply (auto simp: sentTwice_def)
  done

lemma batch_dual_endpoint:
  "addrs \<noteq> [] \<Longrightarrow>
   triple (\<lambda>t. wrote L buffs 0 False (txLog t)) (sendUDPBatchDualEndpoint e addrs buffs offset) (\<lambda>r. sentTwice L buffs (dsrErr r))"
proof -
  have one: "triple (\<lambda>t. wrote L buffs 0 False (txLog t)) (sendUDPBatchDualEndpoint e [a] buffs offset) (\<lambda>r. sentTwice L buffs (dsrErr r))" for a
    unfolding sendUDPBatchDualEndpoint_def list.case
    apply (rule triple_bind2 [OF batch_udp], simp only: prod.case)
    apply (rule triple_ret, simp add: once_twice)
    done
  have two: "triple (\<lambda>t. wrote L buffs 0 False (txLog t)) (sendUDPBatchDualEndpoint e (a # b # as) buffs offset) (\<lambda>r. sentTwice L buffs (dsrErr r))" for a b as
    unfolding sendUDPBatchDualEndpoint_def list.case
    apply (rule triple_bind2 [OF batch_udp], simp only: prod.case)
    apply (rule onceI, rule triple_bind2 [OF batch_udp], simp only: prod.case)
    apply (rule twiceI, rule triple_ret)
    apply (auto simp: sentTwice_def)
    done
  assume "addrs \<noteq> []"
  then show ?thesis using one two by (metis neq_Nil_conv)
qed

lemma batch_path:
  "triple (\<lambda>t. wrote L buffs n d (txLog t)) (sendPath e buffs offset path) (sentOnce L buffs n d)"
proof -
  have q: "logged.quiet (if isPrimary (pSource path) then notePrimary e (pDst path) err else noteAux e (pDst path) (pSource path) err)" for err
    by simp
  have "triple (sentOnce L buffs n d (b, err))
      (sbind (if isPrimary (pSource path) then notePrimary e (pDst path) err else noteAux e (pDst path) (pSource path) err) (\<lambda>_. sret (b, err)))
      (sentOnce L buffs n d)" for b err
    unfolding sentOnce_def
    by (rule logged.quiet_first [OF q, of "\<lambda>l. fst (b, err) = (snd (b, err) = None) \<and> wrote L buffs (Suc n) (d \<or> snd (b, err) = None) l"])
      (rule triple_ret, simp)
  then show ?thesis unfolding sendPath_def by (intro triple_bind2 [OF batch_from]) simp
qed

definition sentAll :: "socketWrite list \<Rightarrow> u8 list list \<Rightarrow> nat \<Rightarrow> nat \<Rightarrow> bool \<Rightarrow> (bool \<times> netErr option) list \<Rightarrow> tx \<Rightarrow> bool" where
  "sentAll L buffs n k d rs t \<longleftrightarrow> length rs = k \<and> (\<forall>r\<in>set rs. fst r = (snd r = None)) \<and> wrote L buffs (n + k) (d \<or> (\<exists>r\<in>set rs. fst r)) (txLog t)"

lemma batch_paths:
  "triple (\<lambda>t. wrote L buffs n d (txLog t)) (sendPaths e buffs offset ps) (sentAll L buffs n (length ps) d)"
proof (induction ps arbitrary: n d)
  case Nil
  show ?case unfolding sendPaths.simps by (rule triple_ret) (simp add: sentAll_def)
next
  case (Cons p ps)
  have "triple (sentOnce L buffs n d r) (sbind (sendPaths e buffs offset ps) (\<lambda>rs. sret (r # rs))) (sentAll L buffs n (length (p # ps)) d)" for r
  proof -
    have "triple (\<lambda>t. wrote L buffs (Suc n) (d \<or> snd r = None) (txLog t)) (sbind (sendPaths e buffs offset ps) (\<lambda>rs. sret (r # rs)))
        (sentAll L buffs n (length (p # ps)) d)" if "fst r = (snd r = None)"
      by (rule triple_bind [OF Cons.IH], rule triple_ret) (use that in \<open>auto simp: sentAll_def\<close>)
    then show ?thesis by (cases "fst r = (snd r = None)") (auto simp: sentOnce_def triple_def)
  qed
  then show ?case unfolding sendPaths.simps by (rule triple_bind [OF batch_path])
qed

lemma batch_dual_path:
  assumes "2 \<le> length paths"
  shows "triple (\<lambda>t. wrote L buffs 0 False (txLog t)) (sendUDPBatchDualSourcePath e paths buffs offset) (\<lambda>r. sentTwice L buffs (fst r))"
proof -
  obtain p q ps where ps: "paths = p # q # ps" using assms by (metis One_nat_def Suc_1 Suc_le_length_iff)
  have "sentTwice L buffs (if \<not> list_ex fst rs then snd (rs ! 0) else None) t" if a: "sentAll L buffs 0 (length (take 2 paths)) False rs t" for rs t
  proof -
    have "rs \<noteq> []" using a assms by (auto simp: sentAll_def)
    then have "rs ! 0 \<in> set rs" by simp
    then have eq: "(if \<not> list_ex fst rs then snd (rs ! 0) else None) = None \<longleftrightarrow> (\<exists>r\<in>set rs. fst r)"
      using a by (auto simp: sentAll_def list_ex_iff)
    have "length (take 2 paths) = 2" using assms by simp
    then have "wrote L buffs 2 (\<exists>r\<in>set rs. fst r) (txLog t)" using a unfolding sentAll_def by (metis add_0)
    then show ?thesis unfolding sentTwice_def eq .
  qed
  then show ?thesis unfolding ps sendUDPBatchDualSourcePath_def list.case
    by (intro triple_bind [OF batch_paths] triple_ret) simp
qed

text \<open>The branch of one source: a failed auxiliary source is followed by the primary one, a failed primary
  one by the backup.\<close>

lemma batch_single:
  "triple (\<lambda>t. wrote L buffs 0 False (txLog t)) (sendSingleSource e r addr now buffs offset) (sentTwice L buffs)"
proof -
  let ?Q = "\<lambda>(err', _) t. sentTwice L buffs err' t"
  have choose: "logged.quiet (\<lambda>t. liftConn (sourcePathDataSendSourceForBatch (snSrc e) addr buffs offset (monoNow e 2 t) (monoNow e 3 t)) t)"
    by (auto simp: logged.quiet_def liftConn_def split: prod.splits)
  have again: "triple (\<lambda>t. wrote L buffs (Suc 0) False (txLog t)) (sbind (sendUDPBatch e addr buffs offset) (\<lambda>(_, err2). sret (err2, True))) ?Q"
    apply (rule triple_bind2 [OF batch_udp], simp only: prod.case)
    apply (rule triple_ret)
    apply (simp add: sentOnce_def sentTwice_def numeral_2_eq_2)
    done
  have backup: "triple (\<lambda>t. wrote L buffs (Suc 0) False (txLog t))
      (case backup of None \<Rightarrow> sret (Some x, True)
       | Some aux \<Rightarrow> sbind (sendUDPBatchFromSource e aux addr buffs offset) (\<lambda>(_, auxErr).
           if auxErr = None then sret (None, False)
           else sbind (liftConn (\<lambda>c. ((), noteSourcePathSendFailure addr aux c))) (\<lambda>_. sret (Some x, True)))) ?Q" for backup x
  proof (cases backup)
    case None
    then show ?thesis by simp (rule triple_ret, auto simp: sentTwice_def intro: wrote_mono)
  next
    case (Some aux)
    have "triple (sentOnce L buffs (Suc 0) False (b, auxErr)) (if auxErr = None then sret (None, False)
           else sbind (liftConn (\<lambda>c. ((), noteSourcePathSendFailure addr aux c))) (\<lambda>_. sret (Some x, True))) ?Q" for b auxErr
    proof (rule triple_pre [where P = "\<lambda>t. wrote L buffs 2 (auxErr = None) (txLog t)"])
      show "triple (\<lambda>t. wrote L buffs 2 (auxErr = None) (txLog t)) (if auxErr = None then sret (None, False)
           else sbind (liftConn (\<lambda>c. ((), noteSourcePathSendFailure addr aux c))) (\<lambda>_. sret (Some x, True))) ?Q"
        by (cases auxErr) (auto simp: sentTwice_def intro!: triple_ret logged.quiet_first [OF logged.quiet_liftConn])
    qed (simp add: sentOnce_def numeral_2_eq_2)
    then show ?thesis unfolding Some option.case by (intro triple_bind2 [OF batch_from]) simp
  qed
  have react: "triple (sentOnce L buffs 0 False (b, err))
     (if err \<noteq> None \<and> \<not> isPrimary source
            then sbind (liftConn (\<lambda>c. ((), noteSourcePathSendFailure addr source c))) (\<lambda>_.
                 sbind (sendUDPBatch e addr buffs offset) (\<lambda>(_, err2). sret (err2, True)))
            else if \<not> isPrimary source then sret (err, False)
            else if err \<noteq> None
            then sbind (liftPanic (noteSourcePathPrimarySendFailure (snSrc e) addr now)) (\<lambda>backup. case backup of
                   None \<Rightarrow> sret (err, True)
                 | Some aux \<Rightarrow> sbind (sendUDPBatchFromSource e aux addr buffs offset) (\<lambda>(_, auxErr).
                     if auxErr = None then sret (None, False)
                     else sbind (liftConn (\<lambda>c. ((), noteSourcePathSendFailure addr aux c))) (\<lambda>_. sret (err, True))))
            else sbind (liftPanic (\<lambda>c. map_sum id (\<lambda>c'. ((), c')) (noteSourcePathPrimarySendSuccess (snSrc e) addr c))) (\<lambda>_. sret (err, True))) ?Q" for b err source
  proof (cases err)
    case None
    then show ?thesis
      by (auto simp: sentTwice_def sentOnce_def intro!: triple_ret logged.quiet_first [OF logged.quiet_liftPanic] onceI intro: wrote_mono)
  next
    case (Some x)
    show ?thesis unfolding Some using again backup
      by (auto intro!: onceI triple_if logged.quiet_first [OF logged.quiet_liftConn] logged.quiet_first [OF logged.quiet_liftPanic])
  qed
  have last: "triple (sentTwice L buffs err') (sbind (if used then noteBad r addr err' else sret ()) (\<lambda>_. sret err')) (sentTwice L buffs)" for err' used
    unfolding sentTwice_def
    by (rule logged.quiet_first [where P = "wrote L buffs 2 (err' = None)"]) (auto intro!: triple_ret)
  show ?thesis unfolding sendSingleSource_def
    apply (rule logged.quiet_first [OF choose])
    apply (rule triple_bind2 [OF batch_from], simp only: prod.case)
    apply (rule triple_bind2 [OF react], simp only: prod.case)
    apply (rule last)
    done
qed

lemma once_noted:
  assumes "logged.quiet m"
  shows "triple (sentOnce L buffs 0 False (b, err)) (sbind m (\<lambda>_. sret (err, x))) (\<lambda>r. sentTwice L buffs (fst r))"
  by (rule onceI, rule logged.quiet_first [OF assms], rule triple_ret) (auto simp: sentTwice_def intro: wrote_mono)

lemma twice_noted:
  assumes "logged.quiet m"
  shows "triple (sentTwice L buffs err) (sbind m (\<lambda>_. sret (err, x))) (\<lambda>r. sentTwice L buffs (fst r))"
  unfolding sentTwice_def
  by (rule logged.quiet_first [OF assms, where P = "wrote L buffs 2 (err = None)"], rule triple_ret) simp

lemma batch_toUDP:
  "triple (\<lambda>t. wrote L buffs 0 False (txLog t)) (sendToUDP e r transport addr now buffs offset) (\<lambda>r. sentTwice L buffs (fst r))"
proof -
  let ?P = "\<lambda>t. wrote L buffs 0 False (txLog t)" and ?Q = "\<lambda>r. sentTwice L buffs (fst r)"
  have q: "logged.quiet (\<lambda>t. liftConn (sourcePathDualSendCandidate (snSrc e) addr (monoNow e 4 t)) t)"
    by (auto simp: logged.quiet_def liftConn_def split: prod.splits)
  have backup: "triple ?P (sbind (sendUDPBatchFromSource e source addr buffs offset) (\<lambda>(_, err).
         sbind (if err \<noteq> None then liftConn (\<lambda>c. ((), noteSourcePathSendFailure addr source c)) else sret ()) (\<lambda>_.
         sret (err, [], singleReason e addr ''active-backup'')))) ?Q" for source
    by (rule triple_bind2 [OF batch_from], simp only: prod.case, rule once_noted) simp
  have dual: "triple ?P (sbind (sendUDPBatchDualSource e aux addr buffs offset) (\<lambda>res.
             sbind (if dsrPrimaryErr res \<noteq> None \<and> dsrSecondErr res \<noteq> None then noteBad r addr (dsrPrimaryErr res) else sret ()) (\<lambda>_.
             sret (dsrErr res, ''aux-source'', [])))) ?Q" for aux
    by (rule triple_bind [OF batch_dual_source], rule twice_noted) simp
  have single: "triple ?P (sbind (sendSingleSource e r addr now buffs offset) (\<lambda>err. sret (err, [], singleReason e addr ''single-source-strategy''))) ?Q"
    by (rule triple_bind [OF batch_single], rule triple_ret) simp
  have plain: "triple ?P (sbind (sendUDPBatch e addr buffs offset) (\<lambda>(_, err).
               sbind (if err = None then liftPanic (\<lambda>c. map_sum id (\<lambda>c'. ((), c')) (noteSourcePathPrimarySendSuccess (snSrc e) addr c))
                      else noteBad r addr err) (\<lambda>_.
               sret (err, [], singleReason e addr ''no-redundant-path'')))) ?Q"
    by (rule triple_bind2 [OF batch_udp], simp only: prod.case, rule once_noted) simp
  show ?thesis unfolding sendToUDP_def
    apply (rule logged.quiet_first [OF logged.quiet_liftConn])
    subgoal for b
      apply (cases "if transport then b else None")
       apply (simp only: option.case)
       apply (rule logged.quiet_first [OF q])
      subgoal for cand
        apply (cases "if transport then cand else None")
         apply (simp only: option.case, rule triple_if, rule single, rule plain)
        apply (simp only: option.case, rule dual)
        done
      apply (simp only: option.case, rule backup)
      done
    done
qed

text \<open>Whether the plan names any UDP address.\<close>

definition overUDP :: "sendPlan \<Rightarrow> sourcePathSendPath list \<Rightarrow> bool" where
  "overUDP pl paths \<longleftrightarrow> 2 \<le> length paths \<or> plDualEndpointAddrs pl \<noteq> [] \<or> apIsValid (ap (plUdpAddr pl))"

lemma batch_data:
  "triple (\<lambda>t. wrote L buffs 0 False (txLog t)) (sendData e r transport pl paths now buffs offset)
     (\<lambda>r t. if overUDP pl paths then sentTwice L buffs (fst r) t else fst r = None \<and> wrote L buffs 0 False (txLog t))"
proof -
  let ?P = "\<lambda>t. wrote L buffs 0 False (txLog t)" and ?Q = "\<lambda>r. sentTwice L buffs (fst r)"
  have pool: "triple ?P (sbind (sendUDPBatchDualSourcePath e paths buffs offset) (\<lambda>(err, errs).
           sbind (noteBads r (zip (map pDst paths) errs)) (\<lambda>_. sret (err, ''path-pool'', [])))) ?Q" if "2 \<le> length paths"
  proof -
    have "triple (sentTwice L buffs (fst (err, errs))) (sbind (noteBads r (zip (map pDst paths) errs)) (\<lambda>_. sret (err, ''path-pool'', []))) ?Q" for err errs
      unfolding fst_conv by (rule twice_noted) simp
    then show ?thesis by (intro triple_bind2 [OF batch_dual_path [OF that]]) (simp only: prod.case)
  qed
  have fan: "triple ?P (sbind (sendUDPBatchDualEndpoint e (a # as) buffs offset) (\<lambda>res.
          sbind (noteObserved r a (dsrPrimaryErr res)) (\<lambda>_.
          sbind (case as of [] \<Rightarrow> sret () | b # _ \<Rightarrow> noteObserved r b (dsrSecondErr res)) (\<lambda>_.
          sret (dsrErr res, ''observed-endpoint-fanout'', []))))) ?Q" for a as
  proof (rule triple_bind [OF batch_dual_endpoint])
    fix res
    have "logged.quiet (case as of [] \<Rightarrow> sret () | b # _ \<Rightarrow> noteObserved r b (dsrSecondErr res))" by (simp split: list.split)
    from twice_noted [OF this] show "triple (sentTwice L buffs (dsrErr res)) (sbind (noteObserved r a (dsrPrimaryErr res)) (\<lambda>_.
          sbind (case as of [] \<Rightarrow> sret () | b # _ \<Rightarrow> noteObserved r b (dsrSecondErr res)) (\<lambda>_.
          sret (dsrErr res, ''observed-endpoint-fanout'', [])))) ?Q"
      unfolding sentTwice_def by (rule logged.quiet_first [OF logged.quiet_noteObserved])
  qed simp
  have udp: "triple ?P (sbind (sendToUDP e r transport (plUdpAddr pl) now buffs offset) (\<lambda>res.
               if sliceable offset buffs then sret res else (\<lambda>t. Inl SliceOutOfRange))) ?Q"
    by (rule triple_bind [OF batch_toUDP], rule triple_if) (auto intro: triple_ret triple_panic)
  show ?thesis unfolding sendData_def overUDP_def
    using pool fan udp by (cases "plDualEndpointAddrs pl") (auto intro!: triple_ret)
qed

section \<open>The outcome of endpoint.send\<close>

lemma chosen_derp:
  assumes "chooseAddrs e transport now wnow de = ((pl, start), de1)"
  shows "plDerpAddr pl = zeroAddrPort \<or> plDerpAddr pl = deDerpAddr de"
proof -
  have "deDerpAddr (snd (dualEndpointAddrsForSendLocked now wnow de)) = deDerpAddr de"
    by (simp add: dualEndpointAddrsForSendLocked_def Let_def split: prod.split)
  moreover have "fst (snd (fst (addrForSendLocked pick now d))) = zeroAddrPort \<or> fst (snd (fst (addrForSendLocked pick now d))) = deDerpAddr d" for pick d
    by (simp add: addrForSendLocked_def Let_def split: prod.split)
  ultimately show ?thesis using assms
    by (auto simp: chooseAddrs_def Let_def split: if_splits prod.splits) (metis fst_conv snd_conv)+
qed

lemma plan_derp:
  "triple (\<lambda>t. deDerpAddr (coEps (txConn t) ! r) = a \<and> wiDerpRoute (txWire t) = R \<and> txLog t = L)
     (liftEndpoint r (planSend e transport now now2 wnow))
     (\<lambda>pl t. (plDerpAddr pl = zeroAddrPort \<or> plDerpAddr pl = a) \<and> wiDerpRoute (txWire t) = R \<and> txLog t = L)"
proof -
  have "plDerpAddr pl = zeroAddrPort \<or> plDerpAddr pl = deDerpAddr de"
    if "planSend e transport now now2 wnow de = ((pl, de'), acts)" for de pl de' acts
    using that chosen_derp [of e transport now wnow de] by (auto simp: planSend_def split: prod.splits)
  then show ?thesis by (auto simp: triple_def liftEndpoint_def setConn_def split: prod.splits)
qed

lemma paths_derp:
  assumes "choosePaths e r now pl t = Inr ((pl', paths), t')"
  shows "plDerpAddr pl' = zeroAddrPort \<or> plDerpAddr pl' = plDerpAddr pl" "wiDerpRoute (txWire t') = wiDerpRoute (txWire t)" "txLog t' = txLog t"
proof -
  have lc: "liftConn f u = Inr (x, u') \<Longrightarrow> wiDerpRoute (txWire u') = wiDerpRoute (txWire u) \<and> txLog u' = txLog u" for f u u' and x :: 'x
    by (auto simp: liftConn_def setConn_def split: prod.splits)
  have le: "liftEndpoint r f u = Inr (x, u') \<Longrightarrow> wiDerpRoute (txWire u') = wiDerpRoute (txWire u) \<and> txLog u' = txLog u" for f u u' and x :: 'x
    by (auto simp: liftEndpoint_def setConn_def split: prod.splits)
  show "plDerpAddr pl' = zeroAddrPort \<or> plDerpAddr pl' = plDerpAddr pl" "wiDerpRoute (txWire t') = wiDerpRoute (txWire t)" "txLog t' = txLog t"
    using assms
    by (auto simp: choosePaths_def sbind_def sret_def split: if_splits sum.splits prod.splits dest!: lc le)
qed

text \<open>What is reported: \<open>must\<close> says that without an error a copy has been handed to a socket.\<close>

definition outcome :: "socketWrite list \<Rightarrow> u8 list list \<Rightarrow> bool \<Rightarrow> netErr option \<Rightarrow> tx \<Rightarrow> bool" where
  "outcome L buffs must err t \<longleftrightarrow> (\<exists>ws. txLog t = L @ ws \<and> length ws \<le> 2 \<and> (\<forall>w\<in>set ws. swBuffs w = buffs)
     \<and> (if err = None then must \<longrightarrow> (\<exists>w\<in>set ws. okWrite w) else \<forall>w\<in>set ws. \<not> okWrite w))"

lemma outcome_twice: "sentTwice L buffs err t \<Longrightarrow> outcome L buffs True err t"
  by (auto simp: outcome_def sentTwice_def wrote_def)

lemma outcome_none: "wrote L buffs n d (txLog t) \<Longrightarrow> n \<le> 2 \<Longrightarrow> outcome L buffs False None t"
  by (auto simp: outcome_def wrote_def)

lemma outcome_weaken: "outcome L buffs must err t \<Longrightarrow> (must' \<Longrightarrow> must) \<Longrightarrow> outcome L buffs must' err t"
  by (auto simp: outcome_def split: if_splits)

lemma send_tail:
  assumes "apIsValid d \<longrightarrow> apAddr d = derpMagicIPAddr"
  shows "triple (\<lambda>t. txLog t = L)
     (sbind (sendData e r transport pl paths now buffs offset) (\<lambda>(err, mode, reason).
      sbind (onEp r (noteSourcePathDualSendAvailability now mode reason (int (length buffs)))) (\<lambda>_.
      if apIsValid d then sbind (sendAllDerp e d pk offset buffs) (\<lambda>allOk. sret (if allOk then None else err)) else sret err)))
     (outcome L buffs (overUDP pl paths \<and> \<not> apIsValid d))"
proof -
  let ?R = "\<lambda>err l. if overUDP pl paths then wrote L buffs 2 (err = None) l else err = None \<and> wrote L buffs 0 False l"
  have none: "?R err (txLog t) \<Longrightarrow> outcome L buffs False None t" for err t
    by (auto split: if_splits intro: outcome_none)
  have err: "?R err (txLog t) \<Longrightarrow> outcome L buffs (overUDP pl paths) err t" for err t
    by (cases "overUDP pl paths") (auto simp: sentTwice_def [symmetric] intro: outcome_twice outcome_none)
  have derp: "triple (\<lambda>t. ?R err (txLog t)) (if apIsValid d then sbind (sendAllDerp e d pk offset buffs) (\<lambda>allOk. sret (if allOk then None else err)) else sret err)
      (outcome L buffs (overUDP pl paths \<and> \<not> apIsValid d))" for err
  proof (cases "apIsValid d")
    case True
    with assms have q: "logged.quiet (sendAllDerp e d pk offset buffs)" by (simp add: logged.quiet_sendAllDerp)
    have "triple (\<lambda>t. ?R err (txLog t)) (sret (if allOk then None else err)) (outcome L buffs False)" for allOk
      by (rule triple_ret) (use none [of err] outcome_weaken [OF err [of err]] in \<open>cases allOk; simp only: if_True if_False; blast\<close>)
    then have "triple (\<lambda>t. ?R err (txLog t)) (sbind (sendAllDerp e d pk offset buffs) (\<lambda>allOk. sret (if allOk then None else err))) (outcome L buffs False)"
      by (rule logged.quiet_first [OF q, of "?R err"])
    with True show ?thesis by (simp split del: if_split)
  next
    case False
    then show ?thesis using err by (simp) (rule triple_ret, simp)
  qed
  have "triple (\<lambda>t. txLog t = L) (sendData e r transport pl paths now buffs offset) (\<lambda>x t. ?R (fst x) (txLog t))"
    by (rule triple_pre [OF batch_data [of L buffs e r transport pl paths now offset, unfolded sentTwice_def]]) (simp add: wrote_refl)
  then show ?thesis
  proof (rule triple_bind)
    fix x :: "netErr option \<times> string \<times> string"
    obtain err mode reason where x: "x = (err, mode, reason)" by (metis prod.exhaust)
    show "triple (\<lambda>t. ?R (fst x) (txLog t)) (case x of (err, mode, reason) \<Rightarrow>
      sbind (onEp r (noteSourcePathDualSendAvailability now mode reason (int (length buffs)))) (\<lambda>_.
      if apIsValid d then sbind (sendAllDerp e d pk offset buffs) (\<lambda>allOk. sret (if allOk then None else err)) else sret err))
       (outcome L buffs (overUDP pl paths \<and> \<not> apIsValid d))"
      unfolding x prod.case fst_conv by (rule logged.quiet_first [OF logged.quiet_onEp, of "?R err"]) (rule derp)
  qed
qed


text \<open>A peer with a trusted direct address, and a transport batch whose first copy fails.\<close>

definition exSendEnv :: "srcEnv \<Rightarrow> (nat \<Rightarrow> netErr option) \<Rightarrow> sendEnv" where
  "exSendEnv s write = \<lparr>snSrc = s, snWire = exDerpEnv, snOS = Linux, snOnlyTCP443 = False, snAlwaysDERP = False, snPort = 41641,
     snListen = (\<lambda>v4 p. Some p), snAuxListen = (\<lambda>v4 i. None), snIfIPs = [], snLocalAddr = (\<lambda>c. None), snWrite = write,
     snNow = (\<lambda>n i. 30), snWall = (\<lambda>n i. 5), snPick = 0, snTxID = exTxID, snOthers = (\<lambda>n q. q), snDonec = (\<lambda>n. False)\<rparr>"

definition exTrusted :: endpoint where
  "exTrusted = (newEndpoint 7 (replicate 32 9) False False)\<lparr>deBestAddr := (exDirectAQ 20)\<lparr>aqAddr := exDst\<rparr>, deTrustBestAddrUntil := 1000\<rparr>"

definition exIdle :: tx where
  "exIdle = \<lparr>txWire = newWire\<lparr>wiConn := (exBound emptyManager)\<lparr>coEps := [exTrusted]\<rparr>\<rparr>,
     txV4 = \<lparr>ruPconn = OpenUdp 41641, ruPort = 41641\<rparr>, txV6 = \<lparr>ruPconn = OpenUdp 41641, ruPort = 41641\<rparr>,
     txLastErrRebind = 0, txLog = [], txActs = [], txDerpActs = []\<rparr>"

definition exBatch :: "u8 list list" where
  "exBatch = [replicate 8 0 @ [4, 0, 0, 0, 7, 7]]"

definition failOnce :: "nat \<Rightarrow> netErr option" where
  "failOnce n = (if n = 0 then Some (PlainErr ''fail'') else None)"


section \<open>Active backup\<close>

text \<open>No failover is recorded, and since \<open>L\<close> only the primary sockets were written to.\<close>

definition primaryOnly :: "socketWrite list \<Rightarrow> tx \<Rightarrow> bool" where
  "primaryOnly L t \<longleftrightarrow> pmActiveBackup (coSourceProbes (txConn t)) = None
     \<and> (\<exists>ws. txLog t = L @ ws \<and> (\<forall>w\<in>set ws. swSocket w = PconnV4 \<or> swSocket w = PconnV6))"

lemma probes_onEndpoints: "coSourceProbes (fst (onEndpoints rs f c)) = coSourceProbes c"
proof -
  have "coSourceProbes (fst (foldl (\<lambda>(c, acts) r. case onEndpoint r f c of (c', acts') \<Rightarrow> (c', acts @ acts')) ca rs)) = coSourceProbes (fst ca)" for ca
    by (induction rs arbitrary: ca) (auto simp: onEndpoint_def split: prod.split)
  from this [of "(c, [])"] show ?thesis by (simp add: onEndpoints_def)
qed

lemma wloop_conn:
  assumes "\<And>x w. wiConn (fst (f x w)) = wiConn w"
  shows "wiConn (fst (wloop f xs w)) = wiConn w"
  using assms by (induction xs arbitrary: w) (auto split: prod.splits, metis fst_conv)

lemma rebindDERPs_conn: "wiConn (fst (maybeCloseDERPsOnRebind la ips w)) = wiConn w"
  unfolding maybeCloseDERPsOnRebind_def
  by (rule wloop_conn) (auto simp: rebindOne_def closeOrReconnectDERPLocked_def closeDerpLocked_def split: prod.split option.split)

lemma sendDerp_conn: "wiConn (snd (fst (sendDerp e wnow others donec a pk b isDisco w))) = wiConn w"
proof -
  have "wiConn (snd (fst (derpWriteChanForRegion e wnow rid pk w))) = wiConn w" for rid
    by (auto simp: derpWriteChanForRegion_def openDerp_def touchDerp_def setActive_def setPeerLastDerpLocked_def scheduleCleanStaleDerpLocked_def
        Let_def split: option.split prod.split)
  then show ?thesis by (auto simp: sendDerp_def setQueue_def split: prod.split option.split) (metis fst_conv snd_conv)+
qed

lemma rebind_backup:
  "pmActiveBackup (coSourceProbes (txConn t)) = None \<Longrightarrow> pmActiveBackup (coSourceProbes (txConn (Rebind e t))) = None"
proof -
  assume a: "pmActiveBackup (coSourceProbes (txConn t)) = None"
  have "pmActiveBackup (snd (snd (rebindSourcePathSockets k l sp pm))) = None" if "pmActiveBackup pm = None" for k l sp pm
    using that by (auto simp: rebindSourcePathSockets_def Let_def clearLocked_def split: prod.split)
  note sockets = this
  obtain ok t1 where r: "rebind e keepCurrentPort t = (ok, t1)" by fastforce
  then have "pmActiveBackup (coSourceProbes (txConn t1)) = None"
    using a sockets [of "coSourceProbes (txConn t)" "seKnobs (snSrc e)" "snAuxListen e" "coSourcePath (txConn t)"]
    by (auto simp: rebind_def Let_def txConn_def setConn_def split: prod.splits if_splits)
  then show ?thesis unfolding Rebind_def r
    using rebindDERPs_conn [of "snLocalAddr e" "snIfIPs e" "txWire t1"] probes_onEndpoints
    by (cases ok) (auto simp: Let_def txConn_def resetEndpointStates_def split: prod.split, (metis fst_conv)+)
qed

definition primary :: "'a sending \<Rightarrow> bool" where
  "primary m \<longleftrightarrow> (\<forall>L. triple (primaryOnly L) m (\<lambda>_. primaryOnly L))"

lemma primary_ret [simp, intro]: "primary (sret x)" "primary (\<lambda>t. Inl p)"
  by (simp_all add: primary_def triple_ret triple_panic)

lemma primary_bind [intro]: "primary m \<Longrightarrow> (\<And>x. primary (f x)) \<Longrightarrow> primary (sbind m f)"
  unfolding primary_def by (metis triple_bind)

lemma primary_endpoint [simp]: "primary (liftEndpoint r f)" "primary (onEp r g)"
  by (auto simp: primary_def onEp_def triple_def liftEndpoint_def primaryOnly_def txConn_def setConn_def split: prod.splits)

lemma primary_write [simp]:
  "s = PconnV4 \<or> s = PconnV6 \<Longrightarrow> primary (writeBatch e s addr buffs offset)"
  "s = PconnV4 \<or> s = PconnV6 \<Longrightarrow> primary (writePacket e s a b)"
  by (auto simp: primary_def triple_def writeBatch_def writePacket_def primaryOnly_def txConn_def Let_def split: if_splits)

lemma primary_rebind [simp]: "primary (maybeRebindOnError e err)"
proof -
  have "pmActiveBackup (coSourceProbes (txConn (Rebind e (t\<lparr>txLastErrRebind := z\<rparr>)))) = None"
    if "pmActiveBackup (coSourceProbes (txConn t)) = None" for t z
    using that by (intro rebind_backup) (simp add: txConn_def)
  moreover have "txConn (t\<lparr>txDerpActs := ds\<rparr>) = txConn t" for t ds by (simp add: txConn_def)
  ultimately show ?thesis
    by (auto simp: primary_def triple_def maybeRebindOnError_def primaryOnly_def Let_def split: option.splits if_splits)
qed

lemma primary_batch [simp]: "primary (sendUDPBatch e addr buffs offset)"
  unfolding sendUDPBatch_def by (auto intro!: primary_bind split: option.split)

lemma primary_bad [simp]: "primary (noteBad r a err)"
  by (simp add: noteBad_def split: option.split)

lemma primary_addr [simp]: "primary (sendAddr e a pk b isDisco)"
proof -
  have "primary (sendUDPStd e a b)" unfolding sendUDPStd_def by (auto intro!: primary_bind)
  then have "primary (sendUDP e a b)" unfolding sendUDP_def by (auto intro!: primary_bind split: option.split)
  moreover have "primary (\<lambda>t. case sendDerp (snWire e) (wallNow e 0 t) (snOthers e) (snDonec e) a pk b isDisco (txWire t) of
              (((sent, err), w), acts) \<Rightarrow>
                Inr ((sent, map_option PlainErr err), t\<lparr>txWire := w, txDerpActs := txDerpActs t @ acts\<rparr>))"
    using sendDerp_conn by (auto simp: primary_def triple_def primaryOnly_def txConn_def split: prod.splits) (metis fst_conv snd_conv)
  ultimately show ?thesis unfolding sendAddr_def by simp
qed

lemma primary_derp [simp]: "primary (sendAllDerp e a pk offset bs)"
  by (induction e a pk offset bs rule: sendAllDerp.induct) (auto intro!: primary_bind)

lemma primary_toUDP:
  assumes "sourcePathActiveBackupEnabled (seKnobs (snSrc e))"
  shows "primary (sendToUDP e r transport addr now buffs offset)"
proof -
  have off: "\<not> sourcePathDualSendEnabled (seKnobs (snSrc e))" "\<not> sourcePathSingleSourceStrategyEnabled (seKnobs (snSrc e))"
    using assms
    by (auto simp: sourcePathDualSendEnabled_def sourcePathSingleSourceStrategyEnabled_def sourcePathActiveBackupEnabled_def strategy_names)
  have same: "setConn (txConn t) t = t" for t by (simp add: setConn_def txConn_def)
  have "liftConn (sourcePathActiveBackupCandidate (snSrc e) addr now) t = Inr (None, t)"
    if "pmActiveBackup (coSourceProbes (txConn t)) = None" for t
    using that by (simp add: liftConn_def sourcePathActiveBackupCandidate_def backupOf_def same)
  then have none: "triple (primaryOnly L) (liftConn (sourcePathActiveBackupCandidate (snSrc e) addr now)) (\<lambda>x t. x = None \<and> primaryOnly L t)" for L
    by (auto simp: triple_def primaryOnly_def)
  have dual: "triple (primaryOnly L) (\<lambda>t. liftConn (sourcePathDualSendCandidate (snSrc e) addr (monoNow e 4 t)) t) (\<lambda>x t. x = None \<and> primaryOnly L t)" for L
    using off by (auto simp: triple_def liftConn_def sourcePathDualSendCandidate_def same)
  have "liftPanic (\<lambda>c. map_sum id (\<lambda>c'. ((), c')) (noteSourcePathPrimarySendSuccess (snSrc e) addr c)) t = Inr ((), t)"
    if "pmActiveBackup (coSourceProbes (txConn t)) = None" for t
    using that by (simp add: liftPanic_def noteSourcePathPrimarySendSuccess_def backupOf_def same)
  then have "primary (liftPanic (\<lambda>c. map_sum id (\<lambda>c'. ((), c')) (noteSourcePathPrimarySendSuccess (snSrc e) addr c)))"
    by (auto simp: primary_def triple_def primaryOnly_def)
  then have plain: "primary (sbind (sendUDPBatch e addr buffs offset) (\<lambda>(_, err).
               sbind (if err = None then liftPanic (\<lambda>c. map_sum id (\<lambda>c'. ((), c')) (noteSourcePathPrimarySendSuccess (snSrc e) addr c))
                      else noteBad r addr err) (\<lambda>_.
               sret (err, [], singleReason e addr ''no-redundant-path''))))"
    by (auto intro!: primary_bind)
  show ?thesis unfolding primary_def sendToUDP_def
    apply (intro allI, rule triple_bind_value [OF none])
    apply (simp only: if_cancel option.case, rule triple_bind_value [OF dual])
    using plain off by (simp only: if_cancel option.case simp_thms if_False primary_def) blast
qed

lemma primary_send:
  assumes "sourcePathActiveBackupEnabled (seKnobs (snSrc e))"
  shows "primary (send e r buffs offset)"
proof -
  have off: "\<not> sourcePathDualSendEnabled (seKnobs (snSrc e))" "\<not> sourcePathDualEndpointStrategyEnabled (seKnobs (snSrc e))"
    using assms
    by (auto simp: sourcePathDualSendEnabled_def sourcePathDualEndpointStrategyEnabled_def sourcePathActiveBackupEnabled_def strategy_names)
  have paths: "choosePaths e r now pl = sret (pl, [])" for now pl using off by (simp add: choosePaths_def)
  have dual: "plDualEndpointAddrs (fst (fst (planSend e transport now now2 wnow de))) = []" for transport now now2 wnow de
    using off by (auto simp: planSend_def chooseAddrs_def Let_def split: prod.split)
  have plan: "triple (primaryOnly L) (liftEndpoint r (planSend e transport now now2 wnow)) (\<lambda>pl t. plDualEndpointAddrs pl = [] \<and> primaryOnly L t)"
    for L transport now now2 wnow
  proof -
    have "liftEndpoint r (planSend e transport now now2 wnow) t = Inr (pl, t') \<Longrightarrow> plDualEndpointAddrs pl = []" for t pl t'
      using dual [of transport now now2 wnow "coEps (txConn t) ! r"] by (auto simp: liftEndpoint_def split: prod.splits)
    with primary_endpoint(1) [of r "planSend e transport now now2 wnow"] show ?thesis by (auto simp: primary_def triple_def)
  qed
  have data: "primary (sendData e r transport pl [] now buffs offset)" if "plDualEndpointAddrs pl = []" for transport pl now
    using that primary_toUDP [OF assms] unfolding sendData_def by (auto intro!: primary_bind)
  have tail: "primary (sbind (sendData e r transport pl [] now buffs offset) (\<lambda>(err, mode, reason).
      sbind (onEp r (noteSourcePathDualSendAvailability now mode reason (int (length buffs)))) (\<lambda>_.
      if apIsValid d then sbind (sendAllDerp e d pk offset buffs) (\<lambda>allOk. sret (if allOk then None else err)) else sret err)))"
    if "plDualEndpointAddrs pl = []" for transport pl now d pk
    using data [OF that] by (auto intro!: primary_bind)
  have "primaryOnly L t'" if p: "primaryOnly L t" and r: "send e r buffs offset t = Inr (err, t')" for L t err t'
  proof (cases "deExpired (coEps (txConn t) ! r)")
    case False
    note s = r [unfolded send_def Let_def, simplified False if_False]
    obtain pl t1 where l: "liftEndpoint r (planSend e (wireGuardBatchIsTransport (seTransportType (snSrc e)) buffs offset) (monoNow e 0 t) (monoNow e 1 t) (wallNow e 0 t)) t = Inr (pl, t1)"
      using sbind_InrD [OF s] by blast
    have pl: "plDualEndpointAddrs pl = []" "primaryOnly L t1" using plan l p unfolding triple_def by blast+
    show ?thesis
      using s [unfolded sbind_Inr [where m = "liftEndpoint r (planSend e (wireGuardBatchIsTransport (seTransportType (snSrc e)) buffs offset) (monoNow e 0 t) (monoNow e 1 t) (wallNow e 0 t))" and t = t, OF l]
          paths sbind_Inr [where m = "sret (pl, [])" and t = t1, OF sret_def] prod.case]
        tail [OF pl(1)] pl(2) by (auto simp: primary_def triple_def split: if_splits)
  qed (use p r in \<open>simp add: send_def\<close>)
  then show ?thesis by (simp add: primary_def triple_def)
qed

text \<open>
  C38. Active backup never engages. With the active-backup strategy on and no failover recorded, whatever
  fails: every write of \<open>endpoint.send\<close> goes to a primary socket and no failover is recorded, so by
  induction none ever is. The failures of the primary socket are only counted in the branches of the other
  strategies, for which \<open>noteSourcePathPrimarySendFailure\<close> does nothing.
\<close>

theorem active_backup_never_engages:
  assumes "sourcePathActiveBackupEnabled (seKnobs (snSrc e))" "pmActiveBackup (coSourceProbes (txConn t)) = None"
    "send e r buffs offset t = Inr (err, t')"
  shows "pmActiveBackup (coSourceProbes (txConn t')) = None
    \<and> (\<exists>ws. txLog t' = txLog t @ ws \<and> (\<forall>w\<in>set ws. swSocket w = PconnV4 \<or> swSocket w = PconnV6))"
proof -
  have "primaryOnly (txLog t) t" using assms(2) by (auto simp: primaryOnly_def)
  with primary_send [OF assms(1)] assms(3) have "primaryOnly (txLog t) t'" unfolding primary_def triple_def by blast
  then show ?thesis by (simp add: primaryOnly_def)
qed

theorem active_backup_never_engages_witness:
  "\<exists>x t'. send (exSendEnv exBackup (\<lambda>n. Some (PlainErr ''fail''))) 0 exBatch 8 exIdle = Inr (Some x, t')
     \<and> pmActiveBackup (coSourceProbes (txConn t')) = None"
proof -
  let ?e = "exSendEnv exBackup (\<lambda>n. Some (PlainErr ''fail''))"
  let ?r = "send ?e 0 exBatch 8 exIdle"
  have "map_sum (\<lambda>_. ()) (\<lambda>r. fst r \<noteq> None) ?r = Inr True" by code_simp
  then obtain x t' where r: "?r = Inr (Some x, t')" by (cases ?r) auto
  have "sourcePathActiveBackupEnabled (seKnobs (snSrc ?e))" "pmActiveBackup (coSourceProbes (txConn exIdle)) = None" by code_simp+
  from active_backup_never_engages [OF this r] r show ?thesis by blast
qed

end
