(* ===== verification/Send_Redundant.thy ===== *)
theory Send_Redundant
  imports Send_Outcome
begin

text \<open>
  Redundant sending over the active pair of paths: the ranking, the active-path policy and the two writes
  composed.
\<close>

section \<open>A copy on one path\<close>

definition socketOf :: "sourcePathSendPath \<Rightarrow> udpSocket" where
  "socketOf p = (if isPrimary (pSource p) then if is4 (apAddr (ap (pDst p))) then PconnV4 else PconnV6 else AuxSocket (pSource p))"

definition copyOf :: "u8 list list \<Rightarrow> sourcePathSendPath \<Rightarrow> socketWrite" where
  "copyOf buffs p = \<lparr>swSocket = socketOf p, swAddr = pDst p, swBuffs = buffs, swResult = None\<rparr>"

lemma direct_family: "isDirect dst \<Longrightarrow> is4 (apAddr (ap dst)) \<or> is6 (apAddr (ap dst))"
  by (cases "apAddr (ap dst)") (auto simp: isDirect_def apIsValid_def addrIsValid_def)

lemma send_from_path:
  assumes "isDirect (pDst p)" "usableSource (snSrc e) (pDst p) (txConn t) (pSource p)" "snWrite e (length (txLog t)) = None"
    "offset = int GeneveFixedHeaderLength"
  shows "sendUDPBatchFromSource e (pSource p) (pDst p) buffs offset t = Inr ((True, None), t\<lparr>txLog := txLog t @ [copyOf buffs p]\<rparr>)"
proof (cases "isPrimary (pSource p)")
  case True
  then show ?thesis using assms direct_family [OF assms(1)]
    by (auto simp: sendUDPBatchFromSource_def sendUDPBatch_def writeBatch_def sbind_def sret_def copyOf_def socketOf_def)
next
  case False
  then obtain sock where "pickSocket (is4 (apAddr (ap (pDst p)))) (pSource p) (coSourcePath (txConn t)) = Some sock" "rxMeta sock = pSource p"
    using usable_picks [OF assms(2)] by blast
  then show ?thesis using assms False
    by (simp add: sendUDPBatchFromSource_def writeAux_def sourcePathWriteWireGuardBatchTo_def writeBatch_def sbind_def sret_def copyOf_def socketOf_def)
qed

lemma send_path:
  assumes "isDirect (pDst p)" "usableSource (snSrc e) (pDst p) (txConn t) (pSource p)" "snWrite e (length (txLog t)) = None"
    "offset = int GeneveFixedHeaderLength" "sourcePathDualSendEnabled (seKnobs (snSrc e))"
  obtains t' where "sendPath e buffs offset p t = Inr ((True, None), t')" "txLog t' = txLog t @ [copyOf buffs p]" "sameRest (txConn t) (txConn t')"
proof -
  let ?t = "t\<lparr>txLog := txLog t @ [copyOf buffs p]\<rparr>"
  have off: "\<not> sourcePathActiveBackupEnabled (seKnobs (snSrc e))"
    using assms(5) by (auto simp: sourcePathDualSendEnabled_def sourcePathActiveBackupEnabled_def strategy_names)
  have conn: "txConn ?t = txConn t" by (simp add: txConn_def)
  have "\<exists>t'. (if isPrimary (pSource p) then notePrimary e (pDst p) None else noteAux e (pDst p) (pSource p) None) ?t = Inr ((), t')
      \<and> txLog t' = txLog ?t \<and> sameRest (txConn ?t) (txConn t')"
    using off
    by (simp add: notePrimary_def noteAux_def liftPanic_def liftConn_def noteSourcePathPrimarySendSuccess_def
        noteSourcePathDualSendAuxSuccess_def Let_def setConn_def txConn_def)
  then obtain t' where t': "(if isPrimary (pSource p) then notePrimary e (pDst p) None else noteAux e (pDst p) (pSource p) None) ?t = Inr ((), t')"
    "txLog t' = txLog ?t" "sameRest (txConn ?t) (txConn t')" by blast
  show ?thesis
  proof (rule that)
    show "sendPath e buffs offset p t = Inr ((True, None), t')"
      using t'(1) by (simp add: sendPath_def sbind_def send_from_path [OF assms(1-4)] sret_def split del: if_split)
  qed (use t' conn in simp_all)
qed

section \<open>The two copies\<close>

lemma choosePaths_pair:
  assumes "choosePaths e r now pl t = Inr ((pl', paths), t1)" "2 \<le> length paths"
    and "poolInv (coSourcePath (txConn t))" "\<forall>sm\<in>set (pmSamples (coSourceProbes (txConn t))). clock (smAt sm)"
    and "distinct (map dsDst (plDstCandidates pl))"
    and "activeInv (deActive (coEps (txConn t) ! r))" "0 \<le> acPromoteBudget (deActive (coEps (txConn t) ! r))"
  obtains x y where "paths = [x, y]" "pathId x \<noteq> pathId y" "txLog t1 = txLog t" "sourcePathDualSendEnabled (seKnobs (snSrc e))"
    "\<forall>p\<in>{x, y}. pDst p \<in> dsDst ` set (plDstCandidates pl) \<and> isDirect (pDst p) \<and> usableSource (snSrc e) (pDst p) (txConn t1) (pSource p)
       \<and> (isPrimary (pSource p) \<longrightarrow> pSource p = primarySourceRxMeta)"
proof -
  obtain ranked c where rk: "sourcePathRankedDualSendPaths (snSrc e) (plDstCandidates pl) now (txConn t) = (ranked, c)" by fastforce
  note ok = ranked_ok [OF assms(3-5) rk]
  have same: "sameRest (txConn t) c" using ok by blast
  let ?de = "coEps c ! r"
  obtain out ev st where pol: "sourcePathApplyActivePathPolicyLocked now ranked (deActive ?de) = (out, ev, st)" by (metis prod.exhaust)
  have on: "sourcePathDualSendEnabled (seKnobs (snSrc e))" "2 \<le> length ranked" "paths = out"
    "t1 = (setConn (c\<lparr>coEps := (coEps c)[r := ?de\<lparr>deActive := st\<rparr>]\<rparr>) (setConn c t))\<lparr>txActs := txActs t\<rparr>"
    using assms(1,2)
    by (auto simp: choosePaths_def liftConn_def rk [unfolded txConn_def] liftEndpoint_def pol sbind_def sret_def txConn_def setConn_def split: if_splits)
  have "policyOk now ranked (deActive ?de) (out, ev, st)"
    using policy_ok [of "deActive ?de" ranked now] ok assms(6,7) on(2) sameRest_fields(2) [OF same] pol by (simp add: rankedOk_card) (simp add: rankedOk_def)
  then obtain x y where xy: "out = [x, y]" "x \<in> set ranked" "y \<in> set ranked" "pathId x \<noteq> pathId y" by (auto simp: policyOk_def)
  have u: "usableSource (snSrc e) d (txConn t1) = usableSource (snSrc e) d c" for d
    by (simp add: fun_eq_iff on(4) usableSource_def probeSources_def txConn_def setConn_def)
  have l: "txLog t1 = txLog t" by (simp add: on(4) setConn_def)
  show ?thesis by (rule that [OF _ xy(4) l on(1)]) (use xy on ok u in auto)
qed

text \<open>
  C4. Redundant copies take different paths. When a batch is sent over the active pair and the writes
  succeed, it is written exactly twice: both copies carry the whole batch, both go to candidate
  destinations, each from the socket its path names, and no two copies go to the same address from the
  same socket. The ranking, the active-path policy and the socket lookup fit together.
\<close>

theorem redundant_copies_differ:
  assumes "choosePaths e r now pl t = Inr ((pl', paths), t1)" "2 \<le> length paths"
    and "poolInv (coSourcePath (txConn t))" "\<forall>sm\<in>set (pmSamples (coSourceProbes (txConn t))). clock (smAt sm)"
    and "distinct (map dsDst (plDstCandidates pl))"
    and "activeInv (deActive (coEps (txConn t) ! r))" "0 \<le> acPromoteBudget (deActive (coEps (txConn t) ! r))"
    and "\<forall>n. snWrite e n = None" "offset = int GeneveFixedHeaderLength"
  shows "\<exists>t2 w1 w2. sendUDPBatchDualSourcePath e paths buffs offset t1 = Inr ((None, [None, None]), t2)
     \<and> txLog t2 = txLog t @ [w1, w2] \<and> (swSocket w1, swAddr w1) \<noteq> (swSocket w2, swAddr w2)
     \<and> (\<forall>w\<in>{w1, w2}. swBuffs w = buffs \<and> swAddr w \<in> dsDst ` set (plDstCandidates pl)
          \<and> (\<exists>p\<in>set paths. swAddr w = pDst p \<and> swSocket w = socketOf p))"
proof -
  obtain x y where xy: "paths = [x, y]" "pathId x \<noteq> pathId y" "txLog t1 = txLog t" "sourcePathDualSendEnabled (seKnobs (snSrc e))"
    and ok: "\<forall>p\<in>{x, y}. pDst p \<in> dsDst ` set (plDstCandidates pl) \<and> isDirect (pDst p) \<and> usableSource (snSrc e) (pDst p) (txConn t1) (pSource p)
       \<and> (isPrimary (pSource p) \<longrightarrow> pSource p = primarySourceRxMeta)"
    by (rule choosePaths_pair [OF assms(1-7)])
  have none: "snWrite e n = None" for n using assms(8) by simp
  obtain ta where a: "sendPath e buffs offset x t1 = Inr ((True, None), ta)" "txLog ta = txLog t1 @ [copyOf buffs x]" "sameRest (txConn t1) (txConn ta)"
    using send_path [of x e t1 offset buffs] ok none assms(9) xy(4) by blast
  obtain tb where b: "sendPath e buffs offset y ta = Inr ((True, None), tb)" "txLog tb = txLog ta @ [copyOf buffs y]"
    using send_path [of y e ta offset buffs] ok none assms(9) xy(4) usable_rest [OF a(3)] by (metis insertCI)
  have "(socketOf x, pDst x) \<noteq> (socketOf y, pDst y)"
    using xy(2) ok by (auto simp: socketOf_def pathId_def split: if_splits)
  moreover have "sendUDPBatchDualSourcePath e paths buffs offset t1 = Inr ((None, [None, None]), tb)"
    by (simp add: xy(1) sendUDPBatchDualSourcePath_def sbind_def sret_def a(1) b(1) numeral_2_eq_2)
  ultimately show ?thesis using a(2) b(2) xy(1,3) ok
    by (intro exI [of _ tb] exI [of _ "copyOf buffs x"] exI [of _ "copyOf buffs y"]) (auto simp: copyOf_def)
qed

definition exPlan :: sendPlan where
  "exPlan = \<lparr>plDualEndpointAddrs = [], plObservedEndpointAddrs = [], plDstCandidates = exCandidates, plUdpAddr = exDst, plDerpAddr = zeroAddrPort\<rparr>"

theorem redundant_copies_differ_witness:
  "\<exists>pl' paths t1 t2. choosePaths (exSendEnv (exSrcEnv defaultEnv) (\<lambda>n. None)) 0 30 exPlan exIdle = Inr ((pl', paths), t1)
     \<and> sendUDPBatchDualSourcePath (exSendEnv (exSrcEnv defaultEnv) (\<lambda>n. None)) paths exBatch 8 t1 = Inr ((None, [None, None]), t2)
     \<and> length (txLog t2) = 2"
proof -
  let ?e = "exSendEnv (exSrcEnv defaultEnv) (\<lambda>n. None)"
  let ?r = "choosePaths ?e 0 30 exPlan exIdle"
  have "map_sum (\<lambda>_. ()) (\<lambda>r. length (snd (fst r))) ?r = Inr 2" by code_simp
  then obtain pl' paths t1 where r: "?r = Inr ((pl', paths), t1)" and two: "2 \<le> length paths" by (cases ?r) auto
  have c: "coSourcePath (txConn exIdle) = exSockets" "pmSamples (coSourceProbes (txConn exIdle)) = []" "txLog exIdle = []"
    by (simp_all add: exIdle_def txConn_def exBound_def emptyManager_def)
  have d: "distinct (map dsDst (plDstCandidates exPlan))" "acCount (deActive (coEps (txConn exIdle) ! 0)) = 0"
    "acPromoteBudget (deActive (coEps (txConn exIdle) ! 0)) = 0" "length (acPaths (deActive (coEps (txConn exIdle) ! 0))) = 2" by code_simp+
  have "activeInv (deActive (coEps (txConn exIdle) ! 0))" using d(2,4) by (auto simp: activeInv_def numeral_2_eq_2 length_Suc_conv)
  moreover have "\<forall>n. snWrite ?e n = None" by (simp add: exSendEnv_def)
  moreover have "8 = int GeneveFixedHeaderLength" by code_simp
  ultimately show ?thesis
    using redundant_copies_differ [OF r two _ _ d(1), of 8 exBatch] exSockets_inv d r by (auto simp: c)
qed

end
