(* ===== verification/Conn_Receive.thy ===== *)
theory Conn_Receive
  imports Conn_Send
begin

text \<open>
  Receiving (\<open>src/wgengine/magicsock/magicsock.go\<close> and \<open>derp.go\<close>): the receive functions handed to
  wireguard-go, with the one-element cache from source address to endpoint, and what wireguard-go tells
  about the peer behind a packet once it has decrypted it.
\<close>

section \<open>One packet from a socket\<close>

text \<open>The environment of the disco handlers; whether \<open>NoteRecvActivity\<close> is set; the choice of the entry
  evicted from the cache of wrapped endpoints; \<open>device.MessageInitiationSize\<close> and \<open>MessageInitiationType\<close> of
  wireguard-go.\<close>

record rxEnv =
  rvDisco :: discoRx
  rvHook :: bool
  rvPick :: nat
  rvInitiationSize :: nat
  rvInitiationType :: u32

record epAddrEndpointCache =
  ecEpAddr :: epAddr
  ecGen :: int
  ecDe :: "epRef option"

definition emptyCache :: epAddrEndpointCache where
  "emptyCache = \<lparr>ecEpAddr = zeroEpAddr, ecGen = 0, ecDe = None\<rparr>"

definition looksLikeInitiationMsg :: "rxEnv \<Rightarrow> u8 list \<Rightarrow> bool" where
  "looksLikeInitiationMsg x b \<longleftrightarrow> length b = rvInitiationSize x \<and> leUint32 b = rvInitiationType x"

text \<open>The endpoint the cache answers for a source, if it does.\<close>

definition cacheHit :: "epAddrEndpointCache \<Rightarrow> epAddr \<Rightarrow> conn \<Rightarrow> epRef option" where
  "cacheHit cache src c = (case ecDe cache of
     None \<Rightarrow> None
   | Some r \<Rightarrow> if ecEpAddr cache = src \<and> ecGen cache = deNumStopAndReset (coEps c ! r) then Some r else None)"

text \<open>What is noted at the endpoint of a WireGuard packet: the remote slot, the wrapper, and the activity.
  Returns the endpoint to report and whether the activity was noted.\<close>

definition noteReceived :: "rxEnv \<Rightarrow> epRef \<Rightarrow> epAddr \<Rightarrow> sourceRxMeta \<Rightarrow> endpoint \<Rightarrow> (connEndpoint \<times> bool) \<times> endpoint" where
  "noteReceived x r src meta de =
     (let now = dxNow (rvDisco x);
          (_, de1) = classifySourcePathRemoteSlot now (dxWall (rvDisco x)) src de;
          (retEP, de2) = (if isDirect src
             then (case sourcePathPeerAwareEndpoint (rvPick x) src meta de1 of ((s, m), d) \<Rightarrow> (SourcePathPeerAwareEndpoint r s m, d))
             else (PeerEndpoint r, de1));
          (connNoted, de3) = noteRecvActivity (rvHook x) src now (de2\<lparr>deLastRecvUDPAny := now\<rparr>)
      in ((retEP, connNoted), de3))"

text \<open>What becomes of a packet: it is handled here, goes to the STUN client, or is reported to wireguard-go
  with its endpoint, its bytes and whether it was encapsulated.\<close>

datatype received = Consumed | STUNPacket "u8 list" addrPort | ToWireGuard connEndpoint "u8 list" bool

definition receiveWireGuard ::
    "rxEnv \<Rightarrow> u8 list \<Rightarrow> epAddr \<Rightarrow> bool \<Rightarrow> epAddrEndpointCache \<Rightarrow> sourceRxMeta \<Rightarrow> conn \<Rightarrow> (received \<times> epAddrEndpointCache) \<times> conn" where
  "receiveWireGuard x b0 src isGeneveEncap cache meta c =
     (if coPrivateKey c = zeroPrivateKey then ((Consumed, cache), c)
      else
        let b = (if vniIsSet (vni src) then drop GeneveFixedHeaderLength b0 else b0);
            found = (case cacheHit cache src c of
               Some r \<Rightarrow> Some (r, cache)
             | None \<Rightarrow> map_option (\<lambda>r. (r, \<lparr>ecEpAddr = src, ecGen = deNumStopAndReset (coEps c ! r), ecDe = Some r\<rparr>))
                         (endpointForEpAddr src (coPeerMap c)))
        in case found of
          None \<Rightarrow> ((ToWireGuard (LazyEndpoint None src meta) b isGeneveEncap, cache), c)
        | Some (r, cache') \<Rightarrow>
            (case noteReceived x r src meta (coEps c ! r) of ((retEP, connNoted), de) \<Rightarrow>
               ((ToWireGuard (if vniIsSet (vni src) \<and> (connNoted \<or> looksLikeInitiationMsg x b) then LazyEndpoint (Some r) src meta else retEP)
                   b isGeneveEncap, cache'), c\<lparr>coEps := (coEps c)[r := de]\<rparr>)))"

definition receiveIPWithSource ::
    "rxEnv \<Rightarrow> u8 list \<Rightarrow> addrPort \<Rightarrow> epAddrEndpointCache \<Rightarrow> sourceRxMeta \<Rightarrow> conn \<Rightarrow> ((received \<times> epAddrEndpointCache) \<times> conn) cstep" where
  "receiveIPWithSource x b ipp cache meta c =
     (case packetLooksLike b of (pt, isGeneveEncap) \<Rightarrow>
      case (if isGeneveEncap then geneveDecode zeroGeneveHeader b else Inr zeroGeneveHeader) of
        Inl _ \<Rightarrow> Inr (((Consumed, cache), c), [])
      | Inr geneve \<Rightarrow>
          let src = \<lparr>ap = ipp, vni = (if isGeneveEncap then ghVNI geneve else 0)\<rparr> in
          case pt of
            packetLooksLikeDisco \<Rightarrow>
              map_sum id (\<lambda>(c', acts). (((Consumed, cache), c'), acts))
                (handleDiscoMessageWithSource (rvDisco x) (if isGeneveEncap then drop GeneveFixedHeaderLength b else b) src (ghControl geneve) zeroNodeKey meta c)
          | packetLooksLikeSTUNBinding \<Rightarrow> Inr (((STUNPacket b ipp, cache), c), [])
          | packetLooksLikeWireGuard \<Rightarrow> Inr (receiveWireGuard x b src isGeneveEncap cache meta c, []))"

definition receiveIP :: "rxEnv \<Rightarrow> u8 list \<Rightarrow> addrPort \<Rightarrow> epAddrEndpointCache \<Rightarrow> conn \<Rightarrow> ((received \<times> epAddrEndpointCache) \<times> conn) cstep" where
  "receiveIP x b ipp cache c = receiveIPWithSource x b ipp cache primarySourceRxMeta c"

section \<open>The receive functions\<close>

text \<open>The messages of one batch. An entry that is not reported has no size; an empty message is skipped.\<close>

fun receiveBatch ::
    "rxEnv \<Rightarrow> sourceRxMeta \<Rightarrow> (u8 list \<times> addrPort) list \<Rightarrow> epAddrEndpointCache \<Rightarrow> conn
      \<Rightarrow> (((connEndpoint \<times> u8 list) option list \<times> epAddrEndpointCache) \<times> conn) cstep" where
  "receiveBatch x meta [] cache c = Inr ((([], cache), c), [])"
| "receiveBatch x meta ((b, ipp) # ms) cache c =
     (if b = []
      then map_sum id (\<lambda>(((rs, cache'), c'), acts). (((None # rs, cache'), c'), acts)) (receiveBatch x meta ms cache c)
      else case receiveIPWithSource x b ipp cache meta c of
        Inl p \<Rightarrow> Inl p
      | Inr (((res, cache1), c1), acts1) \<Rightarrow>
          map_sum id (\<lambda>(((rs, cache2), c2), acts2).
              ((((case res of ToWireGuard ep b' _ \<Rightarrow> Some (ep, b') | _ \<Rightarrow> None) # rs, cache2), c2), acts1 @ acts2))
            (receiveBatch x meta ms cache1 c1))"

text \<open>
  The function \<open>mkReceiveFuncWithSource\<close> returns, as a run over the answers of \<open>ReadBatch\<close>: a batch of messages
  or an error. None: no answer was left, the function still waits. \<open>truncated\<close> is
  \<open>neterror.PacketWasTruncated\<close>. The cache belongs to the function and survives its calls.
\<close>

fun receiveFunc ::
    "rxEnv \<Rightarrow> (netErr \<Rightarrow> bool) \<Rightarrow> sourceRxMeta \<Rightarrow> (netErr + (u8 list \<times> addrPort) list) list \<Rightarrow> epAddrEndpointCache \<Rightarrow> conn
      \<Rightarrow> (panic + (((netErr + (connEndpoint \<times> u8 list) option list) \<times> epAddrEndpointCache) \<times> conn) \<times> connAction list) option" where
  "receiveFunc x truncated meta [] cache c = None"
| "receiveFunc x truncated meta (Inl err # reads) cache c =
     (if truncated err then receiveFunc x truncated meta reads cache c else Some (Inr (((Inl err, cache), c), [])))"
| "receiveFunc x truncated meta (Inr ms # reads) cache c =
     (case receiveBatch x meta ms cache c of
        Inl p \<Rightarrow> Some (Inl p)
      | Inr (((rs, cache'), c'), acts) \<Rightarrow>
          if list_ex (\<lambda>r. r \<noteq> None) rs then Some (Inr (((Inr rs, cache'), c'), acts))
          else map_option (map_sum id (\<lambda>(y, acts'). (y, acts @ acts'))) (receiveFunc x truncated meta reads cache' c'))"

section \<open>What wireguard-go tells\<close>

definition noteAccepted :: "rxEnv \<Rightarrow> epAddr \<Rightarrow> epRef \<Rightarrow> conn \<Rightarrow> conn" where
  "noteAccepted x src r c =
     c\<lparr>coEps := (coEps c)[r := snd (classifySourcePathRemoteSlot (dxNow (rvDisco x)) (dxWall (rvDisco x)) src (coEps c ! r))]\<rparr>"

text \<open>\<open>FromPeer\<close> of the two kinds of endpoints that ask for it: the packet was decrypted with the key of this
  peer.\<close>

definition fromPeerWrapped :: "rxEnv \<Rightarrow> nodeKey \<Rightarrow> epRef \<Rightarrow> epAddr \<Rightarrow> conn \<Rightarrow> conn" where
  "fromPeerWrapped x pubKey r src c =
     (if pubKey \<noteq> dePublicKey (coEps c ! r)
      then (case endpointForNodeKey pubKey (coPeerMap c) of
              None \<Rightarrow> c
            | Some actualEP \<Rightarrow> noteAccepted x src actualEP (c\<lparr>coPeerMap := setNodeKeyForEpAddr (coEps c) src pubKey (coPeerMap c)\<rparr>))
      else noteAccepted x src r c)"

definition fromPeerLazy :: "rxEnv \<Rightarrow> nodeKey \<Rightarrow> epRef option \<Rightarrow> epAddr \<Rightarrow> conn \<Rightarrow> conn" where
  "fromPeerLazy x pubKey maybeEP src c =
     (if maybeEP \<noteq> None \<and> pubKey = dePublicKey (coEps c ! the maybeEP) then noteAccepted x src (the maybeEP) c
      else case endpointForNodeKey pubKey (coPeerMap c) of
        None \<Rightarrow> c
      | Some ep \<Rightarrow> let c1 = noteAccepted x src ep c
                  in c1\<lparr>coPeerMap := setNodeKeyForEpAddr (coEps c1) src pubKey (coPeerMap c1)\<rparr>)"

definition FromPeer :: "rxEnv \<Rightarrow> nodeKey \<Rightarrow> connEndpoint \<Rightarrow> conn \<Rightarrow> conn" where
  "FromPeer x pubKey ep c = (case ep of
     SourcePathPeerAwareEndpoint r src _ \<Rightarrow> fromPeerWrapped x pubKey r src c
   | LazyEndpoint maybeEP src _ \<Rightarrow> fromPeerLazy x pubKey maybeEP src c
   | _ \<Rightarrow> c)"

definition InitiationMessagePublicKey :: "rxEnv \<Rightarrow> nodeKey \<Rightarrow> connEndpoint \<Rightarrow> conn \<Rightarrow> conn" where
  "InitiationMessagePublicKey x pubKey le c = (case le of
     LazyEndpoint maybeEP src _ \<Rightarrow>
       if maybeEP \<noteq> None \<and> pubKey = dePublicKey (coEps c ! the maybeEP) then c
       else (case endpointForNodeKey pubKey (coPeerMap c) of
         None \<Rightarrow> c
       | Some r \<Rightarrow> c\<lparr>coEps := (coEps c)[r := snd (noteRecvActivity (rvHook x) src (dxNow (rvDisco x)) ((coEps c ! r)\<lparr>deLastRecvUDPAny := dxNow (rvDisco x)\<rparr>))]\<rparr>)
   | _ \<Rightarrow> c)"

section \<open>DERP\<close>

text \<open>\<open>dm\<close> is None for the result without \<open>copyBuf\<close> that wakes the receiver up; \<open>onDERPRecv\<close> is the hook
  of that name; \<open>bufLen\<close> the size of the buffer the packet is copied to. Returns the packet and its endpoint,
  if there is one to report.\<close>

definition processDERPReadResult ::
    "rxEnv \<Rightarrow> (int \<Rightarrow> nodeKey \<Rightarrow> u8 list \<Rightarrow> bool) option \<Rightarrow> nat \<Rightarrow> derpReadResult option \<Rightarrow> conn \<Rightarrow> ((u8 list \<times> epRef) option \<times> conn) cstep" where
  "processDERPReadResult x onDERPRecv bufLen dm c = (case dm of
     None \<Rightarrow> Inr ((None, c), [])
   | Some r \<Rightarrow>
       let n = rrN r; regionID = rrRegionID r; ncopy = min bufLen (length (rrData r)); b = take n (rrData r)
       in if ncopy \<noteq> n then Inr ((None, c), [])
       else
         let srcAddr = \<lparr>ap = \<lparr>apAddr = derpMagicIPAddr, apPort = word_of_int regionID\<rparr>, vni = 0\<rparr>
         in if packetLooksLike b = (packetLooksLikeDisco, False)
            then map_sum id (\<lambda>(c', acts). ((None, c'), acts))
                   (handleDiscoMessageWithSource (rvDisco x) b srcAddr False (rrSrc r) primarySourceRxMeta c)
            else if (case onDERPRecv of Some f \<Rightarrow> f regionID (rrSrc r) b | None \<Rightarrow> False) then Inr ((None, c), [])
            else case endpointForNodeKey (rrSrc r) (coPeerMap c) of
              None \<Rightarrow> Inr ((None, c), [])
            | Some e \<Rightarrow> Inr ((Some (b, e), c\<lparr>coEps := (coEps c)[e := snd (noteRecvActivity (rvHook x) srcAddr (dxNow (rvDisco x)) (coEps c ! e))]\<rparr>), []))"

text \<open>\<open>receiveDERP\<close> as a run over what arrives on the channel, each with whether the binding is closed then.
  None: the channel is empty, the function waits; \<open>Inl ()\<close> is \<open>net.ErrClosed\<close>. A packet of no bytes is not
  reported.\<close>

fun receiveDERP ::
    "rxEnv \<Rightarrow> (int \<Rightarrow> nodeKey \<Rightarrow> u8 list \<Rightarrow> bool) option \<Rightarrow> nat \<Rightarrow> (derpReadResult option \<times> bool) list \<Rightarrow> conn
      \<Rightarrow> (panic + ((unit + u8 list \<times> epRef) \<times> conn) \<times> connAction list) option" where
  "receiveDERP x hook bufLen [] c = None"
| "receiveDERP x hook bufLen ((dm, isClosed) # dms) c =
     (if isClosed then Some (Inr ((Inl (), c), []))
      else case processDERPReadResult x hook bufLen dm c of
        Inl p \<Rightarrow> Some (Inl p)
      | Inr ((Some (b, r), c'), acts) \<Rightarrow>
          if b \<noteq> [] then Some (Inr ((Inr (b, r), c'), acts))
          else map_option (map_sum id (\<lambda>(y, acts'). (y, acts @ acts'))) (receiveDERP x hook bufLen dms c')
      | Inr ((None, c'), acts) \<Rightarrow> map_option (map_sum id (\<lambda>(y, acts'). (y, acts @ acts'))) (receiveDERP x hook bufLen dms c'))"

section \<open>The cache\<close>

text \<open>The cache knows no stop of its endpoint that has not happened, and if it is still valid it agrees with the
  peer map.\<close>

definition cacheOk :: "epAddrEndpointCache \<Rightarrow> conn \<Rightarrow> bool" where
  "cacheOk cache c \<longleftrightarrow> (case ecDe cache of
     None \<Rightarrow> True
   | Some r \<Rightarrow> ecGen cache \<le> deNumStopAndReset (coEps c ! r)
       \<and> (ecGen cache = deNumStopAndReset (coEps c ! r) \<longrightarrow> endpointForEpAddr (ecEpAddr cache) (coPeerMap c) = Some r))"

lemma cacheOk_empty: "cacheOk emptyCache c"
  by (simp add: cacheOk_def emptyCache_def)

lemma cacheHit_empty [simp]: "cacheHit emptyCache src c = None"
  by (simp add: cacheHit_def emptyCache_def)

lemma cacheHit_map: "cacheOk cache c \<Longrightarrow> cacheHit cache src c = Some r \<Longrightarrow> endpointForEpAddr src (coPeerMap c) = Some r \<and> ecDe cache = Some r"
  by (auto simp: cacheOk_def cacheHit_def split: option.splits if_splits)

lemma noteReceived_num: "noteReceived x r src meta de = (res, de') \<Longrightarrow> deNumStopAndReset de' = deNumStopAndReset de"
proof -
  have slot: "deNumStopAndReset (snd (classifySourcePathRemoteSlot now wnow src d)) = deNumStopAndReset d" for now wnow d
    by (simp add: classifySourcePathRemoteSlot_def Let_def split: option.split)
  have wrap: "deNumStopAndReset (snd (sourcePathPeerAwareEndpoint pick src m d)) = deNumStopAndReset d" for pick m d
    by (simp add: sourcePathPeerAwareEndpoint_def Let_def)
  have act: "deNumStopAndReset (snd (noteRecvActivity h src now d)) = deNumStopAndReset d" for h now d
    by (simp add: noteRecvActivity_def Let_def)
  assume "noteReceived x r src meta de = (res, de')"
  then have "de' = snd (noteReceived x r src meta de)" by simp
  then show ?thesis by (simp add: noteReceived_def Let_def split_beta slot wrap act)
qed

text \<open>Without the cache.\<close>

lemma receiveWireGuard_uncached:
  assumes "cacheOk cache c"
  shows "(case receiveWireGuard x b src enc cache meta c of ((res, _), c') \<Rightarrow> (res, c'))
       = (case receiveWireGuard x b src enc emptyCache meta c of ((res, _), c') \<Rightarrow> (res, c'))"
    and "receiveWireGuard x b src enc cache meta c = ((res, cache'), c') \<Longrightarrow> cacheOk cache' c'"
proof -
  show "(case receiveWireGuard x b src enc cache meta c of ((res, _), c') \<Rightarrow> (res, c'))
       = (case receiveWireGuard x b src enc emptyCache meta c of ((res, _), c') \<Rightarrow> (res, c'))"
    using cacheHit_map [OF assms, of src] by (auto simp: receiveWireGuard_def Let_def split: option.split prod.split)
  have num: "deNumStopAndReset ((coEps c)[r := snd (noteReceived x r src meta (coEps c ! r))] ! q) = deNumStopAndReset (coEps c ! q)" for r q
    using noteReceived_num [of x r src meta "coEps c ! r"]
    by (cases "q = r \<and> r < length (coEps c)") (auto simp: nth_list_update list_update_beyond, metis prod.collapse)
  assume r: "receiveWireGuard x b src enc cache meta c = ((res, cache'), c')"
  let ?found = "case cacheHit cache src c of Some r \<Rightarrow> Some (r, cache)
     | None \<Rightarrow> map_option (\<lambda>r. (r, \<lparr>ecEpAddr = src, ecGen = deNumStopAndReset (coEps c ! r), ecDe = Some r\<rparr>)) (endpointForEpAddr src (coPeerMap c))"
  show "cacheOk cache' c'"
  proof (cases "coPrivateKey c = zeroPrivateKey \<or> ?found = None")
    case True
    then have "cache' = cache" "c' = c" using r by (auto simp: receiveWireGuard_def Let_def split: if_splits)
    with assms show ?thesis by simp
  next
    case False
    then obtain q k where f: "?found = Some (q, k)" by fastforce
    have c': "cache' = k" "c' = c\<lparr>coEps := (coEps c)[q := snd (noteReceived x q src meta (coEps c ! q))]\<rparr>"
      using r False f by (simp_all add: receiveWireGuard_def Let_def split_beta)
    have "cacheOk k c" using f assms by (auto simp: cacheOk_def split: option.splits)
    then show ?thesis using num [of q] by (simp add: c' cacheOk_def split: option.splits)
  qed
qed

text \<open>
  C9. The cache of a receive function changes nothing. As long as it agrees with the peer map, a packet
  is handled as a lookup in the peer map would have it handled: the same endpoint is reported, the same is
  noted, the same actions follow. Every packet but a disco frame leaves a cache that agrees.
\<close>

theorem receive_cache_equivalent:
  assumes "cacheOk cache c"
  shows "map_sum id (\<lambda>(((res, _), c'), acts). ((res, c'), acts)) (receiveIPWithSource x b ipp cache meta c)
       = map_sum id (\<lambda>(((res, _), c'), acts). ((res, c'), acts)) (receiveIPWithSource x b ipp emptyCache meta c)
    \<and> (\<forall>res cache' c' acts. receiveIPWithSource x b ipp cache meta c = Inr (((res, cache'), c'), acts)
         \<and> fst (packetLooksLike b) \<noteq> packetLooksLikeDisco \<longrightarrow> cacheOk cache' c')"
proof -
  obtain pt enc where pt: "packetLooksLike b = (pt, enc)" by fastforce
  show ?thesis
  proof (cases "if enc then geneveDecode zeroGeneveHeader b else Inr zeroGeneveHeader")
    case (Inl e)
    then show ?thesis using assms by (simp add: receiveIPWithSource_def pt)
  next
    case (Inr g)
    let ?src = "\<lparr>ap = ipp, vni = (if enc then ghVNI g else 0)\<rparr>"
    show ?thesis
    proof (cases pt)
      case packetLooksLikeWireGuard
      obtain res k c1 where r: "receiveWireGuard x b ?src enc cache meta c = ((res, k), c1)" by (metis prod.exhaust)
      obtain res2 k2 c2 where r2: "receiveWireGuard x b ?src enc emptyCache meta c = ((res2, k2), c2)" by (metis prod.exhaust)
      have "res = res2" "c1 = c2" using receiveWireGuard_uncached(1) [OF assms, of x b ?src enc meta] by (simp_all add: r r2)
      then show ?thesis using receiveWireGuard_uncached(2) [OF assms r] r r2
        by (simp add: receiveIPWithSource_def pt Inr packetLooksLikeWireGuard Let_def)
    next
      case packetLooksLikeSTUNBinding
      then show ?thesis using assms by (simp add: receiveIPWithSource_def pt Inr)
    next
      case packetLooksLikeDisco
      then show ?thesis by (simp add: receiveIPWithSource_def pt Inr Let_def sum.map_comp o_def split_beta)
    qed
  qed
qed

text \<open>The endpoint a reported packet is attributed to.\<close>

fun epOf :: "connEndpoint \<Rightarrow> epRef option" where
  "epOf (PeerEndpoint r) = Some r"
| "epOf (SourcePathPeerAwareEndpoint r _ _) = Some r"
| "epOf (LazyEndpoint m _ _) = m"
| "epOf OtherEndpoint = None"

lemma noteReceived_ep: "epOf (fst (fst (noteReceived x r src meta de))) = Some r"
  by (simp add: noteReceived_def Let_def split_beta)

lemma receiveWireGuard_ep:
  assumes "coPrivateKey c \<noteq> zeroPrivateKey"
  shows "\<exists>ep c' cache'. receiveWireGuard x b src enc cache meta c
       = ((ToWireGuard ep (if vniIsSet (vni src) then drop GeneveFixedHeaderLength b else b) enc, cache'), c')
     \<and> epOf ep = (case cacheHit cache src c of Some r \<Rightarrow> Some r | None \<Rightarrow> endpointForEpAddr src (coPeerMap c))
     \<and> (cacheHit cache src c \<noteq> None \<longrightarrow> cache' = cache)"
  using assms noteReceived_ep [of x _ src meta]
  by (auto simp: receiveWireGuard_def Let_def split_beta split: option.split)

lemma stop_num: "deNumStopAndReset (fst (stopAndReset cv wnow de)) = i64 (deNumStopAndReset de + 1)"
proof -
  have one: "deNumStopAndReset (fst (removeSentDiscoPingLocked cv wnow txid sp result d)) = deNumStopAndReset d" for txid sp result d
    by (simp add: removeSentDiscoPingLocked_def fst_andThen probeUDPLifetimeCliffDoneLocked_def
        scheduleHeartbeatForLifetimeLocked_def Let_def split: option.split maybeProbe.split)
  have "deNumStopAndReset (fst (foldl (\<lambda>s entry. andThen s (removeSentDiscoPingLocked cv wnow (fst entry) (snd entry) discoPingResultUnknown)) s es))
      = deNumStopAndReset (fst s)" for s es
    by (induction es arbitrary: s) (simp_all add: fst_andThen one)
  then have "deNumStopAndReset (fst (removeAllPings cv wnow d)) = deNumStopAndReset d" for d by (simp add: removeAllPings_def)
  then show ?thesis
    by (simp add: stopAndReset_def resetLocked_def fst_andThen Let_def clearBestAddrLocked_def setBestAddrLocked_def)
qed


text \<open>
  C37. A correction is not seen by the cache. When wireguard-go finds that a packet came from another peer
  than the one its address led to, the address leads to that peer from then on; but a receive function
  that has cached the address goes on attributing every WireGuard packet from it to the old endpoint, as
  long as that one is not stopped.
\<close>

theorem correction_not_seen_by_cache:
  assumes "connInv c" "cacheHit cache src c = Some r" "endpointForNodeKey pubKey (coPeerMap c) = Some r1"
    "pubKey \<noteq> dePublicKey (coEps c ! r)" "coPrivateKey c \<noteq> zeroPrivateKey"
  shows "r1 \<noteq> r \<and> endpointForEpAddr src (coPeerMap (FromPeer x pubKey (SourcePathPeerAwareEndpoint r src meta) c)) = Some r1
    \<and> (\<exists>ep b' c'. receiveWireGuard x b src enc cache meta' (FromPeer x pubKey (SourcePathPeerAwareEndpoint r src meta) c)
          = ((ToWireGuard ep b' enc, cache), c') \<and> epOf ep = Some r)"
proof -
  let ?c = "FromPeer x pubKey (SourcePathPeerAwareEndpoint r src meta) c"
  have inv: "peerInv (coEps c) (coPeerMap c)" using assms(1) by (simp add: connInv_def)
  obtain i where i: "gm_get (mpByNodeKey (coPeerMap c)) pubKey = Some i" "infoEp (coPeerMap c) i = r1"
    using assms(3) by (auto simp: endpointForNodeKey_def split: if_splits)
  have "r1 \<noteq> r" using keysInvD(3) [of "coEps c" "coPeerMap c"] inv i assms(4) by (auto simp: peerInv_def)
  have c: "?c = noteAccepted x src r1 (c\<lparr>coPeerMap := setNodeKeyForEpAddr (coEps c) src pubKey (coPeerMap c)\<rparr>)"
    using assms(3,4) by (simp add: FromPeer_def fromPeerWrapped_def)
  have m: "endpointForEpAddr src (coPeerMap ?c) = Some r1"
    by (simp add: c noteAccepted_def endpointForEpAddr_def setNodeKey_get [OF inv i(1)] i(2))
  have "deNumStopAndReset (snd (classifySourcePathRemoteSlot now wnow src d)) = deNumStopAndReset d" for now wnow d
    by (simp add: classifySourcePathRemoteSlot_def Let_def split: option.split)
  then have hit: "cacheHit cache src ?c = Some r"
    using assms(2) \<open>r1 \<noteq> r\<close> by (auto simp: cacheHit_def c noteAccepted_def split: option.splits if_splits)
  have k: "coPrivateKey ?c \<noteq> zeroPrivateKey" using assms(5) by (simp add: c noteAccepted_def)
  show ?thesis using receiveWireGuard_ep [OF k, of x b src enc cache meta'] hit m \<open>r1 \<noteq> r\<close> by auto
qed

section \<open>Packets arrive as they were sent\<close>


section \<open>Examples\<close>

text \<open>Two peers, of which the first has been verified at an address, and a cache that has seen it.\<close>

definition exTwoPeers :: conn where
  "exTwoPeers = (case UpsertPeer exEnv 5 (exView 8 10 False) exKeyed of Inr (c, _) \<Rightarrow> c | Inl _ \<Rightarrow> exKeyed)"

definition exVerified :: conn where
  "exVerified = exTwoPeers\<lparr>coPeerMap := setNodeKeyForEpAddr (coEps exTwoPeers) exSrc (replicate 32 9) (coPeerMap exTwoPeers)\<rparr>"

definition exCache :: epAddrEndpointCache where
  "exCache = \<lparr>ecEpAddr = exSrc, ecGen = 0, ecDe = Some 0\<rparr>"

definition exRxEnv :: rxEnv where
  "exRxEnv = \<lparr>rvDisco = exRx, rvHook = True, rvPick = 0, rvInitiationSize = 148, rvInitiationType = 1\<rparr>"

definition exTransport :: "u8 list" where
  "exTransport = [4, 0, 0, 0, 7, 7]"

lemma exVerified_run: "connRun exVerified"
proof -
  have "\<not> isl (UpsertPeer exEnv 5 (exView 8 10 False) exKeyed)" by code_simp
  then obtain c acts where u: "UpsertPeer exEnv 5 (exView 8 10 False) exKeyed = Inr (c, acts)"
    by (cases "UpsertPeer exEnv 5 (exView 8 10 False) exKeyed") auto
  then have "connRun exTwoPeers" using connRun.Step [OF exKeyed_run connStep.Upsert [OF u]] by (simp add: exTwoPeers_def)
  then show ?thesis unfolding exVerified_def using connRun.Step connStep.VerifiedAddress by blast
qed

lemma exVerified_facts:
  "endpointForEpAddr exSrc (coPeerMap exVerified) = Some 0" "deNumStopAndReset (coEps exVerified ! 0) = 0"
  "endpointForNodeKey (replicate 32 10) (coPeerMap exVerified) = Some 1" "dePublicKey (coEps exVerified ! 0) = replicate 32 9"
  "endpointForNodeKey (replicate 32 9) (coPeerMap exVerified) = Some 0" "coPrivateKey exVerified \<noteq> zeroPrivateKey"
  by code_simp+

lemma exCache_ok: "cacheOk exCache exVerified"
  by (simp add: cacheOk_def exCache_def exVerified_facts)

theorem receive_cache_equivalent_witness:
  "map_sum id (\<lambda>(((res, _), c'), acts). ((res, c'), acts)) (receiveIPWithSource exRxEnv exTransport (ap exSrc) exCache primarySourceRxMeta exVerified)
     = map_sum id (\<lambda>(((res, _), c'), acts). ((res, c'), acts)) (receiveIPWithSource exRxEnv exTransport (ap exSrc) emptyCache primarySourceRxMeta exVerified)
   \<and> cacheHit exCache exSrc exVerified = Some 0"
  using receive_cache_equivalent [OF exCache_ok, of exRxEnv exTransport "ap exSrc" primarySourceRxMeta]
  by (simp add: cacheHit_def exCache_def exVerified_facts)


theorem correction_not_seen_by_cache_witness:
  "endpointForEpAddr exSrc (coPeerMap (FromPeer exRxEnv (replicate 32 10) (SourcePathPeerAwareEndpoint 0 exSrc primarySourceRxMeta) exVerified)) = Some 1
   \<and> (\<exists>ep b' c'. receiveWireGuard exRxEnv exTransport exSrc False exCache primarySourceRxMeta
          (FromPeer exRxEnv (replicate 32 10) (SourcePathPeerAwareEndpoint 0 exSrc primarySourceRxMeta) exVerified)
        = ((ToWireGuard ep b' False, exCache), c') \<and> epOf ep = Some 0)"
proof -
  have "cacheHit exCache exSrc exVerified = Some 0" by (simp add: cacheHit_def exCache_def exVerified_facts)
  moreover have "replicate 32 10 \<noteq> (replicate 32 9 :: u8 list)" by (simp add: replicate_eq_replicate)
  ultimately show ?thesis
    using correction_not_seen_by_cache [OF connRun_inv [OF exVerified_run], of exCache exSrc 0 "replicate 32 10" 1] exVerified_facts by auto
qed


end
