(* ===== verification/Spec2Isabelle.thy ===== *)
theory Spec2Isabelle
  imports Conn_Disco Endpoint_Run Srcsel_Rank Send_Redundant Conn_Receive
begin

text \<open>
  Header.
\<close>

end
